(* ===== verification/Prelude.thy ===== *)
theory Prelude
  imports Main
begin

text \<open>
  The shared library: the loop combinators every scanner of the frontend is written
  with, their invariant rules, and generic list lemmas.

  A TypeScript loop \<open>for (let i = a; i < n; i++) { body }\<close> or
  \<open>while (i < n) { body }\<close> becomes \<open>loop n body a s\<close>: \<open>body i s\<close> returns the index the
  next round starts from and the new values of the mutable variables. A loop whose body
  may \<open>return\<close> becomes \<open>loop_ret\<close>: \<open>Inl r\<close> is the return, \<open>Inr (j, s)\<close> the next round.
  Both combinators take \<open>max (Suc i) j\<close> as the next index so that they are total; the
  locale \<open>advancing\<close> states that a body really moves forward, in which case the
  maximum is the identity, and every scanner of the model is an interpretation of it.
  The one-line loops \<open>while (i < n && c(i)) i += 1\<close> are \<open>advance c n i\<close>.
\<close>

named_theorems scan_simps \<open>exact unfolding of the scanning primitives\<close>

named_theorems scan_bounds \<open>bounds on the positions scanners return\<close>

section \<open>Loops\<close>

function advance :: "(nat \<Rightarrow> bool) \<Rightarrow> nat \<Rightarrow> nat \<Rightarrow> nat" where
  "advance c n i = (if i < n \<and> c i then advance c n (Suc i) else i)"
  by pat_completeness auto
termination
  by (relation "measure (\<lambda>(c, n, i). n - i)") auto

declare advance.simps [simp del]

function loop :: "nat \<Rightarrow> (nat \<Rightarrow> 's \<Rightarrow> nat \<times> 's) \<Rightarrow> nat \<Rightarrow> 's \<Rightarrow> nat \<times> 's" where
  "loop n body i s =
     (if i < n then (case body i s of (j, s') \<Rightarrow> loop n body (max (Suc i) j) s') else (i, s))"
  by pat_completeness auto
termination
  by (relation "measure (\<lambda>(n, body, i, s). n - i)") auto

declare loop.simps [simp del]

function loop_ret ::
  "nat \<Rightarrow> (nat \<Rightarrow> 's \<Rightarrow> 'r + (nat \<times> 's)) \<Rightarrow> nat \<Rightarrow> 's \<Rightarrow> 'r + (nat \<times> 's)" where
  "loop_ret n body i s =
     (if i < n then
        (case body i s of
           Inl r \<Rightarrow> Inl r
         | Inr p \<Rightarrow> loop_ret n body (max (Suc i) (fst p)) (snd p))
      else Inr (i, s))"
  by pat_completeness auto
termination
  by (relation "measure (\<lambda>(n, body, i, s). n - i)") auto

declare loop_ret.simps [simp del]

lemma advance_ge [simp, scan_bounds]: "i \<le> advance c n i"
proof (induction c n i rule: advance.induct)
  case (1 c n i)
  then show ?case by (subst advance.simps) (auto dest: Suc_leD)
qed

lemma advance_le [scan_bounds]: "i \<le> n \<Longrightarrow> advance c n i \<le> n"
proof (induction c n i rule: advance.induct)
  case (1 c n i)
  then show ?case by (subst advance.simps) auto
qed

lemma advance_le_max: "advance c n i \<le> max i n"
  by (cases "i \<le> n") (auto simp: advance_le advance.simps [of c n i])

lemma advance_holds: "i \<le> k \<Longrightarrow> k < advance c n i \<Longrightarrow> c k"
proof (induction c n i rule: advance.induct)
  case (1 c n i)
  show ?case
  proof (cases "i < n \<and> c i")
    case True
    with "1.prems" have "k < advance c n (Suc i)" by (simp add: advance.simps [of c n i])
    with True "1.IH" "1.prems"(1) show ?thesis by (cases "k = i") auto
  next
    case False
    then have "advance c n i = i" by (subst advance.simps) auto
    with "1.prems" show ?thesis by simp
  qed
qed

lemma advance_stops: "advance c n i < n \<Longrightarrow> \<not> c (advance c n i)"
proof (induction c n i rule: advance.induct)
  case (1 c n i)
  then show ?case
    by (cases "i < n \<and> c i") (auto simp: advance.simps [of c n i])
qed

lemma advance_stay: "\<not> (i < n \<and> c i) \<Longrightarrow> advance c n i = i"
  by (subst advance.simps) auto

lemma advance_step: "i < n \<Longrightarrow> c i \<Longrightarrow> advance c n i = advance c n (Suc i)"
  by (subst advance.simps) auto

lemma advance_eqI:
  assumes "i \<le> j" and "j \<le> n" and "\<And>k. i \<le> k \<Longrightarrow> k < j \<Longrightarrow> c k" and "j < n \<Longrightarrow> \<not> c j"
  shows "advance c n i = j"
proof (rule antisym)
  show "advance c n i \<le> j"
  proof (rule ccontr)
    assume a: "\<not> advance c n i \<le> j"
    moreover from this advance_le_max [of c n i] assms(1) have "j < n" by auto
    moreover from a assms(1) have "c j" by (intro advance_holds [of i j c n]) auto
    ultimately show False using assms(4) by blast
  qed
  show "j \<le> advance c n i"
  proof (rule ccontr)
    assume "\<not> j \<le> advance c n i"
    then have a: "advance c n i < j" by simp
    with assms(2) have "\<not> c (advance c n i)" by (intro advance_stops) auto
    with a assms(3) show False by simp
  qed
qed

text \<open>\<open>while (i > lo && c(i - 1)) i -= 1\<close>.\<close>

primrec retreat :: "(nat \<Rightarrow> bool) \<Rightarrow> nat \<Rightarrow> nat \<Rightarrow> nat" where
  "retreat c lo 0 = 0"
| "retreat c lo (Suc i) = (if lo < Suc i \<and> c i then retreat c lo i else Suc i)"

lemma retreat_le [simp, scan_bounds]: "retreat c lo i \<le> i"
  by (induction i) auto

lemma retreat_ge [scan_bounds]: "lo \<le> i \<Longrightarrow> lo \<le> retreat c lo i"
  by (induction i) auto

lemma retreat_holds: "retreat c lo i \<le> k \<Longrightarrow> k < i \<Longrightarrow> c k"
  by (induction i) (auto simp: less_Suc_eq split: if_splits)

lemma retreat_stops: "lo < retreat c lo i \<Longrightarrow> \<not> c (retreat c lo i - 1)"
  by (induction i) auto

text \<open>The invariant rules: what every round keeps holds at the end.\<close>

lemma loop_invariant:
  assumes "I i s" and "i \<le> n"
    and "\<And>i s. i < n \<Longrightarrow> I i s \<Longrightarrow>
           I (max (Suc i) (fst (body i s))) (snd (body i s)) \<and> fst (body i s) \<le> n"
  shows "I n (snd (loop n body i s)) \<and> fst (loop n body i s) = n"
  using assms
proof (induction n body i s rule: loop.induct)
  case (1 n body i s)
  show ?case
  proof (cases "i < n")
    case True
    obtain j s' where b: "body i s = (j, s')" by fastforce
    from "1.prems"(3) [OF True "1.prems"(1)] b True
    have "I (max (Suc i) j) s'" "max (Suc i) j \<le> n" by auto
    from "1.IH" [OF True b [symmetric] this "1.prems"(3)]
    show ?thesis using True b by (simp add: loop.simps [of n body i s])
  next
    case False
    with "1.prems" show ?thesis by (simp add: loop.simps [of n body n s])
  qed
qed

text \<open>The same rule for bodies that may jump past the end: only the state is of interest.\<close>

lemma loop_invariant_state:
  assumes "I i s"
    and "\<And>i s. i < n \<Longrightarrow> I i s \<Longrightarrow> I (max (Suc i) (fst (body i s))) (snd (body i s))"
  shows "I (fst (loop n body i s)) (snd (loop n body i s)) \<and>
    n \<le> fst (loop n body i s)"
  using assms
proof (induction n body i s rule: loop.induct)
  case (1 n body i s)
  show ?case
  proof (cases "i < n")
    case True
    obtain j s' where b: "body i s = (j, s')" by fastforce
    from "1.prems"(2) [OF True "1.prems"(1)] b have "I (max (Suc i) j) s'" by auto
    from "1.IH" [OF True b [symmetric] this "1.prems"(2)]
    show ?thesis using True b by (simp add: loop.simps [of n body i s])
  next
    case False
    with "1.prems" show ?thesis by (simp add: loop.simps [of n body i s])
  qed
qed

lemma loop_ret_invariant:
  assumes "I i s"
    and "\<And>i s r. i < n \<Longrightarrow> I i s \<Longrightarrow> body i s = Inl r \<Longrightarrow> Q r"
    and "\<And>i s p. i < n \<Longrightarrow> I i s \<Longrightarrow> body i s = Inr p \<Longrightarrow> I (max (Suc i) (fst p)) (snd p)"
  shows "case loop_ret n body i s of
      Inl r \<Rightarrow> Q r
    | Inr p \<Rightarrow> I (fst p) (snd p) \<and> n \<le> fst p"
  using assms
proof (induction n body i s rule: loop_ret.induct)
  case (1 n body i s)
  show ?case
  proof (cases "i < n")
    case True
    show ?thesis
    proof (cases "body i s")
      case (Inl r)
      with True "1.prems" show ?thesis by (simp add: loop_ret.simps [of n body i s])
    next
      case (Inr p)
      with True "1.prems"(1,3) have "I (max (Suc i) (fst p)) (snd p)" by blast
      from "1.IH" [OF True Inr this "1.prems"(2,3)] True Inr
      show ?thesis by (simp add: loop_ret.simps [of n body i s])
    qed
  next
    case False
    with "1.prems" show ?thesis by (simp add: loop_ret.simps [of n body i s])
  qed
qed

section \<open>Bodies that move forward\<close>

text \<open>
  The contract between a loop and its body: from a state the loop can be in (\<open>ok\<close>) the next
  index is beyond the current one, so the loop of the source ends and the model unfolds
  without the maximum.
\<close>

locale advancing =
  fixes n :: nat and body :: "nat \<Rightarrow> 's \<Rightarrow> nat \<times> 's" and ok :: "'s \<Rightarrow> bool"
  assumes body_advances: "i < n \<Longrightarrow> ok s \<Longrightarrow> i < fst (body i s)"
    and body_ok: "i < n \<Longrightarrow> ok s \<Longrightarrow> ok (snd (body i s))"
begin

lemma loop_unfold:
  assumes "ok s"
  shows "loop n body i s =
    (if i < n then loop n body (fst (body i s)) (snd (body i s)) else (i, s))"
proof (cases "i < n")
  case True
  then have "max (Suc i) (fst (body i s)) = fst (body i s)"
    using body_advances [OF _ assms, of i] by simp
  with True show ?thesis by (simp add: loop.simps [of n body i s] case_prod_beta)
next
  case False
  then show ?thesis by (simp add: loop.simps [of n body i s])
qed

lemma loop_induct:
  assumes "I i s" and "ok s"
    and "\<And>i s. i < n \<Longrightarrow> ok s \<Longrightarrow> I i s \<Longrightarrow> I (fst (body i s)) (snd (body i s))"
  shows "I (fst (loop n body i s)) (snd (loop n body i s)) \<and>
    ok (snd (loop n body i s)) \<and> n \<le> fst (loop n body i s)"
proof -
  have "(I (fst (loop n body i s)) (snd (loop n body i s)) \<and> ok (snd (loop n body i s))) \<and>
    n \<le> fst (loop n body i s)"
  proof (rule loop_invariant_state [where I = "\<lambda>i s. I i s \<and> ok s"])
    show "I i s \<and> ok s" using assms by simp
  next
    fix i s
    assume i: "i < n" and I: "I i s \<and> ok s"
    then have "max (Suc i) (fst (body i s)) = fst (body i s)"
      using body_advances [of i s] by simp
    with assms(3) [OF i] body_ok [OF i] I
    show "I (max (Suc i) (fst (body i s))) (snd (body i s)) \<and> ok (snd (body i s))" by simp
  qed
  then show ?thesis by simp
qed

end

locale advancing_ret =
  fixes n :: nat and body :: "nat \<Rightarrow> 's \<Rightarrow> 'r + (nat \<times> 's)" and ok :: "'s \<Rightarrow> bool"
  assumes body_advances: "i < n \<Longrightarrow> ok s \<Longrightarrow> body i s = Inr p \<Longrightarrow> i < fst p"
    and body_ok: "i < n \<Longrightarrow> ok s \<Longrightarrow> body i s = Inr p \<Longrightarrow> ok (snd p)"
begin

lemma loop_ret_unfold:
  assumes "ok s"
  shows "loop_ret n body i s =
     (if i < n then
        (case body i s of Inl r \<Rightarrow> Inl r | Inr p \<Rightarrow> loop_ret n body (fst p) (snd p))
      else Inr (i, s))"
proof (cases "i < n")
  case True
  then have "max (Suc i) (fst p) = fst p" if "body i s = Inr p" for p
    using body_advances [OF True assms that] by simp
  with True show ?thesis by (simp add: loop_ret.simps [of n body i s] split: sum.splits)
next
  case False
  then show ?thesis by (simp add: loop_ret.simps [of n body i s])
qed

lemma loop_ret_induct:
  assumes "I i s" and "ok s"
    and "\<And>i s r. i < n \<Longrightarrow> ok s \<Longrightarrow> I i s \<Longrightarrow> body i s = Inl r \<Longrightarrow> Q r"
    and "\<And>i s p. i < n \<Longrightarrow> ok s \<Longrightarrow> I i s \<Longrightarrow> body i s = Inr p \<Longrightarrow> I (fst p) (snd p)"
  shows "case loop_ret n body i s of
      Inl r \<Rightarrow> Q r
    | Inr p \<Rightarrow> I (fst p) (snd p) \<and> ok (snd p) \<and> n \<le> fst p"
proof -
  have "case loop_ret n body i s of
      Inl r \<Rightarrow> Q r | Inr p \<Rightarrow> (I (fst p) (snd p) \<and> ok (snd p)) \<and> n \<le> fst p"
  proof (rule loop_ret_invariant [where I = "\<lambda>i s. I i s \<and> ok s"])
    show "I i s \<and> ok s" using assms by simp
    show "Q r" if "i < n" "I i s \<and> ok s" "body i s = Inl r" for i s r
      using assms(3) that by blast
  next
    fix i s p
    assume i: "i < n" and I: "I i s \<and> ok s" and b: "body i s = Inr p"
    from body_advances [OF i _ b] I have "max (Suc i) (fst p) = fst p" by simp
    with assms(4) [OF i _ _ b] body_ok [OF i _ b] I
    show "I (max (Suc i) (fst p)) (snd p) \<and> ok (snd p)" by simp
  qed
  then show ?thesis by (cases "loop_ret n body i s") auto
qed

end

section \<open>Lists\<close>

text \<open>\<open>findIndex\<close> and \<open>find\<close>: the first index, \<open>None\<close> for -1.\<close>

fun find_index :: "('a \<Rightarrow> bool) \<Rightarrow> 'a list \<Rightarrow> nat option" where
  "find_index P [] = None"
| "find_index P (x # xs) = (if P x then Some 0 else map_option Suc (find_index P xs))"

lemma find_index_None [simp]: "find_index P xs = None \<longleftrightarrow> (\<forall>x \<in> set xs. \<not> P x)"
  by (induction xs) auto

lemma find_index_Some:
  "find_index P xs = Some i \<Longrightarrow> i < length xs \<and> P (xs ! i) \<and> (\<forall>j < i. \<not> P (xs ! j))"
proof (induction xs arbitrary: i)
  case Nil
  then show ?case by simp
next
  case (Cons x xs)
  then show ?case by (auto simp: nth_Cons split: if_splits nat.splits)
qed

text \<open>\<open>xs.splice(i, 0, x)\<close>: insertion at an index, at the end when it is out of range.\<close>

definition insert_at :: "nat \<Rightarrow> 'a \<Rightarrow> 'a list \<Rightarrow> 'a list" where
  "insert_at i x xs = take i xs @ x # drop i xs"

lemma set_insert_at [simp]: "set (insert_at i x xs) = insert x (set xs)"
proof -
  have "set (take i xs) \<union> set (drop i xs) = set xs"
    by (metis append_take_drop_id set_append)
  then show ?thesis by (auto simp: insert_at_def)
qed

lemma distinct_insert_at [simp]:
  "distinct (insert_at i x xs) \<longleftrightarrow> x \<notin> set xs \<and> distinct xs"
proof -
  have "distinct (take i xs @ drop i xs) \<longleftrightarrow> distinct xs" by simp
  moreover have "x \<in> set xs \<longleftrightarrow> x \<in> set (take i xs) \<or> x \<in> set (drop i xs)"
    by (metis Un_iff append_take_drop_id set_append)
  ultimately show ?thesis by (auto simp: insert_at_def simp del: append_take_drop_id)
qed

lemma length_insert_at [simp]: "length (insert_at i x xs) = Suc (length xs)"
  by (simp add: insert_at_def)

lemma filter_insert_at: "\<not> P x \<Longrightarrow> filter P (insert_at i x xs) = filter P xs"
  by (metis append_take_drop_id filter.simps(2) filter_append insert_at_def)

text \<open>Keeping the first element for each key, in order: a loop with a \<open>seen\<close> set.\<close>

fun dedup_by :: "('a \<Rightarrow> 'k) \<Rightarrow> 'k set \<Rightarrow> 'a list \<Rightarrow> 'a list" where
  "dedup_by key seen [] = []"
| "dedup_by key seen (x # xs) =
     (if key x \<in> seen then dedup_by key seen xs
      else x # dedup_by key (insert (key x) seen) xs)"

lemma dedup_by_subset: "set (dedup_by key seen xs) \<subseteq> set xs"
  by (induction xs arbitrary: seen) auto

lemma dedup_by_keys: "key ` set (dedup_by key seen xs) = key ` set xs - seen"
  by (induction xs arbitrary: seen) auto

lemma dedup_by_distinct: "distinct (map key (dedup_by key seen xs))"
proof (induction xs arbitrary: seen)
  case (Cons x xs)
  have "key x \<notin> key ` set (dedup_by key (insert (key x) seen) xs)"
    by (subst dedup_by_keys) simp
  with Cons show ?case by simp
qed simp

lemma dedup_by_id:
  "distinct (map key xs) \<Longrightarrow> key ` set xs \<inter> seen = {} \<Longrightarrow> dedup_by key seen xs = xs"
  by (induction xs arbitrary: seen) auto

section \<open>State machines\<close>

text \<open>
  The states a component can be in: from a start state, any sequence of the operations that
  are allowed in the state they are called in.
\<close>

inductive reach ::
  "('op \<Rightarrow> 's \<Rightarrow> 's) \<Rightarrow> ('op \<Rightarrow> 's \<Rightarrow> bool) \<Rightarrow> 's \<Rightarrow> 's \<Rightarrow> bool" for run allowed s0 where
  start: "reach run allowed s0 s0"
| step: "reach run allowed s0 s \<Longrightarrow> allowed op s \<Longrightarrow> reach run allowed s0 (run op s)"

text \<open>The contract between a component's operations and a property they all keep.\<close>

locale op_invariant =
  fixes run :: "'op \<Rightarrow> 's \<Rightarrow> 's" and allowed :: "'op \<Rightarrow> 's \<Rightarrow> bool" and inv :: "'s \<Rightarrow> bool"
  assumes run_keeps: "inv s \<Longrightarrow> allowed op s \<Longrightarrow> inv (run op s)"
begin

lemma reach_inv:
  assumes "reach run allowed s0 s" and "inv s0"
  shows "inv s"
  using assms by (induction rule: reach.induct) (auto intro: run_keeps)

end

section \<open>Removing and moving list elements\<close>

text \<open>\<open>xs.splice(i, 1)\<close>.\<close>

definition remove_at :: "nat \<Rightarrow> 'a list \<Rightarrow> 'a list" where
  "remove_at i xs = take i xs @ drop (Suc i) xs"

lemma remove_at_split: "i < length xs \<Longrightarrow> take i xs @ [xs ! i] @ drop (Suc i) xs = xs"
  by (simp add: Cons_nth_drop_Suc)

lemma map_remove_at: "map f (remove_at i xs) = remove_at i (map f xs)"
  by (simp add: remove_at_def take_map drop_map)

lemma map_insert_at: "map f (insert_at i x xs) = insert_at i (f x) (map f xs)"
  by (simp add: insert_at_def take_map drop_map)

lemma length_remove_at: "i < length xs \<Longrightarrow> length (remove_at i xs) = length xs - 1"
  by (simp add: remove_at_def)

lemma set_remove_at: "set (remove_at i xs) \<subseteq> set xs"
  by (auto simp: remove_at_def dest: in_set_takeD in_set_dropD)

lemma distinct_remove_at:
  "distinct xs \<Longrightarrow> i < length xs \<Longrightarrow> distinct (remove_at i xs) \<and> xs ! i \<notin> set (remove_at i xs)"
proof -
  assume "distinct xs" "i < length xs"
  then have "distinct (take i xs @ [xs ! i] @ drop (Suc i) xs)" by (simp only: remove_at_split)
  then show ?thesis by (auto simp: remove_at_def)
qed

lemma nth_insert_at: "i \<le> length xs \<Longrightarrow> insert_at i x xs ! i = x"
  by (simp add: insert_at_def nth_append)

text \<open>A concatenation has no repetitions when every element tells which part it is from.\<close>

lemma distinct_concat_tags:
  "distinct (map tag xs) \<Longrightarrow> (\<And>x. x \<in> set xs \<Longrightarrow> distinct (F x)) \<Longrightarrow>
   (\<And>x k. x \<in> set xs \<Longrightarrow> k \<in> set (F x) \<Longrightarrow> tag' k = tag x) \<Longrightarrow> distinct (concat (map F xs))"
proof (induction xs)
  case (Cons x xs)
  have "k \<notin> set (F y)" if "k \<in> set (F x)" and "y \<in> set xs" for k y
    using Cons.prems(1) Cons.prems(3) [of x k] Cons.prems(3) [of y k] that by auto
  then have "set (F x) \<inter> (\<Union>y \<in> set xs. set (F y)) = {}"
    by blast
  moreover have "distinct (concat (map F xs))"
    using Cons.prems by (intro Cons.IH) auto
  ultimately show ?case
    using Cons.prems(2) [of x] by simp
qed simp

end
