(* ===== verification/JsString.thy ===== *)
theory JsString
  imports Prelude
begin

text \<open>
  The part of the JavaScript standard library the modelled files use on strings.

  A string is the list of its UTF-16 code units, each an \<open>int\<close>; a literal of the source
  is written \<open>js ''select''\<close> and a character \<open>cu CHR ''x''\<close>, so a character of the source
  beyond Latin-1 (the full-width semicolon) is its code unit. \<open>s[i]\<close> out of range is
  \<open>undefined\<close> in JavaScript: \<open>at s i = None\<close>. The -1 of \<open>indexOf\<close> is \<open>None\<close>. \<open>toLowerCase\<close>
  is exact on ASCII and Latin-1 and on the two other code units whose lower case starts
  with an ASCII letter (U+0130, U+212A), so comparing its result with an ASCII keyword
  is exact for every string; other scripts keep their case, which the program only
  compares with itself. A number argument that may be \<open>NaN\<close> or infinite is a
  \<open>js_number\<close>; fractional numbers are not modelled.
\<close>

section \<open>Code units and literals\<close>

type_synonym jschar = int
type_synonym jsstr = "jschar list"

definition cu :: "char \<Rightarrow> jschar" where
  "cu c = of_char c"

definition js :: "string \<Rightarrow> jsstr" where
  "js s = map cu s"

lemma cu_eq_iff [simp]: "cu a = cu b \<longleftrightarrow> a = b"
  by (simp add: cu_def)

lemma js_eq_iff [simp]: "js a = js b \<longleftrightarrow> a = b"
  unfolding js_def by (rule inj_map_eq_map) (auto simp: inj_on_def)

lemma js_Nil [simp]: "js [] = []" and js_eq_Nil [simp]: "js s = [] \<longleftrightarrow> s = []"
  and Nil_eq_js [simp]: "[] = js s \<longleftrightarrow> s = []"
  by (auto simp: js_def)

lemma js_Cons: "js (c # s) = cu c # js s"
  by (simp add: js_def)

lemma length_js [simp]: "length (js s) = length s"
  by (simp add: js_def)

definition fullwidth_semicolon :: jschar where
  "fullwidth_semicolon = 65307"

abbreviation squote :: jschar where "squote \<equiv> cu (CHR 0x27)"
abbreviation dquote :: jschar where "dquote \<equiv> cu (CHR 0x22)"
abbreviation backtick :: jschar where "backtick \<equiv> cu (CHR 0x60)"
abbreviation backslash :: jschar where "backslash \<equiv> cu (CHR 0x5C)"

lemma cu_range: "0 \<le> cu c \<and> cu c < 256"
proof -
  have "cu c = int (of_char c)" by (simp add: cu_def of_nat_of_char)
  moreover have "(of_char c :: nat) < 256" by simp
  ultimately show ?thesis by simp
qed

lemma cu_neq_fullwidth [simp]: "cu c \<noteq> fullwidth_semicolon" "fullwidth_semicolon \<noteq> cu c"
  using cu_range [of c] by (auto simp: fullwidth_semicolon_def)

section \<open>Reading\<close>

definition at :: "jsstr \<Rightarrow> nat \<Rightarrow> jschar option" where
  "at s i = (if i < length s then Some (s ! i) else None)"

lemma at_Some_iff: "at s i = Some c \<longleftrightarrow> i < length s \<and> s ! i = c"
  by (auto simp: at_def)

lemma at_in [simp]: "i < length s \<Longrightarrow> at s i = Some (s ! i)"
  by (simp add: at_def)

lemma at_out [simp]: "length s \<le> i \<Longrightarrow> at s i = None"
  by (simp add: at_def)

text \<open>\<open>s.slice(a, b)\<close> for non-negative bounds.\<close>

definition slice :: "jsstr \<Rightarrow> nat \<Rightarrow> nat \<Rightarrow> jsstr" where
  "slice s a b = take (b - a) (drop a s)"

lemma slice_all [simp]: "slice s 0 (length s) = s"
  by (simp add: slice_def)

lemma slice_empty [simp]: "b \<le> a \<Longrightarrow> slice s a b = []"
  by (simp add: slice_def)

lemma length_slice [simp]: "length (slice s a b) = min b (length s) - a"
  by (auto simp: slice_def min_def)

lemma nth_slice: "k < length (slice s a b) \<Longrightarrow> slice s a b ! k = s ! (a + k)"
  unfolding slice_def by (cases "a \<le> length s") auto

lemma set_slice: "set (slice s a b) = {s ! i | i. a \<le> i \<and> i < b \<and> i < length s}"
proof -
  have "set (slice s a b) = {slice s a b ! k | k. k < length (slice s a b)}"
    by (auto simp: in_set_conv_nth)
  also have "\<dots> = {s ! i | i. a \<le> i \<and> i < b \<and> i < length s}"
  proof (safe)
    fix k
    assume k: "k < length (slice s a b)"
    then show "\<exists>i. slice s a b ! k = s ! i \<and> a \<le> i \<and> i < b \<and> i < length s"
      by (intro exI [of _ "a + k"]) (auto simp: nth_slice)
  next
    fix i
    assume i: "a \<le> i" "i < b" "i < length s"
    then have "i - a < length (slice s a b)" by (auto simp: min_def)
    with i show "\<exists>k. s ! i = slice s a b ! k \<and> k < length (slice s a b)"
      by (intro exI [of _ "i - a"]) (simp add: nth_slice)
  qed
  finally show ?thesis .
qed

lemma slice_append: "a \<le> b \<Longrightarrow> b \<le> c \<Longrightarrow> slice s a b @ slice s b c = slice s a c"
proof -
  assume ab: "a \<le> b" and bc: "b \<le> c"
  have "take (c - a) (drop a s) = take (b - a) (drop a s) @ take (c - b) (drop (b - a) (drop a s))"
    using ab bc by (metis Nat.diff_add_assoc2 add.commute le_add_diff_inverse take_add)
  with ab show ?thesis by (simp add: slice_def)
qed

section \<open>White space\<close>

text \<open>The class \<open>\s\<close> of regular expressions, which is also what \<open>trim\<close> removes.\<close>

definition is_js_space :: "jschar \<Rightarrow> bool" where
  "is_js_space c \<longleftrightarrow>
     (9 \<le> c \<and> c \<le> 13) \<or> c = 32 \<or> c = 160 \<or> c = 5760 \<or> (8192 \<le> c \<and> c \<le> 8202) \<or>
     c = 8232 \<or> c = 8233 \<or> c = 8239 \<or> c = 8287 \<or> c = 12288 \<or> c = 65279"

definition trim_start :: "jsstr \<Rightarrow> jsstr" where
  "trim_start s = dropWhile is_js_space s"

definition trim_end :: "jsstr \<Rightarrow> jsstr" where
  "trim_end s = rev (dropWhile is_js_space (rev s))"

definition trim :: "jsstr \<Rightarrow> jsstr" where
  "trim s = trim_end (trim_start s)"

lemma trim_start_Nil_iff [simp]: "trim_start s = [] \<longleftrightarrow> (\<forall>c \<in> set s. is_js_space c)"
  by (simp add: trim_start_def)

lemma trim_end_Nil_iff [simp]: "trim_end s = [] \<longleftrightarrow> (\<forall>c \<in> set s. is_js_space c)"
  by (simp add: trim_end_def)

lemma trim_Nil_iff: "trim s = [] \<longleftrightarrow> (\<forall>c \<in> set s. is_js_space c)"
proof -
  have "s = takeWhile is_js_space s @ trim_start s" by (simp add: trim_start_def)
  then have "set s = set (takeWhile is_js_space s) \<union> set (trim_start s)" by (metis set_append)
  then show ?thesis by (auto simp: trim_def dest: set_takeWhileD)
qed

lemma trim_empty [simp]: "trim [] = []"
  by (simp add: trim_Nil_iff)

lemma trim_start_hd: "trim_start s \<noteq> [] \<Longrightarrow> \<not> is_js_space (hd (trim_start s))"
  unfolding trim_start_def by (rule hd_dropWhile)

lemma trim_end_last: "trim_end s \<noteq> [] \<Longrightarrow> \<not> is_js_space (last (trim_end s))"
  unfolding trim_end_def by (subst last_rev) (auto simp: hd_dropWhile)

lemma trim_start_id: "s = [] \<or> \<not> is_js_space (hd s) \<Longrightarrow> trim_start s = s"
  by (cases s) (auto simp: trim_start_def)

lemma trim_end_id: "s = [] \<or> \<not> is_js_space (last s) \<Longrightarrow> trim_end s = s"
  by (cases s rule: rev_cases) (auto simp: trim_end_def)

lemma trim_end_prefix: "\<exists>w. s = trim_end s @ w \<and> (\<forall>c \<in> set w. is_js_space c)"
proof -
  have "rev s = takeWhile is_js_space (rev s) @ dropWhile is_js_space (rev s)" by simp
  then have "s = trim_end s @ rev (takeWhile is_js_space (rev s))"
    by (metis rev_append rev_rev_ident trim_end_def)
  then show ?thesis by (metis set_rev set_takeWhileD)
qed

lemma trim_start_suffix: "\<exists>w. s = w @ trim_start s \<and> (\<forall>c \<in> set w. is_js_space c)"
  by (metis set_takeWhileD takeWhile_dropWhile_id trim_start_def)

lemma trim_start_trim_end:
  assumes "trim_start s = s" shows "trim_start (trim_end s) = trim_end s"
proof (cases "trim_end s = []")
  case False
  obtain w where w: "s = trim_end s @ w" using trim_end_prefix by blast
  from False have "s \<noteq> []" by (auto simp: trim_end_def)
  with assms have "\<not> is_js_space (hd s)" using trim_start_hd [of s] by simp
  moreover from False w have "hd (trim_end s) = hd s" by (metis hd_append2)
  ultimately show ?thesis by (intro trim_start_id) simp
next
  case True
  then show ?thesis by (simp only: True) (simp add: trim_start_def)
qed

lemma trim_idem [simp]: "trim (trim s) = trim s"
proof -
  have "trim_start (trim_start s) = trim_start s" by (simp add: trim_start_def)
  then have "trim_start (trim s) = trim s" unfolding trim_def by (rule trim_start_trim_end)
  moreover have "trim_end (trim s) = trim s"
    using trim_end_last by (intro trim_end_id) (auto simp: trim_def)
  ultimately show ?thesis by (simp add: trim_def)
qed

lemma trim_id:
  "s = [] \<or> (\<not> is_js_space (hd s) \<and> \<not> is_js_space (last s)) \<Longrightarrow> trim s = s"
  by (auto simp: trim_def trim_start_id trim_end_id)

lemma trim_ends:
  assumes "trim s = s" and "s \<noteq> []"
  shows "\<not> is_js_space (hd s) \<and> \<not> is_js_space (last s)"
proof -
  have "trim_start (trim_start s) = trim_start s" by (simp add: trim_start_def)
  then have "trim_start (trim s) = trim s" unfolding trim_def by (rule trim_start_trim_end)
  with assms trim_start_hd [of "trim s"] have "\<not> is_js_space (hd s)" by (simp del: trim_start_Nil_iff)
  moreover have "\<not> is_js_space (last s)"
    using assms trim_end_last [of "trim_start s"] by (simp add: trim_def del: trim_end_Nil_iff)
  ultimately show ?thesis by simp
qed

lemma trim_infix: "\<exists>u w. s = u @ trim s @ w \<and> (\<forall>c \<in> set u \<union> set w. is_js_space c)"
proof -
  obtain u where u: "s = u @ trim_start s" "\<forall>c \<in> set u. is_js_space c"
    using trim_start_suffix by blast
  obtain w where "trim_start s = trim s @ w" "\<forall>c \<in> set w. is_js_space c"
    using trim_end_prefix [of "trim_start s"] by (auto simp: trim_def)
  with u show ?thesis by (metis Un_iff append.assoc)
qed

lemma length_trim_le: "length (trim s) \<le> length s"
  using trim_infix [of s] by (metis add_leD1 le_add2 length_append)

lemma set_trim_subset: "set (trim s) \<subseteq> set s"
  using trim_infix [of s] by (metis Un_iff set_append subsetI)

section \<open>Character classes of the regular expressions\<close>

definition ascii_letter :: "jschar \<Rightarrow> bool" where
  "ascii_letter c \<longleftrightarrow> (65 \<le> c \<and> c \<le> 90) \<or> (97 \<le> c \<and> c \<le> 122)"

definition ascii_digit :: "jschar \<Rightarrow> bool" where
  "ascii_digit c \<longleftrightarrow> 48 \<le> c \<and> c \<le> 57"

text \<open>\<open>\w\<close>, which is \<open>[A-Za-z0-9_]\<close>.\<close>

definition word_char :: "jschar \<Rightarrow> bool" where
  "word_char c \<longleftrightarrow> ascii_letter c \<or> ascii_digit c \<or> c = cu CHR ''_''"

lemma word_char_cu:
  "word_char (cu CHR ''_'')" "\<not> word_char (cu CHR '';'')" "\<not> word_char (cu CHR ''('')"
  "\<not> word_char (cu CHR '')'')" "\<not> word_char (cu CHR '' '')"
  by (auto simp: word_char_def ascii_letter_def ascii_digit_def cu_def)

text \<open>\<open>\b\<close> before index \<open>i\<close>.\<close>

definition word_at :: "jsstr \<Rightarrow> nat \<Rightarrow> bool" where
  "word_at s i \<longleftrightarrow> i < length s \<and> word_char (s ! i)"

definition word_boundary :: "jsstr \<Rightarrow> nat \<Rightarrow> bool" where
  "word_boundary s i \<longleftrightarrow> (0 < i \<and> word_at s (i - 1)) \<noteq> word_at s i"

section \<open>Case\<close>

definition lower_unit :: "jschar \<Rightarrow> jsstr" where
  "lower_unit c =
     (if 65 \<le> c \<and> c \<le> 90 then [c + 32]
      else if 192 \<le> c \<and> c \<le> 222 \<and> c \<noteq> 215 then [c + 32]
      else if c = 304 then [105, 775]
      else if c = 8490 then [107]
      else [c])"

definition to_lower :: "jsstr \<Rightarrow> jsstr" where
  "to_lower s = concat (map lower_unit s)"

definition upper_unit :: "jschar \<Rightarrow> jsstr" where
  "upper_unit c =
     (if 97 \<le> c \<and> c \<le> 122 then [c - 32]
      else if 224 \<le> c \<and> c \<le> 254 \<and> c \<noteq> 247 then [c - 32]
      else if c = 223 then [83, 83]
      else if c = 255 then [376]
      else if c = 305 then [73]
      else if c = 383 then [83]
      else [c])"

definition to_upper :: "jsstr \<Rightarrow> jsstr" where
  "to_upper s = concat (map upper_unit s)"

text \<open>The comparison of a regular expression with the flag \<open>i\<close>: only ASCII folds to ASCII.\<close>

definition ascii_fold :: "jschar \<Rightarrow> jschar" where
  "ascii_fold c = (if 65 \<le> c \<and> c \<le> 90 then c + 32 else c)"

lemma to_lower_Nil [simp]: "to_lower [] = []"
  by (simp add: to_lower_def)

lemma to_lower_Cons: "to_lower (c # s) = lower_unit c @ to_lower s"
  by (simp add: to_lower_def)

lemma to_lower_append [simp]: "to_lower (s @ t) = to_lower s @ to_lower t"
  by (simp add: to_lower_def)

lemma to_lower_eq_Nil [simp]: "to_lower s = [] \<longleftrightarrow> s = []"
  by (induction s) (auto simp: to_lower_Cons lower_unit_def)

lemma to_lower_idem [simp]: "to_lower (to_lower s) = to_lower s"
  by (induction s) (auto simp: to_lower_Cons lower_unit_def)

section \<open>Searching\<close>

definition starts_with_at :: "jsstr \<Rightarrow> jsstr \<Rightarrow> nat \<Rightarrow> bool" where
  "starts_with_at s p i \<longleftrightarrow> take (length p) (drop i s) = p"

lemma starts_with_at_bound:
  "starts_with_at s p i \<Longrightarrow> p \<noteq> [] \<Longrightarrow> i + length p \<le> length s"
proof -
  assume a: "starts_with_at s p i" "p \<noteq> []"
  then have "length (take (length p) (drop i s)) = length p"
    by (simp add: starts_with_at_def)
  with a show ?thesis by (cases "i \<le> length s") (auto simp: min_def split: if_splits)
qed

text \<open>\<open>s.indexOf(p, from)\<close>; \<open>None\<close> is -1.\<close>

definition index_of :: "jsstr \<Rightarrow> jsstr \<Rightarrow> nat \<Rightarrow> nat option" where
  "index_of s p from =
     map_option (\<lambda>k. from + k)
       (find_index (\<lambda>i. starts_with_at s p i) [from ..< Suc (length s) - length p])"

lemma index_of_Some:
  assumes "index_of s p from = Some k"
  shows "from \<le> k" and "starts_with_at s p k" and "k + length p \<le> length s"
proof -
  from assms obtain d where
    d: "find_index (starts_with_at s p) [from ..< Suc (length s) - length p] = Some d" "k = from + d"
    by (auto simp: index_of_def)
  from find_index_Some [OF d(1)] d(2)
  show "from \<le> k" "starts_with_at s p k" "k + length p \<le> length s"
    by (auto simp: less_diff_conv)
qed

lemma index_of_least:
  assumes "index_of s p from = Some k" and "from \<le> j" and "j < k"
  shows "\<not> starts_with_at s p j"
proof -
  from assms(1) obtain d where
    d: "find_index (starts_with_at s p) [from ..< Suc (length s) - length p] = Some d" "k = from + d"
    by (auto simp: index_of_def)
  from find_index_Some [OF d(1)] have "\<forall>m < d. \<not> starts_with_at s p ([from ..< Suc (length s) - length p] ! m)"
    and "d < length [from ..< Suc (length s) - length p]" by auto
  with assms(2,3) d(2) show ?thesis by (auto dest: spec [of _ "j - from"])
qed

lemma index_of_None:
  "index_of s p from = None \<longleftrightarrow>
     (\<forall>j. from \<le> j \<and> j + length p \<le> length s \<longrightarrow> \<not> starts_with_at s p j)"
  by (auto simp: index_of_def less_diff_conv)

definition includes_str :: "jsstr \<Rightarrow> jsstr \<Rightarrow> bool" where
  "includes_str s p \<longleftrightarrow> index_of s p 0 \<noteq> None"

text \<open>\<open>s.lastIndexOf(c, from)\<close> for a single character: the scan runs downwards.\<close>

fun last_index_of :: "jsstr \<Rightarrow> jschar \<Rightarrow> nat \<Rightarrow> nat option" where
  "last_index_of s c 0 = (if at s 0 = Some c then Some 0 else None)"
| "last_index_of s c (Suc i) =
     (if at s (Suc i) = Some c then Some (Suc i) else last_index_of s c i)"

lemma last_index_of_Some:
  "last_index_of s c i = Some k \<Longrightarrow> k \<le> i \<and> at s k = Some c"
  by (induction i) (auto split: if_splits)

definition ends_with :: "jsstr \<Rightarrow> jsstr \<Rightarrow> bool" where
  "ends_with s p \<longleftrightarrow> length p \<le> length s \<and> drop (length s - length p) s = p"

definition starts_with :: "jsstr \<Rightarrow> jsstr \<Rightarrow> bool" where
  "starts_with s p \<longleftrightarrow> starts_with_at s p 0"

text \<open>\<open>/\bword\b/i.test(s)\<close>.\<close>

definition match_ci_at :: "jsstr \<Rightarrow> jsstr \<Rightarrow> nat \<Rightarrow> bool" where
  "match_ci_at s w i \<longleftrightarrow> i + length w \<le> length s \<and> map ascii_fold (slice s i (i + length w)) = w"

definition contains_word_ci :: "jsstr \<Rightarrow> jsstr \<Rightarrow> bool" where
  "contains_word_ci s w \<longleftrightarrow>
     (\<exists>i \<in> set [0 ..< Suc (length s)].
        match_ci_at s w i \<and> word_boundary s i \<and> word_boundary s (i + length w))"

section \<open>Replacing, joining, printing\<close>

text \<open>\<open>s.replace(/\r\n/g, '\n')\<close>.\<close>

fun normalize_newlines :: "jsstr \<Rightarrow> jsstr" where
  "normalize_newlines (a # b # s) =
     (if a = 13 \<and> b = 10 then 10 # normalize_newlines s
      else a # normalize_newlines (b # s))"
| "normalize_newlines s = s"

lemma normalize_newlines_id: "13 \<notin> set s \<Longrightarrow> normalize_newlines s = s"
  by (induction s rule: normalize_newlines.induct) auto

definition newline :: jschar where
  "newline = 10"

text \<open>\<open>s.replace(/c/g, r)\<close> for a single character.\<close>

definition replace_char :: "jschar \<Rightarrow> jsstr \<Rightarrow> jsstr \<Rightarrow> jsstr" where
  "replace_char c r s = concat (map (\<lambda>x. if x = c then r else [x]) s)"

lemma replace_char_Nil [simp]: "replace_char c r [] = []"
  by (simp add: replace_char_def)

lemma replace_char_Cons [simp]:
  "replace_char c r (x # s) = (if x = c then r else [x]) @ replace_char c r s"
  by (simp add: replace_char_def)

lemma replace_char_id: "c \<notin> set s \<Longrightarrow> replace_char c r s = s"
  by (induction s) auto

text \<open>\<open>s.replace(/p/g, r)\<close> for a non-empty literal \<open>p\<close>: left to right, without overlap.\<close>

function replace_all :: "jsstr \<Rightarrow> jsstr \<Rightarrow> jsstr \<Rightarrow> jsstr" where
  "replace_all p r s =
     (if s = [] \<or> p = [] then s
      else if starts_with s p then r @ replace_all p r (drop (length p) s)
      else hd s # replace_all p r (tl s))"
  by pat_completeness auto
termination
  by (relation "measure (\<lambda>(p, r, s). length s)") auto

declare replace_all.simps [simp del]

fun join :: "jsstr \<Rightarrow> jsstr list \<Rightarrow> jsstr" where
  "join sep [] = []"
| "join sep [x] = x"
| "join sep (x # y # xs) = x @ sep @ join sep (y # xs)"

text \<open>\<open>s.split(c)\<close> for a class of single characters.\<close>

fun split_on :: "(jschar \<Rightarrow> bool) \<Rightarrow> jsstr \<Rightarrow> jsstr list" where
  "split_on p [] = [[]]"
| "split_on p (c # s) =
     (if p c then [] # split_on p s
      else (case split_on p s of x # xs \<Rightarrow> (c # x) # xs | [] \<Rightarrow> [[c]]))"

lemma split_on_nonempty [simp]: "split_on p s \<noteq> []"
  by (induction s) (auto split: list.split)

lemma join_split_on: "join [c] (split_on (\<lambda>x. x = c) s) = s"
proof (induction s)
  case (Cons x s)
  then show ?case
    by (cases "split_on (\<lambda>x. x = c) s" rule: remdups_adj.cases) (auto split: list.splits)
qed simp

lemma split_on_join:
  "segs \<noteq> [] \<Longrightarrow> \<forall>s \<in> set segs. d \<notin> set s \<Longrightarrow> split_on (\<lambda>c. c = d) (join [d] segs) = segs"
proof (induction segs rule: remdups_adj.induct)
  case (2 s)
  then have "d \<notin> set s" by simp
  then have "split_on (\<lambda>c. c = d) s = [s]"
    by (induction s) auto
  then show ?case by simp
next
  case (3 s t segs)
  then have "d \<notin> set s" by simp
  then have "split_on (\<lambda>c. c = d) (s @ d # u) = s # split_on (\<lambda>c. c = d) u" for u
    by (induction s) auto
  with 3 show ?case
    by (cases "s = t") auto
qed simp

text \<open>\<open>`${n}`\<close> for a natural number.\<close>

fun nat_str :: "nat \<Rightarrow> jsstr" where
  "nat_str n = (if n < 10 then [48 + int n] else nat_str (n div 10) @ [48 + int (n mod 10)])"

declare nat_str.simps [simp del]

lemma nat_str_digits: "\<forall>c \<in> set (nat_str n). ascii_digit c"
proof (induction n rule: nat_str.induct)
  case (1 n)
  then show ?case
    by (subst nat_str.simps) (auto simp: ascii_digit_def)
qed

lemma nat_str_nonempty [simp]: "nat_str n \<noteq> []"
  by (subst nat_str.simps) simp

definition digits_value :: "jsstr \<Rightarrow> nat" where
  "digits_value s = foldl (\<lambda>v c. 10 * v + nat (c - 48)) 0 s"

lemma digits_value_nat_str [simp]: "digits_value (nat_str n) = n"
proof (induction n rule: nat_str.induct)
  case (1 n)
  then show ?case
    by (cases "n < 10") (auto simp: nat_str.simps [of n] digits_value_def)
qed

lemma nat_str_inj [simp]: "nat_str m = nat_str n \<longleftrightarrow> m = n"
  by (metis digits_value_nat_str)

section \<open>Numbers that may not be finite\<close>

datatype js_number = Finite int | NonFinite

text \<open>\<open>Math.max(0, Math.min(len, Number.isFinite(x) ? x : 0))\<close>.\<close>

fun clamp_offset :: "nat \<Rightarrow> js_number \<Rightarrow> nat" where
  "clamp_offset len NonFinite = 0"
| "clamp_offset len (Finite x) = nat (max 0 (min (int len) x))"

lemma clamp_offset_le [simp]: "clamp_offset len x \<le> len"
  by (cases x) auto

text \<open>A string or \<open>undefined\<close> as a condition: true when present and not empty.\<close>

definition truthy :: "jsstr option \<Rightarrow> bool" where
  "truthy v \<longleftrightarrow> v \<noteq> None \<and> v \<noteq> Some []"

text \<open>\<open>s.replace(/\s+/g, ' ')\<close>.\<close>

fun collapse_spaces :: "jsstr \<Rightarrow> jsstr" where
  "collapse_spaces [] = []"
| "collapse_spaces [c] = (if is_js_space c then [cu CHR '' ''] else [c])"
| "collapse_spaces (c # d # s) =
     (if is_js_space c then
        (if is_js_space d then collapse_spaces (d # s) else cu CHR '' '' # collapse_spaces (d # s))
      else c # collapse_spaces (d # s))"

text \<open>\<open>s.replace(/.../g, f)\<close>, for a pattern given as the function that matches it at the start of a
  text: the number of characters matched and the text that replaces them.\<close>

function replace_matches :: "(jsstr \<Rightarrow> (nat \<times> jsstr) option) \<Rightarrow> jsstr \<Rightarrow> jsstr" where
  "replace_matches m s =
     (case s of
        [] \<Rightarrow> []
      | c # t \<Rightarrow>
          (case m s of
             Some (n, r) \<Rightarrow> r @ replace_matches m (drop (n - 1) t)
           | None \<Rightarrow> c # replace_matches m t))"
  by pat_completeness auto
termination
  by (relation "measure (\<lambda>(m, s). length s)") auto

declare replace_matches.simps [simp del]

text \<open>A text of a fixed shape: \<open>d\<close> stands for a digit.\<close>

definition has_shape :: "string \<Rightarrow> jsstr \<Rightarrow> bool" where
  "has_shape shape s \<longleftrightarrow> list_all2 (\<lambda>k c. if k = CHR ''d'' then ascii_digit c else c = cu k) shape s"

end
