(* ===== verification/SqlTokens.thy ===== *)
theory SqlTokens
  imports JsString
begin

text \<open>
  The token helpers of \<open>frontend/src/utils/sqlStatementSelection.ts\<close> (lines 16 to 199):
  white space and comment skipping, the next significant token, the stand-alone slash
  line of SQL*Plus scripts, the PL/SQL block openers, and the trimming of a statement
  range. Positions are natural numbers; a \<open>null\<close> result is \<open>None\<close>.
\<close>

section \<open>Ranges\<close>

record stmt_range =
  range_start :: nat
  range_end :: nat
  range_text :: jsstr

section \<open>Character classes\<close>

definition isWhitespace :: "jschar \<Rightarrow> bool" where
  "isWhitespace ch \<longleftrightarrow>
     ch = cu CHR '' '' \<or> ch = 9 \<or> ch = newline \<or> ch = 13 \<or> ch = 12"

definition isHorizontalWhitespace :: "jschar \<Rightarrow> bool" where
  "isHorizontalWhitespace ch \<longleftrightarrow> ch = cu CHR '' '' \<or> ch = 9 \<or> ch = 13 \<or> ch = 12"

definition isSqlIdentifierStart :: "jschar \<Rightarrow> bool" where
  "isSqlIdentifierStart ch \<longleftrightarrow> ascii_letter ch \<or> ch = cu CHR ''_''"

definition isSqlIdentifierPart :: "jschar \<Rightarrow> bool" where
  "isSqlIdentifierPart ch \<longleftrightarrow>
     ascii_letter ch \<or> ascii_digit ch \<or> ch = cu CHR ''_'' \<or> ch = cu CHR ''$'' \<or> ch = cu CHR ''#''"

lemma isWhitespace_js_space: "isWhitespace c \<Longrightarrow> is_js_space c"
  by (auto simp: isWhitespace_def is_js_space_def cu_def newline_def)

lemma not_isWhitespace_cu [simp]:
  "\<not> isWhitespace (cu CHR '';'')" "\<not> isWhitespace (cu CHR ''/'')" "\<not> isWhitespace (cu CHR ''-'')"
  "\<not> isWhitespace (cu CHR ''('')" "\<not> isWhitespace (cu CHR '')'')" "\<not> isWhitespace (cu CHR ''#'')"
  "\<not> isWhitespace (cu CHR ''*'')" "\<not> isWhitespace fullwidth_semicolon"
  by (auto simp: isWhitespace_def cu_def newline_def fullwidth_semicolon_def)

lemma isHorizontalWhitespace_imp: "isHorizontalWhitespace c \<Longrightarrow> isWhitespace c"
  by (auto simp: isWhitespace_def isHorizontalWhitespace_def)

section \<open>White space and comments\<close>

text \<open>The two inner loops: to the end of the line, and past the end of a block comment.\<close>

definition line_end :: "jsstr \<Rightarrow> nat \<Rightarrow> nat" where
  "line_end text i = advance (\<lambda>k. text ! k \<noteq> newline) (length text) i"

definition block_comment_end :: "jsstr \<Rightarrow> nat \<Rightarrow> nat" where
  "block_comment_end text i =
     (let j = advance
                (\<lambda>k. k + 1 < length text \<and>
                     \<not> (text ! k = cu CHR ''*'' \<and> text ! (k + 1) = cu CHR ''/''))
                (length text) i
      in if j + 1 < length text then j + 2 else j)"

lemma line_end_ge [simp, scan_bounds]: "i \<le> line_end text i"
  by (simp add: line_end_def)

lemma line_end_mono [simp]:
  "a \<le> i \<Longrightarrow> a \<le> line_end text i" "a < i \<Longrightarrow> a < line_end text i"
  by (rule order_trans [OF _ line_end_ge], assumption) (rule less_le_trans [OF _ line_end_ge], assumption)

lemma line_end_le [scan_bounds]: "i \<le> length text \<Longrightarrow> line_end text i \<le> length text"
  by (simp add: line_end_def advance_le)

lemma line_end_newline: "line_end text i < length text \<Longrightarrow> text ! line_end text i = newline"
  using advance_stops [of "\<lambda>k. text ! k \<noteq> newline" "length text" i]
  by (simp add: line_end_def)

lemma block_comment_end_ge [simp, scan_bounds]: "i \<le> block_comment_end text i"
  unfolding block_comment_end_def Let_def
  by (simp add: le_SucI)

lemma block_comment_end_mono [simp]:
  "a \<le> i \<Longrightarrow> a \<le> block_comment_end text i" "a < i \<Longrightarrow> a < block_comment_end text i"
  by (rule order_trans [OF _ block_comment_end_ge], assumption) (rule less_le_trans [OF _ block_comment_end_ge], assumption)

lemma block_comment_end_le [scan_bounds]:
  "i \<le> length text \<Longrightarrow> block_comment_end text i \<le> length text"
  unfolding block_comment_end_def Let_def by (auto intro: advance_le)

definition skip_ws_comments_body :: "jsstr \<Rightarrow> nat \<Rightarrow> unit \<Rightarrow> nat + nat \<times> unit" where
  "skip_ws_comments_body text index u =
     (let ch = text ! index; next_ch = at text (index + 1) in
      if isWhitespace ch then Inr (index + 1, u)
      else if ch = cu CHR ''-'' \<and> next_ch = Some (cu CHR ''-'')
        then Inr (line_end text (index + 2), u)
      else if ch = cu CHR ''#'' then Inr (line_end text (index + 1), u)
      else if ch = cu CHR ''/'' \<and> next_ch = Some (cu CHR ''*'')
        then Inr (block_comment_end text (index + 2), u)
      else Inl index)"

definition skipSqlWhitespaceAndComments :: "jsstr \<Rightarrow> nat \<Rightarrow> nat" where
  "skipSqlWhitespaceAndComments text position =
     (case loop_ret (length text) (skip_ws_comments_body text) position () of
        Inl j \<Rightarrow> j | Inr (j, _) \<Rightarrow> j)"

interpretation skip_ws: advancing_ret "length text" "skip_ws_comments_body text" "\<lambda>_. True"
proof
  fix i p and s :: unit
  assume b: "skip_ws_comments_body text i s = Inr p"
  have "i < line_end text (i + 2)" "i < line_end text (i + 1)" "i < block_comment_end text (i + 2)"
    using line_end_ge [of "i + 2" "text"] line_end_ge [of "i + 1" "text"]
      block_comment_end_ge [of "i + 2" "text"] by linarith+
  with b show "i < fst p"
    by (auto simp: skip_ws_comments_body_def Let_def split: if_splits)
qed simp

lemma skip_ws_inv:
  "case loop_ret (length text) (skip_ws_comments_body text) position () of
      Inl j \<Rightarrow> position \<le> j \<and> j < length text \<and> \<not> isWhitespace (text ! j)
    | Inr p \<Rightarrow> (position \<le> fst p \<and> (position \<le> length text \<longrightarrow> fst p \<le> length text)) \<and>
        True \<and> length text \<le> fst p"
proof (rule skip_ws.loop_ret_induct
    [where I = "\<lambda>i _. position \<le> i \<and> (position \<le> length text \<longrightarrow> i \<le> length text)"])
  fix i :: nat and s :: unit and p
  assume i: "i < length text" and I: "position \<le> i \<and> (position \<le> length text \<longrightarrow> i \<le> length text)"
    and b: "skip_ws_comments_body text i s = Inr p"
  have "fst p \<le> length text"
    using b i by (auto simp: skip_ws_comments_body_def Let_def at_def
        intro!: line_end_le block_comment_end_le split: if_splits)
  with skip_ws.body_advances [OF i TrueI b] I
  show "position \<le> fst p \<and> (position \<le> length text \<longrightarrow> fst p \<le> length text)" by simp
qed (auto simp: skip_ws_comments_body_def Let_def split: if_splits)

lemma skipSqlWhitespaceAndComments_ge [simp, scan_bounds]:
  "position \<le> skipSqlWhitespaceAndComments text position"
  using skip_ws_inv [of position "text"]
  by (auto simp: skipSqlWhitespaceAndComments_def split: sum.splits)

lemma skipSqlWhitespaceAndComments_mono [simp]:
  "a \<le> i \<Longrightarrow> a \<le> skipSqlWhitespaceAndComments text i" "a < i \<Longrightarrow> a < skipSqlWhitespaceAndComments text i"
  by (rule order_trans [OF _ skipSqlWhitespaceAndComments_ge], assumption) (rule less_le_trans [OF _ skipSqlWhitespaceAndComments_ge], assumption)

lemma skipSqlWhitespaceAndComments_le [scan_bounds]:
  "position \<le> length text \<Longrightarrow> skipSqlWhitespaceAndComments text position \<le> length text"
  using skip_ws_inv [of position "text"]
  by (auto simp: skipSqlWhitespaceAndComments_def split: sum.splits)

lemma skipSqlWhitespaceAndComments_stop:
  "skipSqlWhitespaceAndComments text position < length text \<Longrightarrow>
   \<not> isWhitespace (text ! skipSqlWhitespaceAndComments text position)"
  using skip_ws_inv [of position "text"]
  by (auto simp: skipSqlWhitespaceAndComments_def split: sum.splits)

lemma skipSqlWhitespaceAndComments_out:
  "length text \<le> position \<Longrightarrow> skipSqlWhitespaceAndComments text position = position"
  by (simp add: skipSqlWhitespaceAndComments_def loop_ret.simps)

section \<open>The next significant token\<close>

definition identifier_end :: "jsstr \<Rightarrow> nat \<Rightarrow> nat" where
  "identifier_end text i = advance (\<lambda>k. isSqlIdentifierPart (text ! k)) (length text) i"

lemma identifier_end_ge [simp, scan_bounds]: "i \<le> identifier_end text i"
  by (simp add: identifier_end_def)

lemma identifier_end_mono [simp]:
  "a \<le> i \<Longrightarrow> a \<le> identifier_end text i" "a < i \<Longrightarrow> a < identifier_end text i"
  by (rule order_trans [OF _ identifier_end_ge], assumption) (rule less_le_trans [OF _ identifier_end_ge], assumption)

lemma identifier_end_le [scan_bounds]:
  "i \<le> length text \<Longrightarrow> identifier_end text i \<le> length text"
  by (simp add: identifier_end_def advance_le)

definition nextSqlSignificantToken :: "jsstr \<Rightarrow> nat \<Rightarrow> jsstr" where
  "nextSqlSignificantToken text position =
     (let index = skipSqlWhitespaceAndComments text position in
      if length text \<le> index \<or> \<not> isSqlIdentifierStart (text ! index) then []
      else to_lower (slice text index (identifier_end text (index + 1))))"

definition nextSqlSignificantChar :: "jsstr \<Rightarrow> nat \<Rightarrow> jschar option" where
  "nextSqlSignificantChar text position =
     at text (skipSqlWhitespaceAndComments text position)"

text \<open>The span variant returns the token and the index after it.\<close>

definition nextSqlSignificantTokenSpan :: "jsstr \<Rightarrow> nat \<Rightarrow> jsstr \<times> nat" where
  "nextSqlSignificantTokenSpan text position =
     (let index = skipSqlWhitespaceAndComments text position in
      if length text \<le> index \<or> \<not> isSqlIdentifierStart (text ! index) then ([], index)
      else
        let tokenEnd = identifier_end text (index + 1)
        in (to_lower (slice text index tokenEnd), tokenEnd))"

lemma nextSqlSignificantTokenSpan_fst:
  "fst (nextSqlSignificantTokenSpan text position) = nextSqlSignificantToken text position"
  by (simp add: nextSqlSignificantTokenSpan_def nextSqlSignificantToken_def Let_def)

lemma nextSqlSignificantTokenSpan_ge [scan_bounds]:
  "position \<le> snd (nextSqlSignificantTokenSpan text position)"
  by (auto simp: nextSqlSignificantTokenSpan_def Let_def le_SucI)

lemma nextSqlSignificantTokenSpan_gt:
  assumes "fst (nextSqlSignificantTokenSpan text position) \<noteq> []"
  shows "position < snd (nextSqlSignificantTokenSpan text position)"
    and "snd (nextSqlSignificantTokenSpan text position) \<le> length text"
proof -
  let ?i = "skipSqlWhitespaceAndComments text position"
  have i: "?i < length text" and e: "snd (nextSqlSignificantTokenSpan text position) = identifier_end text (?i + 1)"
    using assms by (auto simp: nextSqlSignificantTokenSpan_def Let_def split: if_splits)
  have "position \<le> ?i" by (rule skipSqlWhitespaceAndComments_ge)
  moreover have "?i + 1 \<le> identifier_end text (?i + 1)" by (rule identifier_end_ge)
  ultimately show "position < snd (nextSqlSignificantTokenSpan text position)" using e by linarith
  from i show "snd (nextSqlSignificantTokenSpan text position) \<le> length text"
    unfolding e by (intro identifier_end_le) simp
qed

section \<open>The stand-alone slash line\<close>

definition slash_line_body :: "jsstr \<Rightarrow> nat \<Rightarrow> unit \<Rightarrow> nat option + nat \<times> unit" where
  "slash_line_body text lineEnd u =
     (if text ! lineEnd = newline then Inl (Some lineEnd)
      else if text ! lineEnd = cu CHR ''-'' \<and> at text (lineEnd + 1) = Some (cu CHR ''-'')
        then Inl (Some (line_end text lineEnd))
      else if \<not> isHorizontalWhitespace (text ! lineEnd) then Inl None
      else Inr (lineEnd + 1, u))"

text \<open>\<open>text.lastIndexOf('\n', Math.max(0, index - 1)) + 1\<close>.\<close>

definition line_start :: "jsstr \<Rightarrow> nat \<Rightarrow> nat" where
  "line_start text index =
     (case last_index_of text newline (index - 1) of None \<Rightarrow> 0 | Some k \<Rightarrow> k + 1)"

definition resolveStandaloneSqlSlashLineEnd :: "jsstr \<Rightarrow> nat \<Rightarrow> nat option" where
  "resolveStandaloneSqlSlashLineEnd text index =
     (if at text index \<noteq> Some (cu CHR ''/'') then None
      else if \<exists>pos \<in> set [line_start text index ..< index]. \<not> isHorizontalWhitespace (text ! pos)
        then None
      else
        (case loop_ret (length text) (slash_line_body text) (index + 1) () of
           Inl r \<Rightarrow> r
         | Inr (lineEnd, _) \<Rightarrow> Some lineEnd))"

interpretation slash_line: advancing_ret "length text" "slash_line_body text" "\<lambda>_. True"
  by unfold_locales (auto simp: slash_line_body_def split: if_splits)

text \<open>
  The part of the text a slash line occupies holds nothing but the slash, white space
  and a line comment.
\<close>

lemma slash_line_end:
  assumes "resolveStandaloneSqlSlashLineEnd text index = Some e"
  shows "index < length text" and "text ! index = cu CHR ''/''" and "index < e" and "e \<le> length text"
    and "e < length text \<Longrightarrow> text ! e = newline"
    and "\<exists>m. index < m \<and> m \<le> e \<and>
      (\<forall>k. index < k \<and> k < m \<longrightarrow> isHorizontalWhitespace (text ! k)) \<and>
      (m < e \<longrightarrow> m + 1 < length text \<and> text ! m = cu CHR ''-'' \<and> text ! (m + 1) = cu CHR ''-'') \<and>
      (\<forall>k. m \<le> k \<and> k < e \<longrightarrow> text ! k \<noteq> newline)"
proof -
  let ?Q = "\<lambda>r. \<forall>e. r = Some e \<longrightarrow> index < e \<and> e \<le> length text \<and>
      (e < length text \<longrightarrow> text ! e = newline) \<and>
      (\<exists>m. index < m \<and> m \<le> e \<and>
      (\<forall>k. index < k \<and> k < m \<longrightarrow> isHorizontalWhitespace (text ! k)) \<and>
      (m < e \<longrightarrow> m + 1 < length text \<and> text ! m = cu CHR ''-'' \<and> text ! (m + 1) = cu CHR ''-'') \<and>
      (\<forall>k. m \<le> k \<and> k < e \<longrightarrow> text ! k \<noteq> newline))"
  let ?I = "\<lambda>i _. index < i \<and> i \<le> length text \<and>
      (\<forall>k. index < k \<and> k < i \<longrightarrow> isHorizontalWhitespace (text ! k))"
  from assms show i: "index < length text" and "text ! index = cu CHR ''/''"
    by (auto simp: resolveStandaloneSqlSlashLineEnd_def at_Some_iff split: if_splits)
  have "case loop_ret (length text) (slash_line_body text) (index + 1) () of
      Inl r \<Rightarrow> ?Q r | Inr p \<Rightarrow> ?I (fst p) (snd p) \<and> True \<and> length text \<le> fst p"
  proof (rule slash_line.loop_ret_induct [where I = ?I])
    show "?I (index + 1) ()" using i by auto
    show True ..
  next
    fix j u r
    assume j: "j < length text" and I: "?I j u" and b: "slash_line_body text j u = Inl r"
    have le: "index < line_end text j" and le': "line_end text j \<le> length text"
      using j I by (simp_all add: line_end_le)
    have nl: "text ! k \<noteq> newline" if "j \<le> k" "k < line_end text j" for k
      using that advance_holds [of j k "\<lambda>k. text ! k \<noteq> newline" "length text"]
      by (auto simp: line_end_def)
    show "?Q r"
    proof (cases "text ! j = newline")
      case True
      with b have "r = Some j" by (simp add: slash_line_body_def)
      with True I j show ?thesis by (auto intro!: exI [of _ j])
    next
      case False
      with b I le le' nl show ?thesis
        by (auto simp: slash_line_body_def at_Some_iff line_end_newline
            intro!: exI [of _ j] split: if_splits)
    qed
  next
    fix j u p
    assume "j < length text" "?I j u" "slash_line_body text j u = Inr p"
    then show "?I (fst p) (snd p)"
      by (auto simp: slash_line_body_def less_Suc_eq split: if_splits)
  qed
  with assms have "index < e \<and> e \<le> length text \<and> (e < length text \<longrightarrow> text ! e = newline) \<and>
      (\<exists>m. index < m \<and> m \<le> e \<and>
      (\<forall>k. index < k \<and> k < m \<longrightarrow> isHorizontalWhitespace (text ! k)) \<and>
      (m < e \<longrightarrow> m + 1 < length text \<and> text ! m = cu CHR ''-'' \<and> text ! (m + 1) = cu CHR ''-'') \<and>
      (\<forall>k. m \<le> k \<and> k < e \<longrightarrow> text ! k \<noteq> newline))"
    by (auto simp: resolveStandaloneSqlSlashLineEnd_def split: if_splits sum.splits)
  then show "index < e" "e \<le> length text" "e < length text \<Longrightarrow> text ! e = newline"
    "\<exists>m. index < m \<and> m \<le> e \<and>
      (\<forall>k. index < k \<and> k < m \<longrightarrow> isHorizontalWhitespace (text ! k)) \<and>
      (m < e \<longrightarrow> m + 1 < length text \<and> text ! m = cu CHR ''-'' \<and> text ! (m + 1) = cu CHR ''-'') \<and>
      (\<forall>k. m \<le> k \<and> k < e \<longrightarrow> text ! k \<noteq> newline)"
    by blast+
qed

section \<open>PL/SQL block openers\<close>

definition shouldEnterPlsqlBeginBlock :: "jsstr \<Rightarrow> nat \<Rightarrow> bool" where
  "shouldEnterPlsqlBeginBlock text tokenEnd =
     (case nextSqlSignificantChar text tokenEnd of
        None \<Rightarrow> False
      | Some nextChar \<Rightarrow>
          nextChar \<noteq> cu CHR '';'' \<and>
          nextSqlSignificantToken text tokenEnd \<notin>
            {js ''transaction'', js ''work'', js ''isolation'', js ''read'', js ''write''})"

definition shouldEnterPlsqlDeclareBlock :: "jsstr \<Rightarrow> nat \<Rightarrow> bool" where
  "shouldEnterPlsqlDeclareBlock text tokenEnd \<longleftrightarrow> nextSqlSignificantToken text tokenEnd \<noteq> []"

text \<open>
  \<open>while (['editionable', 'noneditionable'].includes(current.token)) current = next(current.end)\<close>
\<close>

definition is_editionable :: "jsstr \<Rightarrow> bool" where
  "is_editionable token \<longleftrightarrow> token = js ''editionable'' \<or> token = js ''noneditionable''"

definition skip_editionable_body :: "jsstr \<Rightarrow> nat \<Rightarrow> unit \<Rightarrow> (jsstr \<times> nat) + nat \<times> unit" where
  "skip_editionable_body text position u =
     (let current = nextSqlSignificantTokenSpan text position in
      if is_editionable (fst current) then Inr (snd current, u) else Inl current)"

interpretation skip_editionable: advancing_ret "length text" "skip_editionable_body text" "\<lambda>_. True"
proof
  fix i p and u :: unit
  assume "skip_editionable_body text i u = Inr p"
  then have "is_editionable (fst (nextSqlSignificantTokenSpan text i))"
    and p: "p = (snd (nextSqlSignificantTokenSpan text i), u)"
    by (auto simp: skip_editionable_body_def Let_def split: if_splits)
  then have "fst (nextSqlSignificantTokenSpan text i) \<noteq> []"
    by (auto simp: is_editionable_def)
  then show "i < fst p" using nextSqlSignificantTokenSpan_gt(1) by (simp add: p)
qed simp

definition skip_editionable :: "jsstr \<Rightarrow> jsstr \<times> nat \<Rightarrow> jsstr \<times> nat" where
  "skip_editionable text current =
     (if is_editionable (fst current) then
        (case loop_ret (length text) (skip_editionable_body text) (snd current) () of
           Inl r \<Rightarrow> r
         | Inr (position, _) \<Rightarrow> ([], position))
      else current)"

text \<open>
  The common start of the two header tests: \<open>CREATE [OR REPLACE] [NON]EDITIONABLE*\<close>.
  \<open>None\<close> where the code returns \<open>false\<close>, otherwise the token after it.
\<close>

definition create_header_token :: "jsstr \<Rightarrow> (jsstr \<times> nat) option" where
  "create_header_token text =
     (let current = nextSqlSignificantTokenSpan text 0 in
      if fst current \<noteq> js ''create'' then None
      else
        let current = nextSqlSignificantTokenSpan text (snd current) in
        if fst current = js ''or'' then
          (let current = nextSqlSignificantTokenSpan text (snd current) in
           if fst current \<noteq> js ''replace'' then None
           else Some (skip_editionable text (nextSqlSignificantTokenSpan text (snd current))))
        else Some (skip_editionable text current))"

definition isCreateRoutineHeaderPrefix :: "jsstr \<Rightarrow> bool" where
  "isCreateRoutineHeaderPrefix text =
     (case create_header_token text of
        None \<Rightarrow> False
      | Some current \<Rightarrow>
          if fst current = js ''procedure'' \<or> fst current = js ''function'' then True
          else if fst current \<noteq> js ''package'' then False
          else
            let current = nextSqlSignificantTokenSpan text (snd current) in
            fst current = [] \<or> fst current = js ''body'' \<or>
            (case at (fst current) 0 of None \<Rightarrow> False | Some c \<Rightarrow> isSqlIdentifierStart c))"

definition isCreatePackageHeaderPrefix :: "jsstr \<Rightarrow> bool" where
  "isCreatePackageHeaderPrefix text =
     (case create_header_token text of
        None \<Rightarrow> False
      | Some current \<Rightarrow> fst current = js ''package'')"

definition shouldEnterPlsqlCreateRoutineBlock :: "jsstr \<Rightarrow> nat \<Rightarrow> jsstr \<Rightarrow> nat \<Rightarrow> bool" where
  "shouldEnterPlsqlCreateRoutineBlock text statementStart token tokenEnd =
     (if token \<noteq> js ''is'' \<and> token \<noteq> js ''as'' then False
      else
        (case nextSqlSignificantChar text tokenEnd of
           None \<Rightarrow> False
         | Some nextChar \<Rightarrow>
             if token = js ''as'' \<and>
                (nextChar = cu CHR ''$'' \<or> nextChar = squote \<or> nextChar = dquote)
             then False
             else isCreateRoutineHeaderPrefix
                    (slice text statementStart (tokenEnd - length token))))"

definition isPlsqlControlEnd :: "jsstr \<Rightarrow> nat \<Rightarrow> bool" where
  "isPlsqlControlEnd text tokenEnd \<longleftrightarrow>
     nextSqlSignificantToken text tokenEnd \<in> {js ''if'', js ''loop'', js ''case''}"

section \<open>Trimming a range\<close>

definition trimStatementRange :: "jsstr \<Rightarrow> nat \<Rightarrow> nat \<Rightarrow> stmt_range option" where
  "trimStatementRange sql start end_pos =
     (let nextEnd0 = min (length sql) (max start end_pos);
          nextStart = advance (\<lambda>k. isWhitespace (sql ! k)) nextEnd0 start;
          nextEnd = retreat (\<lambda>k. isWhitespace (sql ! k)) nextStart nextEnd0
      in if nextEnd \<le> nextStart then None
         else Some \<lparr>range_start = nextStart, range_end = nextEnd,
                    range_text = slice sql nextStart nextEnd\<rparr>)"

text \<open>A well-formed range: inside the text, not empty, trimmed, and carrying its own text.\<close>

definition range_ok :: "jsstr \<Rightarrow> stmt_range \<Rightarrow> bool" where
  "range_ok sql r \<longleftrightarrow>
     range_start r < range_end r \<and> range_end r \<le> length sql \<and>
     range_text r = slice sql (range_start r) (range_end r) \<and>
     \<not> isWhitespace (sql ! range_start r) \<and> \<not> isWhitespace (sql ! (range_end r - 1))"

lemma trimStatementRange_Some:
  assumes "trimStatementRange sql start end_pos = Some r"
  shows "range_ok sql r" and "start \<le> range_start r" and "range_end r \<le> max start end_pos"
    and "\<And>k. start \<le> k \<Longrightarrow> k < range_start r \<Longrightarrow> isWhitespace (sql ! k)"
    and "\<And>k. range_end r \<le> k \<Longrightarrow> k < end_pos \<Longrightarrow> k < length sql \<Longrightarrow> isWhitespace (sql ! k)"
proof -
  let ?w = "\<lambda>k. isWhitespace (sql ! k)"
  let ?e = "min (length sql) (max start end_pos)"
  let ?s = "advance ?w ?e start"
  let ?t = "retreat ?w ?s ?e"
  have st: "?s < ?t" and r: "range_start r = ?s" "range_end r = ?t" "range_text r = slice sql ?s ?t"
    using assms by (auto simp: trimStatementRange_def Let_def split: if_splits)
  have te: "?t \<le> ?e" by (rule retreat_le)
  have "\<not> ?w ?s" using st te by (intro advance_stops) simp
  moreover have "\<not> ?w (?t - 1)" using st by (rule retreat_stops)
  ultimately show "range_ok sql r" using st te by (simp add: range_ok_def r)
  show "start \<le> range_start r" by (simp add: r)
  show "range_end r \<le> max start end_pos" using te by (simp add: r)
  show "?w k" if "start \<le> k" "k < range_start r" for k
    using advance_holds [of start k ?w ?e] that by (simp add: r)
  show "?w k" if "range_end r \<le> k" "k < end_pos" "k < length sql" for k
    using retreat_holds [of ?w ?s ?e k] that by (simp add: r)
qed

lemma trimStatementRange_None:
  assumes "trimStatementRange sql start end_pos = None" and "start \<le> k" and "k < end_pos"
    and "k < length sql"
  shows "isWhitespace (sql ! k)"
proof -
  let ?w = "\<lambda>k. isWhitespace (sql ! k)"
  let ?e = "min (length sql) (max start end_pos)"
  let ?s = "advance ?w ?e start"
  from assms(1) have "retreat ?w ?s ?e \<le> ?s"
    by (auto simp: trimStatementRange_def Let_def split: if_splits)
  moreover have "k < ?e" using assms by simp
  ultimately show ?thesis
    using advance_holds [of start k ?w ?e] retreat_holds [of ?w ?s ?e k] assms(2)
    by (cases "k < ?s") auto
qed

lemma trimStatementRange_exact:
  assumes "a < e" and "e \<le> length sql" and "\<not> isWhitespace (sql ! a)"
    and "\<not> isWhitespace (sql ! (e - 1))"
  shows "trimStatementRange sql a e =
    Some \<lparr>range_start = a, range_end = e, range_text = slice sql a e\<rparr>"
proof -
  have "advance (\<lambda>k. isWhitespace (sql ! k)) e a = a"
    using assms(3) by (intro advance_stay) simp
  moreover have "retreat (\<lambda>k. isWhitespace (sql ! k)) a e = e"
    using assms(1,4) by (cases e) auto
  moreover have "min (length sql) (max a e) = e" using assms(1,2) by simp
  ultimately show ?thesis using assms(1) by (simp add: trimStatementRange_def Let_def)
qed

end
