(* ===== verification/SqlSelection.thy ===== *)
theory SqlSelection
  imports SqlStatements
begin

text \<open>
  Which statement the cursor is in: \<open>resolveCurrentSqlStatementRange\<close> and
  \<open>resolveExecutableSql\<close> of \<open>frontend/src/utils/sqlStatementSelection.ts\<close>.

  The splitter's contract is the locale \<open>sql_splitter\<close>: the ranges of a script are well
  formed, in order, and together hold all of its text. The lemmas of the clients are
  proved from it; the interpretation \<open>splitter\<close> discharges it for the model of
  \<open>findSqlStatementRanges\<close>.
\<close>

section \<open>The splitter's contract\<close>

locale sql_splitter =
  fixes find_ranges :: "jsstr \<Rightarrow> stmt_range list"
  assumes find_ranges_split:
    "split_upto (normalize_newlines sql) (length (normalize_newlines sql)) (find_ranges sql)"
begin

lemma member_ok: "r \<in> set (find_ranges sql) \<Longrightarrow> range_ok (normalize_newlines sql) r"
  by (rule split_uptoD(1) [OF find_ranges_split])

lemma ordered: "ordered_ranges (find_ranges sql)"
  by (rule split_uptoD(3) [OF find_ranges_split])

lemma covers:
  "k < length (normalize_newlines sql) \<Longrightarrow>
   (\<exists>r \<in> set (find_ranges sql). in_range k r) \<or> dropped_ok (normalize_newlines sql) k"
  by (rule split_uptoD(4) [OF find_ranges_split])

lemma unique_range:
  assumes "r \<in> set (find_ranges sql)" and "r' \<in> set (find_ranges sql)"
    and "in_range k r" and "in_range k r'"
  shows "r = r'"
proof -
  obtain i j where i: "i < length (find_ranges sql)" "find_ranges sql ! i = r"
    and j: "j < length (find_ranges sql)" "find_ranges sql ! j = r'"
    using assms(1,2) by (metis in_set_conv_nth)
  have "range_end (find_ranges sql ! a) \<le> range_start (find_ranges sql ! b)"
    if "a < b" "b < length (find_ranges sql)" for a b
    using ordered [of sql] that by (simp add: ordered_ranges_def sorted_wrt_iff_nth_less)
  then have "\<not> i < j" and "\<not> j < i" using i j assms(3,4) by (fastforce simp: in_range_def)+
  with i j show ?thesis by simp
qed

end

lemma findSqlStatementRanges_split:
  "split_upto (normalize_newlines sql) (length (normalize_newlines sql)) (findSqlStatementRanges sql)"
  unfolding findSqlStatementRanges_def by (rule split_statements_correct)

interpretation splitter: sql_splitter findSqlStatementRanges
  by unfold_locales (rule findSqlStatementRanges_split)

section \<open>The statement at the cursor\<close>

definition touches :: "nat \<Rightarrow> stmt_range \<Rightarrow> bool" where
  "touches offset r \<longleftrightarrow> range_start r \<le> offset \<and> offset \<le> range_end r"

text \<open>
  The loop over neighbouring ranges. \<open>Some v\<close> is \<open>return v\<close>; \<open>None\<close> is leaving the loop.
\<close>

fun gap_scan :: "jsstr \<Rightarrow> nat \<Rightarrow> stmt_range list \<Rightarrow> stmt_range option option" where
  "gap_scan text offset [] = None"
| "gap_scan text offset [current] =
     (if range_end current < offset \<and> trim (slice text (range_end current) offset) = []
      then Some (Some current) else None)"
| "gap_scan text offset (current # next_range # rest) =
     (if range_end current < offset \<and> offset < range_start next_range then
        (let sameLineEnd = (case index_of text [newline] (range_end current) of
                              None \<Rightarrow> length text | Some k \<Rightarrow> k) in
         if offset \<le> sameLineEnd then Some (Some current)
         else if includes_str (slice text (range_end current) (range_start next_range))
                   [newline, newline] then
           (if trim (slice text offset (range_start next_range)) = []
            then Some (Some next_range) else Some None)
         else Some (Some current))
      else gap_scan text offset (next_range # rest))"

definition select_range :: "jsstr \<Rightarrow> nat \<Rightarrow> stmt_range list \<Rightarrow> stmt_range option" where
  "select_range text offset rs =
     (if rs = [] then None
      else
        (case find (touches offset) rs of
           Some r \<Rightarrow> Some r
         | None \<Rightarrow>
             (case gap_scan text offset rs of
                Some v \<Rightarrow> v
              | None \<Rightarrow>
                  (case find (\<lambda>r. offset < range_start r) rs of
                     Some r \<Rightarrow> if trim (slice text 0 (range_start r)) = [] then Some r else None
                   | None \<Rightarrow> Some (last rs)))))"

definition resolveCurrentSqlStatementRange :: "jsstr \<Rightarrow> js_number \<Rightarrow> stmt_range option" where
  "resolveCurrentSqlStatementRange sql cursorOffset =
     (let text = normalize_newlines sql;
          offset = clamp_offset (length text) cursorOffset
      in select_range text offset (findSqlStatementRanges text))"

lemma gap_scan_member: "gap_scan text offset rs = Some (Some r) \<Longrightarrow> r \<in> set rs"
  by (induction "text" offset rs rule: gap_scan.induct) (auto simp: Let_def split: if_splits)

lemma find_member: "find P xs = Some x \<Longrightarrow> x \<in> set xs \<and> P x"
  by (auto simp: find_Some_iff)

lemma select_range_member: "select_range text offset rs = Some r \<Longrightarrow> r \<in> set rs"
  by (auto simp: select_range_def dest: find_member gap_scan_member split: option.splits if_splits)

lemma select_range_touches:
  assumes "r \<in> set rs" and "touches offset r"
  shows "\<exists>r'. select_range text offset rs = Some r' \<and> r' \<in> set rs \<and> touches offset r'"
proof (cases "find (touches offset) rs")
  case None
  with assms show ?thesis by (auto simp: find_None_iff)
next
  case (Some r')
  with assms find_member [OF Some] show ?thesis by (auto simp: select_range_def)
qed

context sql_splitter
begin

text \<open>Strictly inside a statement the answer is that statement, and no other.\<close>

lemma select_inside:
  assumes r: "r \<in> set (find_ranges sql)" and "range_start r < offset" and "offset < range_end r"
  shows "select_range text offset (find_ranges sql) = Some r"
proof -
  have "touches offset r" using assms(2,3) by (simp add: touches_def)
  with select_range_touches [OF r] obtain r' where
    r': "select_range text offset (find_ranges sql) = Some r'" "r' \<in> set (find_ranges sql)"
    "touches offset r'" by blast
  have "range_ok (normalize_newlines sql) r'" using r'(2) by (rule member_ok)
  then have "range_start r' < range_end r'" by (simp add: range_ok_def)
  with r'(3) assms(2,3) have
    "(in_range offset r' \<and> in_range offset r) \<or> (in_range (offset - 1) r' \<and> in_range (offset - 1) r)"
    by (auto simp: touches_def in_range_def)
  with unique_range [OF r'(2) r] have "r' = r" by blast
  with r'(1) show ?thesis by simp
qed

end

section \<open>What to execute without a chooser\<close>

datatype selection_source = FromSelection | FromStatement | FromLine

record execution_selection =
  selection_sql :: jsstr
  selection_source :: selection_source

definition line_end_at :: "jsstr \<Rightarrow> nat \<Rightarrow> nat" where
  "line_end_at text offset =
     (case index_of text [newline] offset of None \<Rightarrow> length text | Some k \<Rightarrow> k)"

definition executable_on_line :: "jsstr \<Rightarrow> nat \<Rightarrow> stmt_range list \<Rightarrow> execution_selection option" where
  "executable_on_line text offset rs =
     (let lineStart = line_start text offset;
          lineEnd = line_end_at text offset;
          line = trim (slice text lineStart lineEnd)
      in if line = [] then None
         else
           (case find (\<lambda>r. range_start r < lineEnd \<and> lineStart \<le> range_end r) (rev rs) of
              Some r \<Rightarrow> if trim (range_text r) \<noteq> []
                        then Some \<lparr>selection_sql = range_text r, selection_source = FromStatement\<rparr>
                        else Some \<lparr>selection_sql = line, selection_source = FromLine\<rparr>
            | None \<Rightarrow> Some \<lparr>selection_sql = line, selection_source = FromLine\<rparr>))"

definition executable_in_ranges ::
  "jsstr \<Rightarrow> nat \<Rightarrow> stmt_range list \<Rightarrow> execution_selection option" where
  "executable_in_ranges text offset rs =
     (case find (touches offset) rs of
        Some r \<Rightarrow> if trim (range_text r) \<noteq> []
                  then Some \<lparr>selection_sql = range_text r, selection_source = FromStatement\<rparr>
                  else executable_on_line text offset rs
      | None \<Rightarrow> executable_on_line text offset rs)"

definition resolveExecutableSql ::
  "jsstr \<Rightarrow> js_number \<Rightarrow> jsstr \<Rightarrow> execution_selection option" where
  "resolveExecutableSql sql cursorOffset selectedSql =
     (if trim selectedSql \<noteq> []
      then Some \<lparr>selection_sql = selectedSql, selection_source = FromSelection\<rparr>
      else
        (let text = normalize_newlines sql;
             offset = clamp_offset (length text) cursorOffset
         in executable_in_ranges text offset (findSqlStatementRanges text)))"

lemma executable_in_ranges_sql:
  assumes "executable_in_ranges text offset rs = Some sel"
  shows "trim (selection_sql sel) \<noteq> []"
    and "(selection_source sel = FromStatement \<and> (\<exists>r \<in> set rs. selection_sql sel = range_text r)) \<or>
         (selection_source sel = FromLine \<and>
          selection_sql sel = trim (slice text (line_start text offset) (line_end_at text offset)))"
  using assms
  by (auto simp: executable_in_ranges_def executable_on_line_def Let_def
      dest!: find_member split: option.splits if_splits)

lemma executable_in_ranges_None:
  assumes "executable_in_ranges text offset rs = None"
  shows "trim (slice text (line_start text offset) (line_end_at text offset)) = []"
  using assms
  by (auto simp: executable_in_ranges_def executable_on_line_def Let_def
      split: option.splits if_splits)

section \<open>Properties\<close>

text \<open>C1: The statement splitter partitions the script: every range it returns is non-empty,
  trimmed, inside the (newline-normalised) text and carries exactly its slice; the ranges are
  in order and do not overlap; and every character outside all ranges is white space, a
  separator or part of a stand-alone slash line, so no SQL is lost or run twice.\<close>

theorem findSqlStatementRanges_partition:
  "(\<forall>r \<in> set (findSqlStatementRanges sql). range_ok (normalize_newlines sql) r) \<and>
   sorted_wrt (\<lambda>a b. range_end a \<le> range_start b) (findSqlStatementRanges sql) \<and>
   (\<forall>k < length (normalize_newlines sql).
      (\<exists>r \<in> set (findSqlStatementRanges sql). in_range k r) \<or> dropped_ok (normalize_newlines sql) k)"
  using splitter.member_ok splitter.ordered splitter.covers
  unfolding ordered_ranges_def by blast

theorem findSqlStatementRanges_partition_witness:
  "map range_text (findSqlStatementRanges (js ''a; b'')) = [js ''a'', js ''b''] \<and>
   ((\<exists>r \<in> set (findSqlStatementRanges (js ''a; b'')). in_range 3 r) \<or>
    dropped_ok (normalize_newlines (js ''a; b'')) 3)"
proof
  show "map range_text (findSqlStatementRanges (js ''a; b'')) = [js ''a'', js ''b'']" by code_simp
  have "3 < length (normalize_newlines (js ''a; b''))" by code_simp
  then show "(\<exists>r \<in> set (findSqlStatementRanges (js ''a; b'')). in_range 3 r) \<or>
    dropped_ok (normalize_newlines (js ''a; b'')) 3"
    using findSqlStatementRanges_partition [of "js ''a; b''"] by blast
qed

text \<open>C2: The statement at the cursor: with the cursor strictly inside a statement the answer is
  that statement; with the cursor on the edge of a statement the answer is a statement the
  cursor touches; and whatever the cursor, an answer is one of the script's statements.\<close>

theorem resolveCurrentSqlStatementRange_correct:
  fixes sql cursor
  defines "t \<equiv> normalize_newlines sql"
  defines "off \<equiv> clamp_offset (length t) cursor"
  shows "(\<forall>r \<in> set (findSqlStatementRanges t). range_start r < off \<and> off < range_end r \<longrightarrow>
       resolveCurrentSqlStatementRange sql cursor = Some r) \<and>
    (\<forall>r \<in> set (findSqlStatementRanges t). touches off r \<longrightarrow>
       (\<exists>r'. resolveCurrentSqlStatementRange sql cursor = Some r' \<and> touches off r')) \<and>
    (\<forall>r. resolveCurrentSqlStatementRange sql cursor = Some r \<longrightarrow>
       r \<in> set (findSqlStatementRanges t))"
proof (intro conjI)
  have eq: "resolveCurrentSqlStatementRange sql cursor =
      select_range t off (findSqlStatementRanges t)"
    by (simp add: resolveCurrentSqlStatementRange_def Let_def t_def off_def)
  show "(\<forall>r \<in> set (findSqlStatementRanges t). range_start r < off \<and> off < range_end r \<longrightarrow>
       resolveCurrentSqlStatementRange sql cursor = Some r)"
    unfolding eq using splitter.select_inside by blast
  show "(\<forall>r \<in> set (findSqlStatementRanges t). touches off r \<longrightarrow>
       (\<exists>r'. resolveCurrentSqlStatementRange sql cursor = Some r' \<and> touches off r'))"
    unfolding eq using select_range_touches by blast
  show "(\<forall>r. resolveCurrentSqlStatementRange sql cursor = Some r \<longrightarrow>
       r \<in> set (findSqlStatementRanges t))"
    unfolding eq using select_range_member by blast
qed

theorem resolveCurrentSqlStatementRange_correct_witness:
  "map_option range_text (resolveCurrentSqlStatementRange (js ''select 1; drop t'') (Finite 12)) =
     Some (js ''drop t'')"
proof -
  have "\<exists>r \<in> set (findSqlStatementRanges (normalize_newlines (js ''select 1; drop t''))).
      range_text r = js ''drop t'' \<and>
      range_start r < clamp_offset (length (normalize_newlines (js ''select 1; drop t''))) (Finite 12) \<and>
      clamp_offset (length (normalize_newlines (js ''select 1; drop t''))) (Finite 12) < range_end r"
    by code_simp
  then show ?thesis
    using resolveCurrentSqlStatementRange_correct [of "js ''select 1; drop t''" "Finite 12"] by fastforce
qed


end
