(* ===== verification/SqlSources.thy ===== *)
theory SqlSources
  imports SqlStatements "HOL-Library.Product_Lexorder"
begin

text \<open>
  Subqueries and joined tables: the second half of
  \<open>frontend/src/utils/sqlStatementSelection.ts\<close> (\<open>findSqlSubqueryRanges\<close>,
  \<open>resolveEnclosingSqlSubqueryRange\<close>, \<open>findSqlJoinTableSources\<close>).

  Both scanners start a round with the same tests, which depend on the dialect: comments
  and dollar tags (\<open>dialect_lex\<close>), backslash escapes (\<open>dialect_escape\<close>), quotes with
  doubled closers (\<open>dialect_quote\<close>). Each returns \<open>Some\<close> of the next index and state where
  the code says \<open>continue\<close>.
\<close>

section \<open>Dialects\<close>

record sql_options =
  mysqlLike :: bool
  postgresLike :: bool

definition isMysqlSubqueryDialect :: "jsstr \<Rightarrow> bool" where
  "isMysqlSubqueryDialect dialect \<longleftrightarrow>
     to_lower (trim dialect) \<in>
       {js ''mysql'', js ''mariadb'', js ''oceanbase'', js ''diros'', js ''starrocks'',
        js ''sphinx'', js ''tidb''}"

definition isPostgresSubqueryDialect :: "jsstr \<Rightarrow> bool" where
  "isPostgresSubqueryDialect dialect \<longleftrightarrow>
     to_lower (trim dialect) \<in>
       {js ''postgres'', js ''postgresql'', js ''kingbase'', js ''highgo'', js ''vastbase'',
        js ''opengauss'', js ''gaussdb''}"

section \<open>The shared start of a round\<close>

definition dash_comment :: "sql_options \<Rightarrow> jsstr \<Rightarrow> nat \<Rightarrow> bool" where
  "dash_comment opts text i \<longleftrightarrow>
     text ! i = cu CHR ''-'' \<and> at text (i + 1) = Some (cu CHR ''-'') \<and>
     (postgresLike opts \<or> length text \<le> i + 2 \<or> isWhitespace (text ! (i + 2)))"

definition dialect_lex ::
  "sql_options \<Rightarrow> jsstr \<Rightarrow> nat \<Rightarrow> 'a lex_state_scheme \<Rightarrow> (nat \<times> 'a lex_state_scheme) option" where
  "dialect_lex opts text index s =
     (let ch = text ! index; next1 = at text (index + 1) in
      case dollarTag s of
        Some tag \<Rightarrow>
          Some (if starts_with_at text tag index then (index + length tag, s\<lparr>dollarTag := None\<rparr>)
                else (index + 1, s))
      | None \<Rightarrow>
          if inLineComment s then
            Some (index + 1, if ch = newline then s\<lparr>inLineComment := False\<rparr> else s)
          else if inBlockComment s then
            Some (if ch = cu CHR ''*'' \<and> next1 = Some (cu CHR ''/'')
                  then (index + 2, s\<lparr>inBlockComment := False\<rparr>) else (index + 1, s))
          else if \<not> inSingle s \<and> \<not> inDouble s \<and> \<not> inBacktick s then
            (if ch = cu CHR ''/'' \<and> next1 = Some (cu CHR ''*'')
               then Some (index + 2, s\<lparr>inBlockComment := True\<rparr>)
             else if dash_comment opts text index
               then Some (index + 2, s\<lparr>inLineComment := True\<rparr>)
             else if mysqlLike opts \<and> ch = cu CHR ''#''
               then Some (index + 1, s\<lparr>inLineComment := True\<rparr>)
             else if postgresLike opts then
               (case match_dollar_tag text index of
                  Some tag \<Rightarrow> Some (index + length tag, s\<lparr>dollarTag := Some tag\<rparr>)
                | None \<Rightarrow> None)
             else None)
          else None)"

definition dialect_escape ::
  "jsstr \<Rightarrow> nat \<Rightarrow> 'a lex_state_scheme \<Rightarrow> (nat \<times> 'a lex_state_scheme) option" where
  "dialect_escape text index s =
     (if escaped s then Some (index + 1, s\<lparr>escaped := False\<rparr>)
      else if (inSingle s \<or> inDouble s \<or> inBacktick s) \<and> text ! index = backslash
        then Some (index + 1, s\<lparr>escaped := True\<rparr>)
      else None)"

definition dialect_quote ::
  "sql_options \<Rightarrow> jsstr \<Rightarrow> nat \<Rightarrow> 'a lex_state_scheme \<Rightarrow> (nat \<times> 'a lex_state_scheme) option" where
  "dialect_quote opts text index s =
     (let ch = text ! index; next1 = at text (index + 1) in
      if \<not> inDouble s \<and> \<not> inBacktick s \<and> ch = squote then
        Some (if inSingle s \<and> next1 = Some squote then (index + 2, s)
              else (index + 1, s\<lparr>inSingle := \<not> inSingle s\<rparr>))
      else if \<not> inSingle s \<and> \<not> inBacktick s \<and> ch = dquote then
        Some (if inDouble s \<and> next1 = Some dquote then (index + 2, s)
              else (index + 1, s\<lparr>inDouble := \<not> inDouble s\<rparr>))
      else if mysqlLike opts \<and> \<not> inSingle s \<and> \<not> inDouble s \<and> ch = backtick then
        Some (if inBacktick s \<and> next1 = Some backtick then (index + 2, s)
              else (index + 1, s\<lparr>inBacktick := \<not> inBacktick s\<rparr>))
      else if inSingle s \<or> inDouble s \<or> inBacktick s then Some (index + 1, s)
      else None)"

text \<open>What these tests keep: they move forward and touch only the base record.\<close>

lemma dialect_lex_keeps:
  assumes "dialect_lex opts text i s = Some (j, s')" and "lex_ok s"
  shows "i < j \<and> lex_ok s' \<and> lex_state.more s' = lex_state.more s"
proof (cases "dollarTag s")
  case (Some tag)
  with assms have "tag \<noteq> []" by (auto simp: lex_ok_def)
  with Some assms show ?thesis by (auto simp: dialect_lex_def lex_ok_def Let_def split: if_splits)
next
  case None
  have "tag \<noteq> []" if "match_dollar_tag text i = Some tag" for tag
    using match_dollar_tag_length [OF that] by auto
  with None assms show ?thesis
    by (auto simp: dialect_lex_def lex_ok_def Let_def match_dollar_tag_length
        split: if_splits option.splits)
qed

lemma dialect_escape_keeps:
  "dialect_escape text i s = Some (j, s') \<Longrightarrow> lex_ok s \<Longrightarrow>
   i < j \<and> lex_ok s' \<and> lex_state.more s' = lex_state.more s"
  by (auto simp: dialect_escape_def lex_ok_def split: if_splits)

lemma dialect_quote_keeps:
  "dialect_quote opts text i s = Some (j, s') \<Longrightarrow> lex_ok s \<Longrightarrow>
   i < j \<and> lex_ok s' \<and> lex_state.more s' = lex_state.more s"
  by (auto simp: dialect_quote_def Let_def lex_ok_def split: if_splits)

section \<open>Parenthesised subqueries\<close>

record subquery_state = lex_state +
  openParentheses :: "nat list"
  subqueries :: "stmt_range list"

definition init_subquery_state :: subquery_state where
  "init_subquery_state =
     \<lparr>inSingle = False, inDouble = False, inBacktick = False, escaped = False,
      inLineComment = False, inBlockComment = False, dollarTag = None,
      openParentheses = [], subqueries = []\<rparr>"

text \<open>A closing parenthesis with an open one on the stack (whose top is the head).\<close>

definition close_parenthesis :: "jsstr \<Rightarrow> nat \<Rightarrow> subquery_state \<Rightarrow> subquery_state" where
  "close_parenthesis text index s =
     (let s' = s\<lparr>openParentheses := tl (openParentheses s)\<rparr> in
      case trimStatementRange text (hd (openParentheses s) + 1) index of
        None \<Rightarrow> s'
      | Some r \<Rightarrow>
          (let firstToken = nextSqlSignificantToken (range_text r) 0 in
           if firstToken = js ''select'' \<or> firstToken = js ''with''
           then s'\<lparr>subqueries := subqueries s @ [r]\<rparr> else s'))"

definition subquery_body :: "sql_options \<Rightarrow> jsstr \<Rightarrow> nat \<Rightarrow> subquery_state \<Rightarrow> nat \<times> subquery_state" where
  "subquery_body opts text index s =
     (case dialect_lex opts text index s of
        Some p \<Rightarrow> p
      | None \<Rightarrow>
          (case dialect_escape text index s of
             Some p \<Rightarrow> p
           | None \<Rightarrow>
               (case dialect_quote opts text index s of
                  Some p \<Rightarrow> p
                | None \<Rightarrow>
                    if text ! index = cu CHR ''(''
                      then (index + 1, s\<lparr>openParentheses := index # openParentheses s\<rparr>)
                    else if text ! index \<noteq> cu CHR '')'' \<or> openParentheses s = [] then (index + 1, s)
                    else (index + 1, close_parenthesis text index s))))"

definition scan_subqueries :: "sql_options \<Rightarrow> jsstr \<Rightarrow> stmt_range list" where
  "scan_subqueries opts text =
     sort_key (\<lambda>r. (range_start r, range_end r))
       (subqueries (snd (loop (length text) (subquery_body opts text) 0 init_subquery_state)))"

definition findSqlSubqueryRanges :: "jsstr \<Rightarrow> jsstr \<Rightarrow> stmt_range list" where
  "findSqlSubqueryRanges sql dialect =
     (let my = isMysqlSubqueryDialect dialect; pg = isPostgresSubqueryDialect dialect in
      if \<not> my \<and> \<not> pg then []
      else scan_subqueries \<lparr>mysqlLike = my, postgresLike = pg\<rparr> (normalize_newlines sql))"

definition range_size :: "stmt_range \<Rightarrow> nat" where
  "range_size r = range_end r - range_start r"

text \<open>The \<open>reduce\<close> that keeps the smallest range that touches the offset.\<close>

definition innermost_step :: "nat \<Rightarrow> stmt_range option \<Rightarrow> stmt_range \<Rightarrow> stmt_range option" where
  "innermost_step offset innermost candidate =
     (if offset < range_start candidate \<or> range_end candidate < offset then innermost
      else
        (case innermost of
           None \<Rightarrow> Some candidate
         | Some r \<Rightarrow> if range_size candidate < range_size r then Some candidate else Some r))"

definition innermost_touching :: "nat \<Rightarrow> stmt_range list \<Rightarrow> stmt_range option" where
  "innermost_touching offset rs = foldl (innermost_step offset) None rs"

definition resolveEnclosingSqlSubqueryRange ::
  "jsstr \<Rightarrow> js_number \<Rightarrow> jsstr \<Rightarrow> stmt_range option" where
  "resolveEnclosingSqlSubqueryRange sql cursorOffset dialect =
     (let text = normalize_newlines sql;
          offset = clamp_offset (length text) cursorOffset
      in innermost_touching offset (findSqlSubqueryRanges text dialect))"

subsection \<open>What the subquery ranges are\<close>

text \<open>A subquery range: the trimmed content of a pair of parentheses that starts with a query keyword.\<close>

definition subquery_ok :: "jsstr \<Rightarrow> stmt_range \<Rightarrow> bool" where
  "subquery_ok text r \<longleftrightarrow> range_ok text r \<and>
     nextSqlSignificantToken (range_text r) 0 \<in> {js ''select'', js ''with''} \<and>
     (\<exists>p q. p < range_start r \<and> range_end r \<le> q \<and> q < length text \<and>
        text ! p = cu CHR ''('' \<and> text ! q = cu CHR '')'' \<and>
        (\<forall>k. p < k \<and> k < range_start r \<longrightarrow> isWhitespace (text ! k)) \<and>
        (\<forall>k. range_end r \<le> k \<and> k < q \<longrightarrow> isWhitespace (text ! k)))"

definition nested_or_disjoint :: "stmt_range \<Rightarrow> stmt_range \<Rightarrow> bool" where
  "nested_or_disjoint a b \<longleftrightarrow>
     range_end a \<le> range_start b \<or> range_end b \<le> range_start a \<or>
     (range_start a \<le> range_start b \<and> range_end b \<le> range_end a) \<or>
     (range_start b \<le> range_start a \<and> range_end a \<le> range_end b)"

lemma nested_or_disjoint_refl [simp]: "nested_or_disjoint a a"
  by (simp add: nested_or_disjoint_def)

lemma nested_or_disjoint_sym: "nested_or_disjoint a b \<longleftrightarrow> nested_or_disjoint b a"
  by (auto simp: nested_or_disjoint_def)

definition subquery_inv :: "jsstr \<Rightarrow> nat \<Rightarrow> nat list \<Rightarrow> stmt_range list \<Rightarrow> bool" where
  "subquery_inv text i stack rs \<longleftrightarrow>
     (\<forall>p \<in> set stack. p < i \<and> p < length text \<and> text ! p = cu CHR ''('') \<and>
     sorted_wrt (>) stack \<and>
     (\<forall>r \<in> set rs. subquery_ok text r \<and> range_end r \<le> i) \<and>
     (\<forall>r \<in> set rs. \<forall>p \<in> set stack. p < range_start r \<or> range_end r \<le> p) \<and>
     (\<forall>a \<in> set rs. \<forall>b \<in> set rs. nested_or_disjoint a b)"

lemma subquery_inv_mono: "subquery_inv text i stack rs \<Longrightarrow> i \<le> j \<Longrightarrow> subquery_inv text j stack rs"
  by (fastforce simp: subquery_inv_def)

lemma subquery_inv_open:
  assumes "subquery_inv text i stack rs" and "i < length text" and "text ! i = cu CHR ''(''"
  shows "subquery_inv text (i + 1) (i # stack) rs"
  using assms by (fastforce simp: subquery_inv_def)

lemma subquery_inv_pop:
  "subquery_inv text i (p # stack) rs \<Longrightarrow> subquery_inv text (i + 1) stack rs"
  by (fastforce simp: subquery_inv_def)

text \<open>A range found later contains or misses every range found before.\<close>

lemma trimmed_nested:
  assumes t: "trimStatementRange text (p + 1) i = Some r"
    and a: "range_ok text a" "range_end a \<le> i" and p: "p < range_start a \<or> range_end a \<le> p"
  shows "nested_or_disjoint a r"
proof -
  note r = trimStatementRange_Some [OF t]
  show ?thesis
  proof (cases "p < range_start a")
    case True
    have len: "range_end a \<le> length text" "range_start a < range_end a"
      and w: "\<not> isWhitespace (text ! range_start a)" "\<not> isWhitespace (text ! (range_end a - 1))"
      using a(1) by (auto simp: range_ok_def)
    have "range_start r \<le> range_start a"
      using r(4) [of "range_start a"] True w(1) by (cases "range_start a < range_start r") auto
    moreover have "range_end a \<le> range_end r"
      using r(5) [of "range_end a - 1"] len w(2) a(2)
      by (cases "range_end a \<le> range_end r") auto
    ultimately show ?thesis by (simp add: nested_or_disjoint_def)
  next
    case False
    with p r(2) show ?thesis by (simp add: nested_or_disjoint_def)
  qed
qed

lemma subquery_inv_push:
  assumes inv: "subquery_inv text i (p # stack) rs" and i: "i < length text" "text ! i = cu CHR '')''"
    and t: "trimStatementRange text (p + 1) i = Some r"
    and k: "nextSqlSignificantToken (range_text r) 0 \<in> {js ''select'', js ''with''}"
  shows "subquery_inv text (i + 1) stack (rs @ [r])"
proof -
  note r = trimStatementRange_Some [OF t]
  have p: "p < i" "text ! p = cu CHR ''(''" using inv by (auto simp: subquery_inv_def)
  have re: "range_end r \<le> i" using r(3) p(1) by simp
  have "p < range_start r" "\<forall>k. p < k \<and> k < range_start r \<longrightarrow> isWhitespace (text ! k)"
    "\<forall>k. range_end r \<le> k \<and> k < i \<longrightarrow> isWhitespace (text ! k)"
    using r(2,4,5) i(1) by auto
  then have ok: "subquery_ok text r"
    using r(1) k i p re unfolding subquery_ok_def by blast
  have nest: "nested_or_disjoint a r" if "a \<in> set rs" for a
    using inv that by (intro trimmed_nested [OF t]) (auto simp: subquery_inv_def subquery_ok_def)
  have stack: "q < range_start r" if "q \<in> set stack" for q
    using inv r(2) that by (fastforce simp: subquery_inv_def)
  show ?thesis
    using inv ok re nest stack nested_or_disjoint_sym [of r]
    by (fastforce simp: subquery_inv_def)
qed

lemma subquery_more:
  fixes s s' :: subquery_state
  assumes "lex_state.more s' = lex_state.more s"
  shows "openParentheses s' = openParentheses s" and "subqueries s' = subqueries s"
  using assms by (cases s; cases s'; simp)+

lemma subquery_body_cases:
  assumes "lex_ok s" and "i < length text"
  obtains (same) "openParentheses (snd (subquery_body opts text i s)) = openParentheses s"
      "subqueries (snd (subquery_body opts text i s)) = subqueries s"
      "i < fst (subquery_body opts text i s)" "lex_ok (snd (subquery_body opts text i s))"
  | (opened) "subquery_body opts text i s = (i + 1, s\<lparr>openParentheses := i # openParentheses s\<rparr>)"
      "text ! i = cu CHR ''(''"
  | (closed) "subquery_body opts text i s = (i + 1, close_parenthesis text i s)"
      "text ! i = cu CHR '')''" "openParentheses s \<noteq> []"
proof -
  note more = subquery_more
  show thesis
  proof (cases "dialect_lex opts text i s")
    case (Some p)
    with dialect_lex_keeps [of opts "text" i s "fst p" "snd p"] assms more [of "snd p" s] show thesis
      by (intro same) (simp_all add: subquery_body_def)
  next
    case lex: None
    show thesis
    proof (cases "dialect_escape text i s")
      case (Some p)
      with lex dialect_escape_keeps [of "text" i s "fst p" "snd p"] assms more [of "snd p" s] show thesis
        by (intro same) (simp_all add: subquery_body_def)
    next
      case esc: None
      show thesis
      proof (cases "dialect_quote opts text i s")
        case (Some p)
        with lex esc dialect_quote_keeps [of opts "text" i s "fst p" "snd p"] assms more [of "snd p" s] show thesis
          by (intro same) (simp_all add: subquery_body_def)
      next
        case None
        with lex esc have b: "subquery_body opts text i s =
          (if text ! i = cu CHR ''('' then (i + 1, s\<lparr>openParentheses := i # openParentheses s\<rparr>)
           else if text ! i \<noteq> cu CHR '')'' \<or> openParentheses s = [] then (i + 1, s)
           else (i + 1, close_parenthesis text i s))"
          by (simp add: subquery_body_def)
        consider "text ! i = cu CHR ''(''" | "text ! i \<noteq> cu CHR ''(''"
            "text ! i \<noteq> cu CHR '')'' \<or> openParentheses s = []"
          | "text ! i = cu CHR '')''" "openParentheses s \<noteq> []" by fastforce
        then show thesis
        proof cases
          case 1
          with b show thesis by (intro opened) simp_all
        next
          case 2
          with b assms(1) show thesis by (intro same) simp_all
        next
          case 3
          with b show thesis by (intro closed) simp_all
        qed
      qed
    qed
  qed
qed

lemma close_parenthesis_lex [simp]: "lex_ok (close_parenthesis text i s) \<longleftrightarrow> lex_ok s"
  by (simp add: close_parenthesis_def lex_ok_def Let_def split: option.split)

interpretation subquery_scan: advancing "length text" "subquery_body opts text" lex_ok
  for opts "text"
proof
  fix i and s :: subquery_state
  assume s: "lex_ok s" "i < length text"
  have "i < fst (subquery_body opts text i s) \<and> lex_ok (snd (subquery_body opts text i s))"
    using s
  proof (cases rule: subquery_body_cases [of s i "text" opts])
    case opened
    with s(1) show ?thesis by (simp add: lex_ok_def)
  next
    case closed
    with s(1) show ?thesis by simp
  qed simp
  then show "i < fst (subquery_body opts text i s)" "lex_ok (snd (subquery_body opts text i s))"
    by simp_all
qed

lemma subquery_inv_step:
  assumes i: "i < length text" and lex: "lex_ok s"
    and inv: "subquery_inv text i (openParentheses s) (subqueries s)"
  shows "subquery_inv text (fst (subquery_body opts text i s))
    (openParentheses (snd (subquery_body opts text i s)))
    (subqueries (snd (subquery_body opts text i s)))"
  using lex i
proof (cases rule: subquery_body_cases [of s i "text" opts])
  case same
  with inv subquery_scan.body_advances [OF i lex, of opts] show ?thesis
    by (simp add: subquery_inv_mono)
next
  case opened
  with subquery_inv_open [OF inv i] show ?thesis by simp
next
  case closed
  obtain p stack where st: "openParentheses s = p # stack"
    using closed(3) by (cases "openParentheses s") auto
  with inv have inv': "subquery_inv text i (p # stack) (subqueries s)" by simp
  show ?thesis
  proof (cases "trimStatementRange text (p + 1) i")
    case None
    with closed(1) st subquery_inv_pop [OF inv'] show ?thesis
      by (simp add: close_parenthesis_def Let_def)
  next
    case (Some r)
    with closed(1) st subquery_inv_pop [OF inv'] subquery_inv_push [OF inv' i closed(2) Some]
    show ?thesis by (simp add: close_parenthesis_def Let_def)
  qed
qed

lemma scan_subqueries_inv:
  obtains i stack rs where "subquery_inv text i stack rs"
    and "scan_subqueries opts text = sort_key (\<lambda>r. (range_start r, range_end r)) rs"
proof -
  let ?l = "loop (length text) (subquery_body opts text) 0 init_subquery_state"
  have "subquery_inv text (fst ?l) (openParentheses (snd ?l)) (subqueries (snd ?l)) \<and>
    lex_ok (snd ?l) \<and> length text \<le> fst ?l"
  proof (rule subquery_scan.loop_induct
      [where I = "\<lambda>i s. subquery_inv text i (openParentheses s) (subqueries s)"])
    show "subquery_inv text 0 (openParentheses init_subquery_state) (subqueries init_subquery_state)"
      by (simp add: subquery_inv_def init_subquery_state_def)
    show "lex_ok init_subquery_state" by (simp add: lex_ok_def init_subquery_state_def)
  qed (rule subquery_inv_step)
  then show thesis by (intro that) (auto simp: scan_subqueries_def)
qed

lemma scan_subqueries_correct:
  shows "r \<in> set (scan_subqueries opts text) \<Longrightarrow> subquery_ok text r"
    and "r \<in> set (scan_subqueries opts text) \<Longrightarrow> r' \<in> set (scan_subqueries opts text) \<Longrightarrow>
      nested_or_disjoint r r'"
    and "sorted (map (\<lambda>r. (range_start r, range_end r)) (scan_subqueries opts text))"
proof -
  obtain i stack rs where inv: "subquery_inv text i stack rs"
    and eq: "scan_subqueries opts text = sort_key (\<lambda>r. (range_start r, range_end r)) rs"
    by (rule scan_subqueries_inv)
  show "r \<in> set (scan_subqueries opts text) \<Longrightarrow> subquery_ok text r"
    using inv by (simp add: eq subquery_inv_def)
  show "r \<in> set (scan_subqueries opts text) \<Longrightarrow> r' \<in> set (scan_subqueries opts text) \<Longrightarrow>
      nested_or_disjoint r r'"
    using inv by (simp add: eq subquery_inv_def)
  show "sorted (map (\<lambda>r. (range_start r, range_end r)) (scan_subqueries opts text))"
    by (simp add: eq)
qed

subsection \<open>The innermost subquery\<close>

lemma innermost_fold:
  assumes "foldl (innermost_step offset) acc rs = res"
    and "\<forall>r. acc = Some r \<longrightarrow> touches' r" and "touches' = (\<lambda>r. range_start r \<le> offset \<and> offset \<le> range_end r)"
  shows "(res = None \<longleftrightarrow> acc = None \<and> (\<forall>r \<in> set rs. \<not> touches' r)) \<and>
    (\<forall>r. res = Some r \<longrightarrow> touches' r \<and> (acc = Some r \<or> r \<in> set rs) \<and>
       (\<forall>r' \<in> set rs. touches' r' \<longrightarrow> range_size r \<le> range_size r') \<and>
       (\<forall>r'. acc = Some r' \<longrightarrow> range_size r \<le> range_size r'))"
  using assms
proof (induction rs arbitrary: acc)
  case Nil
  then show ?case by auto
next
  case (Cons x rs)
  let ?acc = "innermost_step offset acc x"
  have "\<forall>r. ?acc = Some r \<longrightarrow> touches' r"
    using Cons.prems(2,3) by (auto simp: innermost_step_def split: option.splits if_splits)
  from Cons.IH [OF _ this Cons.prems(3)] Cons.prems(1)
  have IH: "(res = None \<longleftrightarrow> ?acc = None \<and> (\<forall>r \<in> set rs. \<not> touches' r)) \<and>
    (\<forall>r. res = Some r \<longrightarrow> touches' r \<and> (?acc = Some r \<or> r \<in> set rs) \<and>
       (\<forall>r' \<in> set rs. touches' r' \<longrightarrow> range_size r \<le> range_size r') \<and>
       (\<forall>r'. ?acc = Some r' \<longrightarrow> range_size r \<le> range_size r'))" by simp
  show ?case
  proof (cases "touches' x")
    case False
    with Cons.prems(3) have "?acc = acc" by (auto simp: innermost_step_def)
    with IH False show ?thesis by auto
  next
    case True
    then have x: "?acc = (case acc of None \<Rightarrow> Some x
        | Some r \<Rightarrow> if range_size x < range_size r then Some x else Some r)"
      using Cons.prems(3) by (auto simp: innermost_step_def)
    show ?thesis
    proof (cases acc)
      case None
      with IH x True show ?thesis by auto
    next
      case (Some r)
      with IH x True show ?thesis
        by (cases "range_size x < range_size r") fastforce+
    qed
  qed
qed

section \<open>Properties\<close>

text \<open>C5: Subquery detection is sound: every range it offers is the trimmed content of a pair of
  parentheses and starts with \<open>SELECT\<close> or \<open>WITH\<close>; any two ranges are disjoint or nested;
  the ranges are sorted by start and end; and no range is offered for an unknown dialect.\<close>

theorem findSqlSubqueryRanges_correct:
  "(\<forall>r \<in> set (findSqlSubqueryRanges sql dialect). subquery_ok (normalize_newlines sql) r) \<and>
   (\<forall>r \<in> set (findSqlSubqueryRanges sql dialect). \<forall>r' \<in> set (findSqlSubqueryRanges sql dialect).
      nested_or_disjoint r r') \<and>
   sorted (map (\<lambda>r. (range_start r, range_end r)) (findSqlSubqueryRanges sql dialect)) \<and>
   (findSqlSubqueryRanges sql dialect \<noteq> [] \<longrightarrow>
      isMysqlSubqueryDialect dialect \<or> isPostgresSubqueryDialect dialect)"
  using scan_subqueries_correct by (simp add: findSqlSubqueryRanges_def Let_def)

theorem findSqlSubqueryRanges_correct_witness:
  "map range_text (findSqlSubqueryRanges (js ''select (select 1) from ( with t )'') (js ''mysql'')) =
     [js ''select 1'', js ''with t''] \<and> isMysqlSubqueryDialect (js ''mysql'')"
proof -
  have a: "map range_text (findSqlSubqueryRanges (js ''select (select 1) from ( with t )'') (js ''mysql'')) =
     [js ''select 1'', js ''with t'']" by code_simp
  then have "findSqlSubqueryRanges (js ''select (select 1) from ( with t )'') (js ''mysql'') \<noteq> []" by auto
  then have "isMysqlSubqueryDialect (js ''mysql'') \<or> isPostgresSubqueryDialect (js ''mysql'')"
    using findSqlSubqueryRanges_correct [of "js ''select (select 1) from ( with t )''" "js ''mysql''"] by blast
  moreover have "\<not> isPostgresSubqueryDialect (js ''mysql'')" by code_simp
  ultimately show ?thesis using a by blast
qed

text \<open>The enclosing subquery is the innermost one: the answer touches the cursor and no
  subquery that touches the cursor is smaller, and there is no answer only when no
  subquery touches the cursor.\<close>

theorem resolveEnclosingSqlSubqueryRange_innermost:
  fixes sql cursor dialect
  defines "t \<equiv> normalize_newlines sql"
  defines "off \<equiv> clamp_offset (length t) cursor"
  defines "subs \<equiv> findSqlSubqueryRanges t dialect"
  shows "case resolveEnclosingSqlSubqueryRange sql cursor dialect of
      None \<Rightarrow> \<not> (\<exists>r \<in> set subs. range_start r \<le> off \<and> off \<le> range_end r)
    | Some r \<Rightarrow> r \<in> set subs \<and> range_start r \<le> off \<and> off \<le> range_end r \<and>
        \<not> (\<exists>r' \<in> set subs. range_start r' \<le> off \<and> off \<le> range_end r' \<and>
             range_size r' < range_size r)"
proof -
  have "resolveEnclosingSqlSubqueryRange sql cursor dialect = foldl (innermost_step off) None subs"
    by (simp add: resolveEnclosingSqlSubqueryRange_def Let_def innermost_touching_def t_def off_def subs_def)
  from innermost_fold [OF this [symmetric] _ refl] show ?thesis
    by (auto simp: not_less split: option.split)
qed

end
