(* ===== verification/SqlJoins.thy ===== *)
theory SqlJoins
  imports SqlSources
begin

text \<open>
  The tables of \<open>FROM\<close> and \<open>JOIN\<close> lists: \<open>findSqlJoinTableSources\<close> of
  \<open>frontend/src/utils/sqlStatementSelection.ts\<close> with its readers of identifiers and
  qualified names.
\<close>

section \<open>Reading identifiers\<close>

definition FROM_CLAUSE_TERMINATORS :: "jsstr list" where
  "FROM_CLAUSE_TERMINATORS = map js
     [''where'', ''group'', ''order'', ''having'', ''limit'', ''offset'', ''fetch'', ''window'',
      ''union'', ''except'', ''intersect'', ''minus'', ''for'', ''into'', ''returning'', ''start'',
      ''connect'', ''qualify'', ''settings'']"

definition JOIN_PREFIX_KEYWORDS :: "jsstr list" where
  "JOIN_PREFIX_KEYWORDS = map js
     [''inner'', ''left'', ''right'', ''full'', ''cross'', ''outer'', ''natural'', ''lateral'',
      ''straight_join'']"

definition skip_trivia_body ::
  "sql_options \<Rightarrow> jsstr \<Rightarrow> nat \<Rightarrow> unit \<Rightarrow> nat + nat \<times> unit" where
  "skip_trivia_body opts text index u =
     (let ch = text ! index; next1 = at text (index + 1) in
      if isWhitespace ch then Inr (index + 1, u)
      else if dash_comment opts text index then Inr (line_end text (index + 2), u)
      else if mysqlLike opts \<and> ch = cu CHR ''#'' then Inr (line_end text (index + 1), u)
      else if ch = cu CHR ''/'' \<and> next1 = Some (cu CHR ''*'')
        then Inr (block_comment_end text (index + 2), u)
      else Inl index)"

definition skipSqlTrivia :: "sql_options \<Rightarrow> jsstr \<Rightarrow> nat \<Rightarrow> nat" where
  "skipSqlTrivia opts text position =
     (case loop_ret (length text) (skip_trivia_body opts text) position () of
        Inl j \<Rightarrow> j | Inr (j, _) \<Rightarrow> j)"

interpretation skip_trivia: advancing_ret "length text" "skip_trivia_body opts text" "\<lambda>_. True"
  for opts "text"
proof
  fix i p and u :: unit
  assume b: "skip_trivia_body opts text i u = Inr p"
  have "i < line_end text (i + 2)" "i < line_end text (i + 1)" "i < block_comment_end text (i + 2)"
    by simp_all
  with b show "i < fst p" by (auto simp: skip_trivia_body_def Let_def split: if_splits)
qed simp

definition quoted_identifier_body ::
  "jsstr \<Rightarrow> nat \<Rightarrow> jschar \<Rightarrow> nat \<Rightarrow> unit \<Rightarrow> (nat \<times> jsstr) + nat \<times> unit" where
  "quoted_identifier_body text position quote index u =
     (let ch = text ! index in
      if ch = quote then
        (if at text (index + 1) = Some quote then Inr (index + 2, u)
         else Inl (index + 1, slice text position (index + 1)))
      else if ch = backslash then Inr (index + 2, u)
      else Inr (index + 1, u))"

definition readSqlQuotedIdentifier :: "jsstr \<Rightarrow> nat \<Rightarrow> jschar \<Rightarrow> (nat \<times> jsstr) option" where
  "readSqlQuotedIdentifier text position quote =
     (if at text position \<noteq> Some quote then None
      else
        (case loop_ret (length text) (quoted_identifier_body text position quote) (position + 1) () of
           Inl r \<Rightarrow> Some r | Inr _ \<Rightarrow> None))"

interpretation quoted_identifier:
  advancing_ret "length text" "quoted_identifier_body text position quote" "\<lambda>_. True"
  for "text" position quote
  by unfold_locales (auto simp: quoted_identifier_body_def Let_def split: if_splits)

text \<open>The end of the identifier and its text, quotes included.\<close>

definition readSqlIdentifierPart :: "sql_options \<Rightarrow> jsstr \<Rightarrow> nat \<Rightarrow> (nat \<times> jsstr) option" where
  "readSqlIdentifierPart opts text position =
     (let index = skipSqlTrivia opts text position in
      case at text index of
        None \<Rightarrow> None
      | Some ch \<Rightarrow>
          if mysqlLike opts \<and> ch = backtick then readSqlQuotedIdentifier text index backtick
          else if (postgresLike opts \<or> \<not> mysqlLike opts) \<and> ch = dquote
            then readSqlQuotedIdentifier text index dquote
          else if \<not> isSqlIdentifierStart ch then None
          else Some (identifier_end text (index + 1),
                     slice text index (identifier_end text (index + 1))))"

record join_source = stmt_range +
  tableRef :: jsstr
  executableSql :: jsstr

text \<open>\<open>value.replace(/^[`"]|[`"]$/g, '')\<close>: one quote at either end.\<close>

definition identifier_quote :: "jschar \<Rightarrow> bool" where
  "identifier_quote c \<longleftrightarrow> c = backtick \<or> c = dquote"

definition strip_outer_quotes :: "jsstr \<Rightarrow> jsstr" where
  "strip_outer_quotes v =
     (let v' = (if v \<noteq> [] \<and> identifier_quote (hd v) then tl v else v) in
      if v' \<noteq> [] \<and> identifier_quote (last v') then butlast v' else v')"

definition qualified_ref_body ::
  "sql_options \<Rightarrow> jsstr \<Rightarrow> nat \<Rightarrow> jsstr list \<Rightarrow> (nat \<times> jsstr list) + nat \<times> jsstr list" where
  "qualified_ref_body opts text end_pos parts =
     (let dotPos = skipSqlTrivia opts text end_pos in
      if at text dotPos \<noteq> Some (cu CHR ''.'') then Inl (end_pos, parts)
      else
        (case readSqlIdentifierPart opts text (dotPos + 1) of
           None \<Rightarrow> Inl (end_pos, parts)
         | Some (e, v) \<Rightarrow> Inr (e, parts @ [v])))"

definition not_a_table :: "jsstr list" where
  "not_a_table = map js
     [''select'', ''with'', ''values'', ''lateral'', ''unnest'', ''jsonb_each'', ''json_each'',
      ''generate_series'', ''table'', ''only'', ''rows'', ''xmltable'']"

definition select_all_from :: "jsstr \<Rightarrow> jsstr" where
  "select_all_from table = js ''SELECT * FROM '' @ table"

definition readSqlQualifiedTableRef :: "sql_options \<Rightarrow> jsstr \<Rightarrow> nat \<Rightarrow> join_source option" where
  "readSqlQualifiedTableRef opts text position =
     (case readSqlIdentifierPart opts text position of
        None \<Rightarrow> None
      | Some (e, v) \<Rightarrow>
          if to_lower (strip_outer_quotes v) \<in> set not_a_table then None
          else
            (let (end_pos, parts) =
                   (case loop_ret (length text) (qualified_ref_body opts text) e [v] of
                      Inl r \<Rightarrow> r | Inr r \<Rightarrow> r);
                 table = join [cu CHR ''.''] parts
             in Some \<lparr>range_start = skipSqlTrivia opts text position, range_end = end_pos,
                      range_text = table, tableRef = table,
                      executableSql = select_all_from table\<rparr>))"

section \<open>The scanner\<close>

record join_state = lex_state +
  parenDepth :: nat
  inFromClause :: bool
  expectTable :: bool
  seen_keys :: "jsstr list"
  join_sources :: "join_source list"

definition init_join_state :: join_state where
  "init_join_state =
     \<lparr>inSingle = False, inDouble = False, inBacktick = False, escaped = False,
      inLineComment = False, inBlockComment = False, dollarTag = None,
      parenDepth = 0, inFromClause = False, expectTable = False, seen_keys = [], join_sources = []\<rparr>"

text \<open>\<open>source.tableRef.replace(/[`"]/g, '').toLowerCase()\<close>: the key of a table.\<close>

definition source_key :: "join_source \<Rightarrow> jsstr" where
  "source_key src = to_lower (filter (\<lambda>c. \<not> identifier_quote c) (tableRef src))"

definition pushSource :: "join_source \<Rightarrow> join_state \<Rightarrow> join_state" where
  "pushSource src s =
     (let key = source_key src in
      if key = [] \<or> key \<in> set (seen_keys s) then s
      else s\<lparr>seen_keys := key # seen_keys s, join_sources := join_sources s @ [src]\<rparr>)"

definition tryConsumeTable :: "sql_options \<Rightarrow> jsstr \<Rightarrow> nat \<Rightarrow> join_state \<Rightarrow> nat \<times> join_state" where
  "tryConsumeTable opts text fromIndex s =
     (let start = skipSqlTrivia opts text fromIndex in
      if length text \<le> start then (fromIndex, s)
      else if text ! start = cu CHR ''('' then (fromIndex, s)
      else
        (let tableStart =
               (if nextSqlSignificantToken text start = js ''only''
                then snd (nextSqlSignificantTokenSpan text start) else start)
         in case readSqlQualifiedTableRef opts text tableStart of
              None \<Rightarrow> (fromIndex, s)
            | Some src \<Rightarrow> (range_end src, pushSource src s)))"

definition join_prefix :: "jsstr \<Rightarrow> bool" where
  "join_prefix token \<longleftrightarrow> token \<in> set JOIN_PREFIX_KEYWORDS \<and> token \<noteq> js ''straight_join''"

text \<open>The branch that reads a table where one is expected; \<open>None\<close> falls through.\<close>

definition expects_table_here :: "jsstr \<Rightarrow> nat \<Rightarrow> join_state \<Rightarrow> bool" where
  "expects_table_here text index s \<longleftrightarrow>
     expectTable s \<and> inFromClause s \<and> parenDepth s = 0 \<and>
     \<not> inSingle s \<and> \<not> inDouble s \<and> \<not> inBacktick s \<and>
     (text ! index = backtick \<or> text ! index = dquote \<or> isSqlIdentifierStart (text ! index)) \<and>
     \<not> join_prefix (nextSqlSignificantToken text index)"

text \<open>The keywords of a \<open>FROM\<close> clause.\<close>

definition join_token :: "jsstr \<Rightarrow> join_state \<Rightarrow> join_state" where
  "join_token token s =
     (if token = js ''from'' then s\<lparr>inFromClause := True, expectTable := True\<rparr>
      else if token = js ''join'' \<or> token = js ''straight_join''
        then s\<lparr>inFromClause := True, expectTable := True\<rparr>
      else if inFromClause s \<and> token \<in> set FROM_CLAUSE_TERMINATORS
        then s\<lparr>inFromClause := False, expectTable := False\<rparr>
      else s)"

definition join_code_char :: "sql_options \<Rightarrow> jsstr \<Rightarrow> nat \<Rightarrow> join_state \<Rightarrow> nat \<times> join_state" where
  "join_code_char opts text index s =
     (case dialect_quote opts text index s of
        Some p \<Rightarrow> p
      | None \<Rightarrow>
          (let ch = text ! index in
           if ch = cu CHR ''('' then
             (index + 1,
              (if expectTable s \<and> parenDepth s = 0 then s\<lparr>expectTable := False\<rparr> else s)
                \<lparr>parenDepth := parenDepth s + 1\<rparr>)
           else if ch = cu CHR '')'' then (index + 1, s\<lparr>parenDepth := parenDepth s - 1\<rparr>)
           else if parenDepth s \<noteq> 0 then (index + 1, s)
           else if ch = cu CHR '';'' \<or> ch = fullwidth_semicolon then
             (index + 1, s\<lparr>inFromClause := False, expectTable := False\<rparr>)
           else if inFromClause s \<and> ch = cu CHR '','' then (index + 1, s\<lparr>expectTable := True\<rparr>)
           else if \<not> isSqlIdentifierStart ch then (index + 1, s)
           else
             (let tokenEnd = identifier_end text (index + 1);
                  token = to_lower (slice text index tokenEnd)
              in (tokenEnd, join_token token s))))"

definition join_body :: "sql_options \<Rightarrow> jsstr \<Rightarrow> nat \<Rightarrow> join_state \<Rightarrow> nat \<times> join_state" where
  "join_body opts text index s =
     (case dialect_lex opts text index s of
        Some p \<Rightarrow> p
      | None \<Rightarrow>
          (case dialect_escape text index s of
             Some p \<Rightarrow> p
           | None \<Rightarrow>
               if expects_table_here text index s then
                 (let (consumedEnd, s') = tryConsumeTable opts text index s;
                      s'' = s'\<lparr>expectTable := False\<rparr>
                  in if index < consumedEnd then (consumedEnd, s'')
                     else join_code_char opts text index s'')
               else join_code_char opts text index s))"

definition scan_join_sources :: "sql_options \<Rightarrow> jsstr \<Rightarrow> join_source list" where
  "scan_join_sources opts text =
     (let s = snd (loop (length text) (join_body opts text) 0 init_join_state);
          s' = (if expectTable s then snd (tryConsumeTable opts text (length text) s) else s)
      in join_sources s')"

definition findSqlJoinTableSources :: "jsstr \<Rightarrow> jsstr \<Rightarrow> join_source list" where
  "findSqlJoinTableSources sql dialect =
     (let my = isMysqlSubqueryDialect dialect; pg = isPostgresSubqueryDialect dialect in
      if \<not> my \<and> \<not> pg then []
      else scan_join_sources \<lparr>mysqlLike = my, postgresLike = pg\<rparr> (normalize_newlines sql))"

section \<open>Bounds of the readers\<close>

lemma skip_trivia_inv:
  "case loop_ret (length text) (skip_trivia_body opts text) position () of
      Inl j \<Rightarrow> position \<le> j \<and> j < length text
    | Inr p \<Rightarrow> (position \<le> fst p \<and> (position \<le> length text \<longrightarrow> fst p \<le> length text)) \<and>
        True \<and> length text \<le> fst p"
proof (rule skip_trivia.loop_ret_induct
    [where I = "\<lambda>i _. position \<le> i \<and> (position \<le> length text \<longrightarrow> i \<le> length text)"])
  fix i :: nat and u :: unit and p
  assume i: "i < length text" and I: "position \<le> i \<and> (position \<le> length text \<longrightarrow> i \<le> length text)"
    and b: "skip_trivia_body opts text i u = Inr p"
  have "fst p \<le> length text"
    using b i by (auto simp: skip_trivia_body_def dash_comment_def Let_def at_def
        intro!: line_end_le block_comment_end_le split: if_splits)
  with skip_trivia.body_advances [OF i TrueI b] I
  show "position \<le> fst p \<and> (position \<le> length text \<longrightarrow> fst p \<le> length text)" by simp
qed (auto simp: skip_trivia_body_def Let_def split: if_splits)

lemma skipSqlTrivia_ge [simp, scan_bounds]: "position \<le> skipSqlTrivia opts text position"
  using skip_trivia_inv [of position "text" opts] by (auto simp: skipSqlTrivia_def split: sum.splits)

lemma skipSqlTrivia_mono [simp]:
  "a \<le> position \<Longrightarrow> a \<le> skipSqlTrivia opts text position"
  "a < position \<Longrightarrow> a < skipSqlTrivia opts text position"
  by (rule order_trans [OF _ skipSqlTrivia_ge], assumption)
    (rule less_le_trans [OF _ skipSqlTrivia_ge], assumption)

lemma readSqlQuotedIdentifier_bounds:
  assumes "readSqlQuotedIdentifier text position quote = Some (e, v)"
  shows "position < e" and "e \<le> length text" and "v = slice text position e"
proof -
  have "case loop_ret (length text) (quoted_identifier_body text position quote) (position + 1) () of
      Inl r \<Rightarrow> position < fst r \<and> fst r \<le> length text \<and> snd r = slice text position (fst r)
    | Inr p \<Rightarrow> position < fst p \<and> True \<and> length text \<le> fst p"
  proof (rule quoted_identifier.loop_ret_induct [where I = "\<lambda>i _. position < i"])
    fix i :: nat and u :: unit and p
    assume i: "i < length text" "position < i"
      and b: "quoted_identifier_body text position quote i u = Inr p"
    from quoted_identifier.body_advances [OF i(1) TrueI b] i(2) show "position < fst p" by simp
  qed (auto simp: quoted_identifier_body_def Let_def split: if_splits)
  with assms show "position < e" "e \<le> length text" "v = slice text position e"
    by (auto simp: readSqlQuotedIdentifier_def split: if_splits sum.splits)
qed

lemma readSqlIdentifierPart_bounds:
  assumes "readSqlIdentifierPart opts text position = Some (e, v)"
  shows "skipSqlTrivia opts text position < e" and "e \<le> length text"
    and "v = slice text (skipSqlTrivia opts text position) e"
proof -
  let ?i = "skipSqlTrivia opts text position"
  have i: "?i < length text" using assms
    by (auto simp: readSqlIdentifierPart_def Let_def at_def split: if_splits)
  have w: "?i < identifier_end text (?i + 1)" "identifier_end text (?i + 1) \<le> length text"
    using i by (simp_all add: identifier_end_le)
  show "?i < e" "e \<le> length text" "v = slice text ?i e"
    using assms i w
    by (auto simp: readSqlIdentifierPart_def Let_def
        dest: readSqlQuotedIdentifier_bounds split: if_splits)
qed

interpretation qualified_ref: advancing_ret "length text" "qualified_ref_body opts text" "\<lambda>_. True"
  for opts "text"
proof
  fix i p and parts :: "jsstr list"
  assume "qualified_ref_body opts text i parts = Inr p"
  then obtain v where
    "readSqlIdentifierPart opts text (skipSqlTrivia opts text i + 1) = Some (fst p, v)"
    by (auto simp: qualified_ref_body_def Let_def split: if_splits option.splits prod.splits)
  then have "skipSqlTrivia opts text (skipSqlTrivia opts text i + 1) < fst p"
    by (rule readSqlIdentifierPart_bounds(1))
  moreover have "i < skipSqlTrivia opts text (skipSqlTrivia opts text i + 1)" by (simp add: less_Suc_eq_le)
  ultimately show "i < fst p" by simp
qed simp

text \<open>A source lies inside the text, after the position it was read from.\<close>

definition source_ok :: "jsstr \<Rightarrow> join_source \<Rightarrow> bool" where
  "source_ok text src \<longleftrightarrow>
     range_start src < range_end src \<and> range_end src \<le> length text \<and>
     range_text src = tableRef src \<and> executableSql src = select_all_from (tableRef src) \<and>
     source_key src \<noteq> []"

lemma readSqlQualifiedTableRef_bounds:
  assumes "readSqlQualifiedTableRef opts text position = Some src"
  shows "position \<le> range_start src" and "range_start src < range_end src"
    and "range_end src \<le> length text" and "range_text src = tableRef src"
    and "executableSql src = select_all_from (tableRef src)"
proof -
  obtain e v where ev: "readSqlIdentifierPart opts text position = Some (e, v)"
    using assms by (auto simp: readSqlQualifiedTableRef_def split: option.splits)
  note b = readSqlIdentifierPart_bounds [OF ev]
  let ?l = "loop_ret (length text) (qualified_ref_body opts text) e [v]"
  have "case ?l of
      Inl r \<Rightarrow> e \<le> fst r \<and> fst r \<le> length text
    | Inr p \<Rightarrow> (e \<le> fst p \<and> fst p \<le> length text) \<and> True \<and> length text \<le> fst p"
  proof (rule qualified_ref.loop_ret_induct [where I = "\<lambda>i _. e \<le> i \<and> i \<le> length text"])
    show "e \<le> e \<and> e \<le> length text" using b by simp
    show True ..
  next
    fix i parts r
    assume "e \<le> i \<and> i \<le> length text" "qualified_ref_body opts text i parts = Inl r"
    then show "e \<le> fst r \<and> fst r \<le> length text"
      by (auto simp: qualified_ref_body_def Let_def split: if_splits option.splits)
  next
    fix i parts p
    assume i: "i < length text" "e \<le> i \<and> i \<le> length text"
      and q: "qualified_ref_body opts text i parts = Inr p"
    then obtain v' where
      "readSqlIdentifierPart opts text (skipSqlTrivia opts text i + 1) = Some (fst p, v')"
      by (auto simp: qualified_ref_body_def Let_def split: if_splits option.splits prod.splits)
    then have "fst p \<le> length text" by (rule readSqlIdentifierPart_bounds(2))
    with qualified_ref.body_advances [OF i(1) TrueI q] i(2)
    show "e \<le> fst p \<and> fst p \<le> length text" by simp
  qed
  then have "e \<le> fst (case ?l of Inl r \<Rightarrow> r | Inr r \<Rightarrow> r)"
    "fst (case ?l of Inl r \<Rightarrow> r | Inr r \<Rightarrow> r) \<le> length text"
    by (auto split: sum.splits)
  with assms ev b show "position \<le> range_start src" "range_start src < range_end src"
    "range_end src \<le> length text" "range_text src = tableRef src"
    "executableSql src = select_all_from (tableRef src)"
    by (auto simp: readSqlQualifiedTableRef_def Let_def split: if_splits prod.splits)
qed

section \<open>What the sources are\<close>

definition join_inv :: "jsstr \<Rightarrow> nat \<Rightarrow> jsstr list \<Rightarrow> join_source list \<Rightarrow> bool" where
  "join_inv text i keys srcs \<longleftrightarrow>
     set keys = source_key ` set srcs \<and> distinct (map source_key srcs) \<and>
     (\<forall>src \<in> set srcs. source_ok text src \<and> range_end src \<le> i) \<and>
     sorted_wrt (\<lambda>a b. range_end a \<le> range_start b) srcs"

lemma join_inv_mono: "join_inv text i keys srcs \<Longrightarrow> i \<le> j \<Longrightarrow> join_inv text j keys srcs"
  by (fastforce simp: join_inv_def)

lemma pushSource_keeps [simp]:
  "dollarTag (pushSource src s) = dollarTag s" "expectTable (pushSource src s) = expectTable s"
  by (simp_all add: pushSource_def Let_def)

lemma tryConsumeTable_keeps:
  assumes "join_inv text i (seen_keys s) (join_sources s)"
    and "tryConsumeTable opts text i s = (j, s')"
  shows "i \<le> j" and "dollarTag s' = dollarTag s" and "join_inv text j (seen_keys s') (join_sources s')"
proof -
  have "i \<le> j \<and> dollarTag s' = dollarTag s \<and> join_inv text j (seen_keys s') (join_sources s')"
  proof (cases "(j, s') = (i, s)")
    case True
    with assms(1) show ?thesis by simp
  next
    case False
    let ?start = "skipSqlTrivia opts text i"
    let ?t = "if nextSqlSignificantToken text ?start = js ''only''
              then snd (nextSqlSignificantTokenSpan text ?start) else ?start"
    obtain src where src: "readSqlQualifiedTableRef opts text ?t = Some src"
      and js': "j = range_end src" "s' = pushSource src s"
      using False assms(2) by (auto simp: tryConsumeTable_def Let_def split: if_splits option.splits)
    note b = readSqlQualifiedTableRef_bounds [OF src]
    have "i \<le> ?start" by simp
    moreover have "?start \<le> ?t" using nextSqlSignificantTokenSpan_ge [of ?start "text"] by simp
    ultimately have i: "i \<le> range_start src" using b(1) by linarith
    have "join_inv text j (seen_keys s') (join_sources s')"
    proof (cases "source_key src = [] \<or> source_key src \<in> set (seen_keys s)")
      case True
      with assms(1) i b(2) show ?thesis
        by (simp add: js' pushSource_def Let_def join_inv_mono)
    next
      case False
      then have "source_ok text src" using b by (simp add: source_ok_def)
      with False assms(1) i b(2) show ?thesis
        by (fastforce simp: js' pushSource_def Let_def join_inv_def sorted_wrt_append)
    qed
    with i b(2) show ?thesis by (simp add: js')
  qed
  then show "i \<le> j" "dollarTag s' = dollarTag s" "join_inv text j (seen_keys s') (join_sources s')"
    by simp_all
qed

lemma join_more:
  fixes s s' :: join_state
  assumes "lex_state.more s' = lex_state.more s"
  shows "seen_keys s' = seen_keys s" and "join_sources s' = join_sources s"
  using assms by (cases s; cases s'; simp)+

lemma join_token_keeps [simp]:
  "seen_keys (join_token token s) = seen_keys s" "join_sources (join_token token s) = join_sources s"
  "dollarTag (join_token token s) = dollarTag s"
  by (simp_all add: join_token_def)

lemma join_code_char_keeps:
  assumes "join_code_char opts text i s = (j, s')" and "lex_ok s"
  shows "i < j \<and> lex_ok s' \<and> seen_keys s' = seen_keys s \<and> join_sources s' = join_sources s"
proof (cases "dialect_quote opts text i s")
  case (Some p)
  with assms dialect_quote_keeps [of opts "text" i s j s'] join_more [of s' s] show ?thesis
    by (simp add: join_code_char_def)
next
  case None
  with assms show ?thesis
    by (auto simp: join_code_char_def Let_def lex_ok_def split: if_splits)
qed

lemma join_body_keeps:
  assumes "join_body opts text i s = (j, s')" and "lex_ok s" and "i < length text"
    and inv: "join_inv text i (seen_keys s) (join_sources s)"
  shows "i < j \<and> lex_ok s' \<and> join_inv text j (seen_keys s') (join_sources s')"
proof -
  have cc: "i < j \<and> lex_ok s' \<and> join_inv text j (seen_keys s') (join_sources s')"
    if "join_code_char opts text i s0 = (j, s')" "lex_ok s0" and
      "join_inv text i (seen_keys s0) (join_sources s0)" for s0
    using join_code_char_keeps [OF that(1,2)] that(3) by (auto elim: join_inv_mono)
  show ?thesis
  proof (cases "dialect_lex opts text i s")
    case (Some p)
    with assms dialect_lex_keeps [of opts "text" i s j s'] join_more [of s' s] show ?thesis
      by (auto simp: join_body_def elim: join_inv_mono)
  next
    case lex: None
    show ?thesis
    proof (cases "dialect_escape text i s")
      case (Some p)
      with lex assms dialect_escape_keeps [of "text" i s j s'] join_more [of s' s] show ?thesis
        by (auto simp: join_body_def elim: join_inv_mono)
    next
      case esc: None
      show ?thesis
      proof (cases "expects_table_here text i s")
        case False
        with lex esc assms cc show ?thesis by (simp add: join_body_def)
      next
        case True
        obtain e s1 where t: "tryConsumeTable opts text i s = (e, s1)" by fastforce
        note k = tryConsumeTable_keeps [OF inv t]
        have lex1: "lex_ok (s1\<lparr>expectTable := False\<rparr>)" using k(2) assms(2) by (simp add: lex_ok_def)
        show ?thesis
        proof (cases "i < e")
          case c: True
          with True lex esc t assms(1) have "j = e" "s' = s1\<lparr>expectTable := False\<rparr>"
            by (simp_all add: join_body_def)
          with c k(3) lex1 show ?thesis by simp
        next
          case False
          with k(1) have "e = i" by simp
          moreover from False True lex esc t assms(1)
          have "join_code_char opts text i (s1\<lparr>expectTable := False\<rparr>) = (j, s')"
            by (simp add: join_body_def)
          ultimately show ?thesis using cc lex1 k(3) by simp
        qed
      qed
    qed
  qed
qed

lemma tryConsumeTable_dollar [simp]:
  "dollarTag (snd (tryConsumeTable opts text i s)) = dollarTag s"
  by (simp add: tryConsumeTable_def Let_def split: option.split)

lemma join_body_moves:
  assumes "lex_ok s"
  shows "i < fst (join_body opts text i s) \<and> lex_ok (snd (join_body opts text i s))"
proof -
  have cc: "i < fst (join_code_char opts text i s0) \<and> lex_ok (snd (join_code_char opts text i s0))"
    if "lex_ok s0" for s0
    using join_code_char_keeps [OF _ that, of opts "text" i] by (metis prod.collapse)
  let ?t = "tryConsumeTable opts text i s"
  have t: "lex_ok ((snd ?t)\<lparr>expectTable := False\<rparr>)"
    using assms by (simp add: lex_ok_def)
  have "i < fst p \<and> lex_ok (snd p)" if "dialect_lex opts text i s = Some p" for p
    using dialect_lex_keeps [of opts "text" i s "fst p" "snd p"] assms that by simp
  moreover have "i < fst p \<and> lex_ok (snd p)" if "dialect_escape text i s = Some p" for p
    using dialect_escape_keeps [of "text" i s "fst p" "snd p"] assms that by simp
  ultimately show ?thesis
    using cc [OF assms] cc [OF t] t
    by (simp add: join_body_def case_prod_beta Let_def split: option.split)
qed

interpretation join_scan: advancing "length text" "join_body opts text" lex_ok
  for opts "text"
  by unfold_locales (use join_body_moves in blast)+

lemma scan_join_sources_inv:
  "\<exists>i keys. join_inv text i keys (scan_join_sources opts text)"
proof -
  let ?l = "loop (length text) (join_body opts text) 0 init_join_state"
  have "join_inv text (fst ?l) (seen_keys (snd ?l)) (join_sources (snd ?l)) \<and>
    lex_ok (snd ?l) \<and> length text \<le> fst ?l"
  proof (rule join_scan.loop_induct
      [where I = "\<lambda>i s. join_inv text i (seen_keys s) (join_sources s)"])
    show "join_inv text 0 (seen_keys init_join_state) (join_sources init_join_state)"
      by (simp add: join_inv_def init_join_state_def)
    show "lex_ok init_join_state" by (simp add: lex_ok_def init_join_state_def)
  next
    fix i and s :: join_state
    assume "i < length text" "lex_ok s" "join_inv text i (seen_keys s) (join_sources s)"
    then show "join_inv text (fst (join_body opts text i s))
      (seen_keys (snd (join_body opts text i s))) (join_sources (snd (join_body opts text i s)))"
      using join_body_keeps [of opts "text" i s "fst (join_body opts text i s)"
          "snd (join_body opts text i s)"] by simp
  qed
  then have inv: "join_inv text (fst ?l) (seen_keys (snd ?l)) (join_sources (snd ?l))" by simp
  have "snd (tryConsumeTable opts text (length text) s) = s" for s
    using skipSqlTrivia_ge [of "length text" opts "text"] by (simp add: tryConsumeTable_def Let_def)
  then have "scan_join_sources opts text = join_sources (snd ?l)"
    by (simp add: scan_join_sources_def Let_def)
  with inv show ?thesis by auto
qed

lemma findSqlJoinTableSources_inv:
  "\<exists>i keys. join_inv (normalize_newlines sql) i keys (findSqlJoinTableSources sql dialect)"
  using scan_join_sources_inv
  by (auto simp: findSqlJoinTableSources_def Let_def) (auto simp: join_inv_def)

section \<open>Property\<close>

text \<open>The tables of a join: every source lies inside the text and runs
  \<open>SELECT * FROM\<close> the reference it names; the sources come in the order of the text without
  overlapping, and no table is offered twice, ignoring case and quotes.\<close>

theorem findSqlJoinTableSources_correct:
  "(\<forall>src \<in> set (findSqlJoinTableSources sql dialect).
      range_start src < range_end src \<and> range_end src \<le> length (normalize_newlines sql) \<and>
      executableSql src = js ''SELECT * FROM '' @ tableRef src \<and> source_key src \<noteq> []) \<and>
   sorted_wrt (\<lambda>a b. range_end a \<le> range_start b) (findSqlJoinTableSources sql dialect) \<and>
   distinct (map source_key (findSqlJoinTableSources sql dialect))"
  using findSqlJoinTableSources_inv [of sql dialect]
  by (auto simp: join_inv_def source_ok_def select_all_from_def)

theorem findSqlJoinTableSources_correct_witness:
  "map tableRef (findSqlJoinTableSources (js ''select * from a join b.c x on 1=1, A'') (js ''mysql'')) =
     [js ''a'', js ''b.c''] \<and>
   list_all (\<lambda>src. executableSql src = js ''SELECT * FROM '' @ tableRef src)
     (findSqlJoinTableSources (js ''select * from a join b.c x on 1=1, A'') (js ''mysql''))"
proof
  show "map tableRef (findSqlJoinTableSources (js ''select * from a join b.c x on 1=1, A'') (js ''mysql'')) =
     [js ''a'', js ''b.c'']" by code_simp
  show "list_all (\<lambda>src. executableSql src = js ''SELECT * FROM '' @ tableRef src)
     (findSqlJoinTableSources (js ''select * from a join b.c x on 1=1, A'') (js ''mysql''))"
    using findSqlJoinTableSources_correct unfolding list_all_iff by blast
qed

end
