(* ===== verification/ExecutionScope.thy ===== *)
theory ExecutionScope
  imports SqlSelection SqlJoins
begin

text \<open>
  The execution chooser: \<open>frontend/src/utils/sqlExecutionScope.ts\<close>. From the script, the
  selection, the cursor and the dialect it decides what a run executes: a text, a choice
  among options, the automatic rule, or nothing (\<open>resolveSqlExecutionIntent\<close>).
\<close>

section \<open>Option ids\<close>

definition numbered :: "jsstr \<Rightarrow> nat \<Rightarrow> jsstr" where
  "numbered prefix index = prefix @ nat_str index"

definition is_numbered :: "jsstr \<Rightarrow> jsstr \<Rightarrow> bool" where
  "is_numbered prefix i \<longleftrightarrow>
     starts_with i prefix \<and> drop (length prefix) i \<noteq> [] \<and>
     (\<forall>c \<in> set (drop (length prefix) i). ascii_digit c)"

definition isSqlExecutionSubqueryOptionId :: "jsstr \<Rightarrow> bool" where
  "isSqlExecutionSubqueryOptionId i = is_numbered (js ''subquery-'') i"

definition isSqlExecutionStatementOptionId :: "jsstr \<Rightarrow> bool" where
  "isSqlExecutionStatementOptionId i = is_numbered (js ''statement-'') i"

definition isSqlExecutionTableOptionId :: "jsstr \<Rightarrow> bool" where
  "isSqlExecutionTableOptionId i = is_numbered (js ''table-'') i"

definition buildSqlExecutionSubqueryOptionId :: "nat \<Rightarrow> jsstr" where
  "buildSqlExecutionSubqueryOptionId index = numbered (js ''subquery-'') index"

definition buildSqlExecutionStatementOptionId :: "nat \<Rightarrow> jsstr" where
  "buildSqlExecutionStatementOptionId index = numbered (js ''statement-'') index"

definition buildSqlExecutionTableOptionId :: "nat \<Rightarrow> jsstr" where
  "buildSqlExecutionTableOptionId index = numbered (js ''table-'') index"

definition all_option_id :: jsstr where
  "all_option_id = js ''all''"

lemma is_numbered_numbered [simp]: "is_numbered p (numbered p n)"
  using nat_str_digits [of n]
  by (simp add: is_numbered_def numbered_def starts_with_def starts_with_at_def)

section \<open>Comments and white space around a statement\<close>

definition noise_body :: "jsstr \<Rightarrow> nat \<Rightarrow> unit \<Rightarrow> nat + nat \<times> unit" where
  "noise_body text i u =
     (let ch = text ! i in
      if isWhitespace ch then Inr (i + 1, u)
      else if ch = cu CHR ''-'' \<and> i + 1 < length text \<and> text ! (i + 1) = cu CHR ''-''
        then Inr (line_end text (i + 2), u)
      else if ch = cu CHR ''#'' then Inr (line_end text (i + 1), u)
      else if ch = cu CHR ''/'' \<and> i + 1 < length text \<and> text ! (i + 1) = cu CHR ''*''
        then Inr (block_comment_end text (i + 2), u)
      else Inl i)"

definition hasExecutableSqlContent :: "jsstr \<Rightarrow> bool" where
  "hasExecutableSqlContent text =
     (case loop_ret (length text) (noise_body text) 0 () of Inl _ \<Rightarrow> True | Inr _ \<Rightarrow> False)"

definition stripLeadingSqlNoise :: "jsstr \<Rightarrow> jsstr" where
  "stripLeadingSqlNoise text =
     (case loop_ret (length text) (noise_body text) 0 () of
        Inl i \<Rightarrow> drop i text | Inr (i, _) \<Rightarrow> drop i text)"

section \<open>Previews\<close>

definition ellipsis :: jschar where
  "ellipsis = 8230"

definition truncateSqlPreview :: "jsstr \<Rightarrow> int \<Rightarrow> jsstr" where
  "truncateSqlPreview sql maxLength =
     (let singleLine = trim (collapse_spaces sql) in
      if singleLine = [] then []
      else if int (length singleLine) \<le> maxLength then singleLine
      else slice singleLine 0 (nat (max 0 (maxLength - 1))) @ [ellipsis])"

section \<open>The statements of a script\<close>

record executable_range = stmt_range +
  executableText :: jsstr

definition collectExecutableStatementRanges :: "jsstr \<Rightarrow> executable_range list" where
  "collectExecutableStatementRanges fullSql =
     filter (\<lambda>r. trim (executableText r) \<noteq> [] \<and> hasExecutableSqlContent (executableText r))
       (map (\<lambda>r. stmt_range.extend r
               \<lparr>executableText = stripLeadingSqlNoise (range_text r)\<rparr>)
         (findSqlStatementRanges fullSql))"

definition ends_with_separator :: "jsstr \<Rightarrow> bool" where
  "ends_with_separator s \<longleftrightarrow>
     s \<noteq> [] \<and> (last s = cu CHR '';'' \<or> last s = fullwidth_semicolon)"

definition merge_statement :: "jsstr \<Rightarrow> jsstr \<Rightarrow> jsstr" where
  "merge_statement merged stmt =
     merged @ (if ends_with_separator (trim_end merged) then [newline] else [cu CHR '';'', newline])
       @ stmt"

definition buildAllStatementsSql :: "jsstr \<Rightarrow> jsstr" where
  "buildAllStatementsSql fullSql =
     (case filter (\<lambda>sql. trim sql \<noteq> [] \<and> hasExecutableSqlContent sql)
             (map (\<lambda>r. stripLeadingSqlNoise (range_text r)) (findSqlStatementRanges fullSql)) of
        [] \<Rightarrow> []
      | first # rest \<Rightarrow> foldl merge_statement first rest)"

section \<open>The options\<close>

record chooser_option =
  option_id :: jsstr
  option_sql :: jsstr
  option_preview :: jsstr
  highlightStart :: nat
  highlightEnd :: nat
  statementCount :: nat
  tableName :: "jsstr option"

definition statement_option :: "nat \<Rightarrow> executable_range \<Rightarrow> chooser_option" where
  "statement_option index r =
     \<lparr>option_id = buildSqlExecutionStatementOptionId index, option_sql = executableText r,
      option_preview = truncateSqlPreview (executableText r) 80,
      highlightStart = range_start r, highlightEnd = range_end r, statementCount = 1,
      tableName = None\<rparr>"

definition table_option :: "nat \<Rightarrow> join_source \<Rightarrow> chooser_option" where
  "table_option index src =
     \<lparr>option_id = buildSqlExecutionTableOptionId index, option_sql = executableSql src,
      option_preview = truncateSqlPreview (executableSql src) 80,
      highlightStart = range_start src, highlightEnd = range_end src, statementCount = 1,
      tableName = Some (tableRef src)\<rparr>"

definition subquery_option :: "nat \<Rightarrow> stmt_range \<Rightarrow> chooser_option" where
  "subquery_option index r =
     \<lparr>option_id = buildSqlExecutionSubqueryOptionId index, option_sql = range_text r,
      option_preview = truncateSqlPreview (range_text r) 80,
      highlightStart = range_start r, highlightEnd = range_end r, statementCount = 1,
      tableName = None\<rparr>"

definition all_option :: "jsstr \<Rightarrow> nat \<Rightarrow> nat \<Rightarrow> chooser_option" where
  "all_option allSql len count =
     \<lparr>option_id = all_option_id, option_sql = allSql,
      option_preview = js ''(all) '' @ truncateSqlPreview allSql 80,
      highlightStart = 0, highlightEnd = len, statementCount = count, tableName = None\<rparr>"

definition indexed :: "(nat \<Rightarrow> 'a \<Rightarrow> 'b) \<Rightarrow> 'a list \<Rightarrow> 'b list" where
  "indexed f xs = map (\<lambda>(i, x). f i x) (enumerate 0 xs)"

definition executable_subqueries :: "jsstr \<Rightarrow> jsstr \<Rightarrow> stmt_range list" where
  "executable_subqueries text dialect =
     filter (\<lambda>r. trim (range_text r) \<noteq> [] \<and> hasExecutableSqlContent (range_text r))
       (findSqlSubqueryRanges text dialect)"

definition buildSqlExecutionChooserOptions :: "jsstr \<Rightarrow> jsstr \<Rightarrow> chooser_option list" where
  "buildSqlExecutionChooserOptions fullSql dialect =
     (let text = normalize_newlines fullSql;
          statementRanges = collectExecutableStatementRanges text;
          tableSources = findSqlJoinTableSources text dialect;
          subqueryRanges = executable_subqueries text dialect;
          allSql = buildAllStatementsSql text
      in indexed statement_option statementRanges
         @ (if 2 \<le> length tableSources then indexed table_option tableSources else [])
         @ indexed subquery_option subqueryRanges
         @ (if trim allSql \<noteq> [] \<and> 1 < length statementRanges
            then [all_option allSql (length text) (length statementRanges)] else []))"

section \<open>The default option\<close>

definition findOptionByHighlightRange ::
  "chooser_option list \<Rightarrow> stmt_range option \<Rightarrow> (chooser_option \<Rightarrow> bool) \<Rightarrow> chooser_option option" where
  "findOptionByHighlightRange options rng predicate =
     (case rng of
        None \<Rightarrow> None
      | Some r \<Rightarrow>
          find (\<lambda>opt. predicate opt \<and> highlightStart opt = range_start r \<and>
                      highlightEnd opt = range_end r) options)"

fun number_touches :: "js_number \<Rightarrow> 'a stmt_range_scheme \<Rightarrow> bool" where
  "number_touches NonFinite r = False"
| "number_touches (Finite x) r \<longleftrightarrow> int (range_start r) \<le> x \<and> x \<le> int (range_end r)"

definition resolveDefaultChooserOptionId ::
  "chooser_option list \<Rightarrow> jsstr \<Rightarrow> js_number \<Rightarrow> jsstr \<Rightarrow> jsstr" where
  "resolveDefaultChooserOptionId options fullSql cursorOffset dialect =
     (let is_sub = (\<lambda>opt. isSqlExecutionSubqueryOptionId (option_id opt));
          is_stmt = (\<lambda>opt. isSqlExecutionStatementOptionId (option_id opt));
          enclosing = resolveEnclosingSqlSubqueryRange fullSql cursorOffset dialect
      in
      case findOptionByHighlightRange options enclosing is_sub of
        Some opt \<Rightarrow> option_id opt
      | None \<Rightarrow>
      (case findOptionByHighlightRange options
              (resolveCurrentSqlStatementRange fullSql cursorOffset) is_stmt of
        Some opt \<Rightarrow> option_id opt
      | None \<Rightarrow>
      (case (case find (number_touches cursorOffset) (findSqlJoinTableSources fullSql dialect) of
               None \<Rightarrow> None
             | Some src \<Rightarrow>
                 find (\<lambda>opt. isSqlExecutionTableOptionId (option_id opt) \<and>
                             tableName opt = Some (tableRef src)) options) of
        Some opt \<Rightarrow> option_id opt
      | None \<Rightarrow>
      (case find is_stmt options of
        Some opt \<Rightarrow> option_id opt
      | None \<Rightarrow>
      (case find is_sub options of
        Some opt \<Rightarrow> option_id opt
      | None \<Rightarrow> (case options of [] \<Rightarrow> all_option_id | opt # _ \<Rightarrow> option_id opt))))))"

section \<open>The intent\<close>

datatype execution_intent =
    Execute jsstr
  | Chooser "chooser_option list" jsstr
  | UseAuto
  | EmptyIntent

record intent_input =
  fullSql :: jsstr
  selectedSql :: jsstr
  cursorOffset :: js_number
  askWhatToExecute :: bool
  dialect :: jsstr

definition cursorLineHasExecutableSql :: "jsstr \<Rightarrow> js_number \<Rightarrow> bool" where
  "cursorLineHasExecutableSql full cursor =
     (let text = normalize_newlines full;
          offset = clamp_offset (length text) cursor
      in hasExecutableSqlContent (slice text (line_start text offset) (line_end_at text offset)))"

text \<open>A text without its leading comments, unless nothing executable would be left.\<close>

definition execute_stripped :: "jsstr \<Rightarrow> execution_intent" where
  "execute_stripped sql =
     (let stripped = stripLeadingSqlNoise sql in
      if trim stripped \<noteq> [] \<and> hasExecutableSqlContent stripped then Execute stripped
      else Execute sql)"

definition current_statement_intent :: "jsstr \<Rightarrow> js_number \<Rightarrow> execution_intent" where
  "current_statement_intent text cursor =
     (case resolveCurrentSqlStatementRange text cursor of
        Some r \<Rightarrow> if trim (range_text r) \<noteq> [] \<and> hasExecutableSqlContent (range_text r)
                  then execute_stripped (range_text r) else EmptyIntent
      | None \<Rightarrow> EmptyIntent)"

definition single_statement_intent :: "jsstr \<Rightarrow> js_number \<Rightarrow> execution_intent" where
  "single_statement_intent text cursor =
     (case collectExecutableStatementRanges text of
        [r] \<Rightarrow> Execute (executableText r)
      | _ \<Rightarrow>
          (case resolveExecutableSql text cursor [] of
             Some sel \<Rightarrow>
               if trim (selection_sql sel) \<noteq> [] \<and> hasExecutableSqlContent (selection_sql sel)
               then execute_stripped (selection_sql sel) else current_statement_intent text cursor
           | None \<Rightarrow> current_statement_intent text cursor))"

definition resolveSqlExecutionIntent :: "intent_input \<Rightarrow> execution_intent" where
  "resolveSqlExecutionIntent input =
     (if trim (selectedSql input) \<noteq> [] then Execute (selectedSql input)
      else if \<not> askWhatToExecute input then UseAuto
      else
        (let text = normalize_newlines (fullSql input);
             tableSources = findSqlJoinTableSources text (dialect input);
             subqueryRanges = executable_subqueries text (dialect input);
             executableRanges = collectExecutableStatementRanges text;
             hasJoinTableChoices = 2 \<le> length tableSources
         in
         if length executableRanges < 2 \<and> subqueryRanges = [] \<and> \<not> hasJoinTableChoices
           then single_statement_intent text (cursorOffset input)
         else if subqueryRanges = [] \<and> \<not> hasJoinTableChoices \<and>
                 \<not> cursorLineHasExecutableSql text (cursorOffset input)
           then EmptyIntent
         else
           (let options = buildSqlExecutionChooserOptions text (dialect input) in
            if options = [] then EmptyIntent
            else Chooser options
                   (resolveDefaultChooserOptionId options text (cursorOffset input) (dialect input)))))"

section \<open>The comment skippers agree\<close>

lemma noise_body_eq: "noise_body = skip_ws_comments_body"
  by (intro ext) (auto simp: noise_body_def skip_ws_comments_body_def Let_def at_Some_iff)

lemma stripLeadingSqlNoise_eq:
  "stripLeadingSqlNoise text = drop (skipSqlWhitespaceAndComments text 0) text"
  by (simp add: stripLeadingSqlNoise_def skipSqlWhitespaceAndComments_def noise_body_eq
      split: sum.split prod.split)

lemma hasExecutableSqlContent_eq:
  "hasExecutableSqlContent text \<longleftrightarrow> skipSqlWhitespaceAndComments text 0 < length text"
  using skip_ws_inv [of 0 "text"]
  by (auto simp: hasExecutableSqlContent_def skipSqlWhitespaceAndComments_def noise_body_eq
      split: sum.splits prod.splits)

text \<open>Skipping again from where skipping stopped goes nowhere.\<close>

lemma skip_stop_body:
  "skipSqlWhitespaceAndComments text position = j \<Longrightarrow> j < length text \<Longrightarrow>
   skip_ws_comments_body text j () = Inl j"
proof -
  assume s: "skipSqlWhitespaceAndComments text position = j" "j < length text"
  have "case loop_ret (length text) (skip_ws_comments_body text) position () of
      Inl j \<Rightarrow> skip_ws_comments_body text j () = Inl j
    | Inr p \<Rightarrow> True \<and> True \<and> length text \<le> fst p"
    by (rule skip_ws.loop_ret_induct [where I = "\<lambda>_ _. True"])
      (auto simp: skip_ws_comments_body_def Let_def split: if_splits)
  with s show ?thesis by (auto simp: skipSqlWhitespaceAndComments_def split: sum.splits)
qed

lemma skip_ws_comments_drop:
  assumes "skip_ws_comments_body text j () = Inl j" and "j < length text"
  shows "skipSqlWhitespaceAndComments (drop j text) 0 = 0"
proof -
  have "at (drop j text) 1 = at text (j + 1)" by (simp add: at_def add.commute less_diff_conv)
  with assms have "skip_ws_comments_body (drop j text) 0 () = Inl 0"
    by (auto simp: skip_ws_comments_body_def Let_def split: if_splits)
  with assms(2) show ?thesis
    unfolding skipSqlWhitespaceAndComments_def by (subst loop_ret.simps) simp
qed

lemma hasExecutable_strip: "hasExecutableSqlContent (stripLeadingSqlNoise text) \<longleftrightarrow> hasExecutableSqlContent text"
proof (cases "hasExecutableSqlContent text")
  case True
  then have "skipSqlWhitespaceAndComments text 0 < length text"
    by (simp add: hasExecutableSqlContent_eq)
  with skip_ws_comments_drop [OF skip_stop_body] True show ?thesis
    by (simp add: stripLeadingSqlNoise_eq hasExecutableSqlContent_eq)
next
  case False
  then show ?thesis
    by (simp add: stripLeadingSqlNoise_eq hasExecutableSqlContent_eq not_less
        skipSqlWhitespaceAndComments_out)
qed

lemma strip_idem: "stripLeadingSqlNoise (stripLeadingSqlNoise text) = stripLeadingSqlNoise text"
proof (cases "hasExecutableSqlContent text")
  case True
  then have "skipSqlWhitespaceAndComments text 0 < length text"
    by (simp add: hasExecutableSqlContent_eq)
  with skip_ws_comments_drop [OF skip_stop_body] show ?thesis
    by (simp add: stripLeadingSqlNoise_eq)
next
  case False
  then show ?thesis by (simp add: stripLeadingSqlNoise_eq hasExecutableSqlContent_eq not_less)
qed

lemma strip_Nil_iff: "stripLeadingSqlNoise text = [] \<longleftrightarrow> \<not> hasExecutableSqlContent text"
  by (auto simp: stripLeadingSqlNoise_eq hasExecutableSqlContent_eq)

section \<open>Previews are bounded\<close>

lemma collapse_spaces_space: "is_js_space c \<Longrightarrow> c \<in> set (collapse_spaces s) \<Longrightarrow> c = cu CHR '' ''"
  by (induction s rule: collapse_spaces.induct) (auto split: if_splits)

lemma truncateSqlPreview_length:
  "1 \<le> maxLength \<Longrightarrow> int (length (truncateSqlPreview sql maxLength)) \<le> maxLength"
  by (auto simp: truncateSqlPreview_def Let_def min_def)

section \<open>The options of a chooser\<close>

lemma indexed_ids:
  assumes "\<And>i x. option_id (f i x) = numbered p i"
  shows "map option_id (indexed f xs) = map (numbered p) [0 ..< length xs]"
proof -
  have "map option_id (indexed f xs) = map (\<lambda>(i, x). numbered p i) (enumerate 0 xs)"
    by (auto simp: indexed_def assms)
  also have "\<dots> = map (numbered p \<circ> fst) (enumerate 0 xs)"
    by (simp add: case_prod_beta comp_def)
  also have "\<dots> = map (numbered p) (map fst (enumerate 0 xs))"
    by (simp only: map_map)
  finally show ?thesis by (simp only: map_fst_enumerate) simp
qed

lemma distinct_numbered: "distinct (map (numbered p) [0 ..< n])"
  by (simp add: distinct_map inj_on_def numbered_def)

lemma numbered_disjoint:
  assumes "hd p \<noteq> hd q" and "p \<noteq> []" and "q \<noteq> []"
  shows "numbered p m \<noteq> numbered q n"
  using assms by (auto simp: numbered_def) (metis hd_append2)

lemma chooser_ids_distinct:
  "distinct (map option_id (buildSqlExecutionChooserOptions sql d))"
proof -
  have ids: "map option_id (indexed statement_option xs) =
      map (numbered (js ''statement-'')) [0 ..< length xs]"
    "map option_id (indexed table_option ys) = map (numbered (js ''table-'')) [0 ..< length ys]"
    "map option_id (indexed subquery_option zs) =
      map (numbered (js ''subquery-'')) [0 ..< length zs]" for xs ys zs
    by (rule indexed_ids, simp add: statement_option_def table_option_def subquery_option_def
        buildSqlExecutionStatementOptionId_def buildSqlExecutionTableOptionId_def
        buildSqlExecutionSubqueryOptionId_def)+
  have st: "numbered (js ''statement-'') m \<noteq> numbered (js ''table-'') n"
    "numbered (js ''table-'') m \<noteq> numbered (js ''subquery-'') n" for m n
    by (rule numbered_disjoint; simp add: js_Cons)+
  have su: "numbered (js ''statement-'') m \<noteq> numbered (js ''subquery-'') n" for m n
    by (auto simp: numbered_def js_Cons)
  have al: "numbered (js ''statement-'') m \<noteq> all_option_id" "numbered (js ''table-'') m \<noteq> all_option_id"
    "numbered (js ''subquery-'') m \<noteq> all_option_id" for m
    by (auto simp: numbered_def js_Cons all_option_id_def)
  show ?thesis
    using st su al st [symmetric] su [symmetric] al [symmetric]
    by (auto simp: buildSqlExecutionChooserOptions_def Let_def ids distinct_numbered all_option_def
        simp del: set_map) (auto simp: st su al)
qed

section \<open>What an option runs\<close>

text \<open>A text whose first character is code: appending to it cannot turn it into a comment.\<close>

definition starts_executable :: "jsstr \<Rightarrow> bool" where
  "starts_executable text \<longleftrightarrow> text \<noteq> [] \<and> noise_body text 0 () = Inl 0"

lemma starts_executable_has: "starts_executable text \<Longrightarrow> hasExecutableSqlContent text"
  unfolding starts_executable_def hasExecutableSqlContent_def by (subst loop_ret.simps) simp

lemma starts_executable_strip:
  assumes "hasExecutableSqlContent text"
  shows "starts_executable (stripLeadingSqlNoise text)"
proof -
  let ?i = "skipSqlWhitespaceAndComments text 0"
  have i: "?i < length text" using assms by (simp add: hasExecutableSqlContent_eq)
  have "skip_ws_comments_body text ?i () = Inl ?i" by (rule skip_stop_body [OF refl i])
  moreover have "at (drop ?i text) 1 = at text (?i + 1)" by (simp add: at_def add.commute less_diff_conv)
  ultimately show ?thesis
    using i by (auto simp: starts_executable_def stripLeadingSqlNoise_eq noise_body_eq
        skip_ws_comments_body_def Let_def split: if_splits)
qed

lemma starts_executable_append:
  assumes "starts_executable m" and "c \<noteq> cu CHR ''-''" and "c \<noteq> cu CHR ''*''"
  shows "starts_executable (m @ c # s)"
proof -
  obtain a t where m: "m = a # t" using assms(1) by (cases m) (auto simp: starts_executable_def)
  show ?thesis
    using assms by (cases t) (auto simp: m starts_executable_def noise_body_def Let_def split: if_splits)
qed

lemma starts_executable_merge:
  "starts_executable m \<Longrightarrow> starts_executable (foldl merge_statement m rest)"
proof (induction rest arbitrary: m)
  case (Cons s rest)
  have "starts_executable (merge_statement m s)"
    using starts_executable_append [OF Cons.prems, of newline s]
      starts_executable_append [OF Cons.prems, of "cu CHR '';''" "newline # s"]
    by (simp add: merge_statement_def newline_def cu_def)
  then show ?case using Cons.IH by simp
qed simp

lemma buildAllStatementsSql_executable:
  assumes "buildAllStatementsSql sql \<noteq> []"
  shows "hasExecutableSqlContent (buildAllStatementsSql sql)"
proof -
  let ?l = "filter (\<lambda>sql. trim sql \<noteq> [] \<and> hasExecutableSqlContent sql)
    (map (\<lambda>r. stripLeadingSqlNoise (range_text r)) (findSqlStatementRanges sql))"
  obtain s rest where l: "?l = s # rest" using assms
    by (cases ?l) (simp_all add: buildAllStatementsSql_def)
  then have "s \<in> set ?l" by simp
  then have "starts_executable s"
    by (auto simp: starts_executable_strip hasExecutable_strip)
  then show ?thesis
    using starts_executable_has [OF starts_executable_merge] l by (simp add: buildAllStatementsSql_def)
qed

lemma select_all_from_executable: "hasExecutableSqlContent (select_all_from t)"
  by (rule starts_executable_has)
    (simp add: starts_executable_def select_all_from_def noise_body_def Let_def js_Cons
      isWhitespace_def newline_def cu_def)

lemma normalize_newlines_length: "length (normalize_newlines s) \<le> length s"
  by (induction s rule: normalize_newlines.induct) auto

definition option_ok :: "jsstr \<Rightarrow> chooser_option \<Rightarrow> bool" where
  "option_ok text opt \<longleftrightarrow> hasExecutableSqlContent (option_sql opt) \<and>
     highlightStart opt \<le> highlightEnd opt \<and> highlightEnd opt \<le> length text"

lemma indexed_set: "set (indexed f xs) \<subseteq> {f i x | i x. x \<in> set xs}"
  by (fastforce simp: indexed_def in_set_enumerate_eq)

lemma range_okD: "range_ok text r \<Longrightarrow> range_start r \<le> range_end r \<and> range_end r \<le> length text"
  by (simp add: range_ok_def)

lemma statement_options_ok:
  assumes "r \<in> set (collectExecutableStatementRanges text)"
  shows "option_ok text (statement_option i r)"
proof -
  from assms obtain q where q: "q \<in> set (findSqlStatementRanges text)"
      "range_start r = range_start q" "range_end r = range_end q"
    and e: "hasExecutableSqlContent (executableText r)"
    by (auto simp: collectExecutableStatementRanges_def stmt_range.defs)
  from range_okD [OF splitter.member_ok [OF q(1)]] q(2,3) e normalize_newlines_length [of "text"]
  show ?thesis by (simp add: option_ok_def statement_option_def)
qed

lemma table_options_ok:
  assumes "src \<in> set (findSqlJoinTableSources text d)"
  shows "option_ok text (table_option i src)"
proof -
  obtain j keys where "join_inv (normalize_newlines text) j keys (findSqlJoinTableSources text d)"
    using findSqlJoinTableSources_inv by blast
  with assms have "source_ok (normalize_newlines text) src" by (simp add: join_inv_def)
  then show ?thesis using normalize_newlines_length [of "text"]
    by (auto simp: option_ok_def table_option_def source_ok_def select_all_from_executable)
qed

lemma findSqlSubqueryRanges_ok:
  "r \<in> set (findSqlSubqueryRanges text d) \<Longrightarrow> subquery_ok (normalize_newlines text) r"
  by (auto simp: findSqlSubqueryRanges_def Let_def scan_subqueries_correct(1) split: if_splits)

lemma subquery_options_ok:
  assumes "r \<in> set (executable_subqueries text d)"
  shows "option_ok text (subquery_option i r)"
proof -
  from assms have "r \<in> set (findSqlSubqueryRanges text d)" "hasExecutableSqlContent (range_text r)"
    by (simp_all add: executable_subqueries_def)
  with findSqlSubqueryRanges_ok [OF this(1)] normalize_newlines_length [of "text"] show ?thesis
    by (auto simp: option_ok_def subquery_option_def subquery_ok_def dest: range_okD)
qed

lemma chooser_options_ok:
  assumes "opt \<in> set (buildSqlExecutionChooserOptions sql d)"
  shows "option_ok (normalize_newlines sql) opt"
proof -
  let ?t = "normalize_newlines sql"
  from assms consider
      (st) "opt \<in> set (indexed statement_option (collectExecutableStatementRanges ?t))"
    | (tb) "opt \<in> set (indexed table_option (findSqlJoinTableSources ?t d))"
    | (sq) "opt \<in> set (indexed subquery_option (executable_subqueries ?t d))"
    | (al) n where "opt = all_option (buildAllStatementsSql ?t) (length ?t) n"
        "trim (buildAllStatementsSql ?t) \<noteq> []"
    by (auto simp: buildSqlExecutionChooserOptions_def Let_def split: if_splits)
  then show ?thesis
  proof cases
    case st
    then show ?thesis using indexed_set statement_options_ok by fastforce
  next
    case tb
    then show ?thesis using indexed_set table_options_ok by fastforce
  next
    case sq
    then show ?thesis using indexed_set subquery_options_ok by fastforce
  next
    case al
    then have "buildAllStatementsSql ?t \<noteq> []" by auto
    with al(1) show ?thesis
      by (simp add: option_ok_def all_option_def buildAllStatementsSql_executable)
  qed
qed

section \<open>The default and the executed text\<close>

lemma find_mem: "find P xs = Some x \<Longrightarrow> f x \<in> f ` set xs"
  by (auto simp: find_Some_iff)

lemma case_option_mem:
  "(\<And>x. a = Some x \<Longrightarrow> f x \<in> S) \<Longrightarrow> b \<in> S \<Longrightarrow> (case a of None \<Rightarrow> b | Some x \<Rightarrow> f x) \<in> S"
  by (cases a) auto

lemma findOptionByHighlightRange_mem:
  "findOptionByHighlightRange options rng P = Some x \<Longrightarrow> option_id x \<in> option_id ` set options"
  by (auto simp: findOptionByHighlightRange_def dest: find_mem split: option.splits)

lemma default_option_mem:
  assumes "options \<noteq> []"
  shows "resolveDefaultChooserOptionId options sql c d \<in> option_id ` set options"
  unfolding resolveDefaultChooserOptionId_def Let_def
proof (intro case_option_mem)
  show "(case options of [] \<Rightarrow> all_option_id | opt # _ \<Rightarrow> option_id opt) \<in> option_id ` set options"
    using assms by (cases options) auto
qed (auto dest: find_mem findOptionByHighlightRange_mem split: option.splits)

lemma execute_stripped_executable:
  "execute_stripped sql = Execute t \<Longrightarrow> hasExecutableSqlContent sql \<Longrightarrow> hasExecutableSqlContent t"
  by (auto simp: execute_stripped_def Let_def split: if_splits)

lemma current_statement_intent_executable:
  "current_statement_intent text c = Execute t \<Longrightarrow> hasExecutableSqlContent t"
  by (auto simp: current_statement_intent_def dest: execute_stripped_executable
      split: option.splits if_splits)

lemma single_statement_intent_executable:
  "single_statement_intent text c = Execute t \<Longrightarrow> hasExecutableSqlContent t"
proof -
  assume a: "single_statement_intent text c = Execute t"
  have "hasExecutableSqlContent (executableText r)"
    if "collectExecutableStatementRanges text = [r]" for r
  proof -
    have "r \<in> set (collectExecutableStatementRanges text)" using that by simp
    then show ?thesis by (simp add: collectExecutableStatementRanges_def)
  qed
  with a show ?thesis
    by (auto simp: single_statement_intent_def
        dest: execute_stripped_executable current_statement_intent_executable
        split: list.splits option.splits if_splits)
qed

lemma single_statement_intent_kind:
  "single_statement_intent text c = EmptyIntent \<or> (\<exists>t. single_statement_intent text c = Execute t)"
  by (auto simp: single_statement_intent_def current_statement_intent_def execute_stripped_def Let_def
      split: list.split option.split)

section \<open>Properties\<close>

text \<open>Removing leading comments: it removes them all (a second removal changes nothing), it
  returns a suffix of the text, it keeps what is executable, and it leaves nothing exactly
  when the text has no executable content.\<close>

theorem stripLeadingSqlNoise_correct:
  "stripLeadingSqlNoise (stripLeadingSqlNoise sql) = stripLeadingSqlNoise sql \<and>
   (\<exists>noise. sql = noise @ stripLeadingSqlNoise sql) \<and>
   (hasExecutableSqlContent (stripLeadingSqlNoise sql) \<longleftrightarrow> hasExecutableSqlContent sql) \<and>
   (stripLeadingSqlNoise sql = [] \<longleftrightarrow> \<not> hasExecutableSqlContent sql)"
proof -
  have "\<exists>noise. sql = noise @ stripLeadingSqlNoise sql"
    by (metis append_take_drop_id stripLeadingSqlNoise_eq)
  then show ?thesis using strip_idem hasExecutable_strip strip_Nil_iff by blast
qed

text \<open>The options of the chooser are usable: their ids are distinct, each option runs a text
  with executable content, and each highlights a range inside the script.\<close>

theorem buildSqlExecutionChooserOptions_correct:
  "distinct (map option_id (buildSqlExecutionChooserOptions sql d)) \<and>
   (\<forall>opt \<in> set (buildSqlExecutionChooserOptions sql d).
      hasExecutableSqlContent (option_sql opt) \<and> highlightStart opt \<le> highlightEnd opt \<and>
      highlightEnd opt \<le> length (normalize_newlines sql))"
  using chooser_ids_distinct chooser_options_ok by (auto simp: option_ok_def)

theorem buildSqlExecutionChooserOptions_correct_witness:
  "map option_id (buildSqlExecutionChooserOptions (js ''a; b'') (js ''mysql'')) =
     [js ''statement-0'', js ''statement-1'', js ''all''] \<and>
   list_all (\<lambda>opt. hasExecutableSqlContent (option_sql opt))
     (buildSqlExecutionChooserOptions (js ''a; b'') (js ''mysql''))"
proof
  show "map option_id (buildSqlExecutionChooserOptions (js ''a; b'') (js ''mysql'')) =
     [js ''statement-0'', js ''statement-1'', js ''all'']" by code_simp
  show "list_all (\<lambda>opt. hasExecutableSqlContent (option_sql opt))
     (buildSqlExecutionChooserOptions (js ''a; b'') (js ''mysql''))"
    using buildSqlExecutionChooserOptions_correct unfolding list_all_iff by blast
qed

text \<open>What a run does: a non-blank selection runs verbatim; without one, nothing is decided
  unless the user is asked; a text that runs has executable content (a script of comments
  never runs); and a chooser offers at least one option and preselects one of its own.\<close>

theorem resolveSqlExecutionIntent_correct:
  "case resolveSqlExecutionIntent input of
      Execute sql \<Rightarrow>
        (if trim (selectedSql input) \<noteq> [] then sql = selectedSql input
         else askWhatToExecute input \<and> hasExecutableSqlContent sql)
    | Chooser options defaultOptionId \<Rightarrow>
        trim (selectedSql input) = [] \<and> askWhatToExecute input \<and>
        options = buildSqlExecutionChooserOptions (normalize_newlines (fullSql input)) (dialect input) \<and>
        defaultOptionId \<in> option_id ` set options
    | UseAuto \<Rightarrow> trim (selectedSql input) = [] \<and> \<not> askWhatToExecute input
    | EmptyIntent \<Rightarrow> trim (selectedSql input) = [] \<and> askWhatToExecute input"
proof (cases "trim (selectedSql input) \<noteq> [] \<or> \<not> askWhatToExecute input")
  case True
  then show ?thesis by (auto simp: resolveSqlExecutionIntent_def)
next
  case False
  let ?t = "normalize_newlines (fullSql input)"
  let ?s = "single_statement_intent ?t (cursorOffset input)"
  let ?o = "buildSqlExecutionChooserOptions ?t (dialect input)"
  have single: "case ?s of Execute sql \<Rightarrow> hasExecutableSqlContent sql | Chooser _ _ \<Rightarrow> False
      | UseAuto \<Rightarrow> False | EmptyIntent \<Rightarrow> True"
    using single_statement_intent_executable [of ?t "cursorOffset input"] single_statement_intent_kind [of ?t "cursorOffset input"]
    by (cases ?s) auto
  have "resolveSqlExecutionIntent input \<in> {?s, EmptyIntent} \<or>
    (?o \<noteq> [] \<and> resolveSqlExecutionIntent input =
       Chooser ?o (resolveDefaultChooserOptionId ?o ?t (cursorOffset input) (dialect input)))"
    using False by (simp add: resolveSqlExecutionIntent_def Let_def)
  with False single default_option_mem [of ?o] show ?thesis
    by (auto split: execution_intent.splits)
qed

text \<open>A preview is one bounded line: at most the maximal length (the ellipsis included), and
  with no white space other than single blanks.\<close>

theorem truncateSqlPreview_bounded:
  assumes "1 \<le> maxLength"
  shows "int (length (truncateSqlPreview sql maxLength)) \<le> maxLength \<and>
    (\<forall>c \<in> set (truncateSqlPreview sql maxLength). is_js_space c \<longrightarrow> c = cu CHR '' '')"
proof -
  have "c \<in> set (collapse_spaces sql) \<or> c = ellipsis" if "c \<in> set (truncateSqlPreview sql maxLength)" for c
    using that set_trim_subset [of "collapse_spaces sql"] set_take_subset [of _ "trim (collapse_spaces sql)"]
    by (auto simp: truncateSqlPreview_def Let_def slice_def split: if_splits)
  moreover have "\<not> is_js_space ellipsis" by (simp add: is_js_space_def ellipsis_def)
  ultimately show ?thesis
    using truncateSqlPreview_length [OF assms] collapse_spaces_space by blast
qed

theorem truncateSqlPreview_bounded_witness:
  "truncateSqlPreview (js ''select   a  from t'') 10 = js ''select a '' @ [ellipsis] \<and>
   int (length (truncateSqlPreview (js ''select   a  from t'') 10)) \<le> 10"
proof
  show "truncateSqlPreview (js ''select   a  from t'') 10 = js ''select a '' @ [ellipsis]" by code_simp
  show "int (length (truncateSqlPreview (js ''select   a  from t'') 10)) \<le> 10"
    using truncateSqlPreview_bounded [of 10 "js ''select   a  from t''"] by simp
qed

end
