(* ===== verification/SqlRoundtrip.thy ===== *)
theory SqlRoundtrip
  imports SqlStatements
begin

text \<open>
  Joining statements with semicolons and splitting them again.

  A statement is written as a list of tokens: words that open no PL/SQL block, quoted
  strings and identifiers with arbitrary content (semicolons, comment markers and dollar
  signs included), and plain characters. The scanner walks over the tokens of a statement
  without changing its state, so splitting the joined script returns the statements.
\<close>

section \<open>Statements as tokens\<close>

datatype stmt_tok = Word jsstr | Quoted jschar jsstr | Plain jschar

fun tok_str :: "stmt_tok \<Rightarrow> jsstr" where
  "tok_str (Word w) = w"
| "tok_str (Quoted q b) = q # b @ [q]"
| "tok_str (Plain c) = [c]"

definition plsql_word :: "jsstr \<Rightarrow> bool" where
  "plsql_word w \<longleftrightarrow> w \<in> {js ''begin'', js ''declare'', js ''is'', js ''as'', js ''case'', js ''end''}"

fun tok_ok :: "stmt_tok \<Rightarrow> bool" where
  "tok_ok (Word w) \<longleftrightarrow>
     w \<noteq> [] \<and> isSqlIdentifierStart (hd w) \<and> (\<forall>c \<in> set w. isSqlIdentifierPart c) \<and>
     \<not> plsql_word (to_lower w)"
| "tok_ok (Quoted q b) \<longleftrightarrow>
     (q = squote \<or> q = dquote \<or> q = backtick) \<and> q \<notin> set b \<and>
     (q = backtick \<or> backslash \<notin> set b)"
| "tok_ok (Plain c) \<longleftrightarrow>
     c \<notin> {squote, dquote, backtick, cu CHR ''/'', cu CHR ''#'', cu CHR ''-'', cu CHR ''$'',
          cu CHR '';'', fullwidth_semicolon} \<and> \<not> isSqlIdentifierStart c"

definition toks_str :: "stmt_tok list \<Rightarrow> jsstr" where
  "toks_str ts = concat (map tok_str ts)"

text \<open>A word ends where the next token starts.\<close>

fun is_word :: "stmt_tok \<Rightarrow> bool" where
  "is_word (Word w) = True"
| "is_word t = False"

lemma is_word_iff [simp]: "is_word t \<longleftrightarrow> (\<exists>w. t = Word w)"
  by (cases t) auto

declare is_word.simps [simp del]

fun toks_ok :: "stmt_tok list \<Rightarrow> bool" where
  "toks_ok [] = True"
| "toks_ok [t] = tok_ok t"
| "toks_ok (t # u # ts) \<longleftrightarrow>
     tok_ok t \<and> (is_word t \<longrightarrow> \<not> isSqlIdentifierPart (hd (tok_str u))) \<and> toks_ok (u # ts)"

definition stmt_ok :: "stmt_tok list \<Rightarrow> bool" where
  "stmt_ok ts \<longleftrightarrow> ts \<noteq> [] \<and> toks_ok ts \<and>
     \<not> isWhitespace (hd (toks_str ts)) \<and> \<not> isWhitespace (last (toks_str ts))"

section \<open>The scanner walks over a token\<close>

text \<open>The state between the tokens of a statement that opens no block.\<close>

definition plain_state :: "nat \<Rightarrow> stmt_range list \<Rightarrow> stmt_state" where
  "plain_state start rs = init_stmt_state\<lparr>statementStart := start, ranges := rs\<rparr>"

abbreviation scan :: "jsstr \<Rightarrow> nat \<Rightarrow> stmt_state \<Rightarrow> nat \<times> stmt_state" where
  "scan text \<equiv> loop (length text) (stmt_body text)"

lemma plain_state_simps [simp]:
  "inSingle (plain_state a rs) = False" "inDouble (plain_state a rs) = False"
  "inBacktick (plain_state a rs) = False" "escaped (plain_state a rs) = False"
  "inLineComment (plain_state a rs) = False" "inBlockComment (plain_state a rs) = False"
  "dollarTag (plain_state a rs) = None" "statementStart (plain_state a rs) = a"
  "plsqlDepth (plain_state a rs) = 0" "plsqlDeclareBeginSkips (plain_state a rs) = 0"
  "plsqlCaseDepth (plain_state a rs) = 0" "skipNextPlsqlCaseEndToken (plain_state a rs) = False"
  "justClosedPLSQLBlock (plain_state a rs) = False" "ranges (plain_state a rs) = rs"
  by (simp_all add: plain_state_def init_stmt_state_def)

lemma plain_state_updates [simp]:
  "plain_state a rs\<lparr>statementStart := b\<rparr> = plain_state b rs"
  "plain_state a rs\<lparr>ranges := rs'\<rparr> = plain_state a rs'"
  "plain_state a rs\<lparr>justClosedPLSQLBlock := False\<rparr> = plain_state a rs"
  "plain_state a rs\<lparr>skipNextPlsqlCaseEndToken := False\<rparr> = plain_state a rs"
  by (simp_all add: plain_state_def init_stmt_state_def)

lemma plain_state_lex_ok: "lex_ok (plain_state a rs)"
  by (simp add: lex_ok_def)

lemma drop_eq_Cons: "drop i xs = y # ys \<Longrightarrow> i < length xs \<and> xs ! i = y \<and> drop (Suc i) xs = ys"
  by (metis Cons_nth_drop_Suc drop_all leI list.distinct(1) list.inject)

lemma scan_step:
  assumes "stmt_body text i s = (j, s')" and "i < length text" and "lex_ok s"
  shows "scan text i s = scan text j s'"
  using assms by (simp add: stmt_scan.loop_unfold [of s "text" i])

lemma scan_plain:
  assumes d: "drop i text = c # rest" and ok: "tok_ok (Plain c)"
  shows "scan text i (plain_state a rs) = scan text (i + 1) (plain_state a rs)"
proof -
  note i = drop_eq_Cons [OF d]
  have "stmt_body text i (plain_state a rs) = (i + 1, plain_state a rs)"
    using i ok
    by (simp add: stmt_body_def stmt_code_char_def Let_def stmt_slash_line_def match_dollar_tag_def)
  then show ?thesis using conjunct1 [OF i] plain_state_lex_ok by (rule scan_step)
qed

text \<open>Inside quotes every character but the closing quote is skipped.\<close>

definition quoted_state :: "jschar \<Rightarrow> nat \<Rightarrow> stmt_range list \<Rightarrow> stmt_state" where
  "quoted_state q a rs =
     (plain_state a rs)
       \<lparr>inSingle := (q = squote), inDouble := (q = dquote), inBacktick := (q = backtick)\<rparr>"

lemma quoted_state_simps [simp]:
  "lex_ok (quoted_state q a rs)" "lex_ok (plain_state a rs)"
  by (simp_all add: quoted_state_def lex_ok_def)

lemma quoted_state_fields [simp]:
  "inSingle (quoted_state q a rs) \<longleftrightarrow> q = squote" "inDouble (quoted_state q a rs) \<longleftrightarrow> q = dquote"
  "inBacktick (quoted_state q a rs) \<longleftrightarrow> q = backtick" "escaped (quoted_state q a rs) = False"
  "inLineComment (quoted_state q a rs) = False" "inBlockComment (quoted_state q a rs) = False"
  "dollarTag (quoted_state q a rs) = None"
  by (simp_all add: quoted_state_def)

lemma scan_in_quote:
  assumes "drop i text = b @ q # rest" and "tok_ok (Quoted q b)"
  shows "scan text i (quoted_state q a rs) = scan text (i + length b + 1) (plain_state a rs)"
  using assms
proof (induction b arbitrary: i)
  case Nil
  then have i: "i < length text" "text ! i = q" by (auto dest: drop_eq_Cons)
  have "stmt_body text i (quoted_state q a rs) = (i + 1, plain_state a rs)"
    using i Nil.prems(2)
    by (auto simp: stmt_body_def stmt_code_char_def Let_def quoted_state_def plain_state_def
        init_stmt_state_def)
  then have "scan text i (quoted_state q a rs) = scan text (i + 1) (plain_state a rs)"
    using i(1) quoted_state_simps(1) by (rule scan_step)
  then show ?case by simp
next
  case (Cons c b)
  then have i: "i < length text" "text ! i = c" "drop (Suc i) text = b @ q # rest"
    by (auto dest: drop_eq_Cons)
  have "stmt_body text i (quoted_state q a rs) = (i + 1, quoted_state q a rs)"
  proof -
    have "q = squote \<or> q = dquote \<or> q = backtick" "text ! i \<noteq> q" "q = backtick \<or> text ! i \<noteq> backslash"
      using Cons.prems(2) i(2) by auto
    then show ?thesis
      by (elim disjE) (simp_all add: stmt_body_def stmt_code_char_def Let_def)
  qed
  then have "scan text i (quoted_state q a rs) = scan text (i + 1) (quoted_state q a rs)"
    using i(1) quoted_state_simps(1) by (rule scan_step)
  also have "\<dots> = scan text (i + 1 + length b + 1) (plain_state a rs)"
    using Cons.prems(2) i(3) by (intro Cons.IH) auto
  finally show ?case by simp
qed

lemma scan_quoted:
  assumes d: "drop i text = q # b @ q # rest" and ok: "tok_ok (Quoted q b)"
  shows "scan text i (plain_state a rs) = scan text (i + length b + 2) (plain_state a rs)"
proof -
  note i = drop_eq_Cons [OF d]
  have "stmt_body text i (plain_state a rs) = (i + 1, quoted_state q a rs)"
    using i ok
    by (auto simp: stmt_body_def stmt_code_char_def Let_def quoted_state_def plain_state_def
        init_stmt_state_def stmt_slash_line_def match_dollar_tag_def)
  then have "scan text i (plain_state a rs) = scan text (i + 1) (quoted_state q a rs)"
    using conjunct1 [OF i] quoted_state_simps(2) by (rule scan_step)
  also have "\<dots> = scan text (i + 1 + length b + 1) (plain_state a rs)"
    using i ok by (intro scan_in_quote) auto
  finally show ?thesis by simp
qed

text \<open>A word is read as one identifier and leaves the block bookkeeping as it is.\<close>

lemma identifier_end_word:
  assumes "drop i text = w @ rest" and "w \<noteq> []" and "\<forall>c \<in> set w. isSqlIdentifierPart c"
    and "rest = [] \<or> \<not> isSqlIdentifierPart (hd rest)"
  shows "identifier_end text (i + 1) = i + length w" and "slice text i (i + length w) = w"
proof -
  have len: "i + length w \<le> length text"
    using assms(1,2) by (metis add.commute drop_all append_is_Nil_conv length_append length_drop
        le_add1 le_diff_conv2 nat_le_linear)
  have nth: "text ! (i + k) = (w @ rest) ! k" if "k < length (w @ rest)" for k
    using assms(1) that by (metis length_drop less_diff_conv add.commute less_imp_le_nat nth_drop
        le_add1 nat_le_linear assms(2) append_is_Nil_conv drop_all)
  show "identifier_end text (i + 1) = i + length w"
    unfolding identifier_end_def
  proof (rule advance_eqI)
    show "i + 1 \<le> i + length w" using assms(2) by (cases w) auto
    show "i + length w \<le> length text" by (rule len)
  next
    fix k assume "i + 1 \<le> k" "k < i + length w"
    then have "text ! k = w ! (k - i)" "k - i < length w"
      using nth [of "k - i"] by (auto simp: nth_append)
    with assms(3) show "isSqlIdentifierPart (text ! k)" by simp
  next
    assume "i + length w < length text"
    then have "rest \<noteq> []" using assms(1)
      by (metis add.commute append_Nil2 length_drop less_diff_conv nat_neq_iff)
    with nth [of "length w"] assms(4) show "\<not> isSqlIdentifierPart (text ! (i + length w))"
      by (simp add: nth_append hd_conv_nth)
  qed
  show "slice text i (i + length w) = w" using assms(1) by (simp add: slice_def)
qed

lemma identifier_start_not_special:
  assumes "isSqlIdentifierStart c"
  shows "c \<noteq> squote" "c \<noteq> dquote" "c \<noteq> backtick" "c \<noteq> backslash" "c \<noteq> cu CHR ''/''"
    "c \<noteq> cu CHR ''#''" "c \<noteq> cu CHR ''-''" "c \<noteq> cu CHR ''$''"
  using assms by (auto simp: isSqlIdentifierStart_def ascii_letter_def cu_def)

lemma scan_word:
  assumes d: "drop i text = w @ rest" and ok: "tok_ok (Word w)"
    and r: "rest = [] \<or> \<not> isSqlIdentifierPart (hd rest)"
  shows "scan text i (plain_state a rs) = scan text (i + length w) (plain_state a rs)"
proof -
  obtain c w' where w: "w = c # w'" using ok by (cases w) auto
  have i: "i < length text" "text ! i = c" using d w by (auto dest: drop_eq_Cons)
  have c: "isSqlIdentifierStart c" using ok w by simp
  have e: "identifier_end text (i + 1) = i + length w" "slice text i (i + length w) = w"
    using identifier_end_word [OF d _ _ r] ok by auto
  have "stmt_body text i (plain_state a rs) = stmt_code_char text i (plain_state a rs)"
    using i identifier_start_not_special [OF c]
    by (simp add: stmt_body_def Let_def stmt_slash_line_def match_dollar_tag_def)
  also have "\<dots> = stmt_token text i (plain_state a rs)"
    using i c identifier_start_not_special [OF c] by (simp add: stmt_code_char_def)
  also have "\<dots> = (i + length w, plain_state a rs)"
    using e ok
    by (simp add: stmt_token_def stmt_case_token_def stmt_block_token_def plsql_word_def
        shouldEnterPlsqlCreateRoutineBlock_def)
  finally show ?thesis using i(1) plain_state_lex_ok by (rule scan_step)
qed

lemma scan_toks:
  assumes "drop i text = toks_str ts @ rest" and "toks_ok ts"
    and "rest = [] \<or> \<not> isSqlIdentifierPart (hd rest)"
  shows "scan text i (plain_state a rs) = scan text (i + length (toks_str ts)) (plain_state a rs)"
  using assms
proof (induction ts arbitrary: i)
  case Nil
  then show ?case by (simp add: toks_str_def)
next
  case (Cons t ts)
  let ?r = "toks_str ts @ rest"
  have ok: "tok_ok t" "toks_ok ts" using Cons.prems(2) by (cases ts; simp)+
  have d: "drop i text = tok_str t @ ?r" using Cons.prems(1) by (simp add: toks_str_def)
  have follow: "?r = [] \<or> \<not> isSqlIdentifierPart (hd ?r)" if "t = Word w" for w
  proof (cases ts)
    case Nil
    with Cons.prems(3) show ?thesis by (simp add: toks_str_def)
  next
    case (Cons u us)
    then have "tok_str u \<noteq> []" using ok(2) by (cases u; cases us) auto
    with Cons that \<open>toks_ok (t # ts)\<close> show ?thesis by (simp add: toks_str_def)
  qed
  have "scan text i (plain_state a rs) = scan text (i + length (tok_str t)) (plain_state a rs)"
  proof (cases t)
    case (Word w)
    with d ok follow show ?thesis by (simp add: scan_word)
  next
    case (Quoted q b)
    with d ok show ?thesis using scan_quoted [of i "text" q b ?r a rs] by (simp add: add.assoc)
  next
    case (Plain c)
    with d ok show ?thesis using scan_plain [of i "text" c ?r a rs] by simp
  qed
  also have "\<dots> = scan text (i + length (tok_str t) + length (toks_str ts)) (plain_state a rs)"
  proof (rule Cons.IH)
    show "drop (i + length (tok_str t)) text = ?r"
      using d by (metis add.commute append_eq_conv_conj drop_drop)
  qed (use ok Cons.prems in auto)
  finally show ?case by (simp add: toks_str_def add.assoc)
qed

section \<open>Scripts\<close>

lemma push_stmt:
  assumes d: "drop i text = toks_str ts @ rest" and ok: "stmt_ok ts"
  shows "push_range text (i + length (toks_str ts)) (plain_state i rs) =
    plain_state i (rs @ [\<lparr>range_start = i, range_end = i + length (toks_str ts),
                        range_text = toks_str ts\<rparr>])"
proof -
  let ?t = "toks_str ts"
  have ne: "?t \<noteq> []"
    using ok by (cases ts; cases "hd ts"; cases "tl ts") (auto simp: stmt_ok_def toks_str_def)
  have len: "i + length ?t \<le> length text"
    using d ne by (metis add.commute append_is_Nil_conv drop_all length_append length_drop
        le_add1 le_diff_conv2 nat_le_linear)
  have nth: "text ! (i + k) = ?t ! k" if "k < length ?t" for k
    using arg_cong [OF d, of "\<lambda>xs. xs ! k"] that len by (simp add: nth_append)
  have "trimStatementRange text i (i + length ?t) =
    Some \<lparr>range_start = i, range_end = i + length ?t, range_text = slice text i (i + length ?t)\<rparr>"
  proof (rule trimStatementRange_exact)
    show "i < i + length ?t" using ne by simp
    show "i + length ?t \<le> length text" by (rule len)
    show "\<not> isWhitespace (text ! i)"
      using nth [of 0] ne ok by (simp add: stmt_ok_def hd_conv_nth)
    have "i + length ?t - 1 = i + (length ?t - 1)" using ne by (cases ?t) auto
    then show "\<not> isWhitespace (text ! (i + length ?t - 1))"
      using nth [of "length ?t - 1"] ne ok by (simp add: stmt_ok_def last_conv_nth)
  qed
  moreover have "slice text i (i + length ?t) = ?t" using d by (simp add: slice_def)
  ultimately show ?thesis by (simp add: push_range_def)
qed

lemma scan_separator:
  assumes d: "drop i text = toks_str ts @ cu CHR '';'' # rest" and ok: "stmt_ok ts"
  shows "scan text (i + length (toks_str ts)) (plain_state i rs) =
    scan text (i + length (toks_str ts) + 1) (plain_state (i + length (toks_str ts) + 1)
      (rs @ [\<lparr>range_start = i, range_end = i + length (toks_str ts), range_text = toks_str ts\<rparr>]))"
proof -
  let ?j = "i + length (toks_str ts)"
  have "drop ?j text = cu CHR '';'' # rest"
    using d by (metis add.commute append_eq_conv_conj drop_drop)
  then have j: "?j < length text" "text ! ?j = cu CHR '';''" by (auto dest: drop_eq_Cons)
  have "\<not> isSqlIdentifierStart (cu CHR '';'')"
    by (simp add: isSqlIdentifierStart_def ascii_letter_def cu_def)
  then have "stmt_body text ?j (plain_state i rs) =
    (?j + 1, (push_range text ?j (plain_state i rs))
      \<lparr>statementStart := ?j + 1, justClosedPLSQLBlock := False\<rparr>)"
    using j by (simp add: stmt_body_def stmt_code_char_def Let_def stmt_slash_line_def
        match_dollar_tag_def)
  then have "stmt_body text ?j (plain_state i rs) = (?j + 1, plain_state (?j + 1)
      (rs @ [\<lparr>range_start = i, range_end = ?j, range_text = toks_str ts\<rparr>]))"
    using push_stmt [OF d ok, of rs] by simp
  then show ?thesis using j(1) plain_state_lex_ok by (rule scan_step)
qed

lemma scan_script:
  assumes "drop i text = join [cu CHR '';''] (map toks_str ss)" and "ss \<noteq> []"
    and "\<forall>ts \<in> set ss. stmt_ok ts"
  shows "map range_text (ranges (push_range text (length text)
      (snd (scan text i (plain_state i rs))))) = map range_text rs @ map toks_str ss"
  using assms
proof (induction ss arbitrary: i rs)
  case Nil
  then show ?case by simp
next
  case (Cons ts ss)
  have ok: "stmt_ok ts" "toks_ok ts" using Cons.prems(3) by (auto simp: stmt_ok_def)
  let ?j = "i + length (toks_str ts)"
  let ?r = "\<lparr>range_start = i, range_end = ?j, range_text = toks_str ts\<rparr>"
  have semi: "\<not> isSqlIdentifierPart (cu CHR '';'')"
    by (simp add: isSqlIdentifierPart_def ascii_letter_def ascii_digit_def cu_def)
  show ?case
  proof (cases ss)
    case Nil
    then have d: "drop i text = toks_str ts @ []" using Cons.prems(1) by simp
    have ne: "toks_str ts \<noteq> []"
      using ok by (cases ts; cases "hd ts"; cases "tl ts") (auto simp: stmt_ok_def toks_str_def)
    then have "i < length text" using d by (metis append_Nil2 drop_all not_less)
    then have len: "length text = ?j"
      using arg_cong [OF d, of length] by simp
    have "scan text i (plain_state i rs) = scan text ?j (plain_state i rs)"
      using scan_toks [OF d ok(2)] by simp
    also have "\<dots> = (?j, plain_state i rs)"
      using len by (simp add: loop.simps)
    finally show ?thesis using push_stmt [OF d ok(1), of rs] Nil len by simp
  next
    case (Cons ts' ss')
    let ?rest = "join [cu CHR '';''] (map toks_str ss)"
    have d: "drop i text = toks_str ts @ cu CHR '';'' # ?rest"
      using Cons.prems(1) Cons by simp
    have "scan text i (plain_state i rs) = scan text ?j (plain_state i rs)"
      using scan_toks [OF d ok(2)] semi by simp
    also have "\<dots> = scan text (?j + 1) (plain_state (?j + 1) (rs @ [?r]))"
      by (rule scan_separator [OF d ok(1)])
    finally have eq: "scan text i (plain_state i rs) =
      scan text (?j + 1) (plain_state (?j + 1) (rs @ [?r]))" .
    have "drop (?j + 1) text = drop (Suc (length (toks_str ts))) (drop i text)"
      by (simp add: add.commute)
    also have "\<dots> = ?rest" using d by simp
    finally have d': "drop (?j + 1) text = ?rest" .
    have "map range_text (ranges (push_range text (length text)
        (snd (scan text (?j + 1) (plain_state (?j + 1) (rs @ [?r])))))) =
      map range_text (rs @ [?r]) @ map toks_str ss"
      using Cons.prems(3) Cons by (intro Cons.IH [OF d']) auto
    with eq show ?thesis by simp
  qed
qed

lemma split_statements_join:
  assumes "ss \<noteq> []" and "\<forall>ts \<in> set ss. stmt_ok ts"
  shows "map range_text (split_statements (join [cu CHR '';''] (map toks_str ss))) =
    map toks_str ss"
proof -
  have "init_stmt_state = plain_state 0 []" by (simp add: plain_state_def init_stmt_state_def)
  with scan_script [of 0 "join [cu CHR '';''] (map toks_str ss)" ss "[]"] assms
  show ?thesis by (simp add: split_statements_def)
qed

section \<open>Property\<close>

text \<open>C4: Round trip of the splitter: statements built from words that are not PL/SQL keywords,
  quoted strings and plain characters, joined with semicolons, are split back into exactly
  those statements, whatever separators and comment marks their quoted parts contain.\<close>

theorem findSqlStatementRanges_join:
  assumes "ss \<noteq> []" and "\<forall>ts \<in> set ss. stmt_ok ts"
    and "13 \<notin> set (join [cu CHR '';''] (map toks_str ss))"
  shows "map range_text (findSqlStatementRanges (join [cu CHR '';''] (map toks_str ss))) =
    map toks_str ss"
  using split_statements_join [OF assms(1,2)] normalize_newlines_id [OF assms(3)]
  by (simp add: findSqlStatementRanges_def)

theorem findSqlStatementRanges_join_witness:
  "map range_text (findSqlStatementRanges (join [cu CHR '';'']
     [js ''select '' @ [squote] @ js ''a;b'' @ [squote], js ''drop t''])) =
   [js ''select '' @ [squote] @ js ''a;b'' @ [squote], js ''drop t'']"
proof -
  let ?ss = "[[Word (js ''select''), Plain (cu CHR '' ''), Quoted squote (js ''a;b'')],
              [Word (js ''drop''), Plain (cu CHR '' ''), Word (js ''t'')]]"
  have "map toks_str ?ss = [js ''select '' @ [squote] @ js ''a;b'' @ [squote], js ''drop t'']"
    by code_simp
  moreover have "?ss \<noteq> []" "\<forall>ts \<in> set ?ss. stmt_ok ts"
    "13 \<notin> set (join [cu CHR '';''] (map toks_str ?ss))" by code_simp+
  ultimately show ?thesis using findSqlStatementRanges_join [of ?ss] by simp
qed

end
