(* ===== verification/SqlDialect.thy ===== *)
theory SqlDialect
  imports JsString
begin

text \<open>
  Dialect names and identifier quoting: \<open>frontend/src/utils/sqlDialect.ts\<close>, lines 45 to 272
  (the completion tables that follow are data), and the protocol names of
  \<open>frontend/src/utils/oceanBaseProtocol.ts\<close> it uses. A missing option is the empty string.
\<close>

section \<open>OceanBase protocols\<close>

definition normalizeToken :: "jsstr \<Rightarrow> jsstr" where
  "normalizeToken v = to_lower (trim v)"

definition normalizeOceanBaseProtocol :: "jsstr \<Rightarrow> jsstr option" where
  "normalizeOceanBaseProtocol v =
     (let normalized = normalizeToken v in
      if normalized = [] then None
      else if normalized \<in> {js ''oracle'', js ''oracle-mode'', js ''oracle_mode'', js ''oboracle''}
        then Some (js ''oracle'')
      else if normalized \<in> {js ''mysql'', js ''mysql-compatible'', js ''mysql_compatible'',
                            js ''mysql-mode'', js ''mysql_mode'', js ''obmysql''}
        then Some (js ''mysql'')
      else None)"

definition isUnsupportedOceanBaseProtocolValue :: "jsstr \<Rightarrow> bool" where
  "isUnsupportedOceanBaseProtocolValue v \<longleftrightarrow>
     normalizeToken v \<noteq> [] \<and> normalizeOceanBaseProtocol (normalizeToken v) = None"

definition resolveOceanBaseProtocolForDialect :: "jsstr \<Rightarrow> jsstr" where
  "resolveOceanBaseProtocolForDialect v =
     (case normalizeOceanBaseProtocol v of None \<Rightarrow> js ''mysql'' | Some p \<Rightarrow> p)"

section \<open>Dialect names\<close>

text \<open>The \<open>switch\<close>: each entry is a result and the labels that lead to it.\<close>

definition dialect_cases :: "(jsstr \<times> jsstr list) list" where
  "dialect_cases = map (\<lambda>(r, ls). (js r, map js ls))
     [(''postgres'', [''postgresql'', ''postgres'', ''pg'', ''pq'', ''pgx'']),
      (''opengauss'', [''opengauss'', ''open_gauss'', ''open-gauss'']),
      (''gaussdb'', [''gaussdb'', ''gauss_db'', ''gauss-db'']),
      (''sqlserver'', [''mssql'', ''sql_server'', ''sql-server'']),
      (''iris'', [''intersystems'', ''intersystemsiris'', ''inter-systems'', ''inter-systems-iris'', ''iris'']),
      (''diros'', [''doris'', ''diros'']),
      (''starrocks'', [''starrocks'']),
      (''dameng'', [''dm'', ''dm8'', ''dameng'']),
      (''sqlite'', [''sqlite3'', ''sqlite'']),
      (''sphinx'', [''sphinxql'']),
      (''kingbase'', [''kingbase8'', ''kingbasees'', ''kingbasev8'']),
      (''mysql'', [''gdb'', ''goldendb'', ''greatdb'']),
      (''mariadb'', [''mariadb'']), (''oceanbase'', [''oceanbase'']), (''mysql'', [''mysql'']),
      (''sphinx'', [''sphinx'']), (''kingbase'', [''kingbase'']), (''highgo'', [''highgo'']),
      (''vastbase'', [''vastbase'']), (''oracle'', [''oracle'']), (''duckdb'', [''duckdb'']),
      (''clickhouse'', [''clickhouse'']), (''tdengine'', [''tdengine'']), (''iotdb'', [''iotdb'']),
      (''mongodb'', [''mongodb'']), (''redis'', [''redis'']), (''elasticsearch'', [''elasticsearch'']),
      (''elasticsearch'', [''elastic'']),
      (''chroma'', [''chromadb'', ''chroma-db'', ''chroma'']),
      (''qdrant'', [''qdrantdb'', ''qdrant-db'', ''qdrant'']),
      (''iotdb'', [''apache-iotdb'', ''apache_iotdb'']),
      (''rocketmq'', [''rocketmq'', ''rocket-mq'', ''rocket_mq'', ''apache-rocketmq'', ''apache_rocketmq'', ''rmq'']),
      (''mqtt'', [''mqtt'', ''mqtts'']),
      (''kafka'', [''kafka'', ''apache-kafka'', ''apache_kafka'']),
      (''rabbitmq'', [''rabbitmq'', ''rabbit-mq'', ''rabbit_mq''])]"

text \<open>The chain of \<open>includes\<close> tests after it, in order.\<close>

definition dialect_substrings :: "(jsstr \<times> jsstr list) list" where
  "dialect_substrings = map (\<lambda>(r, ls). (js r, map js ls))
     [(''opengauss'', [''opengauss'', ''open_gauss'', ''open-gauss'']),
      (''gaussdb'', [''gaussdb'', ''gauss_db'', ''gauss-db'']),
      (''postgres'', [''postgres'']), (''oceanbase'', [''oceanbase'']), (''mariadb'', [''mariadb'']),
      (''mysql'', [''goldendb'', ''greatdb'']), (''mysql'', [''mysql'']),
      (''diros'', [''doris'', ''diros'']), (''starrocks'', [''starrocks'']),
      (''sphinx'', [''sphinx'']), (''kingbase'', [''kingbase'']), (''highgo'', [''highgo'']),
      (''vastbase'', [''vastbase'']), (''oracle'', [''oracle'']), (''dameng'', [''dameng'', ''dm8'']),
      (''sqlite'', [''sqlite'']), (''duckdb'', [''duckdb'']), (''clickhouse'', [''clickhouse'']),
      (''tdengine'', [''tdengine'']), (''iotdb'', [''iotdb'']),
      (''rocketmq'', [''rocketmq'', ''rocket-mq'', ''rocket_mq'']), (''mqtt'', [''mqtt'']),
      (''kafka'', [''kafka'']), (''rabbitmq'', [''rabbitmq'', ''rabbit-mq'', ''rabbit_mq'']),
      (''sqlserver'', [''sqlserver'', ''mssql'']), (''iris'', [''iris'', ''intersystems'']),
      (''elasticsearch'', [''elastic'']), (''chroma'', [''chroma'']), (''qdrant'', [''qdrant''])]"

definition dialect_of_source :: "jsstr \<Rightarrow> jsstr" where
  "dialect_of_source source =
     (case find (\<lambda>e. source \<in> set (snd e)) dialect_cases of
        Some e \<Rightarrow> fst e
      | None \<Rightarrow>
          (case find (\<lambda>e. \<exists>l \<in> set (snd e). includes_str source l) dialect_substrings of
             Some e \<Rightarrow> fst e
           | None \<Rightarrow> source))"

definition resolveSqlDialect :: "jsstr \<Rightarrow> jsstr \<Rightarrow> jsstr \<Rightarrow> jsstr" where
  "resolveSqlDialect rawType rawDriver oceanBaseProtocol =
     (let normalized = to_lower (trim rawType);
          driver = to_lower (trim rawDriver);
          source = (if normalized = js ''custom'' then driver else normalized)
      in if source = [] then js ''unknown''
         else if source = js ''oceanbase'' \<and>
                 resolveOceanBaseProtocolForDialect oceanBaseProtocol = js ''oracle''
           then js ''oracle''
         else dialect_of_source source)"

abbreviation dialect_of :: "jsstr \<Rightarrow> jsstr" where
  "dialect_of dbType \<equiv> resolveSqlDialect dbType [] []"

definition isMysqlFamilyDialect :: "jsstr \<Rightarrow> bool" where
  "isMysqlFamilyDialect dbType \<longleftrightarrow>
     dialect_of dbType \<in> set (map js [''mysql'', ''mariadb'', ''oceanbase'', ''diros'', ''starrocks'',
       ''sphinx'', ''tidb''])"

definition isPgLikeDialect :: "jsstr \<Rightarrow> bool" where
  "isPgLikeDialect dbType \<longleftrightarrow>
     dialect_of dbType \<in> set (map js [''postgres'', ''kingbase'', ''highgo'', ''vastbase'',
       ''opengauss'', ''gaussdb''])"

definition isOracleLikeDialect :: "jsstr \<Rightarrow> bool" where
  "isOracleLikeDialect dbType \<longleftrightarrow> dialect_of dbType \<in> set (map js [''oracle'', ''dameng'', ''dm''])"

definition isSqlServerDialect :: "jsstr \<Rightarrow> bool" where
  "isSqlServerDialect dbType \<longleftrightarrow> dialect_of dbType = js ''sqlserver''"

definition isBacktickIdentifierDialect :: "jsstr \<Rightarrow> bool" where
  "isBacktickIdentifierDialect dbType \<longleftrightarrow>
     isMysqlFamilyDialect dbType \<or>
     dialect_of dbType \<in> set (map js [''clickhouse'', ''tdengine'', ''iotdb''])"

section \<open>Quoting identifiers\<close>

definition lbracket :: jschar where "lbracket = cu CHR ''[''"
definition rbracket :: jschar where "rbracket = cu CHR '']''"

text \<open>\<open>s.startsWith(a) && s.endsWith(b)\<close> for single characters, and \<open>s.slice(1, -1)\<close>.\<close>

definition wrapped_in :: "jschar \<Rightarrow> jschar \<Rightarrow> jsstr \<Rightarrow> bool" where
  "wrapped_in a b s \<longleftrightarrow> s \<noteq> [] \<and> hd s = a \<and> last s = b"

definition unwrap :: "jsstr \<Rightarrow> jsstr" where
  "unwrap s = slice s 1 (length s - 1)"

definition stripIdentifierQuotes :: "jsstr \<Rightarrow> jsstr" where
  "stripIdentifierQuotes part =
     (let text = trim part in
      if text = [] then []
      else if wrapped_in backtick backtick text \<or> wrapped_in dquote dquote text then trim (unwrap text)
      else if wrapped_in lbracket rbracket text
        then trim (replace_all [rbracket, rbracket] [rbracket] (unwrap text))
      else text)"

definition escapeBacktickIdentifier :: "jsstr \<Rightarrow> jsstr" where
  "escapeBacktickIdentifier v = replace_char backtick [backtick, backtick] v"

definition escapeDoubleQuoteIdentifier :: "jsstr \<Rightarrow> jsstr" where
  "escapeDoubleQuoteIdentifier v = replace_char dquote [dquote, dquote] v"

definition escapeBracketIdentifier :: "jsstr \<Rightarrow> jsstr" where
  "escapeBracketIdentifier v = replace_char rbracket [rbracket, rbracket] v"

definition ascii_lower :: "jschar \<Rightarrow> bool" where
  "ascii_lower c \<longleftrightarrow> 97 \<le> c \<and> c \<le> 122"

definition needsPgLikeQuote :: "jsstr \<Rightarrow> bool" where
  "needsPgLikeQuote ident \<longleftrightarrow>
     \<not> (ident \<noteq> [] \<and> (ascii_lower (hd ident) \<or> hd ident = cu CHR ''_'') \<and>
        (\<forall>c \<in> set (tl ident). ascii_lower c \<or> ascii_digit c \<or> c = cu CHR ''_''))"

definition quoteSqlIdentifierPart :: "jsstr \<Rightarrow> jsstr \<Rightarrow> jsstr" where
  "quoteSqlIdentifierPart dbType part =
     (let ident = stripIdentifierQuotes part; dialect = dialect_of dbType in
      if ident = [] then []
      else if isBacktickIdentifierDialect dialect
        then [backtick] @ escapeBacktickIdentifier ident @ [backtick]
      else if isSqlServerDialect dialect
        then [lbracket] @ escapeBracketIdentifier ident @ [rbracket]
      else if isPgLikeDialect dialect
        then (if needsPgLikeQuote ident then [dquote] @ escapeDoubleQuoteIdentifier ident @ [dquote]
              else ident)
      else [dquote] @ escapeDoubleQuoteIdentifier ident @ [dquote])"

definition unquoteSqlIdentifierPath :: "jsstr \<Rightarrow> jsstr" where
  "unquoteSqlIdentifierPath path =
     join [cu CHR ''.'']
       (filter (\<lambda>p. p \<noteq> []) (map stripIdentifierQuotes (split_on (\<lambda>c. c = cu CHR ''.'') (trim path))))"

definition quoteSqlIdentifierPath :: "jsstr \<Rightarrow> jsstr \<Rightarrow> jsstr" where
  "quoteSqlIdentifierPath dbType path =
     join [cu CHR ''.''] (map (quoteSqlIdentifierPart dbType)
       (filter (\<lambda>p. p \<noteq> [])
         (map stripIdentifierQuotes (split_on (\<lambda>c. c = cu CHR ''.'') (trim path)))))"

section \<open>Reading a quoted token back\<close>

text \<open>
  What a database does with a quoted token: between the opening and the closing mark a doubled
  closing mark stands for one of it. The result is the content and the rest of the input.
\<close>

fun read_quoted :: "jschar \<Rightarrow> jsstr \<Rightarrow> (jsstr \<times> jsstr) option" where
  "read_quoted q [] = None"
| "read_quoted q [c] = (if c = q then Some ([], []) else None)"
| "read_quoted q (c # d # s) =
     (if c = q then
        (if d = q then map_option (\<lambda>(v, rest). (q # v, rest)) (read_quoted q s)
         else Some ([], d # s))
      else map_option (\<lambda>(v, rest). (c # v, rest)) (read_quoted q (d # s)))"

lemma read_quoted_close: "rest = [] \<or> hd rest \<noteq> q \<Longrightarrow> read_quoted q (q # rest) = Some ([], rest)"
  by (cases rest) auto

lemma read_quoted_plain:
  "c \<noteq> q \<Longrightarrow> read_quoted q (c # s) = map_option (\<lambda>(v, rest). (c # v, rest)) (read_quoted q s)"
  by (cases s) auto

lemma read_quoted_double:
  "read_quoted q (q # q # s) = map_option (\<lambda>(v, rest). (q # v, rest)) (read_quoted q s)"
  by simp

text \<open>Doubling the mark inside makes any text a single token, followed by anything but the mark.\<close>

lemma read_quoted_escape:
  assumes "rest = [] \<or> hd rest \<noteq> q"
  shows "read_quoted q (replace_char q [q, q] v @ q # rest) = Some (v, rest)"
proof (induction v)
  case Nil
  with assms show ?case by (simp add: read_quoted_close)
next
  case (Cons c v)
  show ?case
  proof (cases "c = q")
    case True
    with Cons show ?thesis by (simp add: read_quoted_double)
  next
    case False
    with Cons show ?thesis by (simp add: read_quoted_plain)
  qed
qed

text \<open>\<open>unquoteSqlIdentifierPart\<close> is the inverse when the mark does not occur.\<close>

lemma unwrap_mid [simp]: "unwrap (a # v @ [b]) = v"
  by (simp add: unwrap_def slice_def)

lemma wrapped_in_mid [simp]: "wrapped_in a b (a' # v @ [b']) \<longleftrightarrow> a' = a \<and> b' = b"
  by (auto simp: wrapped_in_def)

lemma not_space_marks [simp]:
  "\<not> is_js_space backtick" "\<not> is_js_space dquote" "\<not> is_js_space lbracket" "\<not> is_js_space rbracket"
  by (auto simp: is_js_space_def cu_def lbracket_def rbracket_def)

lemma marks_distinct [simp]:
  "lbracket \<noteq> backtick" "lbracket \<noteq> dquote" "lbracket \<noteq> rbracket" "rbracket \<noteq> lbracket"
  by (simp_all add: lbracket_def rbracket_def)

lemma trim_mid [simp]: "\<not> is_js_space a \<Longrightarrow> \<not> is_js_space b \<Longrightarrow> trim (a # v @ [b]) = a # v @ [b]"
  by (rule trim_id) simp

lemma strip_mark:
  "q = backtick \<or> q = dquote \<Longrightarrow> stripIdentifierQuotes (q # v @ [q]) = trim v"
  by (auto simp: stripIdentifierQuotes_def Let_def)

lemma strip_bracket:
  "stripIdentifierQuotes (lbracket # v @ [rbracket]) = trim (replace_all [rbracket, rbracket] [rbracket] v)"
  by (simp add: stripIdentifierQuotes_def Let_def)

lemma replace_all_undouble:
  "replace_all [q, q] [q] (replace_char q [q, q] v) = v"
proof (induction v)
  case Nil
  show ?case by (simp add: replace_all.simps)
next
  case (Cons c v)
  show ?case
  proof (cases "c = q")
    case True
    with Cons show ?thesis by (simp add: replace_all.simps [of _ _ "q # q # s" for s] starts_with_def starts_with_at_def)
  next
    case False
    with Cons show ?thesis by (simp add: replace_all.simps [of _ _ "c # s" for s] starts_with_def starts_with_at_def)
  qed
qed

section \<open>Resolving twice\<close>

definition dialect_results :: "jsstr list" where
  "dialect_results = remdups (map fst dialect_cases @ map fst dialect_substrings)"

lemma dialect_results_fixed:
  "\<forall>d \<in> set dialect_results. dialect_of_source d = d"
  by code_simp

lemma find_fst_mem: "find P xs = Some e \<Longrightarrow> fst e \<in> set (map fst xs)"
  by (auto simp: find_Some_iff)

lemma dialect_of_source_cases: "dialect_of_source s \<in> set dialect_results \<or> dialect_of_source s = s"
  unfolding dialect_of_source_def dialect_results_def set_remdups set_append
  by (auto dest!: find_fst_mem simp del: set_map split: option.split)

lemma dialect_of_source_idem: "dialect_of_source (dialect_of_source s) = dialect_of_source s"
  using dialect_of_source_cases [of s] bspec [OF dialect_results_fixed] by (elim disjE) simp_all

lemma dialect_results_lower:
  "\<forall>d \<in> set dialect_results. to_lower (trim d) = d \<and> d \<noteq> [] \<and> d \<noteq> js ''custom''"
  by code_simp

lemma lower_unit_range:
  "d \<in> set (lower_unit c) \<Longrightarrow> d = c \<or> (97 \<le> d \<and> d \<le> 122) \<or> (224 \<le> d \<and> d \<le> 254) \<or> d = 775"
  by (auto simp: lower_unit_def split: if_splits)

lemma not_space_range:
  "97 \<le> d \<Longrightarrow> d \<le> 122 \<Longrightarrow> \<not> is_js_space d" "224 \<le> d \<Longrightarrow> d \<le> 254 \<Longrightarrow> \<not> is_js_space d" "\<not> is_js_space 775"
  unfolding is_js_space_def by linarith+

lemma lower_unit_space: "\<not> is_js_space c \<Longrightarrow> \<forall>d \<in> set (lower_unit c). \<not> is_js_space d"
  using lower_unit_range not_space_range by blast

lemma trim_to_lower_trim [simp]: "trim (to_lower (trim s)) = to_lower (trim s)"
proof (cases "trim s = []")
  case False
  then have h: "\<not> is_js_space (hd (trim s))" and l: "\<not> is_js_space (last (trim s))"
    using trim_start_trim_end [of "trim_start s"] trim_start_hd [of "trim s"] trim_end_last [of "trim_start s"]
    by (auto simp: trim_def trim_start_def)
  obtain c r where c: "trim s = c # r" using False by (cases "trim s") auto
  obtain d r' where d: "trim s = r' @ [d]" using False by (cases "trim s" rule: rev_cases) auto
  have ne: "lower_unit x \<noteq> []" for x by (simp add: lower_unit_def)
  have "\<not> is_js_space (hd (to_lower (trim s)))"
    using lower_unit_space [of c] h ne [of c] by (simp add: c to_lower_Cons)
  moreover have "\<not> is_js_space (last (to_lower (trim s)))"
    using lower_unit_space [of d] l ne [of d] by (simp add: d to_lower_Cons)
  ultimately show ?thesis by (intro trim_id) simp
qed simp

lemma resolve_fixed:
  assumes "d \<noteq> []" and "d \<noteq> js ''custom''" and "to_lower (trim d) = d" and "dialect_of_source d = d"
  shows "dialect_of d = d"
proof -
  have "normalizeOceanBaseProtocol [] = None" by (simp add: normalizeOceanBaseProtocol_def normalizeToken_def)
  then have "resolveOceanBaseProtocolForDialect [] \<noteq> js ''oracle''"
    by (simp add: resolveOceanBaseProtocolForDialect_def)
  with assms show ?thesis by (simp add: resolveSqlDialect_def Let_def)
qed

lemma known_fixed: "dialect_of (js ''unknown'') = js ''unknown''" "dialect_of (js ''oracle'') = js ''oracle''"
  by code_simp+

lemma stripIdentifierQuotes_trimmed: "trim (stripIdentifierQuotes part) = stripIdentifierQuotes part"
  by (simp add: stripIdentifierQuotes_def Let_def)

lemma not_needsPgLikeQuote_plain:
  assumes "\<not> needsPgLikeQuote ident"
  shows "stripIdentifierQuotes ident = ident"
proof -
  have ne: "ident \<noteq> []" using assms by (auto simp: needsPgLikeQuote_def)
  have c: "ascii_lower c \<or> ascii_digit c \<or> c = cu CHR ''_''" if "c \<in> set ident" for c
    using assms that by (cases ident) (auto simp: needsPgLikeQuote_def)
  then have "\<not> is_js_space c" if "c \<in> set ident" for c
    using that by (force simp: is_js_space_def ascii_lower_def ascii_digit_def cu_def)
  with ne have t: "trim ident = ident" by (intro trim_id) simp
  have "hd ident \<noteq> backtick \<and> hd ident \<noteq> dquote \<and> hd ident \<noteq> lbracket"
    using c [of "hd ident"] ne by (auto simp: ascii_lower_def ascii_digit_def cu_def lbracket_def)
  with ne t show ?thesis by (simp add: stripIdentifierQuotes_def Let_def wrapped_in_def)
qed

section \<open>Properties\<close>

text \<open>A resolved dialect is a name of its own dialect: resolving the result again gives it back
  (the code resolves twice wherever it tests a resolved dialect with \<open>isMysqlFamilyDialect\<close>
  and its siblings). The exception is a custom connection whose driver is called \<open>custom\<close>.\<close>

theorem resolveSqlDialect_stable:
  assumes "resolveSqlDialect rawType rawDriver protocol \<noteq> js ''custom''"
  shows "dialect_of (resolveSqlDialect rawType rawDriver protocol) =
    resolveSqlDialect rawType rawDriver protocol"
proof -
  let ?n = "to_lower (trim rawType)"
  let ?s = "if ?n = js ''custom'' then to_lower (trim rawDriver) else ?n"
  let ?d = "resolveSqlDialect rawType rawDriver protocol"
  have low: "to_lower (trim ?s) = ?s" by simp
  have "?d = js ''unknown'' \<or> ?d = js ''oracle'' \<or> (?s \<noteq> [] \<and> ?d = dialect_of_source ?s)"
    by (auto simp: resolveSqlDialect_def Let_def)
  then show ?thesis
  proof (elim disjE conjE)
    assume s: "?s \<noteq> []" and d: "?d = dialect_of_source ?s"
    have "to_lower (trim ?d) = ?d \<and> ?d \<noteq> []"
      using dialect_of_source_cases [of ?s]
    proof
      assume "dialect_of_source ?s \<in> set dialect_results"
      with dialect_results_lower show ?thesis unfolding d by blast
    next
      assume "dialect_of_source ?s = ?s"
      with low s show ?thesis unfolding d by (simp only: simp_thms)
    qed
    then show ?thesis using assms dialect_of_source_idem [of ?s] d by (intro resolve_fixed) auto
  qed (simp_all add: known_fixed)
qed

theorem resolveSqlDialect_stable_witness:
  "resolveSqlDialect (js '' MSSQL '') [] [] = js ''sqlserver'' \<and>
   dialect_of (js ''sqlserver'') = js ''sqlserver''"
proof -
  have a: "resolveSqlDialect (js '' MSSQL '') [] [] = js ''sqlserver''" by code_simp
  have "js ''sqlserver'' \<noteq> js ''custom''" by simp
  with resolveSqlDialect_stable [of "js '' MSSQL ''" "[]" "[]"] a show ?thesis by simp
qed

text \<open>C6: Quoting an identifier cannot be escaped from: whatever the identifier contains, the quoted
  text is read back by the database as one quoted token with exactly that identifier, or (for
  the PostgreSQL family) it is left bare only when it is a lower-case plain word.\<close>

theorem quoteSqlIdentifierPart_single_token:
  fixes dbType part
  defines "ident \<equiv> stripIdentifierQuotes part"
  assumes "ident \<noteq> []"
  shows "(\<exists>a b. (a, b) \<in> {(backtick, backtick), (lbracket, rbracket), (dquote, dquote)} \<and>
       (\<exists>body. quoteSqlIdentifierPart dbType part = a # body \<and>
          (\<forall>rest. (rest = [] \<or> hd rest \<noteq> b) \<longrightarrow> read_quoted b (body @ rest) = Some (ident, rest)))) \<or>
    (isPgLikeDialect (dialect_of dbType) \<and> \<not> needsPgLikeQuote ident \<and>
     quoteSqlIdentifierPart dbType part = ident)"
proof -
  have r: "\<forall>rest. (rest = [] \<or> hd rest \<noteq> b) \<longrightarrow>
      read_quoted b ((replace_char b [b, b] ident @ [b]) @ rest) = Some (ident, rest)" for b
    using read_quoted_escape [of _ b ident] by simp
  let ?q = "quoteSqlIdentifierPart dbType part"
  have "?q = backtick # replace_char backtick [backtick, backtick] ident @ [backtick] \<or>
    ?q = lbracket # replace_char rbracket [rbracket, rbracket] ident @ [rbracket] \<or>
    ?q = dquote # replace_char dquote [dquote, dquote] ident @ [dquote] \<or>
    (isPgLikeDialect (dialect_of dbType) \<and> \<not> needsPgLikeQuote ident \<and> ?q = ident)"
    using assms(2) unfolding quoteSqlIdentifierPart_def Let_def ident_def [symmetric]
    by (simp add: escapeBacktickIdentifier_def escapeBracketIdentifier_def escapeDoubleQuoteIdentifier_def)
  then show ?thesis
  proof (elim disjE)
    assume "?q = backtick # replace_char backtick [backtick, backtick] ident @ [backtick]"
    with r [of backtick] show ?thesis by blast
  next
    assume "?q = lbracket # replace_char rbracket [rbracket, rbracket] ident @ [rbracket]"
    with r [of rbracket] show ?thesis by blast
  next
    assume "?q = dquote # replace_char dquote [dquote, dquote] ident @ [dquote]"
    with r [of dquote] show ?thesis by blast
  qed simp
qed

theorem quoteSqlIdentifierPart_single_token_witness:
  "quoteSqlIdentifierPart (js ''mssql'') (js ''a]b'') = js ''[a]]b]'' \<and>
   ((\<exists>a b. (a, b) \<in> {(backtick, backtick), (lbracket, rbracket), (dquote, dquote)} \<and>
       (\<exists>body. quoteSqlIdentifierPart (js ''mssql'') (js ''a]b'') = a # body \<and>
          read_quoted b (body @ js '' x'') = Some (js ''a]b'', js '' x''))) \<or>
    quoteSqlIdentifierPart (js ''mssql'') (js ''a]b'') = js ''a]b'')"
proof
  show "quoteSqlIdentifierPart (js ''mssql'') (js ''a]b'') = js ''[a]]b]''" by code_simp
  have s: "stripIdentifierQuotes (js ''a]b'') = js ''a]b''" by code_simp
  have h: "hd (js '' x'') \<notin> {backtick, rbracket, dquote}" by code_simp
  show "(\<exists>a b. (a, b) \<in> {(backtick, backtick), (lbracket, rbracket), (dquote, dquote)} \<and>
       (\<exists>body. quoteSqlIdentifierPart (js ''mssql'') (js ''a]b'') = a # body \<and>
          read_quoted b (body @ js '' x'') = Some (js ''a]b'', js '' x''))) \<or>
    quoteSqlIdentifierPart (js ''mssql'') (js ''a]b'') = js ''a]b''"
    using quoteSqlIdentifierPart_single_token [of "js ''a]b''" "js ''mssql''"] s h by fastforce
qed

text \<open>Unquoting undoes quoting: for a name without a backtick or a double quote, taking the
  quotes off the quoted name gives the name back, in every dialect; for the brackets of SQL
  Server it does so for every name.\<close>

theorem unquote_quoteSqlIdentifierPart:
  fixes dbType part
  defines "ident \<equiv> stripIdentifierQuotes part"
  assumes "isSqlServerDialect (dialect_of dbType) \<and> \<not> isBacktickIdentifierDialect (dialect_of dbType) \<or>
    backtick \<notin> set ident \<and> dquote \<notin> set ident"
  shows "stripIdentifierQuotes (quoteSqlIdentifierPart dbType part) = ident"
proof (cases "ident = []")
  case True
  then show ?thesis unfolding quoteSqlIdentifierPart_def Let_def ident_def
    by (simp add: stripIdentifierQuotes_def)
next
  case False
  let ?q = "quoteSqlIdentifierPart dbType part"
  have t: "trim ident = ident" unfolding ident_def by (rule stripIdentifierQuotes_trimmed)
  have "?q = backtick # ident @ [backtick] \<or> ?q = dquote # ident @ [dquote] \<or>
    ?q = lbracket # replace_char rbracket [rbracket, rbracket] ident @ [rbracket] \<or>
    (\<not> needsPgLikeQuote ident \<and> ?q = ident)"
    using assms(2) unfolding quoteSqlIdentifierPart_def Let_def ident_def [symmetric]
    by (elim disjE conjE) (simp_all add: False escapeBacktickIdentifier_def escapeBracketIdentifier_def
        escapeDoubleQuoteIdentifier_def replace_char_id)
  then consider (tick) "?q = backtick # ident @ [backtick]" | (dbl) "?q = dquote # ident @ [dquote]"
    | (brk) "?q = lbracket # replace_char rbracket [rbracket, rbracket] ident @ [rbracket]"
    | (bare) "\<not> needsPgLikeQuote ident" "?q = ident" by blast
  then show ?thesis
  proof cases
    case brk
    then show ?thesis by (simp only: strip_bracket replace_all_undouble t)
  next
    case bare
    then show ?thesis by (simp add: not_needsPgLikeQuote_plain)
  qed (simp_all add: strip_mark t)
qed

theorem unquote_quoteSqlIdentifierPart_witness:
  "quoteSqlIdentifierPart (js ''mysql'') (js ''my col'') = [backtick] @ js ''my col'' @ [backtick] \<and>
   stripIdentifierQuotes (quoteSqlIdentifierPart (js ''mysql'') (js ''my col'')) = js ''my col''"
proof
  show "quoteSqlIdentifierPart (js ''mysql'') (js ''my col'') = [backtick] @ js ''my col'' @ [backtick]"
    by code_simp
  have "backtick \<notin> set (stripIdentifierQuotes (js ''my col''))"
    "dquote \<notin> set (stripIdentifierQuotes (js ''my col''))"
    "stripIdentifierQuotes (js ''my col'') = js ''my col''" by code_simp+
  with unquote_quoteSqlIdentifierPart [of "js ''mysql''" "js ''my col''"]
  show "stripIdentifierQuotes (quoteSqlIdentifierPart (js ''mysql'') (js ''my col'')) = js ''my col''"
    by simp
qed

text \<open>A name with a backtick is not given back: the unquoting does not undo the doubling.\<close>

lemma quote_backtick_not_undone:
  "stripIdentifierQuotes (quoteSqlIdentifierPart (js ''mysql'') [97, backtick, 98]) =
     [97, backtick, backtick, 98]"
  by code_simp

end
