(* ===== verification/QueryAutoLimit.thy ===== *)
theory QueryAutoLimit
  imports SqlStatements SqlDialect
begin

text \<open>
  The automatic row limit: \<open>frontend/src/utils/queryAutoLimit.ts\<close>. Three scanners (the leading
  keyword, the split into statement and trailing comments, the position of a keyword outside
  parentheses, quotes and comments) and the rewriting they feed. The row limit is an integer
  below 10^21, whose decimal digits JavaScript prints without an exponent.
\<close>

section \<open>The shared start of a round\<close>

definition isWS :: "jschar \<Rightarrow> bool" where
  "isWS ch \<longleftrightarrow> ch = cu CHR '' '' \<or> ch = 9 \<or> ch = newline \<or> ch = 13"

definition isWord :: "jschar \<Rightarrow> bool" where
  "isWord ch \<longleftrightarrow> word_char ch"

definition spaced_dash_comment :: "jsstr \<Rightarrow> nat \<Rightarrow> bool" where
  "spaced_dash_comment text i \<longleftrightarrow>
     text ! i = cu CHR ''-'' \<and> at text (i + 1) = Some (cu CHR ''-'') \<and>
     (i = 0 \<or> isWS (text ! (i - 1))) \<and> (length text \<le> i + 2 \<or> isWS (text ! (i + 2)))"

text \<open>Comments, in the order all three scanners test them; \<open>None\<close> is falling through.\<close>

definition auto_comment ::
  "jsstr \<Rightarrow> nat \<Rightarrow> 'a lex_state_scheme \<Rightarrow> (nat \<times> 'a lex_state_scheme) option" where
  "auto_comment text i s =
     (let ch = text ! i; next1 = at text (i + 1) in
      if inLineComment s then
        Some (i + 1, if ch = newline then s\<lparr>inLineComment := False\<rparr> else s)
      else if inBlockComment s then
        Some (if ch = cu CHR ''*'' \<and> next1 = Some (cu CHR ''/'')
              then (i + 2, s\<lparr>inBlockComment := False\<rparr>) else (i + 1, s))
      else if ch = cu CHR ''/'' \<and> next1 = Some (cu CHR ''*'')
        then Some (i + 2, s\<lparr>inBlockComment := True\<rparr>)
      else if ch = cu CHR ''#'' then Some (i + 1, s\<lparr>inLineComment := True\<rparr>)
      else if spaced_dash_comment text i then Some (i + 2, s\<lparr>inLineComment := True\<rparr>)
      else None)"

definition in_quotes :: "'a lex_state_scheme \<Rightarrow> bool" where
  "in_quotes s \<longleftrightarrow> inSingle s \<or> inDouble s \<or> inBacktick s"

text \<open>The toggles of quotes.\<close>

definition toggle_quote :: "jschar \<Rightarrow> 'a lex_state_scheme \<Rightarrow> 'a lex_state_scheme option" where
  "toggle_quote ch s =
     (if \<not> inDouble s \<and> \<not> inBacktick s \<and> ch = squote then Some (s\<lparr>inSingle := \<not> inSingle s\<rparr>)
      else if \<not> inSingle s \<and> \<not> inBacktick s \<and> ch = dquote then Some (s\<lparr>inDouble := \<not> inDouble s\<rparr>)
      else if \<not> inSingle s \<and> \<not> inDouble s \<and> ch = backtick then Some (s\<lparr>inBacktick := \<not> inBacktick s\<rparr>)
      else None)"

text \<open>
  The start of a round of \<open>getLeadingKeyword\<close> and \<open>findTopLevelKeyword\<close>: comments first, then
  dollar tags, escapes and quotes. \<open>None\<close> means that the character is code.
\<close>

definition auto_lex ::
  "jsstr \<Rightarrow> nat \<Rightarrow> 'a lex_state_scheme \<Rightarrow> (nat \<times> 'a lex_state_scheme) option" where
  "auto_lex text i s =
     (case (if in_quotes s then None else
              (case auto_comment text i s of
                 Some p \<Rightarrow> Some p
               | None \<Rightarrow>
                   (case dollarTag s of
                      Some tag \<Rightarrow>
                        Some (if starts_with_at text tag i then (i + length tag, s\<lparr>dollarTag := None\<rparr>)
                              else (i + 1, s))
                    | None \<Rightarrow>
                        (case match_dollar_tag text i of
                           Some tag \<Rightarrow> Some (i + length tag, s\<lparr>dollarTag := Some tag\<rparr>)
                         | None \<Rightarrow> None)))) of
        Some p \<Rightarrow> Some p
      | None \<Rightarrow>
          if escaped s then Some (i + 1, s\<lparr>escaped := False\<rparr>)
          else if (inSingle s \<or> inDouble s) \<and> text ! i = backslash
            then Some (i + 1, s\<lparr>escaped := True\<rparr>)
          else
            (case toggle_quote (text ! i) s of
               Some s' \<Rightarrow> Some (i + 1, s')
             | None \<Rightarrow> if in_quotes s \<or> dollarTag s \<noteq> None then Some (i + 1, s) else None))"

definition init_lex_state :: lex_state where
  "init_lex_state = \<lparr>inSingle = False, inDouble = False, inBacktick = False, escaped = False,
     inLineComment = False, inBlockComment = False, dollarTag = None\<rparr>"

section \<open>The leading keyword\<close>

definition word_end :: "jsstr \<Rightarrow> nat \<Rightarrow> nat" where
  "word_end text i = advance (\<lambda>k. isWord (text ! k)) (length text) i"

definition leading_body :: "jsstr \<Rightarrow> nat \<Rightarrow> lex_state \<Rightarrow> jsstr + nat \<times> lex_state" where
  "leading_body text i s =
     (case auto_lex text i s of
        Some p \<Rightarrow> Inr p
      | None \<Rightarrow>
          if isWS (text ! i) then Inr (i + 1, s)
          else if isWord (text ! i) then Inl (to_lower (slice text i (word_end text i)))
          else Inl [])"

definition getLeadingKeyword :: "jsstr \<Rightarrow> jsstr" where
  "getLeadingKeyword sql =
     (let text = normalize_newlines sql in
      case loop_ret (length text) (leading_body text) 0 init_lex_state of
        Inl kw \<Rightarrow> kw | Inr _ \<Rightarrow> [])"

section \<open>The statement and its tail\<close>

record tail_state = lex_state +
  lastMeaningful :: "nat option"

definition init_tail_state :: tail_state where
  "init_tail_state = lex_state.extend init_lex_state \<lparr>lastMeaningful = None\<rparr>"

text \<open>Here the dollar tag is tested before the comments. \<open>None\<close> falls through to the quotes.\<close>

definition tail_lex :: "jsstr \<Rightarrow> nat \<Rightarrow> tail_state \<Rightarrow> (nat \<times> tail_state) option" where
  "tail_lex text i s =
     (if in_quotes s then None
      else
        (case dollarTag s of
           Some tag \<Rightarrow>
             Some (if starts_with_at text tag i
                   then (i + length tag,
                         s\<lparr>lastMeaningful := Some (i + length tag - 1), dollarTag := None\<rparr>)
                   else (i + 1, if isWS (text ! i) then s else s\<lparr>lastMeaningful := Some i\<rparr>))
         | None \<Rightarrow>
             (case auto_comment text i s of
                Some p \<Rightarrow> Some p
              | None \<Rightarrow>
                  (case match_dollar_tag text i of
                     Some tag \<Rightarrow>
                       Some (i + length tag,
                             s\<lparr>dollarTag := Some tag, lastMeaningful := Some (i + length tag - 1)\<rparr>)
                   | None \<Rightarrow> None))))"

definition tail_quotes :: "jschar \<Rightarrow> tail_state \<Rightarrow> tail_state" where
  "tail_quotes ch s =
     (if escaped s then s\<lparr>escaped := False\<rparr>
      else if (inSingle s \<or> inDouble s) \<and> ch = backslash then s\<lparr>escaped := True\<rparr>
      else (case toggle_quote ch s of Some s' \<Rightarrow> s' | None \<Rightarrow> s))"

definition tail_body :: "jsstr \<Rightarrow> nat \<Rightarrow> tail_state \<Rightarrow> nat \<times> tail_state" where
  "tail_body text i s =
     (case tail_lex text i s of
        Some p \<Rightarrow> p
      | None \<Rightarrow>
          (let s' = tail_quotes (text ! i) s in
           (i + 1, if \<not> inLineComment s' \<and> \<not> inBlockComment s' \<and> \<not> isWS (text ! i)
                   then s'\<lparr>lastMeaningful := Some i\<rparr> else s')))"

definition tail_char :: "jschar \<Rightarrow> bool" where
  "tail_char c \<longleftrightarrow> isWS c \<or> c = cu CHR '';'' \<or> c = fullwidth_semicolon"

definition splitSqlTail :: "jsstr \<Rightarrow> jsstr \<times> jsstr" where
  "splitSqlTail sql =
     (let text = normalize_newlines sql in
      case lastMeaningful (snd (loop (length text) (tail_body text) 0 init_tail_state)) of
        None \<Rightarrow> ([], text)
      | Some k \<Rightarrow>
          (let mainEnd = retreat (\<lambda>j. tail_char (text ! j)) 0 (k + 1)
           in (slice text 0 mainEnd, drop mainEnd text)))"

section \<open>A keyword outside parentheses\<close>

record keyword_state = lex_state +
  keyword_depth :: nat

definition init_keyword_state :: keyword_state where
  "init_keyword_state = lex_state.extend init_lex_state \<lparr>keyword_depth = 0\<rparr>"

definition keyword_at :: "jsstr \<Rightarrow> jsstr \<Rightarrow> nat \<Rightarrow> bool" where
  "keyword_at text kw i \<longleftrightarrow>
     isWord (text ! i) \<and> to_lower (slice text i (i + length kw)) = kw \<and>
     \<not> (0 < i \<and> isWord (text ! (i - 1))) \<and>
     \<not> (i + length kw < length text \<and> isWord (text ! (i + length kw)))"

definition keyword_body ::
  "jsstr \<Rightarrow> jsstr \<Rightarrow> nat \<Rightarrow> keyword_state \<Rightarrow> nat + nat \<times> keyword_state" where
  "keyword_body text kw i s =
     (case auto_lex text i s of
        Some p \<Rightarrow> Inr p
      | None \<Rightarrow>
          if text ! i = cu CHR ''('' then Inr (i + 1, s\<lparr>keyword_depth := keyword_depth s + 1\<rparr>)
          else if text ! i = cu CHR '')'' then Inr (i + 1, s\<lparr>keyword_depth := keyword_depth s - 1\<rparr>)
          else if keyword_depth s \<noteq> 0 then Inr (i + 1, s)
          else if keyword_at text kw i then Inl i
          else Inr (i + 1, s))"

definition findTopLevelKeyword :: "jsstr \<Rightarrow> jsstr \<Rightarrow> nat option" where
  "findTopLevelKeyword text keyword =
     (case loop_ret (length text) (keyword_body text (to_lower keyword)) 0 init_keyword_state of
        Inl i \<Rightarrow> Some i | Inr _ \<Rightarrow> None)"

section \<open>The rewriting\<close>

record auto_limit =
  limited_sql :: jsstr
  applied :: bool
  limit_rows :: js_number

definition limit_unchanged :: "jsstr \<Rightarrow> js_number \<Rightarrow> auto_limit" where
  "limit_unchanged sql maxRows = \<lparr>limited_sql = sql, applied = False, limit_rows = maxRows\<rparr>"

text \<open>\<open>pos >= 0 && (fromPos < 0 || pos > fromPos)\<close>.\<close>

definition after_from :: "nat option \<Rightarrow> nat option \<Rightarrow> bool" where
  "after_from fromPos pos \<longleftrightarrow>
     (case pos of None \<Rightarrow> False
      | Some p \<Rightarrow> (case fromPos of None \<Rightarrow> True | Some f \<Rightarrow> f < p))"

text \<open>\<open>/^(\s+DISTINCT\b)/i\<close>: the length of the match, 0 for none.\<close>

definition distinct_match :: "jsstr \<Rightarrow> nat" where
  "distinct_match rest =
     (let n = advance (\<lambda>k. is_js_space (rest ! k)) (length rest) 0 in
      if 0 < n \<and> match_ci_at rest (js ''distinct'') n \<and> word_boundary rest (n + 8) then n + 8 else 0)"

definition limit_top :: "jsstr \<Rightarrow> nat \<Rightarrow> nat \<Rightarrow> jsstr" where
  "limit_top main selectPos rows =
     (let afterSelect = selectPos + 6;
          insertOffset = afterSelect + distinct_match (drop afterSelect main)
      in slice main 0 insertOffset @ js '' TOP '' @ nat_str rows @ drop insertOffset main)"

definition limit_clause :: "jsstr \<Rightarrow> nat \<Rightarrow> nat \<Rightarrow> jsstr" where
  "limit_clause main insertAt rows =
     trim (join [cu CHR '' '']
       (filter (\<lambda>p. p \<noteq> [])
          [trim_end (slice main 0 insertAt), js ''LIMIT '' @ nat_str rows,
           trim_start (drop insertAt main)]))"

text \<open>\<open>Math.min(...candidates)\<close>, or the end.\<close>

definition limit_position :: "jsstr \<Rightarrow> nat option \<Rightarrow> nat" where
  "limit_position main fromPos =
     (case filter (after_from fromPos)
             (map (findTopLevelKeyword main) [js ''offset'', js ''for'', js ''lock'']) of
        [] \<Rightarrow> length main
      | c # cs \<Rightarrow> foldl min (the c) (map the cs))"

definition limit_main :: "jsstr \<Rightarrow> jsstr \<Rightarrow> nat \<Rightarrow> jsstr option" where
  "limit_main dialect main rows =
     (let kw = findTopLevelKeyword main; fromPos = kw (js ''from'') in
      if after_from fromPos (kw (js ''limit'')) then None
      else if after_from fromPos (kw (js ''fetch'')) then None
      else if dialect = js ''sqlserver'' \<or> dialect = js ''mssql'' then
        (if kw (js ''top'') \<noteq> None then None
         else (case kw (js ''select'') of
                 None \<Rightarrow> None
               | Some selectPos \<Rightarrow> Some (limit_top main selectPos rows)))
      else if dialect = js ''oracle'' \<or> dialect = js ''dameng'' then
        (if kw (js ''rownum'') \<noteq> None then None
         else if after_from fromPos (kw (js ''offset'')) then None
         else if after_from fromPos (kw (js ''for'')) then None
         else Some (js ''SELECT * FROM ('' @ trim_end main @ js '') WHERE ROWNUM <= '' @ nat_str rows))
      else Some (limit_clause main (limit_position main fromPos) rows))"

definition applyQueryAutoLimit :: "jsstr \<Rightarrow> jsstr \<Rightarrow> js_number \<Rightarrow> jsstr \<Rightarrow> auto_limit" where
  "applyQueryAutoLimit sql dbType maxRows driver =
     (case maxRows of
        NonFinite \<Rightarrow> limit_unchanged sql maxRows
      | Finite rows \<Rightarrow>
          if rows \<le> 0 then limit_unchanged sql maxRows
          else
            (let normalizedType = to_lower (resolveSqlDialect
                   (if dbType = [] then js ''mysql'' else dbType) driver [])
             in if getLeadingKeyword sql \<noteq> js ''select'' then limit_unchanged sql maxRows
                else
                  (let (main, tail) = splitSqlTail sql in
                   if trim main = [] then limit_unchanged sql maxRows
                   else
                     (case limit_main normalizedType main (nat rows) of
                        None \<Rightarrow> limit_unchanged sql maxRows
                      | Some m \<Rightarrow> \<lparr>limited_sql = m @ tail, applied = True, limit_rows = maxRows\<rparr>))))"

section \<open>The scanners move forward\<close>

lemma auto_comment_keeps:
  "auto_comment text i s = Some (j, s') \<Longrightarrow>
   i < j \<and> dollarTag s' = dollarTag s \<and> lex_state.more s' = lex_state.more s"
  by (auto simp: auto_comment_def Let_def split: if_splits)

lemma toggle_quote_keeps:
  "toggle_quote c s = Some s' \<Longrightarrow> dollarTag s' = dollarTag s \<and> lex_state.more s' = lex_state.more s"
  by (auto simp: toggle_quote_def split: if_splits)

lemma auto_lex_keeps:
  assumes "auto_lex text i s = Some (j, s')" and "lex_ok s"
  shows "i < j \<and> lex_ok s' \<and> lex_state.more s' = lex_state.more s"
proof (cases "in_quotes s")
  case True
  with assms show ?thesis
    by (auto simp: auto_lex_def lex_ok_def dest: toggle_quote_keeps split: if_splits option.splits)
next
  case False
  show ?thesis
  proof (cases "auto_comment text i s")
    case (Some p)
    with False assms auto_comment_keeps [of "text" i s j s'] show ?thesis
      by (auto simp: auto_lex_def lex_ok_def)
  next
    case None
    have "tag \<noteq> [] \<and> 2 \<le> length tag" if "match_dollar_tag text i = Some tag" for tag
      using match_dollar_tag_length [OF that] by auto
    moreover have "tag \<noteq> []" if "dollarTag s = Some tag" for tag
      using assms(2) that by (auto simp: lex_ok_def)
    ultimately show ?thesis using False None assms
      by (auto simp: auto_lex_def lex_ok_def dest: toggle_quote_keeps split: if_splits option.splits)
  qed
qed

interpretation leading_scan: advancing_ret "length text" "leading_body text" lex_ok for "text"
proof
  fix i and s :: lex_state and p
  assume "lex_ok s" "leading_body text i s = Inr p"
  with auto_lex_keeps [of "text" i s "fst p" "snd p"] show "i < fst p" "lex_ok (snd p)"
    by (auto simp: leading_body_def split: option.splits if_splits)
qed

interpretation keyword_scan: advancing_ret "length text" "keyword_body text kw" lex_ok for "text" kw
proof
  fix i and s :: keyword_state and p
  assume s: "lex_ok s" and b: "keyword_body text kw i s = Inr p"
  have "i < fst p \<and> lex_ok (snd p)" if "auto_lex text i s = Some q" for q
    using s b that auto_lex_keeps [of "text" i s "fst p" "snd p"] by (simp add: keyword_body_def)
  with s b show "i < fst p" "lex_ok (snd p)"
    by (auto simp: keyword_body_def lex_ok_def split: option.splits if_splits)
qed

section \<open>Keyword search\<close>

lemma findTopLevelKeyword_Some:
  assumes "findTopLevelKeyword text kw = Some i"
  shows "i < length text \<and> keyword_at text (to_lower kw) i"
proof -
  have "case loop_ret (length text) (keyword_body text (to_lower kw)) 0 init_keyword_state of
      Inl i \<Rightarrow> i < length text \<and> keyword_at text (to_lower kw) i
    | Inr p \<Rightarrow> True \<and> lex_ok (snd p) \<and> length text \<le> fst p"
  proof (rule keyword_scan.loop_ret_induct [where I = "\<lambda>_ _. True"])
    show "lex_ok init_keyword_state"
      by (simp add: lex_ok_def init_keyword_state_def init_lex_state_def lex_state.defs)
  qed (auto simp: keyword_body_def split: option.splits if_splits)
  with assms show ?thesis by (auto simp: findTopLevelKeyword_def split: sum.splits)
qed

text \<open>A character that starts neither a quote, a comment, a dollar tag nor a parenthesis.\<close>

definition plain_code :: "jschar \<Rightarrow> bool" where
  "plain_code c \<longleftrightarrow> c \<notin> {squote, dquote, backtick, cu CHR ''/'', cu CHR ''#'', cu CHR ''-'',
     cu CHR ''$'', cu CHR ''('', cu CHR '')''}"

lemma auto_lex_plain:
  assumes "plain_code (text ! i)"
  shows "auto_lex text i init_keyword_state = None"
proof -
  have "match_dollar_tag text i = None"
    using assms by (auto simp: match_dollar_tag_def Let_def plain_code_def at_Some_iff)
  with assms show ?thesis
    by (auto simp: auto_lex_def in_quotes_def auto_comment_def Let_def spaced_dash_comment_def
        toggle_quote_def plain_code_def init_keyword_state_def init_lex_state_def lex_state.defs)
qed

lemma keyword_scan_plain:
  assumes "\<forall>c \<in> set text. plain_code c"
  shows "(case loop_ret (length text) (keyword_body text kw) i init_keyword_state of
      Inl k \<Rightarrow> Some k | Inr _ \<Rightarrow> None) = find (keyword_at text kw) [i ..< length text]"
proof (induction "length text - i" arbitrary: i)
  case 0
  then show ?case by (simp add: loop_ret.simps)
next
  case (Suc n)
  then have i: "i < length text" by simp
  have c: "plain_code (text ! i)" using assms i by simp
  have "keyword_depth init_keyword_state = 0" by (simp add: init_keyword_state_def lex_state.defs)
  then have b: "keyword_body text kw i init_keyword_state =
      (if keyword_at text kw i then Inl i else Inr (i + 1, init_keyword_state))"
    using auto_lex_plain [OF c] c by (simp add: keyword_body_def plain_code_def)
  have "[i ..< length text] = i # [Suc i ..< length text]" using i by (rule upt_conv_Cons)
  then show ?case
    using i b Suc.hyps(1) [of "Suc i"] Suc.hyps(2) by (subst loop_ret.simps) simp
qed

section \<open>The split\<close>

lemma tail_quotes_keeps [simp]:
  "dollarTag (tail_quotes c s) = dollarTag s" "lastMeaningful (tail_quotes c s) = lastMeaningful s"
proof -
  have m: "lastMeaningful s' = lastMeaningful s"
    if "lex_state.more s' = lex_state.more s" for s' :: tail_state
    using that by (cases s; cases s') simp
  show "dollarTag (tail_quotes c s) = dollarTag s" "lastMeaningful (tail_quotes c s) = lastMeaningful s"
    by (auto simp: tail_quotes_def dest!: toggle_quote_keeps m split: option.split)
qed

lemma match_dollar_tag_bound: "match_dollar_tag text i = Some tag \<Longrightarrow> i + length tag \<le> length text"
  by (auto simp: match_dollar_tag_def Let_def at_Some_iff split: if_splits)

definition tail_inv :: "jsstr \<Rightarrow> tail_state \<Rightarrow> bool" where
  "tail_inv text s \<longleftrightarrow> lex_ok s \<and> (\<forall>k. lastMeaningful s = Some k \<longrightarrow> k < length text)"

lemma tail_lex_keeps:
  assumes "tail_lex text i s = Some (j, s')" and s: "tail_inv text s" and i: "i < length text"
  shows "i < j \<and> tail_inv text s'"
proof (cases "dollarTag s")
  case (Some tag)
  with s have "tag \<noteq> []" by (auto simp: tail_inv_def lex_ok_def)
  with Some assms show ?thesis
    using starts_with_at_bound [of "text" tag i]
    by (auto simp: tail_lex_def tail_inv_def lex_ok_def split: if_splits)
next
  case None
  show ?thesis
  proof (cases "auto_comment text i s")
    case (Some p)
    with None assms have c: "auto_comment text i s = Some (j, s')" by (auto simp: tail_lex_def split: if_splits)
    from auto_comment_keeps [OF c] have "i < j" "dollarTag s' = dollarTag s" "lex_state.more s' = lex_state.more s"
      by simp_all
    moreover from this(3) have "lastMeaningful s' = lastMeaningful s" by (cases s; cases s') simp
    ultimately show ?thesis using s by (simp add: tail_inv_def lex_ok_def)
  next
    case no: None
    with None assms obtain tag where t: "match_dollar_tag text i = Some tag" "j = i + length tag"
      "s' = s\<lparr>dollarTag := Some tag, lastMeaningful := Some (i + length tag - 1)\<rparr>"
      by (auto simp: tail_lex_def split: if_splits option.splits)
    from match_dollar_tag_length [OF t(1)] match_dollar_tag_bound [OF t(1)] show ?thesis
      by (cases tag) (simp_all add: t(2,3) tail_inv_def lex_ok_def)
  qed
qed

interpretation tail_scan: advancing "length text" "tail_body text" "tail_inv text" for "text"
proof
  fix i s
  assume i: "i < length text" and s: "tail_inv text s"
  have "i < fst (tail_body text i s) \<and> tail_inv text (snd (tail_body text i s))"
  proof (cases "tail_lex text i s")
    case (Some p)
    with tail_lex_keeps [of "text" i s "fst p" "snd p"] i s show ?thesis by (simp add: tail_body_def)
  next
    case None
    with i s show ?thesis by (simp add: tail_body_def Let_def tail_inv_def lex_ok_def)
  qed
  then show "i < fst (tail_body text i s)" "tail_inv text (snd (tail_body text i s))" by simp_all
qed

lemma tail_scan_last:
  "lastMeaningful (snd (loop (length text) (tail_body text) 0 init_tail_state)) = Some k \<Longrightarrow>
   k < length text"
proof -
  have "tail_inv text init_tail_state"
    by (simp add: tail_inv_def lex_ok_def init_tail_state_def init_lex_state_def lex_state.defs)
  then have "tail_inv text (snd (loop (length text) (tail_body text) 0 init_tail_state))"
    using tail_scan.loop_induct [of "\<lambda>_ _. True"] by simp
  then show "lastMeaningful (snd (loop (length text) (tail_body text) 0 init_tail_state)) = Some k \<Longrightarrow>
    k < length text" by (simp add: tail_inv_def)
qed

lemma splitSqlTail_eq: "splitSqlTail sql = (main, tail) \<Longrightarrow> main @ tail = normalize_newlines sql"
  by (auto simp: splitSqlTail_def Let_def slice_def split: option.splits)

lemma splitSqlTail_last:
  assumes "splitSqlTail sql = (main, tail)" and "main \<noteq> []"
  shows "\<not> tail_char (last main)"
proof -
  let ?t = "normalize_newlines sql"
  obtain k where k: "main = slice ?t 0 (retreat (\<lambda>j. tail_char (?t ! j)) 0 (k + 1))" and "k < length ?t"
    using assms tail_scan_last [of ?t] by (auto simp: splitSqlTail_def Let_def split: option.splits)
  let ?e = "retreat (\<lambda>j. tail_char (?t ! j)) 0 (k + 1)"
  have "0 < ?e" using assms(2) k by (cases "?e = 0") auto
  then have "\<not> tail_char (?t ! (?e - 1))" by (rule retreat_stops)
  moreover have "last main = ?t ! (?e - 1)" if "?e \<le> length ?t"
    using that assms(2) \<open>0 < ?e\<close> by (simp add: last_conv_nth k nth_slice)
  moreover have "?e \<le> length ?t"
    using \<open>k < length ?t\<close> retreat_le [of "\<lambda>j. tail_char (?t ! j)" 0 "k + 1"] by linarith
  ultimately show ?thesis by simp
qed

section \<open>The rewriting\<close>

lemma trim_space_Cons: "is_js_space c \<Longrightarrow> trim (c # s) = trim s"
  by (simp add: trim_def trim_start_def)

lemma limit_clause_form:
  "limit_clause main k n =
     trim (trim_end (take k main) @ js '' LIMIT '' @ nat_str n @
       (if trim_start (drop k main) = [] then [] else cu CHR '' '' # trim_start (drop k main)))"
proof -
  have "is_js_space (cu CHR '' '')" by (simp add: is_js_space_def cu_def)
  moreover have "js '' LIMIT '' = cu CHR '' '' # js ''LIMIT ''" by (simp add: js_Cons)
  ultimately show ?thesis
    by (cases "trim_end (take k main) = []"; cases "trim_start (drop k main) = []")
      (simp_all add: limit_clause_def slice_def trim_space_Cons
        del: trim_end_Nil_iff trim_start_Nil_iff)
qed

lemma limit_main_form:
  assumes "limit_main dialect main n = Some m"
  obtains (top) a b where "main = a @ b" "m = a @ js '' TOP '' @ nat_str n @ b"
  | (rownum) "m = js ''SELECT * FROM ('' @ trim_end main @ js '') WHERE ROWNUM <= '' @ nat_str n"
  | (limit) a b where "main = a @ b"
      "m = trim (trim_end a @ js '' LIMIT '' @ nat_str n @
         (if trim_start b = [] then [] else cu CHR '' '' # trim_start b))"
proof -
  have t: "\<exists>a b. main = a @ b \<and> m = a @ js '' TOP '' @ nat_str n @ b" if "m = limit_top main p n" for p
    using that by (auto simp: limit_top_def Let_def slice_def) (metis append_take_drop_id)
  have l: "\<exists>a b. main = a @ b \<and> m = trim (trim_end a @ js '' LIMIT '' @ nat_str n @
      (if trim_start b = [] then [] else cu CHR '' '' # trim_start b))" if "m = limit_clause main p n" for p
    using that unfolding limit_clause_form by (metis append_take_drop_id)
  from assms have "(\<exists>p. m = limit_top main p n) \<or>
    m = js ''SELECT * FROM ('' @ trim_end main @ js '') WHERE ROWNUM <= '' @ nat_str n \<or>
    (\<exists>p. m = limit_clause main p n)"
    by (auto simp: limit_main_def Let_def split: if_splits option.splits)
  then show thesis using t l top rownum limit by blast
qed

lemma limit_main_guards:
  assumes "limit_main dialect main n = Some m"
  shows "\<not> after_from (findTopLevelKeyword main (js ''from'')) (findTopLevelKeyword main (js ''limit''))"
    and "\<not> after_from (findTopLevelKeyword main (js ''from'')) (findTopLevelKeyword main (js ''fetch''))"
  using assms by (auto simp: limit_main_def Let_def split: if_splits)

section \<open>Properties\<close>

text \<open>Splitting off the tail loses nothing: the statement and its tail are the text again, and
  the statement does not end in white space or a separator.\<close>

theorem splitSqlTail_correct:
  "fst (splitSqlTail sql) @ snd (splitSqlTail sql) = normalize_newlines sql \<and>
   (fst (splitSqlTail sql) = [] \<or> \<not> tail_char (last (fst (splitSqlTail sql))))"
  using splitSqlTail_eq [of sql "fst (splitSqlTail sql)" "snd (splitSqlTail sql)"]
    splitSqlTail_last [of sql "fst (splitSqlTail sql)" "snd (splitSqlTail sql)"] by auto

theorem splitSqlTail_correct_witness:
  "splitSqlTail (js ''SELECT 1 ; '') = (js ''SELECT 1'', js '' ; '') \<and>
   js ''SELECT 1'' @ js '' ; '' = normalize_newlines (js ''SELECT 1 ; '') \<and> \<not> tail_char (last (js ''SELECT 1''))"
proof -
  have e: "splitSqlTail (js ''SELECT 1 ; '') = (js ''SELECT 1'', js '' ; '')" by code_simp
  with splitSqlTail_correct [of "js ''SELECT 1 ; ''"] show ?thesis by simp
qed

text \<open>The keyword search is sound and, on code without quotes, comments and parentheses,
  complete: a position it returns carries the keyword as a whole word, and on such code it
  is the first such position.\<close>

theorem findTopLevelKeyword_correct:
  "(case findTopLevelKeyword sql keyword of
      None \<Rightarrow> True
    | Some i \<Rightarrow> i < length sql \<and> keyword_at sql (to_lower keyword) i) \<and>
   ((\<forall>c \<in> set sql. plain_code c) \<longrightarrow>
      findTopLevelKeyword sql keyword = find (keyword_at sql (to_lower keyword)) [0 ..< length sql])"
proof
  show "case findTopLevelKeyword sql keyword of
      None \<Rightarrow> True
    | Some i \<Rightarrow> i < length sql \<and> keyword_at sql (to_lower keyword) i"
    using findTopLevelKeyword_Some by (auto split: option.split)
  show "(\<forall>c \<in> set sql. plain_code c) \<longrightarrow>
      findTopLevelKeyword sql keyword = find (keyword_at sql (to_lower keyword)) [0 ..< length sql]"
    using keyword_scan_plain [of sql "to_lower keyword" 0] by (simp add: findTopLevelKeyword_def)
qed

theorem findTopLevelKeyword_correct_witness:
  "findTopLevelKeyword (js ''select a from t'') (js ''FROM'') = Some 9 \<and>
   findTopLevelKeyword (js ''select a from t'') (js ''FROM'') =
     find (keyword_at (js ''select a from t'') (to_lower (js ''FROM''))) [0 ..< length (js ''select a from t'')]"
proof
  show "findTopLevelKeyword (js ''select a from t'') (js ''FROM'') = Some 9" by code_simp
  have "\<forall>c \<in> set (js ''select a from t''). plain_code c" by code_simp
  then show "findTopLevelKeyword (js ''select a from t'') (js ''FROM'') =
     find (keyword_at (js ''select a from t'') (to_lower (js ''FROM''))) [0 ..< length (js ''select a from t'')]"
    using findTopLevelKeyword_correct by blast
qed

text \<open>C7: The automatic limit only inserts: a query it does not change is returned as it was; a
  query it changes is a \<open>SELECT\<close> that has no \<open>LIMIT\<close> or \<open>FETCH\<close> after its \<open>FROM\<close>, the limit is
  positive, and the result is the query with a \<open>TOP\<close> clause inserted, or wrapped with a
  \<open>ROWNUM\<close> bound, or with a \<open>LIMIT\<close> clause inserted where white space is trimmed; the tail of
  comments and separators follows unchanged.\<close>

theorem applyQueryAutoLimit_correct:
  fixes sql dbType maxRows driver
  defines "r \<equiv> applyQueryAutoLimit sql dbType maxRows driver"
  defines "main \<equiv> fst (splitSqlTail sql)" and "tail \<equiv> snd (splitSqlTail sql)"
  shows "limit_rows r = maxRows \<and>
    (if \<not> applied r then limited_sql r = sql
     else \<exists>rows. maxRows = Finite rows \<and> 0 < rows \<and> getLeadingKeyword sql = js ''select'' \<and>
       \<not> after_from (findTopLevelKeyword main (js ''from'')) (findTopLevelKeyword main (js ''limit'')) \<and>
       \<not> after_from (findTopLevelKeyword main (js ''from'')) (findTopLevelKeyword main (js ''fetch'')) \<and>
       (\<exists>a b. main = a @ b \<and>
          (limited_sql r = a @ js '' TOP '' @ nat_str (nat rows) @ b @ tail \<or>
           limited_sql r = js ''SELECT * FROM ('' @ trim_end main @ js '') WHERE ROWNUM <= '' @
             nat_str (nat rows) @ tail \<or>
           limited_sql r = trim (trim_end a @ js '' LIMIT '' @ nat_str (nat rows) @
             (if trim_start b = [] then [] else cu CHR '' '' # trim_start b)) @ tail)))"
proof (cases "applied r")
  case False
  then show ?thesis
    by (auto simp: r_def applyQueryAutoLimit_def limit_unchanged_def Let_def
        split: js_number.splits if_splits option.splits prod.splits)
next
  case True
  then obtain rows m dialect where m: "maxRows = Finite rows" "0 < rows" "getLeadingKeyword sql = js ''select''"
      "limit_main dialect main (nat rows) = Some m" "limited_sql r = m @ tail" "limit_rows r = maxRows"
    by (auto simp: r_def main_def tail_def applyQueryAutoLimit_def limit_unchanged_def Let_def
        split: js_number.splits if_splits option.splits prod.splits)
  note g = limit_main_guards [OF m(4)]
  from m(4) have "\<exists>a b. main = a @ b \<and>
          (limited_sql r = a @ js '' TOP '' @ nat_str (nat rows) @ b @ tail \<or>
           limited_sql r = js ''SELECT * FROM ('' @ trim_end main @ js '') WHERE ROWNUM <= '' @
             nat_str (nat rows) @ tail \<or>
           limited_sql r = trim (trim_end a @ js '' LIMIT '' @ nat_str (nat rows) @
             (if trim_start b = [] then [] else cu CHR '' '' # trim_start b)) @ tail)"
  proof (cases rule: limit_main_form)
    case (top a b)
    with m(5) show ?thesis by auto
  next
    case rownum
    with m(5) show ?thesis by auto
  next
    case (limit a b)
    with m(5) show ?thesis by auto
  qed
  with True m g show ?thesis by auto
qed

section \<open>Where the limit is lost\<close>

text \<open>A line comment before \<open>FOR UPDATE\<close>, or before a closing semicolon, swallows the inserted
  clause: the white space that ended the comment is trimmed.\<close>

theorem limit_inside_comment:
  "limited_sql (applyQueryAutoLimit (js ''select * from t -- c'' @ [newline] @ js ''for update'')
     (js ''mysql'') (Finite 5) []) = js ''select * from t -- c LIMIT 5 for update'' \<and>
   limited_sql (applyQueryAutoLimit (js ''select * from t -- c'' @ [newline] @ js '';'')
     (js ''mysql'') (Finite 5) []) = js ''select * from t -- c LIMIT 5'' @ [newline] @ js '';''"
  by code_simp

text \<open>Inside a dollar-quoted string the keyword search takes \<open>#\<close> for a comment, so it misses the
  limit of the query and a second one is appended.\<close>

theorem second_limit_after_dollar_quote:
  "limited_sql (applyQueryAutoLimit (js ''select $$#$$ from t limit 5'') (js ''postgres'') (Finite 9) []) =
     js ''select $$#$$ from t limit 5 LIMIT 9''"
  by code_simp

end
