(* ===== verification/QualifiedName.thy ===== *)
theory QualifiedName
  imports SqlDialect
begin

text \<open>
  Qualified names: \<open>frontend/src/utils/qualifiedName.ts\<close>. Its \<open>stripIdentifierQuotes\<close> differs
  from the one of \<open>sqlDialect.ts\<close> (it undoubles every kind of mark and first resolves
  backslash-escaped double quotes); it is called \<open>stripIdentifierQuotes_qn\<close> here.
\<close>

section \<open>Definitions\<close>

text \<open>One round of \<open>normalizeIdentifierEscapes\<close>, at most four of which are made.\<close>

definition escape_round :: "jsstr \<Rightarrow> jsstr" where
  "escape_round v =
     replace_all [backslash, dquote] [dquote]
       (replace_all [backslash, backslash, dquote] [backslash, dquote] (trim v))"

primrec escape_rounds :: "nat \<Rightarrow> jsstr \<Rightarrow> jsstr" where
  "escape_rounds 0 v = v"
| "escape_rounds (Suc n) v =
     (let next_v = escape_round v in if next_v = v then v else escape_rounds n next_v)"

definition normalizeIdentifierEscapes :: "jsstr \<Rightarrow> jsstr" where
  "normalizeIdentifierEscapes raw = trim (escape_rounds 4 (trim raw))"

definition stripIdentifierQuotes_qn :: "jsstr \<Rightarrow> jsstr" where
  "stripIdentifierQuotes_qn part =
     (let text = normalizeIdentifierEscapes part in
      if text = [] then []
      else if 2 \<le> length text \<and> wrapped_in dquote dquote text
        then trim (replace_all [dquote, dquote] [dquote] (unwrap text))
      else if 2 \<le> length text \<and> wrapped_in backtick backtick text
        then trim (replace_all [backtick, backtick] [backtick] (unwrap text))
      else if 2 \<le> length text \<and> wrapped_in lbracket rbracket text
        then trim (replace_all [rbracket, rbracket] [rbracket] (unwrap text))
      else text)"

record segment_state =
  seg_current :: jsstr
  seg_inDouble :: bool
  seg_inBacktick :: bool
  seg_inBracket :: bool
  segments :: "jsstr list"

definition seg_flush :: "segment_state \<Rightarrow> segment_state" where
  "seg_flush s =
     (let v = trim (seg_current s); s' = s\<lparr>seg_current := []\<rparr> in
      if v = [] then s' else s'\<lparr>segments := segments s @ [stripIdentifierQuotes_qn v]\<rparr>)"

definition seg_push :: "jsstr \<Rightarrow> segment_state \<Rightarrow> segment_state" where
  "seg_push w s = s\<lparr>seg_current := seg_current s @ w\<rparr>"

text \<open>A character inside marks that close with \<open>q\<close>: a doubled mark is kept, a single one closes.\<close>

definition seg_quoted ::
  "jschar \<Rightarrow> (segment_state \<Rightarrow> segment_state) \<Rightarrow> jsstr \<Rightarrow> nat \<Rightarrow> segment_state \<Rightarrow> nat \<times> segment_state" where
  "seg_quoted q close text i s =
     (let ch = text ! i in
      if ch = q \<and> at text (i + 1) = Some q then (i + 2, seg_push [ch, q] s)
      else if ch = q then (i + 1, close (seg_push [ch] s))
      else (i + 1, seg_push [ch] s))"

definition segment_body :: "jsstr \<Rightarrow> nat \<Rightarrow> segment_state \<Rightarrow> nat \<times> segment_state" where
  "segment_body text i s =
     (let ch = text ! i in
      if seg_inDouble s then seg_quoted dquote (\<lambda>s. s\<lparr>seg_inDouble := False\<rparr>) text i s
      else if seg_inBacktick s then seg_quoted backtick (\<lambda>s. s\<lparr>seg_inBacktick := False\<rparr>) text i s
      else if seg_inBracket s then seg_quoted rbracket (\<lambda>s. s\<lparr>seg_inBracket := False\<rparr>) text i s
      else if ch = dquote then (i + 1, seg_push [ch] (s\<lparr>seg_inDouble := True\<rparr>))
      else if ch = backtick then (i + 1, seg_push [ch] (s\<lparr>seg_inBacktick := True\<rparr>))
      else if ch = lbracket then (i + 1, seg_push [ch] (s\<lparr>seg_inBracket := True\<rparr>))
      else if ch = cu CHR ''.'' then (i + 1, seg_flush s)
      else (i + 1, seg_push [ch] s))"

definition init_segment_state :: segment_state where
  "init_segment_state =
     \<lparr>seg_current = [], seg_inDouble = False, seg_inBacktick = False, seg_inBracket = False,
      segments = []\<rparr>"

definition split_segments :: "jsstr \<Rightarrow> jsstr list" where
  "split_segments text =
     segments (seg_flush (snd (loop (length text) (segment_body text) 0 init_segment_state)))"

definition splitQualifiedNameSegments :: "jsstr \<Rightarrow> jsstr list" where
  "splitQualifiedNameSegments qualifiedName =
     (let text = normalizeIdentifierEscapes qualifiedName in
      if text = [] then [] else split_segments text)"

record qualified_parts =
  parentPath :: jsstr
  objectName :: jsstr

definition splitQualifiedName :: "jsstr \<Rightarrow> qualified_parts" where
  "splitQualifiedName qualifiedName =
     (let segs = splitQualifiedNameSegments qualifiedName in
      if segs = [] then \<lparr>parentPath = [], objectName = []\<rparr>
      else if length segs = 1 then \<lparr>parentPath = [], objectName = hd segs\<rparr>
      else \<lparr>parentPath = join [cu CHR ''.''] (butlast segs), objectName = last segs\<rparr>)"

interpretation segment_scan: advancing "length text" "segment_body text" "\<lambda>_. True" for "text"
  by unfold_locales (simp_all add: segment_body_def seg_quoted_def Let_def)

section \<open>Escapes\<close>

lemma replace_all_absent:
  "p \<noteq> [] \<Longrightarrow> hd p \<notin> set s \<Longrightarrow> replace_all p r s = s"
proof (induction s)
  case Nil
  then show ?case by (simp add: replace_all.simps)
next
  case (Cons c s)
  then have "\<not> starts_with (c # s) p"
    by (cases p) (auto simp: starts_with_def starts_with_at_def)
  with Cons show ?case by (simp add: replace_all.simps [of p r "c # s"])
qed

lemma escape_round_plain: "backslash \<notin> set v \<Longrightarrow> trim v = v \<Longrightarrow> escape_round v = v"
  by (simp add: escape_round_def replace_all_absent)

lemma normalizeIdentifierEscapes_plain:
  "backslash \<notin> set v \<Longrightarrow> normalizeIdentifierEscapes v = trim v"
proof -
  assume "backslash \<notin> set v"
  then have "backslash \<notin> set (trim v)" using set_trim_subset [of v] by auto
  then show ?thesis
    by (simp add: normalizeIdentifierEscapes_def escape_round_plain numeral_eq_Suc)
qed

section \<open>Quoted segments\<close>

text \<open>The marks: opening, closing.\<close>

definition marks :: "(jschar \<times> jschar) set" where
  "marks = {(dquote, dquote), (backtick, backtick), (lbracket, rbracket)}"

definition quoted_segment :: "jschar \<times> jschar \<Rightarrow> jsstr \<Rightarrow> jsstr" where
  "quoted_segment m v = fst m # replace_char (snd m) [snd m, snd m] v @ [snd m]"

lemma marks_cases:
  assumes "m \<in> marks"
  obtains "m = (dquote, dquote)" | "m = (backtick, backtick)" | "m = (lbracket, rbracket)"
  using assms by (auto simp: marks_def)

lemma marks_distinct' [simp]:
  "rbracket \<noteq> dquote" "rbracket \<noteq> backtick" "dquote \<noteq> rbracket" "backtick \<noteq> rbracket"
  "dquote \<noteq> lbracket" "backtick \<noteq> lbracket"
  "cu CHR ''.'' \<noteq> lbracket" "cu CHR ''.'' \<noteq> rbracket" "lbracket \<noteq> cu CHR ''.''" "rbracket \<noteq> cu CHR ''.''"
  by (simp_all add: lbracket_def rbracket_def)

lemma set_replace_char: "set (replace_char c [c, c] v) = set v"
  by (induction v) auto

lemma quoted_segment_trim [simp]: "m \<in> marks \<Longrightarrow> trim (quoted_segment m v) = quoted_segment m v"
  by (erule marks_cases) (simp_all add: quoted_segment_def)

lemma quoted_segment_backslash:
  "m \<in> marks \<Longrightarrow> backslash \<in> set (quoted_segment m v) \<longleftrightarrow> backslash \<in> set v"
  by (erule marks_cases) (auto simp: quoted_segment_def set_replace_char lbracket_def rbracket_def)

lemma strip_quoted_segment:
  assumes "m \<in> marks" and "backslash \<notin> set v" and "trim v = v"
  shows "stripIdentifierQuotes_qn (quoted_segment m v) = v"
proof -
  have n: "normalizeIdentifierEscapes (quoted_segment m v) = quoted_segment m v"
    using assms by (simp add: normalizeIdentifierEscapes_plain quoted_segment_backslash)
  from assms(1) show ?thesis
    by (rule marks_cases)
      (use n assms(3) in \<open>simp_all add: stripIdentifierQuotes_qn_def Let_def quoted_segment_def
         replace_all_undouble\<close>)
qed

section \<open>Scanning a quoted segment\<close>

abbreviation seg_scan :: "jsstr \<Rightarrow> nat \<Rightarrow> segment_state \<Rightarrow> nat \<times> segment_state" where
  "seg_scan text \<equiv> loop (length text) (segment_body text)"

text \<open>Outside marks with a given current text.\<close>

definition seg_plain :: "jsstr \<Rightarrow> jsstr list \<Rightarrow> segment_state" where
  "seg_plain w segs = init_segment_state\<lparr>seg_current := w, segments := segs\<rparr>"

definition seg_inside :: "jschar \<times> jschar \<Rightarrow> jsstr \<Rightarrow> jsstr list \<Rightarrow> segment_state" where
  "seg_inside m w segs =
     (seg_plain w segs)\<lparr>seg_inDouble := m = (dquote, dquote), seg_inBacktick := m = (backtick, backtick),
        seg_inBracket := m = (lbracket, rbracket)\<rparr>"

lemma seg_step:
  "i < length text \<Longrightarrow> segment_body text i s = (j, s') \<Longrightarrow> seg_scan text i s = seg_scan text j s'"
  by (simp add: segment_scan.loop_unfold [of "text" i s])

lemma drop_nth_Cons: "drop i xs = y # ys \<Longrightarrow> i < length xs \<and> xs ! i = y \<and> drop (Suc i) xs = ys"
  by (metis Cons_nth_drop_Suc drop_all leI list.distinct(1) list.inject)

lemma seg_open:
  assumes "m \<in> marks" and "drop i text = fst m # rest"
  shows "seg_scan text i (seg_plain w segs) = seg_scan text (i + 1) (seg_inside m (w @ [fst m]) segs)"
proof -
  note d = drop_nth_Cons [OF assms(2)]
  have "segment_body text i (seg_plain w segs) = (i + 1, seg_inside m (w @ [fst m]) segs)"
    using d assms(1)
    by (auto simp: marks_def segment_body_def Let_def seg_plain_def seg_inside_def init_segment_state_def
        seg_push_def)
  with d show ?thesis by (intro seg_step) simp_all
qed

lemma seg_inside_body:
  assumes "m \<in> marks"
  shows "segment_body text i (seg_inside m w segs) =
    (let ch = text ! i in
     if ch = snd m \<and> at text (i + 1) = Some (snd m) then (i + 2, seg_inside m (w @ [ch, snd m]) segs)
     else if ch = snd m then (i + 1, seg_plain (w @ [ch]) segs)
     else (i + 1, seg_inside m (w @ [ch]) segs))"
  using assms
  by (auto simp: marks_def segment_body_def Let_def seg_plain_def seg_inside_def init_segment_state_def
      seg_push_def seg_quoted_def)

lemma seg_body_scan:
  assumes m: "m \<in> marks" and r: "rest = [] \<or> hd rest \<noteq> snd m"
  shows "drop i text = replace_char (snd m) [snd m, snd m] v @ snd m # rest \<Longrightarrow>
    seg_scan text i (seg_inside m w segs) =
    seg_scan text (i + length (replace_char (snd m) [snd m, snd m] v) + 1)
      (seg_plain (w @ replace_char (snd m) [snd m, snd m] v @ [snd m]) segs)"
proof (induction v arbitrary: i w)
  case Nil
  then have d: "drop i text = snd m # rest" by simp
  note e = drop_nth_Cons [OF d]
  have "at text (i + 1) \<noteq> Some (snd m)"
  proof
    assume "at text (i + 1) = Some (snd m)"
    then have "i + 1 < length text" "text ! (i + 1) = snd m" by (simp_all add: at_Some_iff)
    then have "drop (Suc i) text = snd m # drop (Suc (Suc i)) text"
      by (metis Cons_nth_drop_Suc Suc_eq_plus1)
    with e have "rest = snd m # drop (Suc (Suc i)) text" by simp
    with r show False by simp
  qed
  with e have "segment_body text i (seg_inside m w segs) = (i + 1, seg_plain (w @ [snd m]) segs)"
    by (simp add: seg_inside_body [OF m] Let_def)
  with e show ?case by (simp add: seg_step)
next
  case (Cons c v)
  show ?case
  proof (cases "c = snd m")
    case True
    with Cons.prems have d: "drop i text = snd m # snd m # replace_char (snd m) [snd m, snd m] v @ snd m # rest"
      by simp
    note e = drop_nth_Cons [OF d]
    from e have f: "Suc i < length text" "text ! Suc i = snd m"
      "drop (Suc (Suc i)) text = replace_char (snd m) [snd m, snd m] v @ snd m # rest"
      using drop_nth_Cons [of "Suc i" "text"] by blast+
    have "segment_body text i (seg_inside m w segs) = (i + 2, seg_inside m (w @ [snd m, snd m]) segs)"
      using e f by (simp add: seg_inside_body [OF m] Let_def at_Some_iff)
    with e have "seg_scan text i (seg_inside m w segs) = seg_scan text (i + 2) (seg_inside m (w @ [snd m, snd m]) segs)"
      by (intro seg_step) simp_all
    with Cons.IH [of "i + 2" "w @ [snd m, snd m]"] f(3) True show ?thesis by (simp add: add_ac)
  next
    case False
    with Cons.prems have d: "drop i text = c # replace_char (snd m) [snd m, snd m] v @ snd m # rest" by simp
    note e = drop_nth_Cons [OF d]
    have "segment_body text i (seg_inside m w segs) = (i + 1, seg_inside m (w @ [c]) segs)"
      using e False by (simp add: seg_inside_body [OF m] Let_def)
    with e have "seg_scan text i (seg_inside m w segs) = seg_scan text (i + 1) (seg_inside m (w @ [c]) segs)"
      by (intro seg_step) simp_all
    with Cons.IH [of "i + 1" "w @ [c]"] e False show ?thesis by (simp add: add_ac)
  qed
qed

lemma seg_quoted_scan:
  assumes m: "m \<in> marks" and r: "rest = [] \<or> hd rest \<noteq> snd m"
    and d: "drop i text = quoted_segment m v @ rest"
  shows "seg_scan text i (seg_plain [] segs) =
    seg_scan text (i + length (quoted_segment m v)) (seg_plain (quoted_segment m v) segs)"
proof -
  have d': "drop i text = fst m # replace_char (snd m) [snd m, snd m] v @ snd m # rest"
    using d by (simp add: quoted_segment_def)
  note e = drop_nth_Cons [OF d']
  have "seg_scan text i (seg_plain [] segs) = seg_scan text (i + 1) (seg_inside m [fst m] segs)"
    using seg_open [OF m d', of "[]"] by simp
  also have "\<dots> = seg_scan text (i + length (quoted_segment m v)) (seg_plain (quoted_segment m v) segs)"
    using seg_body_scan [OF m r, of "i + 1" "text" v "[fst m]" segs] e
    by (simp add: quoted_segment_def add_ac)
  finally show ?thesis .
qed

lemma seg_flush_plain:
  assumes "m \<in> marks" and "backslash \<notin> set v" and "trim v = v"
  shows "seg_flush (seg_plain (quoted_segment m v) segs) = seg_plain [] (segs @ [v])"
proof -
  have "quoted_segment m v \<noteq> []" by (simp add: quoted_segment_def)
  with assms show ?thesis
    by (simp add: seg_flush_def Let_def seg_plain_def strip_quoted_segment init_segment_state_def)
qed

text \<open>What the quoted names of a path need: no backslash, no outer white space.\<close>

definition segment_ok :: "jsstr \<Rightarrow> bool" where
  "segment_ok v \<longleftrightarrow> backslash \<notin> set v \<and> trim v = v"

abbreviation dotted :: "jsstr list \<Rightarrow> jsstr" where
  "dotted \<equiv> join [cu CHR ''.'']"

lemma seg_scan_path:
  assumes m: "m \<in> marks"
  shows "vs \<noteq> [] \<Longrightarrow> \<forall>v \<in> set vs. segment_ok v \<Longrightarrow>
    drop i text = dotted (map (quoted_segment m) vs) \<Longrightarrow>
    segments (seg_flush (snd (seg_scan text i (seg_plain [] segs)))) = segs @ vs"
proof (induction vs arbitrary: i segs)
  case Nil
  then show ?case by simp
next
  case (Cons v vs)
  have v: "backslash \<notin> set v" "trim v = v" using Cons.prems(2) by (simp_all add: segment_ok_def)
  show ?case
  proof (cases "vs = []")
    case True
    with Cons.prems have d: "drop i text = quoted_segment m v @ []" by simp
    have l: "length text = i + length (quoted_segment m v)"
    proof -
      have "length (drop i text) = length (quoted_segment m v)" using d by simp
      moreover have "quoted_segment m v \<noteq> []" by (simp add: quoted_segment_def)
      ultimately show ?thesis by (metis add_diff_inverse_nat d append_Nil2 drop_all length_drop less_le_not_le linorder_not_less)
    qed
    from seg_quoted_scan [OF m _ d, of segs] have
      "seg_scan text i (seg_plain [] segs) = seg_scan text (length text) (seg_plain (quoted_segment m v) segs)"
      by (simp add: l)
    then have "snd (seg_scan text i (seg_plain [] segs)) = seg_plain (quoted_segment m v) segs"
      by (simp add: loop.simps [of "length text"])
    with seg_flush_plain [OF m v] True show ?thesis by (simp add: seg_plain_def)
  next
    case False
    let ?e = "i + length (quoted_segment m v)"
    from False Cons.prems(3) have d: "drop i text = quoted_segment m v @ cu CHR ''.'' # dotted (map (quoted_segment m) vs)"
      by (cases vs) simp_all
    have "cu CHR ''.'' \<noteq> snd m" using m by (auto simp: marks_def)
    from seg_quoted_scan [OF m _ d, of segs] this have
      a: "seg_scan text i (seg_plain [] segs) = seg_scan text ?e (seg_plain (quoted_segment m v) segs)" by simp
    from d have "drop ?e text = cu CHR ''.'' # dotted (map (quoted_segment m) vs)"
      by (metis add.commute append_eq_conv_conj drop_drop)
    note e = drop_nth_Cons [OF this]
    have "segment_body text ?e (seg_plain (quoted_segment m v) segs) = (?e + 1, seg_plain [] (segs @ [v]))"
      using e seg_flush_plain [OF m v, of segs]
      by (simp add: segment_body_def Let_def seg_plain_def init_segment_state_def)
    with e have b: "seg_scan text ?e (seg_plain (quoted_segment m v) segs) =
        seg_scan text (?e + 1) (seg_plain [] (segs @ [v]))" by (intro seg_step) simp_all
    have "segments (seg_flush (snd (seg_scan text (?e + 1) (seg_plain [] (segs @ [v]))))) = (segs @ [v]) @ vs"
      using Cons.prems(2) e by (intro Cons.IH [OF False]) simp_all
    with a b show ?thesis by simp
  qed
qed

section \<open>Property\<close>

text \<open>C8: Round trip of qualified names: segments quoted with any of the three kinds of marks and
  joined with dots are split back into exactly those segments, whatever dots, marks and
  blanks they contain (a backslash is excluded, which the code takes for an escape).\<close>

theorem splitQualifiedNameSegments_join:
  assumes "m \<in> marks" and "vs \<noteq> []" and "\<forall>v \<in> set vs. segment_ok v"
  shows "splitQualifiedNameSegments (join [cu CHR ''.''] (map (quoted_segment m) vs)) = vs"
proof -
  let ?t = "dotted (map (quoted_segment m) vs)"
  have qs: "quoted_segment m v \<noteq> []" "\<not> is_js_space (hd (quoted_segment m v))"
    "\<not> is_js_space (last (quoted_segment m v))" for v
    using assms(1) by (auto simp: quoted_segment_def marks_def)
  have ends: "ws \<noteq> [] \<Longrightarrow> dotted (map (quoted_segment m) ws) \<noteq> [] \<and>
      \<not> is_js_space (hd (dotted (map (quoted_segment m) ws))) \<and>
      \<not> is_js_space (last (dotted (map (quoted_segment m) ws)))" for ws
  proof (induction ws)
    case (Cons v ws)
    then show ?case using qs [of v] by (cases ws) (auto simp: hd_append)
  qed simp
  have set_dotted: "set (dotted ws) \<subseteq> insert (cu CHR ''.'') (\<Union> (set ` set ws))" for ws
    by (induction ws rule: induct_list012) auto
  have "backslash \<notin> set ?t"
    using set_dotted [of "map (quoted_segment m) vs"] assms(1,3) quoted_segment_backslash [OF assms(1)]
    by (fastforce simp: segment_ok_def)
  then have n: "normalizeIdentifierEscapes ?t = ?t"
    using ends [OF assms(2)] by (simp add: normalizeIdentifierEscapes_plain trim_id)
  have "split_segments ?t = vs"
    using seg_scan_path [OF assms(1-3), of 0 ?t "[]"]
    by (simp add: split_segments_def seg_plain_def init_segment_state_def)
  with n ends [OF assms(2)] show ?thesis by (simp add: splitQualifiedNameSegments_def Let_def)
qed

theorem splitQualifiedNameSegments_join_witness:
  "splitQualifiedNameSegments (js ''[a.b].[c]]d]'') = [js ''a.b'', js ''c]d'']"
proof -
  have "join [cu CHR ''.''] (map (quoted_segment (lbracket, rbracket)) [js ''a.b'', js ''c]d'']) = js ''[a.b].[c]]d]''"
    "\<forall>v \<in> set [js ''a.b'', js ''c]d'']. segment_ok v" by code_simp+
  with splitQualifiedNameSegments_join [of "(lbracket, rbracket)" "[js ''a.b'', js ''c]d'']"]
  show ?thesis by (simp add: marks_def)
qed

end
