(* ===== verification/SqlBuilder.thy ===== *)
theory SqlBuilder
  imports QualifiedName QueryAutoLimit
begin

text \<open>
  The SQL the table view builds: \<open>frontend/src/utils/sql.ts\<close> (identifiers, \<open>WHERE\<close>,
  \<open>ORDER BY\<close>, pagination). Row counts and offsets are integers; a missing string field is
  the empty string, a missing \<open>enabled\<close> is \<open>None\<close>.
\<close>

section \<open>Identifiers\<close>

definition reserved_words :: "jsstr list" where
  "reserved_words = map js
     [''select'', ''from'', ''where'', ''table'', ''index'', ''user'', ''order'', ''group'', ''by'', ''limit'',
      ''offset'', ''and'', ''or'', ''not'', ''null'', ''true'', ''false'', ''key'', ''primary'', ''foreign'',
      ''references'', ''default'', ''constraint'', ''create'', ''drop'', ''alter'', ''insert'', ''update'',
      ''delete'', ''set'', ''values'', ''into'', ''join'', ''left'', ''right'', ''inner'', ''outer'', ''on'',
      ''as'', ''is'', ''in'', ''like'', ''between'', ''case'', ''when'', ''then'', ''else'', ''end'',
      ''having'', ''distinct'', ''all'', ''any'', ''exists'', ''union'', ''except'', ''intersect'']"

definition needsQuote :: "jsstr \<Rightarrow> bool" where
  "needsQuote ident \<longleftrightarrow>
     ident \<noteq> [] \<and>
     (\<not> ((ascii_letter (hd ident) \<or> hd ident = cu CHR ''_'') \<and> (\<forall>c \<in> set (tl ident). word_char c)) \<or>
      (\<exists>c \<in> set ident. 65 \<le> c \<and> c \<le> 90) \<or>
      to_lower ident \<in> set reserved_words)"

definition backtick_types :: "jsstr list" where
  "backtick_types = map js
     [''mysql'', ''goldendb'', ''mariadb'', ''oceanbase'', ''diros'', ''starrocks'', ''sphinx'',
      ''tdengine'', ''iotdb'', ''clickhouse'']"

definition quoteIdentPart :: "jsstr \<Rightarrow> jsstr \<Rightarrow> jsstr" where
  "quoteIdentPart dbType ident =
     (let raw = stripIdentifierQuotes_qn ident; dbTypeLower = to_lower dbType in
      if raw = [] then raw
      else if dbTypeLower \<in> set backtick_types
        then [backtick] @ replace_char backtick [backtick, backtick] raw @ [backtick]
      else if dbTypeLower \<in> set (map js [''kingbase'', ''postgres'', ''opengauss'', ''gaussdb''])
        then (if needsQuote raw then [dquote] @ replace_char dquote [dquote, dquote] raw @ [dquote] else raw)
      else if dbTypeLower \<in> set (map js [''sqlserver'', ''mssql''])
        then [lbracket] @ replace_char rbracket [rbracket, rbracket] raw @ [rbracket]
      else [dquote] @ replace_char dquote [dquote, dquote] raw @ [dquote])"

definition quoteQualifiedIdent :: "jsstr \<Rightarrow> jsstr \<Rightarrow> jsstr" where
  "quoteQualifiedIdent dbType ident =
     (let raw = trim ident in
      if raw = [] then raw
      else if to_lower (trim dbType) \<in> set (map js [''rocketmq'', ''mqtt'', ''kafka'', ''rabbitmq''])
        then quoteIdentPart dbType raw
      else
        (let parts = filter (\<lambda>p. p \<noteq> []) (splitQualifiedNameSegments raw) in
         if parts = [] then quoteIdentPart dbType raw
         else if length parts = 1 \<and> hd parts = stripIdentifierQuotes_qn raw then quoteIdentPart dbType raw
         else join [cu CHR ''.''] (map (quoteIdentPart dbType) parts)))"

definition sharesSQLCatalogAcrossDatabases :: "jsstr \<Rightarrow> bool" where
  "sharesSQLCatalogAcrossDatabases dbType \<longleftrightarrow>
     to_lower (trim dbType) \<in> set (map js
       [''mysql'', ''mariadb'', ''goldendb'', ''greatdb'', ''gdb'', ''diros'', ''starrocks'', ''sphinx'',
        ''oceanbase''])"

definition resolveCatalogQualifiedTableName :: "jsstr \<Rightarrow> jsstr \<Rightarrow> jsstr \<Rightarrow> jsstr" where
  "resolveCatalogQualifiedTableName dbType dbName tblName =
     (let rawTable = trim tblName; rawDb = trim dbName in
      if rawTable = [] then rawTable
      else if \<not> sharesSQLCatalogAcrossDatabases dbType then rawTable
      else if rawDb = [] then rawTable
      else if 2 \<le> length (filter (\<lambda>p. p \<noteq> []) (splitQualifiedNameSegments rawTable)) then rawTable
      else rawDb @ [cu CHR ''.''] @ rawTable)"

definition escapeLiteral :: "jsstr \<Rightarrow> jsstr" where
  "escapeLiteral v = replace_char squote [squote, squote] v"

section \<open>Sorting\<close>

record sort_item =
  columnKey :: jsstr
  sort_order :: jsstr
  sort_enabled :: "bool option"

datatype sort_info = NoSort | OneSort sort_item | ManySorts "sort_item list"

fun normalizeSortInfoItems :: "sort_info \<Rightarrow> sort_item list" where
  "normalizeSortInfoItems NoSort = []"
| "normalizeSortInfoItems (ManySorts items) = items"
| "normalizeSortInfoItems (OneSort item) = [item]"

definition hasExplicitSort :: "sort_info \<Rightarrow> bool" where
  "hasExplicitSort info \<longleftrightarrow>
     (\<exists>item \<in> set (normalizeSortInfoItems info).
        sort_enabled item \<noteq> Some False \<and> trim (columnKey item) \<noteq> [] \<and>
        (sort_order item = js ''ascend'' \<or> sort_order item = js ''descend''))"

definition sort_direction :: "jsstr \<Rightarrow> jsstr" where
  "sort_direction order =
     (if order = js ''ascend'' then js ''ASC'' else if order = js ''descend'' then js ''DESC'' else [])"

text \<open>The columns that survive the loop, with the set of keys seen.\<close>

definition sort_columns :: "sort_item list \<Rightarrow> (jsstr \<times> jsstr) list" where
  "sort_columns items =
     dedup_by (\<lambda>p. to_lower (fst p)) {}
       (filter (\<lambda>p. fst p \<noteq> [] \<and> snd p \<noteq> [])
         (map (\<lambda>item. (stripIdentifierQuotes_qn (columnKey item), sort_direction (sort_order item)))
           (filter (\<lambda>item. sort_enabled item \<noteq> Some False) items)))"

definition order_by :: "jsstr list \<Rightarrow> jsstr" where
  "order_by parts = js '' ORDER BY '' @ join (js '', '') parts"

definition sort_part :: "jsstr \<Rightarrow> jsstr \<times> jsstr \<Rightarrow> jsstr" where
  "sort_part dbType p = quoteIdentPart dbType (fst p) @ [cu CHR '' ''] @ snd p"

definition buildOrderBySQL :: "jsstr \<Rightarrow> sort_info \<Rightarrow> jsstr list \<Rightarrow> jsstr" where
  "buildOrderBySQL dbType sortInfo fallbackColumns =
     (let sortCols = sort_columns (normalizeSortInfoItems sortInfo) in
      if sortCols \<noteq> [] then order_by (map (sort_part dbType) sortCols)
      else if to_lower (trim dbType) \<in> set (map js
                [''mysql'', ''goldendb'', ''mariadb'', ''oceanbase'', ''diros'', ''starrocks'', ''duckdb''])
        then []
      else
        (let stableColumns = dedup_by to_lower {}
               (filter (\<lambda>col. col \<noteq> []) (map stripIdentifierQuotes_qn fallbackColumns)) in
         if stableColumns \<noteq> [] then order_by (map (\<lambda>col. sort_part dbType (col, js ''ASC'')) stableColumns)
         else []))"

text \<open>\<open>splitOrderByParts\<close>.\<close>

record order_state =
  ord_start :: nat
  ord_depth :: nat
  ord_inSingle :: bool
  ord_inDouble :: bool
  ord_inBracket :: bool
  ord_parts :: "jsstr list"

definition init_order_state :: order_state where
  "init_order_state = \<lparr>ord_start = 0, ord_depth = 0, ord_inSingle = False, ord_inDouble = False,
     ord_inBracket = False, ord_parts = []\<rparr>"

definition order_push :: "jsstr \<Rightarrow> order_state \<Rightarrow> order_state" where
  "order_push part s = (let p = trim part in if p = [] then s else s\<lparr>ord_parts := ord_parts s @ [p]\<rparr>)"

text \<open>Inside marks that close with \<open>q\<close>.\<close>

definition order_quoted ::
  "jschar \<Rightarrow> order_state \<Rightarrow> jsstr \<Rightarrow> nat \<Rightarrow> order_state \<Rightarrow> nat \<times> order_state" where
  "order_quoted q closed text i s =
     (if text ! i = q \<and> at text (i + 1) = Some q then (i + 2, s)
      else if text ! i = q then (i + 1, closed) else (i + 1, s))"

definition order_body :: "jsstr \<Rightarrow> nat \<Rightarrow> order_state \<Rightarrow> nat \<times> order_state" where
  "order_body text i s =
     (let ch = text ! i in
      if ord_inSingle s then order_quoted squote (s\<lparr>ord_inSingle := False\<rparr>) text i s
      else if ord_inDouble s then order_quoted dquote (s\<lparr>ord_inDouble := False\<rparr>) text i s
      else if ord_inBracket s then order_quoted rbracket (s\<lparr>ord_inBracket := False\<rparr>) text i s
      else if ch = squote then (i + 1, s\<lparr>ord_inSingle := True\<rparr>)
      else if ch = dquote then (i + 1, s\<lparr>ord_inDouble := True\<rparr>)
      else if ch = lbracket then (i + 1, s\<lparr>ord_inBracket := True\<rparr>)
      else if ch = cu CHR ''('' then (i + 1, s\<lparr>ord_depth := ord_depth s + 1\<rparr>)
      else if ch = cu CHR '')'' then (i + 1, s\<lparr>ord_depth := ord_depth s - 1\<rparr>)
      else if ch = cu CHR '','' \<and> ord_depth s = 0
        then (i + 1, (order_push (slice text (ord_start s) i) s)\<lparr>ord_start := i + 1\<rparr>)
      else (i + 1, s))"

definition splitOrderByParts :: "jsstr \<Rightarrow> jsstr list" where
  "splitOrderByParts text =
     (let s = snd (loop (length text) (order_body text) 0 init_order_state) in
      ord_parts (order_push (drop (ord_start s) text) s))"

text \<open>\<open>/\s+w$/i.test(part)\<close> for a part that ends in no white space, and its replacement.\<close>

definition ends_with_word :: "jsstr \<Rightarrow> jsstr \<Rightarrow> bool" where
  "ends_with_word part w \<longleftrightarrow>
     length w < length part \<and> match_ci_at part w (length part - length w) \<and>
     is_js_space (part ! (length part - length w - 1))"

definition reverse_part :: "jsstr \<Rightarrow> jsstr" where
  "reverse_part part =
     (if ends_with_word part (js ''asc'') then trim_end (take (length part - 3) part) @ js '' DESC''
      else if ends_with_word part (js ''desc'') then trim_end (take (length part - 4) part) @ js '' ASC''
      else part @ js '' DESC'')"

text \<open>\<open>raw.replace(/^order\s+by\s+/i, '')\<close>.\<close>

definition skip_spaces :: "jsstr \<Rightarrow> nat \<Rightarrow> nat" where
  "skip_spaces s i = advance (\<lambda>k. is_js_space (s ! k)) (length s) i"

definition strip_order_by :: "jsstr \<Rightarrow> jsstr" where
  "strip_order_by raw =
     (let a = skip_spaces raw 5; b = skip_spaces raw (a + 2) in
      if match_ci_at raw (js ''order'') 0 \<and> 5 < a \<and> match_ci_at raw (js ''by'') a \<and> a + 2 < b
      then drop b raw else raw)"

definition reverseOrderBySQL :: "jsstr \<Rightarrow> jsstr" where
  "reverseOrderBySQL orderBySQL =
     (let raw = trim orderBySQL; body = trim (strip_order_by raw) in
      if raw = [] then []
      else if body = [] then []
      else
        (let parts = map reverse_part (splitOrderByParts body) in
         if parts = [] then [] else order_by parts))"

section \<open>Sort buffers\<close>

definition starts_with_word :: "jsstr \<Rightarrow> jsstr \<Rightarrow> nat \<Rightarrow> bool" where
  "starts_with_word s w i \<longleftrightarrow> match_ci_at s w i \<and> word_boundary s (i + length w)"

definition withSortBufferTuningSQL :: "jsstr \<Rightarrow> jsstr \<Rightarrow> int \<Rightarrow> jsstr" where
  "withSortBufferTuningSQL dbType sql sortBufferBytes =
     (let trimmed = trim sql; bytes = nat_str (nat (max (256 * 1024) sortBufferBytes));
          normalizedType = to_lower (trim dbType); n = skip_spaces sql 0 + 6
      in if trimmed = [] then sql
         else if \<not> starts_with_word trimmed (js ''select'') 0 then sql
         else if normalizedType = js ''mysql''
           then slice sql 0 n @ js '' /*+ SET_VAR(sort_buffer_size='' @ bytes @ js '') */'' @ drop n sql
         else if normalizedType = js ''mariadb''
           then js ''SET STATEMENT sort_buffer_size='' @ bytes @ js '' FOR '' @ sql
         else sql)"

section \<open>Pagination\<close>

text \<open>\<open>/^\s*select\s+(?:distinct\s+)?top\b/i.test(text)\<close> for a trimmed text.\<close>

definition has_top :: "jsstr \<Rightarrow> bool" where
  "has_top s \<longleftrightarrow>
     (let a = skip_spaces s 6; b = skip_spaces s (a + 8) in
      match_ci_at s (js ''select'') 0 \<and> 6 < a \<and>
      (starts_with_word s (js ''top'') a \<or>
       (match_ci_at s (js ''distinct'') a \<and> a + 8 < b \<and> starts_with_word s (js ''top'') b)))"

definition addSqlServerTopLimit :: "jsstr \<Rightarrow> nat \<Rightarrow> jsstr" where
  "addSqlServerTopLimit sql limit =
     (let text = trim sql in
      if text = [] then text
      else if has_top text then text
      else if \<not> starts_with_word text (js ''select'') 0 then text
      else
        (let n = 6 + distinct_match (drop 6 text)
         in slice text 0 n @ js '' TOP '' @ nat_str limit @ drop n text))"

definition buildSqlServerPaginatedSelectSQL :: "jsstr \<Rightarrow> jsstr \<Rightarrow> nat \<Rightarrow> nat \<Rightarrow> jsstr" where
  "buildSqlServerPaginatedSelectSQL base orderBy limit offset =
     (let effectiveOrderBy = trim orderBy;
          reverseOrderBy = reverseOrderBySQL effectiveOrderBy;
          upperBound = offset + limit;
          rowNumberOrderBy = (if effectiveOrderBy = [] then js ''ORDER BY (SELECT NULL)'' else effectiveOrderBy)
      in if offset = 0 then addSqlServerTopLimit base limit @ orderBy
         else if effectiveOrderBy \<noteq> [] \<and> reverseOrderBy \<noteq> []
           then js ''SELECT * FROM (SELECT TOP '' @ nat_str limit @ js '' * FROM (SELECT TOP '' @
                nat_str upperBound @ js '' * FROM ('' @ base @ js '') AS [__gonavi_page_base__] '' @
                effectiveOrderBy @ js '') AS [__gonavi_page_window__] '' @ reverseOrderBy @
                js '') AS [__gonavi_page_slice__] '' @ effectiveOrderBy
         else js ''SELECT * FROM (SELECT [__gonavi_page__].*, ROW_NUMBER() OVER ('' @ rowNumberOrderBy @
              js '') AS [__gonavi_rn__] FROM ('' @ base @
              js '') AS [__gonavi_page__]) AS [__gonavi_page_result__] WHERE [__gonavi_rn__] > '' @
              nat_str offset @ js '' AND [__gonavi_rn__] <= '' @ nat_str upperBound @
              js '' ORDER BY [__gonavi_rn__]'')"

definition buildPaginatedSelectSQL :: "jsstr \<Rightarrow> jsstr \<Rightarrow> jsstr \<Rightarrow> int \<Rightarrow> int \<Rightarrow> jsstr" where
  "buildPaginatedSelectSQL dbType baseSql orderBySQL limit offset =
     (let normalizedType = to_lower (trim dbType); safeLimit = nat limit; safeOffset = nat offset;
          base = trim baseSql; orderBy = orderBySQL; orderedSql = base @ orderBy;
          upperBound = safeOffset + safeLimit
      in if base = [] \<or> safeLimit = 0 then base @ orderBy
         else if normalizedType \<in> set (map js [''oracle'', ''dameng'']) then
           (if safeOffset = 0
            then js ''SELECT * FROM ('' @ orderedSql @ js '') WHERE ROWNUM <= '' @ nat_str upperBound
            else js ''SELECT * FROM (SELECT \"__gonavi_page__\".*, ROWNUM \"__gonavi_rn__\" FROM ('' @ orderedSql @
                 js '') \"__gonavi_page__\" WHERE ROWNUM <= '' @ nat_str upperBound @
                 js '') WHERE \"__gonavi_rn__\" > '' @ nat_str safeOffset)
         else if normalizedType \<in> set (map js [''sqlserver'', ''mssql''])
           then buildSqlServerPaginatedSelectSQL base orderBy safeLimit safeOffset
         else base @ orderBy @ js '' LIMIT '' @ nat_str safeLimit @ js '' OFFSET '' @ nat_str safeOffset)"

section \<open>Filters\<close>

record filter_condition =
  cond_enabled :: "bool option"
  cond_logic :: jsstr
  cond_column :: jsstr
  cond_op :: jsstr
  cond_value :: jsstr
  cond_value2 :: jsstr

definition parseListValues :: "jsstr \<Rightarrow> jsstr list" where
  "parseListValues val =
     filter (\<lambda>s. s \<noteq> []) (map trim (split_on (\<lambda>c. c = newline \<or> c = cu CHR '','' \<or> c = 65292) (trim val)))"

definition normalizeConditionLogic :: "jsstr \<Rightarrow> jsstr" where
  "normalizeConditionLogic logic = (if to_upper (trim logic) = js ''OR'' then js ''OR'' else js ''AND'')"

definition literal :: "jsstr \<Rightarrow> jsstr \<Rightarrow> jsstr \<Rightarrow> jsstr" where
  "literal pre v post = [squote] @ pre @ escapeLiteral v @ post @ [squote]"

definition comparison_ops :: "jsstr list" where
  "comparison_ops = map js [''='', ''!='', ''<'', ''<='', ''>'', ''>='']"

text \<open>Operators that take one value, with the words written before the literal and the wild
  cards around the value.\<close>

definition like_ops :: "(jsstr \<times> jsstr \<times> jsstr \<times> jsstr) list" where
  "like_ops = map (\<lambda>(op, w, a, b). (js op, js w, js a, js b))
     [(''CONTAINS'', '' LIKE '', ''%'', ''%''), (''NOT_CONTAINS'', '' NOT LIKE '', ''%'', ''%''),
      (''STARTS_WITH'', '' LIKE '', '''', ''%''), (''NOT_STARTS_WITH'', '' NOT LIKE '', '''', ''%''),
      (''ENDS_WITH'', '' LIKE '', ''%'', ''''), (''NOT_ENDS_WITH'', '' NOT LIKE '', ''%'', '''')]"

definition in_list :: "jsstr \<Rightarrow> jsstr \<Rightarrow> jsstr \<Rightarrow> jsstr option" where
  "in_list col word val =
     (let items = parseListValues val in
      if items = [] then None
      else Some (col @ word @ join (js '', '') (map (\<lambda>v. literal [] v []) items) @ js '')''))"

definition between_expr :: "jsstr \<Rightarrow> jsstr \<Rightarrow> jsstr \<Rightarrow> jsstr \<Rightarrow> jsstr option" where
  "between_expr col word v1 v2 =
     (if v1 = [] \<or> v2 = [] then None
      else Some (col @ word @ literal [] v1 [] @ js '' AND '' @ literal [] v2 []))"

definition where_expr :: "jsstr \<Rightarrow> filter_condition \<Rightarrow> jsstr option" where
  "where_expr dbType cond =
     (let op = trim (cond_op cond); column = trim (cond_column cond);
          col = quoteIdentPart dbType column; v = trim (cond_value cond); v2 = trim (cond_value2 cond)
      in if op = js ''CUSTOM'' then (if v = [] then None else Some (js ''('' @ v @ js '')''))
         else if column = [] then None
         else if op = js ''IS_NULL'' then Some (col @ js '' IS NULL'')
         else if op = js ''IS_NOT_NULL'' then Some (col @ js '' IS NOT NULL'')
         else if op = js ''IS_EMPTY''
           then Some (js ''('' @ col @ js '' IS NULL OR '' @ col @ js '' = '' @ [squote, squote] @ js '')'')
         else if op = js ''IS_NOT_EMPTY''
           then Some (js ''('' @ col @ js '' IS NOT NULL AND '' @ col @ js '' <> '' @ [squote, squote] @ js '')'')
         else if op = js ''BETWEEN'' then between_expr col (js '' BETWEEN '') v v2
         else if op = js ''NOT_BETWEEN'' then between_expr col (js '' NOT BETWEEN '') v v2
         else if op = js ''IN'' then in_list col (js '' IN ('') (cond_value cond)
         else if op = js ''NOT_IN'' then in_list col (js '' NOT IN ('') (cond_value cond)
         else if v = [] then None
         else
           (case find (\<lambda>e. fst e = op) like_ops of
              Some (_, w, a, b) \<Rightarrow> Some (col @ w @ literal a v b)
            | None \<Rightarrow>
                if op \<notin> set comparison_ops \<and> to_upper op = js ''LIKE''
                then Some (col @ js '' LIKE '' @ literal (js ''%'') v (js ''%''))
                else Some (col @ [cu CHR '' ''] @ op @ [cu CHR '' ''] @ literal [] v [])))"

definition where_part :: "jsstr \<Rightarrow> filter_condition \<Rightarrow> (jsstr \<times> jsstr) option" where
  "where_part dbType cond =
     (if cond_enabled cond = Some False then None
      else
        (case where_expr dbType cond of
           None \<Rightarrow> None
         | Some expr \<Rightarrow> if trim expr = [] then None
                         else Some (trim expr, normalizeConditionLogic (cond_logic cond))))"

definition where_step :: "jsstr \<Rightarrow> jsstr \<times> jsstr \<Rightarrow> jsstr" where
  "where_step whereExpr part =
     js ''('' @ whereExpr @ [cu CHR '' ''] @ snd part @ js '' ('' @ fst part @ js ''))''"

definition buildWhereSQL :: "jsstr \<Rightarrow> filter_condition list \<Rightarrow> jsstr" where
  "buildWhereSQL dbType conditions =
     (case List.map_filter (where_part dbType) conditions of
        [] \<Rightarrow> []
      | first # rest \<Rightarrow> js ''WHERE '' @ foldl where_step (js ''('' @ fst first @ js '')'') rest)"

section \<open>Reading the literals back\<close>

lemma literal_reads_back:
  assumes "rest = [] \<or> hd rest \<noteq> squote"
  shows "read_quoted squote (tl (literal [] v []) @ rest) = Some (v, rest)"
  using read_quoted_escape [OF assms, of v] by (simp add: literal_def escapeLiteral_def)

lemma quoteIdentPart_forms:
  assumes "stripIdentifierQuotes_qn ident \<noteq> []"
  shows "(\<exists>m \<in> marks. quoteIdentPart dbType ident = quoted_segment m (stripIdentifierQuotes_qn ident)) \<or>
    (to_lower dbType \<in> set (map js [''kingbase'', ''postgres'', ''opengauss'', ''gaussdb'']) \<and>
     \<not> needsQuote (stripIdentifierQuotes_qn ident) \<and>
     quoteIdentPart dbType ident = stripIdentifierQuotes_qn ident)"
proof -
  have m: "(dquote, dquote) \<in> marks" "(backtick, backtick) \<in> marks" "(lbracket, rbracket) \<in> marks"
    by (simp_all add: marks_def)
  show ?thesis
    using assms m unfolding quoteIdentPart_def Let_def quoted_segment_def
    by (auto split: if_splits) (metis fst_conv snd_conv)+
qed

lemma stripIdentifierQuotes_qn_trim: "trim (stripIdentifierQuotes_qn s) = stripIdentifierQuotes_qn s"
  by (simp add: stripIdentifierQuotes_qn_def Let_def normalizeIdentifierEscapes_def)

lemma quoteIdentPart_ends:
  assumes "stripIdentifierQuotes_qn ident \<noteq> []"
  shows "quoteIdentPart dbType ident \<noteq> [] \<and> \<not> is_js_space (hd (quoteIdentPart dbType ident))"
proof -
  let ?s = "stripIdentifierQuotes_qn ident"
  have "trim_start ?s = ?s"
    by (metis stripIdentifierQuotes_qn_trim trim_def trim_start_def trim_start_trim_end dropWhile_idem)
  with trim_start_hd [of ?s] assms have "\<not> is_js_space (hd ?s)" by simp
  moreover have "\<not> is_js_space (hd (quoted_segment m v))" if "m \<in> marks" for m v
    using that by (auto simp: quoted_segment_def marks_def)
  moreover have "quoted_segment m v \<noteq> []" for m v by (simp add: quoted_segment_def)
  ultimately show ?thesis using quoteIdentPart_forms [OF assms, of dbType] assms
    by (elim disjE bexE conjE) simp_all
qed

section \<open>Reversing an order\<close>

interpretation order_scan: advancing "length text" "order_body text" "\<lambda>_. True" for "text"
  by unfold_locales (simp_all add: order_body_def order_quoted_def Let_def)

abbreviation ord_scan :: "jsstr \<Rightarrow> nat \<Rightarrow> order_state \<Rightarrow> nat \<times> order_state" where
  "ord_scan text \<equiv> loop (length text) (order_body text)"

definition ord_plain :: "nat \<Rightarrow> jsstr list \<Rightarrow> order_state" where
  "ord_plain a ps = init_order_state\<lparr>ord_start := a, ord_parts := ps\<rparr>"

definition ord_inside :: "nat \<Rightarrow> jsstr list \<Rightarrow> order_state" where
  "ord_inside a ps = (ord_plain a ps)\<lparr>ord_inBracket := True\<rparr>"

lemma ord_step:
  "i < length text \<Longrightarrow> order_body text i s = (j, s') \<Longrightarrow> ord_scan text i s = ord_scan text j s'"
  by (simp add: order_scan.loop_unfold [of "text" i s])

lemma ord_inside_body:
  "order_body text i (ord_inside a ps) =
    (if text ! i = rbracket \<and> at text (i + 1) = Some rbracket then (i + 2, ord_inside a ps)
     else if text ! i = rbracket then (i + 1, ord_plain a ps) else (i + 1, ord_inside a ps))"
  by (simp add: order_body_def Let_def ord_inside_def ord_plain_def init_order_state_def order_quoted_def)

lemma ord_bracket_scan:
  assumes r: "rest = [] \<or> hd rest \<noteq> rbracket"
  shows "drop i text = replace_char rbracket [rbracket, rbracket] v @ rbracket # rest \<Longrightarrow>
    ord_scan text i (ord_inside a ps) =
    ord_scan text (i + length (replace_char rbracket [rbracket, rbracket] v) + 1) (ord_plain a ps)"
proof (induction v arbitrary: i)
  case Nil
  then have e: "i < length text \<and> text ! i = rbracket \<and> drop (Suc i) text = rest"
    by (intro drop_nth_Cons) simp
  have "at text (i + 1) \<noteq> Some rbracket"
  proof
    assume "at text (i + 1) = Some rbracket"
    then have "drop (Suc i) text = rbracket # drop (Suc (Suc i)) text"
      by (metis Cons_nth_drop_Suc Suc_eq_plus1 at_Some_iff)
    with e have "rest = rbracket # drop (Suc (Suc i)) text" by simp
    with r show False by simp
  qed
  with e have "order_body text i (ord_inside a ps) = (i + 1, ord_plain a ps)"
    by (simp add: ord_inside_body)
  with e show ?case by (simp add: ord_step)
next
  case (Cons c v)
  show ?case
  proof (cases "c = rbracket")
    case True
    with Cons.prems have "drop i text = rbracket # rbracket # replace_char rbracket [rbracket, rbracket] v @ rbracket # rest"
      by simp
    from drop_nth_Cons [OF this] have e: "i < length text" "text ! i = rbracket"
      "drop (Suc i) text = rbracket # replace_char rbracket [rbracket, rbracket] v @ rbracket # rest" by auto
    from drop_nth_Cons [OF e(3)] have f: "Suc i < length text" "text ! Suc i = rbracket"
      "drop (Suc (Suc i)) text = replace_char rbracket [rbracket, rbracket] v @ rbracket # rest" by auto
    have "ord_scan text i (ord_inside a ps) = ord_scan text (i + 2) (ord_inside a ps)"
      using e f by (intro ord_step) (simp_all add: ord_inside_body)
    with Cons.IH [of "i + 2"] f(3) True show ?thesis by (simp add: add_ac)
  next
    case False
    with Cons.prems have "drop i text = c # replace_char rbracket [rbracket, rbracket] v @ rbracket # rest" by simp
    note e = drop_nth_Cons [OF this]
    have "ord_scan text i (ord_inside a ps) = ord_scan text (i + 1) (ord_inside a ps)"
      using e False by (intro ord_step) (simp_all add: ord_inside_body)
    with Cons.IH [of "i + 1"] e False show ?thesis by (simp add: add_ac)
  qed
qed

definition order_plain_char :: "jschar \<Rightarrow> bool" where
  "order_plain_char c \<longleftrightarrow> c \<notin> {squote, dquote, lbracket, cu CHR ''('', cu CHR '')'', cu CHR '',''}"

lemma ord_plain_scan:
  "drop i text = w @ rest \<Longrightarrow> \<forall>c \<in> set w. order_plain_char c \<Longrightarrow>
   ord_scan text i (ord_plain a ps) = ord_scan text (i + length w) (ord_plain a ps)"
proof (induction w arbitrary: i)
  case (Cons c w)
  then have "drop i text = c # w @ rest" by simp
  note e = drop_nth_Cons [OF this]
  have "ord_scan text i (ord_plain a ps) = ord_scan text (i + 1) (ord_plain a ps)"
    using e Cons.prems(2)
    by (intro ord_step) (simp_all add: order_body_def Let_def ord_plain_def init_order_state_def order_plain_char_def)
  with Cons.IH [of "i + 1"] Cons.prems(2) e show ?case by simp
qed simp

text \<open>A sorted column of SQL Server: the bracketed name and its direction.\<close>

definition bracket_part :: "jsstr \<times> bool \<Rightarrow> jsstr" where
  "bracket_part p = quoted_segment (lbracket, rbracket) (fst p) @ js (if snd p then '' ASC'' else '' DESC'')"

lemma bracket_part_ends:
  "bracket_part p \<noteq> []" "\<not> is_js_space (hd (bracket_part p))" "\<not> is_js_space (last (bracket_part p))"
  by (simp_all add: bracket_part_def quoted_segment_def) (simp add: js_Cons is_js_space_def cu_def)

lemma ord_part_scan:
  assumes d: "drop i text = bracket_part p @ rest"
  shows "ord_scan text i (ord_plain a ps) = ord_scan text (i + length (bracket_part p)) (ord_plain a ps)"
proof -
  let ?esc = "replace_char rbracket [rbracket, rbracket] (fst p)"
  let ?dir = "js (if snd p then '' ASC'' else '' DESC'')"
  have d': "drop i text = lbracket # ?esc @ rbracket # ?dir @ rest"
    using d by (simp add: bracket_part_def quoted_segment_def)
  note e = drop_nth_Cons [OF d']
  have dir: "?dir @ rest = [] \<or> hd (?dir @ rest) \<noteq> rbracket" by (simp add: js_Cons rbracket_def)
  have "ord_scan text i (ord_plain a ps) = ord_scan text (i + 1) (ord_inside a ps)"
    using e by (intro ord_step)
      (simp_all add: order_body_def Let_def ord_plain_def ord_inside_def init_order_state_def lbracket_def)
  also have "\<dots> = ord_scan text (i + 1 + length ?esc + 1) (ord_plain a ps)"
    using e by (intro ord_bracket_scan [OF dir]) simp
  also have "\<dots> = ord_scan text (i + 1 + length ?esc + 1 + length ?dir) (ord_plain a ps)"
  proof (rule ord_plain_scan)
    have "drop (length ?esc + 2) (drop i text) = ?dir @ rest" unfolding d' by simp
    then show "drop (i + 1 + length ?esc + 1) text = ?dir @ rest" by (simp add: add_ac)
    show "\<forall>c \<in> set ?dir. order_plain_char c"
      by (simp add: js_Cons order_plain_char_def lbracket_def)
  qed
  finally show ?thesis by (simp add: bracket_part_def quoted_segment_def add_ac)
qed

lemma trim_spaces_part:
  assumes "\<forall>c \<in> set w. is_js_space c"
  shows "trim (w @ bracket_part p) = bracket_part p"
proof -
  have "trim (w @ bracket_part p) = trim (bracket_part p)"
    using assms by (induction w) (auto simp: trim_space_Cons)
  then show ?thesis using bracket_part_ends [of p] by (simp add: trim_id)
qed

lemma ord_scan_parts:
  "parts \<noteq> [] \<Longrightarrow> drop a text = w @ join (js '', '') (map bracket_part parts) \<Longrightarrow>
   \<forall>c \<in> set w. is_js_space c \<Longrightarrow>
   (let s = snd (ord_scan text (a + length w) (ord_plain a ps)) in
    ord_parts (order_push (drop (ord_start s) text) s)) = ps @ map bracket_part parts"
proof (induction parts arbitrary: a w ps)
  case Nil
  then show ?case by simp
next
  case (Cons p parts)
  let ?e = "a + length w + length (bracket_part p)"
  show ?case
  proof (cases "parts = []")
    case True
    with Cons.prems have d: "drop a text = w @ bracket_part p" by simp
    then have d': "drop (a + length w) text = bracket_part p @ []"
      by (metis add.commute append_Nil2 append_eq_conv_conj drop_drop)
    have "length text = ?e"
    proof -
      have "length text - a = length w + length (bracket_part p)"
        using d by (metis length_append length_drop)
      moreover have "0 < length (bracket_part p)" using bracket_part_ends(1) by simp
      ultimately show ?thesis by linarith
    qed
    with ord_part_scan [OF d', of a ps] have
      "snd (ord_scan text (a + length w) (ord_plain a ps)) = ord_plain a ps"
      by (simp add: loop.simps [of ?e _ ?e])
    with d True trim_spaces_part [OF Cons.prems(3)] bracket_part_ends(1) show ?thesis
      by (simp add: order_push_def Let_def ord_plain_def)
  next
    case False
    let ?j = "join (js '', '') (map bracket_part parts)"
    from False Cons.prems(2) have d: "drop a text = w @ bracket_part p @ cu CHR '','' # cu CHR '' '' # ?j"
      by (cases parts) (simp_all add: js_Cons)
    then have d': "drop (a + length w) text = bracket_part p @ cu CHR '','' # cu CHR '' '' # ?j"
      by (metis add.commute append_eq_conv_conj drop_drop)
    then have c: "drop ?e text = cu CHR '','' # cu CHR '' '' # ?j"
      by (metis add.commute append_eq_conv_conj drop_drop)
    note e = drop_nth_Cons [OF c]
    have sl: "slice text a ?e = w @ bracket_part p" using d by (simp add: slice_def)
    have "order_body text ?e (ord_plain a ps) = (?e + 1, ord_plain (?e + 1) (ps @ [bracket_part p]))"
      using e sl trim_spaces_part [OF Cons.prems(3)] bracket_part_ends(1) [of p]
      by (simp add: order_body_def Let_def ord_plain_def init_order_state_def order_push_def lbracket_def)
    with e have "ord_scan text ?e (ord_plain a ps) = ord_scan text (?e + 1) (ord_plain (?e + 1) (ps @ [bracket_part p]))"
      by (intro ord_step) simp_all
    also have "\<dots> = ord_scan text (?e + 1 + 1) (ord_plain (?e + 1) (ps @ [bracket_part p]))"
      using ord_plain_scan [of "?e + 1" "text" "[cu CHR '' '']" ?j] e
      by (simp add: order_plain_char_def lbracket_def)
    finally have "ord_scan text (a + length w) (ord_plain a ps) =
      ord_scan text (?e + 1 + length [cu CHR '' '']) (ord_plain (?e + 1) (ps @ [bracket_part p]))"
      using ord_part_scan [OF d', of a ps] by simp
    moreover have "is_js_space (cu CHR '' '')" by (simp add: is_js_space_def cu_def)
    ultimately show ?thesis
      using Cons.IH [OF False, of "?e + 1" "[cu CHR '' '']" "ps @ [bracket_part p]"] e by simp
  qed
qed

lemma splitOrderByParts_join:
  assumes "parts \<noteq> []"
  shows "splitOrderByParts (join (js '', '') (map bracket_part parts)) = map bracket_part parts"
  using ord_scan_parts [OF assms, of 0 "join (js '', '') (map bracket_part parts)" "[]" "[]"]
  by (simp add: splitOrderByParts_def ord_plain_def init_order_state_def)

lemma join_parts_ends:
  assumes "parts \<noteq> []"
  shows "join (js '', '') (map bracket_part parts) \<noteq> [] \<and>
    hd (join (js '', '') (map bracket_part parts)) = lbracket \<and>
    \<not> is_js_space (last (join (js '', '') (map bracket_part parts)))"
  using assms
proof (induction parts)
  case (Cons p parts)
  have "hd (bracket_part p) = lbracket" by (simp add: bracket_part_def quoted_segment_def)
  with Cons bracket_part_ends [of p] show ?case by (cases parts) auto
qed simp

lemma reverse_bracket_part: "reverse_part (bracket_part p) = bracket_part (fst p, \<not> snd p)"
proof -
  let ?q = "quoted_segment (lbracket, rbracket) (fst p)"
  have q: "?q \<noteq> []" "\<not> is_js_space (last ?q)" by (simp_all add: quoted_segment_def)
  have te: "trim_end (?q @ [cu CHR '' '']) = ?q"
  proof -
    have "trim_end (?q @ [cu CHR '' '']) = trim_end ?q" by (simp add: trim_end_def is_js_space_def cu_def)
    with q show ?thesis by (simp add: trim_end_id)
  qed
  have sp: "is_js_space (cu CHR '' '')" by (simp add: is_js_space_def cu_def)
  show ?thesis
  proof (cases "snd p")
    case True
    have "match_ci_at (bracket_part p) (js ''asc'') (length (bracket_part p) - 3)"
      using True by (simp add: match_ci_at_def bracket_part_def slice_def js_Cons ascii_fold_def cu_def)
    moreover have "bracket_part p ! (length (bracket_part p) - 3 - 1) = cu CHR '' ''"
      using True by (simp add: bracket_part_def js_Cons nth_append)
    ultimately have "ends_with_word (bracket_part p) (js ''asc'')"
      using True sp by (simp add: ends_with_word_def bracket_part_def)
    with te True show ?thesis by (simp add: reverse_part_def) (simp add: bracket_part_def js_Cons)
  next
    case False
    have "\<not> match_ci_at (bracket_part p) (js ''asc'') (length (bracket_part p) - 3)"
      using False by (simp add: match_ci_at_def bracket_part_def slice_def js_Cons ascii_fold_def cu_def)
    moreover have "match_ci_at (bracket_part p) (js ''desc'') (length (bracket_part p) - 4)"
      using False by (simp add: match_ci_at_def bracket_part_def slice_def js_Cons ascii_fold_def cu_def)
    moreover have "bracket_part p ! (length (bracket_part p) - 4 - 1) = cu CHR '' ''"
      using False by (simp add: bracket_part_def js_Cons nth_append)
    ultimately have "\<not> ends_with_word (bracket_part p) (js ''asc'')"
      "ends_with_word (bracket_part p) (js ''desc'')"
      using False sp by (simp_all add: ends_with_word_def bracket_part_def)
    with te False show ?thesis by (simp add: reverse_part_def) (simp add: bracket_part_def js_Cons)
  qed
qed

lemma strip_order_by_body:
  assumes "j \<noteq> []" and "\<not> is_js_space (hd j)"
  shows "strip_order_by (js ''ORDER BY '' @ j) = j"
proof -
  let ?r = "js ''ORDER BY '' @ j"
  obtain c k where j: "j = c # k" using assms(1) by (cases j) auto
  have sp: "is_js_space (cu CHR '' '')" "\<not> is_js_space (cu CHR ''B'')"
    by (simp_all add: is_js_space_def cu_def)
  have a: "skip_spaces ?r 5 = 6" unfolding skip_spaces_def
    by (rule advance_eqI) (auto simp: j js_Cons sp less_Suc_eq)
  have b: "skip_spaces ?r 8 = 9" unfolding skip_spaces_def
    using assms(2) by (intro advance_eqI) (auto simp: j js_Cons sp less_Suc_eq)
  have "match_ci_at ?r (js ''order'') 0" "match_ci_at ?r (js ''by'') 6"
    by (simp_all add: match_ci_at_def slice_def js_Cons ascii_fold_def cu_def)
  with a b show ?thesis by (simp add: strip_order_by_def Let_def)
qed

section \<open>Properties\<close>

text \<open>Reversing an order: for the order of a SQL Server query (bracketed columns with their
  directions) the reversed clause has the same columns in the same order with every direction
  flipped, whatever characters the column names contain. The page query relies on it to walk
  a page from its end.\<close>

theorem reverseOrderBySQL_flips:
  assumes "parts \<noteq> []"
  shows "reverseOrderBySQL (order_by (map bracket_part parts)) =
    order_by (map (\<lambda>p. bracket_part (fst p, \<not> snd p)) parts)"
proof -
  let ?j = "join (js '', '') (map bracket_part parts)"
  note e = join_parts_ends [OF assms]
  have hd: "\<not> is_js_space (hd ?j)" using e by simp
  have "is_js_space (cu CHR '' '')" by (simp add: is_js_space_def cu_def)
  then have "trim (order_by (map bracket_part parts)) = trim (js ''ORDER BY '' @ ?j)"
    by (simp add: order_by_def js_Cons trim_space_Cons)
  also have "\<dots> = js ''ORDER BY '' @ ?j"
    using e by (intro trim_id) (simp add: js_Cons is_js_space_def cu_def)
  finally have t: "trim (order_by (map bracket_part parts)) = js ''ORDER BY '' @ ?j" .
  have "trim (strip_order_by (js ''ORDER BY '' @ ?j)) = ?j"
    using e hd by (simp add: strip_order_by_body trim_id)
  with t e show ?thesis
    by (simp add: reverseOrderBySQL_def Let_def splitOrderByParts_join [OF assms] assms
        reverse_bracket_part comp_def)
qed

theorem reverseOrderBySQL_flips_witness:
  "reverseOrderBySQL (js '' ORDER BY [a, b] ASC, [c]]] DESC'') = js '' ORDER BY [a, b] DESC, [c]]] ASC''"
proof -
  let ?ps = "[(js ''a, b'', True), (js ''c]'', False)]"
  have "order_by (map bracket_part ?ps) = js '' ORDER BY [a, b] ASC, [c]]] DESC''"
    "order_by (map (\<lambda>p. bracket_part (fst p, \<not> snd p)) ?ps) = js '' ORDER BY [a, b] DESC, [c]]] ASC''"
    by code_simp+
  with reverseOrderBySQL_flips [of ?ps] show ?thesis by simp
qed


definition sample_condition :: filter_condition where
  "sample_condition = \<lparr>cond_enabled = None, cond_logic = [], cond_column = js ''name'', cond_op = js ''='',
     cond_value = [97, squote, 98], cond_value2 = []\<rparr>"


text \<open>MySQL by default also takes a backslash in a literal for an escape, which the builder does
  not escape: the value \<open>\' OR 1=1 -- \<close> ends the literal early.\<close>

fun read_mysql_literal :: "jsstr \<Rightarrow> (jsstr \<times> jsstr) option" where
  "read_mysql_literal [] = None"
| "read_mysql_literal [c] = (if c = squote then Some ([], []) else None)"
| "read_mysql_literal (c # d # s) =
     (if c = backslash then map_option (\<lambda>(v, rest). (d # v, rest)) (read_mysql_literal s)
      else if c = squote then
        (if d = squote then map_option (\<lambda>(v, rest). (squote # v, rest)) (read_mysql_literal s)
         else Some ([], d # s))
      else map_option (\<lambda>(v, rest). (c # v, rest)) (read_mysql_literal (d # s)))"

theorem mysql_literal_escapes:
  "\<exists>cond body. buildWhereSQL (js ''mysql'') [cond] = js ''WHERE ('' @ [backtick] @ js ''name'' @ [backtick] @
     js '' = '' @ squote # body \<and>
   read_mysql_literal body = Some ([squote], js '' OR 1=1 --'' @ [squote] @ js '')'')"
proof -
  let ?c = "sample_condition\<lparr>cond_value := [backslash, squote] @ js '' OR 1=1 --''\<rparr>"
  have "buildWhereSQL (js ''mysql'') [?c] = js ''WHERE ('' @ [backtick] @ js ''name'' @ [backtick] @
     js '' = '' @ squote # [backslash, squote, squote] @ js '' OR 1=1 --'' @ [squote] @ js '')''" by code_simp
  moreover have "read_mysql_literal ([backslash, squote, squote] @ js '' OR 1=1 --'' @ [squote] @ js '')'') =
      Some ([squote], js '' OR 1=1 --'' @ [squote] @ js '')'')" by code_simp
  ultimately show ?thesis by blast
qed

section \<open>The last page of SQL Server\<close>

text \<open>
  The page query for SQL Server with an order takes the first \<open>offset + limit\<close> rows, reverses
  them, takes \<open>limit\<close> of those and sorts them again. On the sorted rows this is:
\<close>

definition nested_top_rows :: "nat \<Rightarrow> nat \<Rightarrow> 'a list \<Rightarrow> 'a list" where
  "nested_top_rows limit offset rows = rev (take limit (rev (take (offset + limit) rows)))"

lemma rev_take_rev: "rev (take n (rev xs)) = drop (length xs - n) xs"
  by (simp add: rev_take)

lemma nested_top_rows_full:
  "offset + limit \<le> length rows \<Longrightarrow> nested_top_rows limit offset rows = take limit (drop offset rows)"
  by (simp add: nested_top_rows_def rev_take_rev drop_take)

text \<open>A last page that is not full repeats rows of the page before it.\<close>

lemma nested_top_rows_last_page:
  "length rows < offset + limit \<Longrightarrow> nested_top_rows limit offset rows = drop (length rows - limit) rows"
  by (simp add: nested_top_rows_def rev_take_rev)

lemma nested_top_rows_repeats: "nested_top_rows 2 2 [a, b, c] = [b, c]"
  by (simp add: nested_top_rows_def numeral_eq_Suc)

end
