(* ===== verification/QueryMaxRows.thy ===== *)
theory QueryMaxRows
  imports JsString
begin

text \<open>
  The row-limit setting and its custom presets: \<open>frontend/src/utils/queryMaxRows.ts\<close>. A number
  that arrives from outside is a \<open>js_number\<close> (fractions, which the code truncates, are not
  modelled); a number of the state is an integer.
\<close>

definition DEFAULT_MAX_ROWS :: int where "DEFAULT_MAX_ROWS = 100"
definition LOW_MEMORY_MAX_ROWS_CAP :: int where "LOW_MEMORY_MAX_ROWS_CAP = DEFAULT_MAX_ROWS"
definition MAX_MAX_ROWS :: int where "MAX_MAX_ROWS = 50000"
definition LEGACY_UNLIMITED_MAX_ROWS :: int where "LEGACY_UNLIMITED_MAX_ROWS = 50000"
definition MAX_CUSTOM_PRESETS :: nat where "MAX_CUSTOM_PRESETS = 5"

record max_rows_state =
  maxRows :: int
  maxRowsCustomPresets :: "int list"

definition clampMaxRows :: "int \<Rightarrow> int" where
  "clampMaxRows v = min MAX_MAX_ROWS (max 1 v)"

definition preset_ok :: "int \<Rightarrow> bool" where
  "preset_ok n \<longleftrightarrow> 1 \<le> n \<and> n \<le> MAX_MAX_ROWS \<and> n \<noteq> DEFAULT_MAX_ROWS"

fun finite_value :: "js_number \<Rightarrow> int option" where
  "finite_value (Finite n) = Some n"
| "finite_value NonFinite = None"

definition sanitizeMaxRowsCustomPresets :: "js_number list \<Rightarrow> int list" where
  "sanitizeMaxRowsCustomPresets vs =
     take MAX_CUSTOM_PRESETS
       (sort (remdups (map clampMaxRows
         (filter (\<lambda>n. 1 \<le> n \<and> n \<le> MAX_MAX_ROWS \<and> clampMaxRows n \<noteq> DEFAULT_MAX_ROWS)
           (List.map_filter finite_value vs)))))"

fun normalizeLegacyMaxRows :: "js_number \<Rightarrow> int" where
  "normalizeLegacyMaxRows NonFinite = LEGACY_UNLIMITED_MAX_ROWS"
| "normalizeLegacyMaxRows (Finite n) =
     (if n \<le> 0 then LEGACY_UNLIMITED_MAX_ROWS else clampMaxRows n)"

text \<open>The stored object: a missing \<open>maxRows\<close> key is \<open>None\<close>, missing presets are \<open>[]\<close>.\<close>

record raw_max_rows =
  raw_maxRows :: "js_number option"
  raw_presets :: "js_number list"

text \<open>The loop that keeps the chosen value when there are too many presets.\<close>

definition keep_step :: "int list \<Rightarrow> int \<Rightarrow> int list" where
  "keep_step keep p = (if MAX_CUSTOM_PRESETS \<le> length keep then keep else List.insert p keep)"

definition limit_presets :: "int \<Rightarrow> int list \<Rightarrow> int list" where
  "limit_presets rows presets =
     (if MAX_CUSTOM_PRESETS < length presets then sort (foldl keep_step [rows] presets) else presets)"

definition migrateQueryMaxRows :: "raw_max_rows \<Rightarrow> max_rows_state" where
  "migrateQueryMaxRows raw =
     (if raw_maxRows raw = None \<and> raw_presets raw = []
      then \<lparr>maxRows = DEFAULT_MAX_ROWS, maxRowsCustomPresets = []\<rparr>
      else
        (let rows = normalizeLegacyMaxRows (case raw_maxRows raw of None \<Rightarrow> NonFinite | Some n \<Rightarrow> n);
             presets = sanitizeMaxRowsCustomPresets (raw_presets raw);
             presets' = (if rows \<noteq> DEFAULT_MAX_ROWS \<and> rows \<notin> set presets
                         then sanitizeMaxRowsCustomPresets (map Finite presets @ [Finite rows]) else presets)
         in \<lparr>maxRows = rows, maxRowsCustomPresets = limit_presets rows presets'\<rparr>))"

definition addMaxRowsCustomPreset :: "max_rows_state \<Rightarrow> int \<Rightarrow> max_rows_state" where
  "addMaxRowsCustomPreset s v =
     (let next_rows = clampMaxRows v in
      if next_rows = DEFAULT_MAX_ROWS then s\<lparr>maxRows := DEFAULT_MAX_ROWS\<rparr>
      else if next_rows \<in> set (maxRowsCustomPresets s) then s\<lparr>maxRows := next_rows\<rparr>
      else if MAX_CUSTOM_PRESETS \<le> length (maxRowsCustomPresets s) then s
      else \<lparr>maxRows = next_rows,
            maxRowsCustomPresets =
              sanitizeMaxRowsCustomPresets (map Finite (maxRowsCustomPresets s) @ [Finite next_rows])\<rparr>)"

definition removeMaxRowsCustomPreset :: "max_rows_state \<Rightarrow> int \<Rightarrow> max_rows_state" where
  "removeMaxRowsCustomPreset s v =
     \<lparr>maxRows = (if maxRows s = v then DEFAULT_MAX_ROWS else maxRows s),
      maxRowsCustomPresets = filter (\<lambda>item. item \<noteq> v) (maxRowsCustomPresets s)\<rparr>"

definition queryMaxRowsNeedsLowMemoryCap :: "max_rows_state \<Rightarrow> bool" where
  "queryMaxRowsNeedsLowMemoryCap s \<longleftrightarrow>
     LOW_MEMORY_MAX_ROWS_CAP < maxRows s \<or>
     (\<exists>v \<in> set (maxRowsCustomPresets s). LOW_MEMORY_MAX_ROWS_CAP < v)"

definition capQueryMaxRowsForLowMemory :: "max_rows_state \<Rightarrow> max_rows_state" where
  "capQueryMaxRowsForLowMemory s =
     \<lparr>maxRows = min (clampMaxRows (maxRows s)) LOW_MEMORY_MAX_ROWS_CAP,
      maxRowsCustomPresets = sanitizeMaxRowsCustomPresets
        (map Finite (filter (\<lambda>v. v \<le> LOW_MEMORY_MAX_ROWS_CAP) (maxRowsCustomPresets s)))\<rparr>"

text \<open>\<open>tabMaxRows\<close> is \<open>None\<close> for \<open>undefined\<close>.\<close>

definition resolveEffectiveTabMaxRows :: "js_number option \<Rightarrow> int \<Rightarrow> int" where
  "resolveEffectiveTabMaxRows tabMaxRows globalMaxRows =
     (case tabMaxRows of
        Some (Finite n) \<Rightarrow> if 0 < n then clampMaxRows n else clampMaxRows globalMaxRows
      | _ \<Rightarrow> clampMaxRows globalMaxRows)"

definition resolveCappedTabMaxRows :: "js_number option \<Rightarrow> int \<Rightarrow> js_number \<Rightarrow> int" where
  "resolveCappedTabMaxRows tabMaxRows globalMaxRows cap =
     (let effective = resolveEffectiveTabMaxRows tabMaxRows globalMaxRows in
      case cap of
        Finite n \<Rightarrow> if 0 < n then min effective n else effective
      | NonFinite \<Rightarrow> effective)"

section \<open>Well-formed presets\<close>

definition presets_ok :: "int list \<Rightarrow> bool" where
  "presets_ok ps \<longleftrightarrow>
     sorted ps \<and> distinct ps \<and> length ps \<le> MAX_CUSTOM_PRESETS \<and> (\<forall>n \<in> set ps. preset_ok n)"

lemma presets_ok_filter: "presets_ok ps \<Longrightarrow> presets_ok (filter P ps)"
  by (auto simp: presets_ok_def sorted_wrt_filter intro: order_trans [OF length_filter_le])

lemma clampMaxRows_range: "1 \<le> clampMaxRows v \<and> clampMaxRows v \<le> MAX_MAX_ROWS"
  by (simp add: clampMaxRows_def MAX_MAX_ROWS_def)

lemma clampMaxRows_id: "1 \<le> v \<Longrightarrow> v \<le> MAX_MAX_ROWS \<Longrightarrow> clampMaxRows v = v"
  by (simp add: clampMaxRows_def)

lemma sanitize_eq:
  "sanitizeMaxRowsCustomPresets vs =
     take MAX_CUSTOM_PRESETS (sort (remdups (filter preset_ok (List.map_filter finite_value vs))))"
proof -
  have "map clampMaxRows (filter (\<lambda>n. 1 \<le> n \<and> n \<le> MAX_MAX_ROWS \<and> clampMaxRows n \<noteq> DEFAULT_MAX_ROWS) ns) =
      filter preset_ok ns" for ns
    by (induction ns) (auto simp: preset_ok_def clampMaxRows_id)
  then show ?thesis by (simp add: sanitizeMaxRowsCustomPresets_def)
qed

lemma sanitize_presets_ok: "presets_ok (sanitizeMaxRowsCustomPresets vs)"
  unfolding presets_ok_def sanitize_eq
  by (auto simp: sorted_wrt_take dest: in_set_takeD)

lemma map_filter_Finite: "List.map_filter finite_value (map Finite ns) = ns"
  by (induction ns) (simp_all add: map_filter_simps)

lemma sanitize_fixed: "presets_ok ps \<Longrightarrow> sanitizeMaxRowsCustomPresets (map Finite ps) = ps"
  by (simp add: sanitize_eq map_filter_Finite presets_ok_def filter_id_conv distinct_remdups_id
      sorted_sort_id)

lemma sanitize_insert:
  assumes "presets_ok ps" and "preset_ok v" and "v \<notin> set ps" and "length ps < MAX_CUSTOM_PRESETS"
  shows "set (sanitizeMaxRowsCustomPresets (map Finite ps @ [Finite v])) = insert v (set ps)"
proof -
  have "map Finite ps @ [Finite v] = map Finite (ps @ [v])" by simp
  moreover have "remdups (filter preset_ok (ps @ [v])) = ps @ [v]"
    using assms(1-3) by (simp add: presets_ok_def filter_id_conv distinct_remdups_id)
  ultimately have "sanitizeMaxRowsCustomPresets (map Finite ps @ [Finite v]) = sort (ps @ [v])"
    using assms(4) by (simp only: sanitize_eq map_filter_Finite) simp
  then show ?thesis by simp
qed

lemma limit_presets_id: "presets_ok ps \<Longrightarrow> limit_presets rows ps = ps"
  by (simp add: limit_presets_def presets_ok_def)

section \<open>The setting as a state machine\<close>

definition max_rows_ok :: "max_rows_state \<Rightarrow> bool" where
  "max_rows_ok s \<longleftrightarrow> 1 \<le> maxRows s \<and> maxRows s \<le> MAX_MAX_ROWS \<and> presets_ok (maxRowsCustomPresets s)"

datatype max_rows_op = AddPreset int | RemovePreset int | CapForLowMemory

fun run_max_rows_op :: "max_rows_op \<Rightarrow> max_rows_state \<Rightarrow> max_rows_state" where
  "run_max_rows_op (AddPreset v) s = addMaxRowsCustomPreset s v"
| "run_max_rows_op (RemovePreset v) s = removeMaxRowsCustomPreset s v"
| "run_max_rows_op CapForLowMemory s = capQueryMaxRowsForLowMemory s"

lemma migrate_ok: "max_rows_ok (migrateQueryMaxRows raw)"
proof -
  have "1 \<le> normalizeLegacyMaxRows n \<and> normalizeLegacyMaxRows n \<le> MAX_MAX_ROWS" for n
    using clampMaxRows_range by (cases n) (auto simp: LEGACY_UNLIMITED_MAX_ROWS_def MAX_MAX_ROWS_def)
  moreover have "presets_ok []" by (simp add: presets_ok_def)
  ultimately show ?thesis
    using sanitize_presets_ok
    by (simp add: migrateQueryMaxRows_def max_rows_ok_def Let_def limit_presets_id
        DEFAULT_MAX_ROWS_def MAX_MAX_ROWS_def)
qed

lemma run_max_rows_op_ok:
  assumes "max_rows_ok s"
  shows "max_rows_ok (run_max_rows_op op s)"
proof (cases op)
  case (AddPreset v)
  with assms show ?thesis
    using sanitize_presets_ok clampMaxRows_range [of v]
    by (simp add: addMaxRowsCustomPreset_def max_rows_ok_def Let_def DEFAULT_MAX_ROWS_def MAX_MAX_ROWS_def)
next
  case (RemovePreset v)
  with assms show ?thesis
    by (auto simp: removeMaxRowsCustomPreset_def max_rows_ok_def presets_ok_filter
        DEFAULT_MAX_ROWS_def MAX_MAX_ROWS_def)
next
  case CapForLowMemory
  with assms show ?thesis
    using sanitize_presets_ok clampMaxRows_range [of "maxRows s"]
    by (simp add: capQueryMaxRowsForLowMemory_def max_rows_ok_def LOW_MEMORY_MAX_ROWS_CAP_def
        DEFAULT_MAX_ROWS_def MAX_MAX_ROWS_def)
qed

interpretation max_rows: op_invariant run_max_rows_op "\<lambda>_ _. True" max_rows_ok
  by unfold_locales (rule run_max_rows_op_ok)

section \<open>Properties\<close>

text \<open>The setting stays well-formed: from what migration makes of any stored object, whatever
  operations run, the limit lies between 1 and 50000 and the presets are strictly sorted, at most
  five, in range and never the default.\<close>

theorem max_rows_ok_invariant:
  assumes "reach run_max_rows_op (\<lambda>_ _. True) (migrateQueryMaxRows raw) s"
  shows "1 \<le> maxRows s \<and> maxRows s \<le> MAX_MAX_ROWS \<and>
    sorted_wrt (<) (maxRowsCustomPresets s) \<and> length (maxRowsCustomPresets s) \<le> MAX_CUSTOM_PRESETS \<and>
    (\<forall>n \<in> set (maxRowsCustomPresets s). 1 \<le> n \<and> n \<le> MAX_MAX_ROWS \<and> n \<noteq> DEFAULT_MAX_ROWS)"
  using max_rows.reach_inv [OF assms migrate_ok]
  by (auto simp: max_rows_ok_def presets_ok_def preset_ok_def strict_sorted_iff)

theorem max_rows_ok_invariant_witness:
  "maxRows (addMaxRowsCustomPreset (migrateQueryMaxRows \<lparr>raw_maxRows = Some (Finite 200), raw_presets = []\<rparr>) 70000)
   \<le> MAX_MAX_ROWS"
proof -
  have "reach run_max_rows_op (\<lambda>_ _. True) (migrateQueryMaxRows \<lparr>raw_maxRows = Some (Finite 200), raw_presets = []\<rparr>)
    (run_max_rows_op (AddPreset 70000) (migrateQueryMaxRows \<lparr>raw_maxRows = Some (Finite 200), raw_presets = []\<rparr>))"
    by (intro reach.step reach.start) simp
  from max_rows_ok_invariant [OF this] show ?thesis by simp
qed

text \<open>Low memory caps: the capped setting asks for at most 100 rows, keeps exactly the presets
  that fit, and needs no further cap; capping twice changes nothing.\<close>

theorem capQueryMaxRowsForLowMemory_correct:
  assumes "max_rows_ok s"
  shows "\<not> queryMaxRowsNeedsLowMemoryCap (capQueryMaxRowsForLowMemory s) \<and>
    set (maxRowsCustomPresets (capQueryMaxRowsForLowMemory s)) =
      {v \<in> set (maxRowsCustomPresets s). v \<le> LOW_MEMORY_MAX_ROWS_CAP} \<and>
    capQueryMaxRowsForLowMemory (capQueryMaxRowsForLowMemory s) = capQueryMaxRowsForLowMemory s"
proof -
  let ?f = "filter (\<lambda>v. v \<le> LOW_MEMORY_MAX_ROWS_CAP) (maxRowsCustomPresets s)"
  have "presets_ok ?f"
    using assms by (simp add: max_rows_ok_def presets_ok_filter)
  then have f: "sanitizeMaxRowsCustomPresets (map Finite ?f) = ?f" by (rule sanitize_fixed)
  have m: "clampMaxRows (min (clampMaxRows (maxRows s)) LOW_MEMORY_MAX_ROWS_CAP) =
      min (clampMaxRows (maxRows s)) LOW_MEMORY_MAX_ROWS_CAP"
    using clampMaxRows_range [of "maxRows s"]
    by (intro clampMaxRows_id) (auto simp: LOW_MEMORY_MAX_ROWS_CAP_def DEFAULT_MAX_ROWS_def)
  show ?thesis
    using f m by (auto simp: capQueryMaxRowsForLowMemory_def queryMaxRowsNeedsLowMemoryCap_def)
qed

theorem capQueryMaxRowsForLowMemory_correct_witness:
  "max_rows_ok \<lparr>maxRows = 500, maxRowsCustomPresets = [50, 500]\<rparr> \<and>
   \<not> queryMaxRowsNeedsLowMemoryCap (capQueryMaxRowsForLowMemory \<lparr>maxRows = 500, maxRowsCustomPresets = [50, 500]\<rparr>)"
proof -
  have "max_rows_ok \<lparr>maxRows = 500, maxRowsCustomPresets = [50, 500]\<rparr>" by code_simp
  with capQueryMaxRowsForLowMemory_correct show ?thesis by blast
qed

text \<open>Migration can lose the chosen value: with five smaller presets stored, the chosen limit is not
  among the migrated presets. The list is cut to five before the code checks whether it is
  too long, so the branch that keeps the chosen value never runs.\<close>

theorem migrate_drops_chosen:
  "migrateQueryMaxRows \<lparr>raw_maxRows = Some (Finite 900),
     raw_presets = map Finite [10, 20, 30, 40, 50]\<rparr> =
   \<lparr>maxRows = 900, maxRowsCustomPresets = [10, 20, 30, 40, 50]\<rparr>"
  by code_simp

lemma limit_presets_dead: "limit_presets rows (sanitizeMaxRowsCustomPresets vs) = sanitizeMaxRowsCustomPresets vs"
  by (rule limit_presets_id) (rule sanitize_presets_ok)

end
