(* ===== verification/TabStore.thy ===== *)
theory TabStore
  imports QueryMaxRows "HOL-Library.Sublist" "HOL-Library.Multiset"
begin

text \<open>
  The workbench tabs of \<open>frontend/src/store.ts\<close>: the operations on \<open>tabs\<close>, \<open>activeTabId\<close> and
  \<open>activeContext\<close> (lines 1694 to 1827 and 2844 to 3252). A handler is a function on the part
  of the state it reads and writes; \<open>undefined\<close> fields are \<open>None\<close>. A field of a tab that no
  handler inspects lives in \<open>other_fields\<close>, a map from field names to opaque values, so
  that an object spread \<open>{...a, ...b}\<close> is map addition there. A key whose value is explicitly
  \<open>undefined\<close> is not distinguished from a missing key.
\<close>

section \<open>Tabs\<close>

datatype tab_type =
    Query | Table | Design | SqlAnalysis | RedisKeys | RedisCommand | RedisMonitor | Trigger | ViewDef
  | EventDef | RoutineDef | SequenceDef | PackageDef | TableOverview | TableExport | JvmOverview
  | JvmResource | JvmAudit | JvmDiagnostic | JvmMonitoring

record restore_snapshot =
  snap_query :: jsstr
  snap_createdAt :: int

record tab_data =
  tab_id :: jsstr
  tab_title :: jsstr
  tab_kind :: tab_type
  tab_connectionId :: jsstr
  tab_dbName :: "jsstr option"
  tab_tableName :: "jsstr option"
  tab_query :: "jsstr option"
  tab_filePath :: "jsstr option"
  tab_savedQueryId :: "jsstr option"
  resultPanelVisible :: "bool option"
  formatRestoreSnapshot :: "restore_snapshot option"
  resultsCleared :: "bool option"
  tab_maxRows :: "js_number option"
  other_fields :: "jsstr \<Rightarrow> jsstr option"

record active_context =
  ctx_connectionId :: jsstr
  ctx_dbName :: jsstr
  ctx_tableName :: "jsstr option"

record tab_store =
  tabs :: "tab_data list"
  activeTabId :: "jsstr option"
  activeContext :: "active_context option"
  queryOptions_maxRows :: int
  showQueryResultsPanel :: bool

abbreviation tab_ids :: "tab_data list \<Rightarrow> jsstr list" where
  "tab_ids \<equiv> map tab_id"

text \<open>\<open>{...existing, ...incoming}\<close>.\<close>

definition or_else :: "'a option \<Rightarrow> 'a option \<Rightarrow> 'a option" where
  "or_else new old = (case new of None \<Rightarrow> old | Some _ \<Rightarrow> new)"

definition merge_tab :: "tab_data \<Rightarrow> tab_data \<Rightarrow> tab_data" where
  "merge_tab existing incoming =
     \<lparr>tab_id = tab_id incoming, tab_title = tab_title incoming, tab_kind = tab_kind incoming,
      tab_connectionId = tab_connectionId incoming,
      tab_dbName = or_else (tab_dbName incoming) (tab_dbName existing),
      tab_tableName = or_else (tab_tableName incoming) (tab_tableName existing),
      tab_query = or_else (tab_query incoming) (tab_query existing),
      tab_filePath = or_else (tab_filePath incoming) (tab_filePath existing),
      tab_savedQueryId = or_else (tab_savedQueryId incoming) (tab_savedQueryId existing),
      resultPanelVisible = or_else (resultPanelVisible incoming) (resultPanelVisible existing),
      formatRestoreSnapshot = or_else (formatRestoreSnapshot incoming) (formatRestoreSnapshot existing),
      resultsCleared = or_else (resultsCleared incoming) (resultsCleared existing),
      tab_maxRows = or_else (tab_maxRows incoming) (tab_maxRows existing),
      other_fields = other_fields existing ++ other_fields incoming\<rparr>"

text \<open>\<open>toTrimmedString(value)\<close> of a string or \<open>undefined\<close>.\<close>

definition trimmed :: "jsstr option \<Rightarrow> jsstr" where
  "trimmed v = (case v of None \<Rightarrow> [] | Some s \<Rightarrow> trim s)"

section \<open>The active context\<close>

definition resolveActiveContextFromTab :: "tab_data option \<Rightarrow> active_context option" where
  "resolveActiveContextFromTab tab =
     (case tab of
        None \<Rightarrow> None
      | Some t \<Rightarrow>
          (let connectionId = trim (tab_connectionId t); name = trimmed (tab_tableName t) in
           if connectionId = [] then None
           else Some \<lparr>ctx_connectionId = connectionId, ctx_dbName = trimmed (tab_dbName t),
                      ctx_tableName = (if name = [] then None else Some name)\<rparr>))"

definition keeps_table :: "tab_data \<Rightarrow> active_context \<Rightarrow> active_context option \<Rightarrow> bool" where
  "keeps_table t ctx fallback \<longleftrightarrow>
     tab_kind t = Query \<and> \<not> truthy (ctx_tableName ctx) \<and>
     (case fallback of
        None \<Rightarrow> False
      | Some f \<Rightarrow> truthy (ctx_tableName f) \<and> ctx_connectionId f = ctx_connectionId ctx \<and>
                  ctx_dbName f = ctx_dbName ctx)"

definition resolveActiveContextForTabId ::
  "tab_data list \<Rightarrow> jsstr option \<Rightarrow> active_context option \<Rightarrow> active_context option" where
  "resolveActiveContextForTabId ts activeId fallback =
     (let normalized = trimmed activeId;
          activeTab = (if normalized = [] then None else find (\<lambda>t. tab_id t = normalized) ts)
      in case activeTab of
           None \<Rightarrow> fallback
         | Some t \<Rightarrow>
             (case resolveActiveContextFromTab (Some t) of
                None \<Rightarrow> fallback
              | Some ctx \<Rightarrow>
                  if keeps_table t ctx fallback
                  then Some (ctx\<lparr>ctx_tableName := ctx_tableName (the fallback)\<rparr>) else Some ctx))"

section \<open>Opening\<close>

definition incoming_tab :: "tab_store \<Rightarrow> tab_data \<Rightarrow> tab_data" where
  "incoming_tab s tab =
     (if tab_kind tab = Query then
        tab\<lparr>tab_maxRows := or_else (tab_maxRows tab)
              (Some (Finite (resolveEffectiveTabMaxRows None (queryOptions_maxRows s)))),
            resultPanelVisible := or_else (resultPanelVisible tab) (Some (showQueryResultsPanel s))\<rparr>
      else tab)"

text \<open>Show a new list of tabs with one of them active.\<close>

definition show_tabs :: "tab_store \<Rightarrow> tab_data list \<Rightarrow> jsstr option \<Rightarrow> tab_store" where
  "show_tabs s ts i =
     s\<lparr>tabs := ts, activeTabId := i, activeContext := resolveActiveContextForTabId ts i (activeContext s)\<rparr>"

definition semantic_match :: "tab_data \<Rightarrow> tab_data \<Rightarrow> bool" where
  "semantic_match incoming t \<longleftrightarrow>
     tab_kind t = tab_kind incoming \<and> tab_connectionId t = tab_connectionId incoming \<and>
     tab_dbName t = tab_dbName incoming \<and> tab_tableName t = tab_tableName incoming"

definition semantic_index :: "tab_data list \<Rightarrow> tab_data \<Rightarrow> nat option" where
  "semantic_index ts incoming =
     (if tab_kind incoming \<in> {Table, Design, TableExport} \<and> truthy (tab_tableName incoming) \<and>
         tab_connectionId incoming \<noteq> [] \<and> truthy (tab_dbName incoming)
      then find_index (semantic_match incoming) ts else None)"

definition saved_query_index :: "tab_data list \<Rightarrow> tab_data \<Rightarrow> nat option" where
  "saved_query_index ts incoming =
     (if tab_kind incoming = Query \<and> truthy (tab_savedQueryId incoming)
      then find_index (\<lambda>t. tab_kind t = Query \<and>
             (tab_savedQueryId t = tab_savedQueryId incoming \<or>
              Some (tab_id t) = tab_savedQueryId incoming)) ts
      else None)"

text \<open>An existing tab takes the new data but keeps its id.\<close>

definition reuse_tab :: "tab_store \<Rightarrow> nat \<Rightarrow> tab_data \<Rightarrow> tab_store" where
  "reuse_tab s i incoming =
     (let existing = tabs s ! i in
      show_tabs s ((tabs s)[i := (merge_tab existing incoming)\<lparr>tab_id := tab_id existing\<rparr>])
        (Some (tab_id existing)))"

definition addTab :: "tab_data \<Rightarrow> tab_store \<Rightarrow> tab_store" where
  "addTab tab s =
     (let incoming = incoming_tab s tab in
      case find_index (\<lambda>t. tab_id t = tab_id incoming) (tabs s) of
        Some i \<Rightarrow> show_tabs s ((tabs s)[i := merge_tab (tabs s ! i) incoming]) (Some (tab_id incoming))
      | None \<Rightarrow>
          (case semantic_index (tabs s) incoming of
             Some i \<Rightarrow> reuse_tab s i incoming
           | None \<Rightarrow>
               (case saved_query_index (tabs s) incoming of
                  Some i \<Rightarrow> reuse_tab s i incoming
                | None \<Rightarrow> show_tabs s (tabs s @ [incoming]) (Some (tab_id incoming)))))"

section \<open>Editing\<close>

definition MAX_PERSISTED_QUERY_LENGTH :: nat where
  "MAX_PERSISTED_QUERY_LENGTH = 1048576"

text \<open>The draft: \<open>None\<close> is a missing field; a snapshot may be present and \<open>null\<close>.\<close>

record query_draft =
  draft_query :: "jsstr option"
  draft_connectionId :: "jsstr option"
  draft_dbName :: "jsstr option"
  draft_title :: "jsstr option"
  draft_visible :: "bool option"
  draft_snapshot :: "(jsstr \<times> js_number) option option"
  draft_maxRows :: "js_number option"

definition persisted_query :: "jsstr \<Rightarrow> jsstr" where
  "persisted_query q = slice q 0 MAX_PERSISTED_QUERY_LENGTH"

definition finite_or :: "int \<Rightarrow> js_number \<Rightarrow> int" where
  "finite_or d n = (case n of Finite x \<Rightarrow> x | NonFinite \<Rightarrow> d)"

definition positive_max_rows :: "js_number \<Rightarrow> js_number option" where
  "positive_max_rows n =
     (case n of
        Finite x \<Rightarrow> if 0 < x then Some (Finite (min MAX_MAX_ROWS (max 1 x))) else None
      | NonFinite \<Rightarrow> None)"

definition apply_snapshot ::
  "int \<Rightarrow> (jsstr \<times> js_number) option \<Rightarrow> tab_data \<Rightarrow> tab_data" where
  "apply_snapshot now raw tab =
     (let next_snap = map_option (\<lambda>(q, created).
            \<lparr>snap_query = persisted_query q, snap_createdAt = finite_or now created\<rparr>) raw;
          current = formatRestoreSnapshot tab
      in if map_option snap_query current \<noteq> map_option snap_query next_snap \<or>
            map_option snap_createdAt current \<noteq> map_option snap_createdAt next_snap
         then (if truthy (map_option snap_query next_snap)
               then tab\<lparr>formatRestoreSnapshot := next_snap\<rparr> else tab\<lparr>formatRestoreSnapshot := None\<rparr>)
         else tab)"

definition apply_draft :: "int \<Rightarrow> query_draft \<Rightarrow> tab_data \<Rightarrow> tab_data" where
  "apply_draft now d tab =
     (let t1 = (case draft_query d of None \<Rightarrow> tab | Some q \<Rightarrow> tab\<lparr>tab_query := Some (persisted_query q)\<rparr>);
          t2 = (case draft_connectionId d of None \<Rightarrow> t1 | Some c \<Rightarrow> t1\<lparr>tab_connectionId := trim c\<rparr>);
          t3 = (case draft_dbName d of
                  None \<Rightarrow> t2
                | Some b \<Rightarrow> if case_option [] id (tab_dbName t2) \<noteq> trim b
                            then t2\<lparr>tab_dbName := Some (trim b)\<rparr> else t2);
          t4 = (case draft_title d of
                  None \<Rightarrow> t3
                | Some t \<Rightarrow> if trim t = [] then t3 else t3\<lparr>tab_title := trim t\<rparr>);
          t5 = (case draft_visible d of None \<Rightarrow> t4 | Some v \<Rightarrow> t4\<lparr>resultPanelVisible := Some v\<rparr>);
          t6 = (case draft_snapshot d of None \<Rightarrow> t5 | Some raw \<Rightarrow> apply_snapshot now raw t5)
      in case draft_maxRows d of None \<Rightarrow> t6 | Some n \<Rightarrow> t6\<lparr>tab_maxRows := positive_max_rows n\<rparr>)"

definition updateQueryTabDraft :: "int \<Rightarrow> jsstr \<Rightarrow> query_draft \<Rightarrow> tab_store \<Rightarrow> tab_store" where
  "updateQueryTabDraft now i d s =
     (if trim i = [] then s
      else s\<lparr>tabs := map (\<lambda>t. if tab_id t \<noteq> trim i \<or> tab_kind t \<noteq> Query then t else apply_draft now d t)
                (tabs s)\<rparr>)"

section \<open>Closing and moving\<close>

definition last_tab_id :: "tab_data list \<Rightarrow> jsstr option" where
  "last_tab_id ts = (if ts = [] then None else Some (tab_id (last ts)))"

definition active_exists :: "tab_data list \<Rightarrow> jsstr option \<Rightarrow> bool" where
  "active_exists ts i \<longleftrightarrow> truthy i \<and> (\<exists>t \<in> set ts. Some (tab_id t) = i)"

definition closeTab :: "jsstr \<Rightarrow> tab_store \<Rightarrow> tab_store" where
  "closeTab i s =
     (let newTabs = filter (\<lambda>t. tab_id t \<noteq> i) (tabs s)
      in show_tabs s newTabs (if activeTabId s = Some i then last_tab_id newTabs else activeTabId s))"

definition closeOtherTabs :: "jsstr \<Rightarrow> tab_store \<Rightarrow> tab_store" where
  "closeOtherTabs i s =
     (case find (\<lambda>t. tab_id t = i) (tabs s) of
        None \<Rightarrow> s
      | Some keep \<Rightarrow> s\<lparr>tabs := [keep], activeTabId := Some i,
                       activeContext := resolveActiveContextFromTab (Some keep)\<rparr>)"

definition closeTabsToLeft :: "jsstr \<Rightarrow> tab_store \<Rightarrow> tab_store" where
  "closeTabsToLeft i s =
     (case find_index (\<lambda>t. tab_id t = i) (tabs s) of
        None \<Rightarrow> s
      | Some index \<Rightarrow>
          (let newTabs = drop index (tabs s)
           in show_tabs s newTabs (if active_exists newTabs (activeTabId s) then activeTabId s else Some i)))"

definition closeTabsToRight :: "jsstr \<Rightarrow> tab_store \<Rightarrow> tab_store" where
  "closeTabsToRight i s =
     (case find_index (\<lambda>t. tab_id t = i) (tabs s) of
        None \<Rightarrow> s
      | Some index \<Rightarrow>
          (let newTabs = take (index + 1) (tabs s)
           in show_tabs s newTabs (if active_exists newTabs (activeTabId s) then activeTabId s else Some i)))"

text \<open>Close every tab of a group: the context is dropped when it belongs to the group.\<close>

definition close_group ::
  "(tab_data \<Rightarrow> bool) \<Rightarrow> (active_context \<Rightarrow> bool) \<Rightarrow> tab_store \<Rightarrow> tab_store" where
  "close_group in_group ctx_in_group s =
     (let newTabs = filter (\<lambda>t. \<not> in_group t) (tabs s);
          nextActive = (if active_exists newTabs (activeTabId s) then activeTabId s else last_tab_id newTabs);
          fallback = (case activeContext s of
                        None \<Rightarrow> None | Some c \<Rightarrow> if ctx_in_group c then None else Some c)
      in s\<lparr>tabs := newTabs, activeTabId := nextActive,
           activeContext := resolveActiveContextForTabId newTabs nextActive fallback\<rparr>)"

definition closeTabsByConnection :: "jsstr \<Rightarrow> tab_store \<Rightarrow> tab_store" where
  "closeTabsByConnection connectionId s =
     (let target = trim connectionId in
      if target = [] then s
      else close_group (\<lambda>t. trim (tab_connectionId t) = target) (\<lambda>c. ctx_connectionId c = target) s)"

definition closeTabsByDatabase :: "jsstr \<Rightarrow> jsstr \<Rightarrow> tab_store \<Rightarrow> tab_store" where
  "closeTabsByDatabase connectionId dbName s =
     (let target = trim connectionId; db = trim dbName in
      if target = [] \<or> db = [] then s
      else close_group (\<lambda>t. trim (tab_connectionId t) = target \<and> trimmed (tab_dbName t) = db)
             (\<lambda>c. ctx_connectionId c = target \<and> ctx_dbName c = db) s)"

definition moveTab :: "jsstr \<Rightarrow> jsstr \<Rightarrow> tab_store \<Rightarrow> tab_store" where
  "moveTab sourceId targetId s =
     (let fromId = trim sourceId; toId = trim targetId in
      if fromId = [] \<or> toId = [] \<or> fromId = toId then s
      else
        (case (find_index (\<lambda>t. tab_id t = fromId) (tabs s), find_index (\<lambda>t. tab_id t = toId) (tabs s)) of
           (Some fromIndex, Some toIndex) \<Rightarrow>
             if fromIndex = toIndex then s
             else s\<lparr>tabs := insert_at toIndex (tabs s ! fromIndex) (remove_at fromIndex (tabs s))\<rparr>
         | _ \<Rightarrow> s))"

definition closeAllTabs :: "tab_store \<Rightarrow> tab_store" where
  "closeAllTabs s = s\<lparr>tabs := [], activeTabId := None, activeContext := None\<rparr>"

section \<open>Flags and activation\<close>

definition set_cleared :: "jsstr \<Rightarrow> bool \<Rightarrow> tab_store \<Rightarrow> tab_store" where
  "set_cleared i b s =
     s\<lparr>tabs := map (\<lambda>t. if tab_id t = i then t\<lparr>resultsCleared := Some b\<rparr> else t) (tabs s)\<rparr>"

text \<open>The second component tells whether the release event is dispatched.\<close>

definition releaseTabQueryResults :: "jsstr \<Rightarrow> tab_store \<Rightarrow> tab_store \<times> bool" where
  "releaseTabQueryResults i s =
     (let safe = trim i in
      if safe = [] then (s, False)
      else
        (case find (\<lambda>t. tab_id t = safe) (tabs s) of
           None \<Rightarrow> (s, False)
         | Some target \<Rightarrow>
             if (tab_kind target \<noteq> Query \<and> tab_kind target \<noteq> Table) \<or> resultsCleared target = Some True
             then (s, False) else (set_cleared safe True s, True)))"

definition clearTabResultsClearedFlag :: "jsstr \<Rightarrow> tab_store \<Rightarrow> tab_store" where
  "clearTabResultsClearedFlag i s =
     (let safe = trim i in
      if safe = [] then s
      else
        (case find (\<lambda>t. tab_id t = safe) (tabs s) of
           None \<Rightarrow> s
         | Some target \<Rightarrow> if resultsCleared target \<noteq> Some True then s else set_cleared safe False s))"

definition setActiveTab :: "jsstr option \<Rightarrow> tab_store \<Rightarrow> tab_store" where
  "setActiveTab i s = show_tabs s (tabs s) i"

definition setActiveContext :: "active_context option \<Rightarrow> tab_store \<Rightarrow> tab_store" where
  "setActiveContext c s = s\<lparr>activeContext := c\<rparr>"

section \<open>Restoring persisted tabs\<close>

record raw_tab =
  raw_type :: jsstr
  raw_id :: "jsstr option"
  raw_title :: "jsstr option"
  raw_connectionId :: "jsstr option"
  raw_dbName :: "jsstr option"
  raw_query :: jsstr
  raw_filePath :: "jsstr option"
  raw_savedQueryId :: "jsstr option"
  raw_visible :: "bool option"
  raw_readOnly :: bool
  raw_snapshot :: "(jsstr \<times> js_number) option"
  raw_tab_maxRows :: js_number

definition MAX_PERSISTED_QUERY_TABS :: nat where
  "MAX_PERSISTED_QUERY_TABS = 20"

definition none_if_empty :: "jsstr \<Rightarrow> jsstr option" where
  "none_if_empty s = (if s = [] then None else Some s)"

definition fallback_string :: "jsstr option \<Rightarrow> jsstr \<Rightarrow> jsstr" where
  "fallback_string v d = (let s = (case v of None \<Rightarrow> d | Some x \<Rightarrow> trim x) in if s = [] then d else s)"

definition restored_tab :: "jsstr \<Rightarrow> int \<Rightarrow> jsstr \<Rightarrow> raw_tab \<Rightarrow> tab_data" where
  "restored_tab new_title now i raw =
     \<lparr>tab_id = i, tab_title = fallback_string (raw_title raw) new_title, tab_kind = Query,
      tab_connectionId = trimmed (raw_connectionId raw), tab_dbName = Some (trimmed (raw_dbName raw)),
      tab_tableName = None, tab_query = Some (persisted_query (raw_query raw)),
      tab_filePath = none_if_empty (trimmed (raw_filePath raw)),
      tab_savedQueryId = none_if_empty (trimmed (raw_savedQueryId raw)),
      resultPanelVisible = raw_visible raw,
      formatRestoreSnapshot =
        (case raw_snapshot raw of
           None \<Rightarrow> None
         | Some (q, created) \<Rightarrow> if persisted_query q = [] then None
             else Some \<lparr>snap_query = persisted_query q, snap_createdAt = finite_or now created\<rparr>),
      resultsCleared = None, tab_maxRows = positive_max_rows (raw_tab_maxRows raw),
      other_fields = [js ''readOnly'' \<mapsto> js (if raw_readOnly raw then ''true'' else ''false'')]\<rparr>"

definition restore_step ::
  "jsstr \<Rightarrow> int \<Rightarrow> tab_data list \<times> jsstr set \<Rightarrow> nat \<times> raw_tab \<Rightarrow> tab_data list \<times> jsstr set" where
  "restore_step new_title now acc entry =
     (let index = fst entry; raw = snd entry; (result, seenIds) = acc;
          fallback = js ''query-'' @ nat_str (index + 1);
          i0 = fallback_string (raw_id raw) fallback;
          i = (if i0 \<in> seenIds then i0 @ js ''-'' @ nat_str (index + 1) else i0)
      in if raw_type raw \<noteq> js ''query'' then acc
         else if trim (persisted_query (raw_query raw)) = [] \<and> trimmed (raw_filePath raw) = [] \<and>
                 trimmed (raw_savedQueryId raw) = [] then acc
         else (result @ [restored_tab new_title now i raw], insert i seenIds))"

definition sanitizeQueryTabs :: "jsstr \<Rightarrow> int \<Rightarrow> raw_tab list \<Rightarrow> tab_data list" where
  "sanitizeQueryTabs new_title now entries =
     take MAX_PERSISTED_QUERY_TABS
       (fst (foldl (restore_step new_title now) ([], {}) (enumerate 0 entries)))"

definition snapshotUnsetQueryTabMaxRows :: "tab_data list \<Rightarrow> int \<Rightarrow> tab_data list" where
  "snapshotUnsetQueryTabMaxRows ts globalMaxRows =
     map (\<lambda>t. if tab_kind t \<noteq> Query \<or> tab_maxRows t \<noteq> None then t
              else t\<lparr>tab_maxRows := Some (Finite (resolveEffectiveTabMaxRows None globalMaxRows))\<rparr>) ts"

definition sanitizeActiveTabId :: "jsstr option \<Rightarrow> tab_data list \<Rightarrow> jsstr option" where
  "sanitizeActiveTabId active ts =
     (let i = trimmed active in
      if i \<noteq> [] \<and> (\<exists>t \<in> set ts. tab_id t = i) then Some i
      else (case ts of [] \<Rightarrow> None | t # _ \<Rightarrow> none_if_empty (tab_id t)))"

section \<open>The state machine\<close>

datatype tab_op =
    AddTab tab_data
  | UpdateDraft int jsstr query_draft
  | CloseTab jsstr
  | CloseOthers jsstr
  | CloseToLeft jsstr
  | CloseToRight jsstr
  | CloseConnection jsstr
  | CloseDatabase jsstr jsstr
  | MoveTab jsstr jsstr
  | CloseAll
  | ReleaseResults jsstr
  | ClearFlag jsstr
  | SetActive "jsstr option"
  | SetContext "active_context option"

fun run_tab_op :: "tab_op \<Rightarrow> tab_store \<Rightarrow> tab_store" where
  "run_tab_op (AddTab t) s = addTab t s"
| "run_tab_op (UpdateDraft now i d) s = updateQueryTabDraft now i d s"
| "run_tab_op (CloseTab i) s = closeTab i s"
| "run_tab_op (CloseOthers i) s = closeOtherTabs i s"
| "run_tab_op (CloseToLeft i) s = closeTabsToLeft i s"
| "run_tab_op (CloseToRight i) s = closeTabsToRight i s"
| "run_tab_op (CloseConnection c) s = closeTabsByConnection c s"
| "run_tab_op (CloseDatabase c d) s = closeTabsByDatabase c d s"
| "run_tab_op (MoveTab a b) s = moveTab a b s"
| "run_tab_op CloseAll s = closeAllTabs s"
| "run_tab_op (ReleaseResults i) s = fst (releaseTabQueryResults i s)"
| "run_tab_op (ClearFlag i) s = clearTabResultsClearedFlag i s"
| "run_tab_op (SetActive i) s = setActiveTab i s"
| "run_tab_op (SetContext c) s = setActiveContext c s"

text \<open>What callers of \<open>setActiveTab\<close> must respect: they activate an open tab or none.\<close>

fun activates_open :: "tab_op \<Rightarrow> tab_store \<Rightarrow> bool" where
  "activates_open (SetActive i) s \<longleftrightarrow> (case i of None \<Rightarrow> True | Some t \<Rightarrow> t \<in> set (tab_ids (tabs s)))"
| "activates_open op s \<longleftrightarrow> True"

definition tab_ids_distinct :: "tab_store \<Rightarrow> bool" where
  "tab_ids_distinct s \<longleftrightarrow> distinct (tab_ids (tabs s))"

definition active_open :: "tab_store \<Rightarrow> bool" where
  "active_open s \<longleftrightarrow> (case activeTabId s of None \<Rightarrow> True | Some i \<Rightarrow> i \<in> set (tab_ids (tabs s)))"

lemma show_tabs_simps [simp]:
  "tabs (show_tabs s ts i) = ts" "activeTabId (show_tabs s ts i) = i"
  by (simp_all add: show_tabs_def)

lemma tab_ids_update:
  "i < length ts \<Longrightarrow> tab_id t = tab_id (ts ! i) \<Longrightarrow> tab_ids (ts[i := t]) = tab_ids ts"
  by (simp add: map_update) (metis list_update_id nth_map length_map)

lemma tab_ids_map: "(\<And>t. tab_id (f t) = tab_id t) \<Longrightarrow> tab_ids (map f ts) = tab_ids ts"
  by simp

lemma apply_draft_keeps [simp]:
  "tab_id (apply_draft now d t) = tab_id t" "tab_kind (apply_draft now d t) = tab_kind t"
  by (simp_all add: apply_draft_def Let_def apply_snapshot_def split: option.split)

lemma merge_tab_id [simp]: "tab_id (merge_tab a b) = tab_id b"
  by (simp add: merge_tab_def)

text \<open>The tabs that \<open>addTab\<close> leaves: the old ones, one of them replaced or one appended.\<close>

lemma addTab_cases:
  obtains (replaced) i t where "i < length (tabs s)" "tab_id t = tab_id (tabs s ! i)"
      "tabs (addTab tab s) = (tabs s)[i := t]" "activeTabId (addTab tab s) = Some (tab_id t)"
      "tab_title t = tab_title tab" "tab_kind t = tab_kind tab" "tab_connectionId t = tab_connectionId tab"
  | (appended) t where "tab_id t = tab_id tab" "tab_id tab \<notin> set (tab_ids (tabs s))"
      "tabs (addTab tab s) = tabs s @ [t]" "activeTabId (addTab tab s) = Some (tab_id t)"
      "tab_title t = tab_title tab" "tab_kind t = tab_kind tab" "tab_connectionId t = tab_connectionId tab"
proof -
  let ?t = "incoming_tab s tab"
  have t: "tab_id ?t = tab_id tab" "tab_title ?t = tab_title tab" "tab_kind ?t = tab_kind tab"
    "tab_connectionId ?t = tab_connectionId tab" by (simp_all add: incoming_tab_def)
  have reuse: thesis if "addTab tab s = reuse_tab s i ?t" "i < length (tabs s)" for i
    using that t replaced [of i "(merge_tab (tabs s ! i) ?t)\<lparr>tab_id := tab_id (tabs s ! i)\<rparr>"]
    by (simp add: reuse_tab_def Let_def merge_tab_def)
  show thesis
  proof (cases "find_index (\<lambda>x. tab_id x = tab_id ?t) (tabs s)")
    case (Some i)
    from find_index_Some [OF this] Some t show thesis
      by (intro replaced [of i "merge_tab (tabs s ! i) ?t"]) (simp_all add: addTab_def Let_def merge_tab_def)
  next
    case None
    show thesis
    proof (cases "semantic_index (tabs s) ?t")
      case (Some i)
      then have "i < length (tabs s)" by (auto simp: semantic_index_def dest: find_index_Some split: if_splits)
      with None Some show thesis by (intro reuse) (simp_all add: addTab_def Let_def del: find_index_None)
    next
      case sem: None
      show thesis
      proof (cases "saved_query_index (tabs s) ?t")
        case (Some i)
        then have "i < length (tabs s)" by (auto simp: saved_query_index_def dest: find_index_Some split: if_splits)
        with None sem Some show thesis by (intro reuse) (simp_all add: addTab_def Let_def del: find_index_None)
      next
        case sq: None
        have "addTab tab s = show_tabs s (tabs s @ [?t]) (Some (tab_id ?t))"
          using None sem sq by (simp add: addTab_def Let_def del: find_index_None)
        with None t show thesis by (intro appended [of ?t]) auto
      qed
    qed
  qed
qed

lemma moveTab_ids:
  assumes "i < length ts"
  shows "tab_ids (insert_at j (ts ! i) (remove_at i ts)) = insert_at j (tab_ids ts ! i) (remove_at i (tab_ids ts))"
  using assms by (simp add: map_insert_at map_remove_at)

lemma find_index_less: "find_index P xs = Some i \<Longrightarrow> i < length xs"
  by (drule find_index_Some) simp

lemma set_cleared_ids [simp]: "tab_ids (tabs (set_cleared i b s)) = tab_ids (tabs s)"
  "activeTabId (set_cleared i b s) = activeTabId s"
  by (simp_all add: set_cleared_def)

lemma updateDraft_ids [simp]:
  "tab_ids (tabs (updateQueryTabDraft now i d s)) = tab_ids (tabs s)"
  "activeTabId (updateQueryTabDraft now i d s) = activeTabId s"
  by (simp_all add: updateQueryTabDraft_def comp_def cong: map_cong)

lemma flags_ids [simp]:
  "tab_ids (tabs (fst (releaseTabQueryResults i s))) = tab_ids (tabs s)"
  "activeTabId (fst (releaseTabQueryResults i s)) = activeTabId s"
  "tab_ids (tabs (clearTabResultsClearedFlag i s)) = tab_ids (tabs s)"
  "activeTabId (clearTabResultsClearedFlag i s) = activeTabId s"
  by (auto simp: releaseTabQueryResults_def clearTabResultsClearedFlag_def Let_def split: option.split)

lemma close_group_tabs:
  "tabs (close_group P Q s) = filter (\<lambda>t. \<not> P t) (tabs s)"
  "activeTabId (close_group P Q s) =
    (if active_exists (filter (\<lambda>t. \<not> P t) (tabs s)) (activeTabId s) then activeTabId s
     else last_tab_id (filter (\<lambda>t. \<not> P t) (tabs s)))"
  by (simp_all add: close_group_def Let_def)

text \<open>What the closing operations do to the list: they only drop tabs.\<close>

definition closing :: "tab_op \<Rightarrow> bool" where
  "closing op \<longleftrightarrow> (case op of CloseTab _ \<Rightarrow> True | CloseOthers _ \<Rightarrow> True | CloseToLeft _ \<Rightarrow> True
     | CloseToRight _ \<Rightarrow> True | CloseConnection _ \<Rightarrow> True | CloseDatabase _ _ \<Rightarrow> True
     | CloseAll \<Rightarrow> True | _ \<Rightarrow> False)"

lemma subseq_single: "find P xs = Some x \<Longrightarrow> subseq [x] xs"
  by (auto simp: find_Some_iff subseq_singleton_left)

lemma closing_subseq: "closing op \<Longrightarrow> subseq (tabs (run_tab_op op s)) (tabs s)"
  by (cases op)
    (auto simp: closing_def closeTab_def closeOtherTabs_def closeTabsToLeft_def closeTabsToRight_def
      closeTabsByConnection_def closeTabsByDatabase_def closeAllTabs_def close_group_tabs Let_def
      subseq_single split: option.split intro: suffix_imp_subseq prefix_imp_subseq suffix_drop take_is_prefix)

lemma distinct_subseq: "distinct ys \<Longrightarrow> subseq xs ys \<Longrightarrow> distinct xs"
  by (auto simp: subseq_conv_nths)

lemma run_tab_op_distinct:
  assumes "tab_ids_distinct s"
  shows "tab_ids_distinct (run_tab_op op s)"
proof (cases "closing op")
  case True
  then have "subseq (tab_ids (tabs (run_tab_op op s))) (tab_ids (tabs s))"
    by (intro subseq_map closing_subseq)
  with assms show ?thesis unfolding tab_ids_distinct_def by (rule distinct_subseq)
next
  case False
  have d: "distinct (tab_ids (tabs s))" using assms by (simp add: tab_ids_distinct_def)
  show ?thesis
  proof (cases op)
    case (AddTab tab)
    show ?thesis
    proof (cases rule: addTab_cases [of s tab])
      case (replaced i t)
      with d AddTab show ?thesis by (simp add: tab_ids_distinct_def tab_ids_update)
    next
      case (appended t)
      with d AddTab show ?thesis by (simp add: tab_ids_distinct_def)
    qed
  next
    case (MoveTab a b)
    show ?thesis
    proof (cases "tabs (moveTab a b s) = tabs s")
      case True
      with d MoveTab show ?thesis by (simp add: tab_ids_distinct_def)
    next
      case False
      then obtain i j where "i < length (tabs s)"
        "tabs (moveTab a b s) = insert_at j (tabs s ! i) (remove_at i (tabs s))"
        by (auto simp: moveTab_def Let_def dest: find_index_less split: if_splits option.splits)
      with d MoveTab distinct_remove_at [of "tab_ids (tabs s)" i] show ?thesis
        by (simp add: tab_ids_distinct_def moveTab_ids)
    qed
  qed (use d False in \<open>simp_all add: tab_ids_distinct_def closing_def setActiveTab_def setActiveContext_def\<close>)
qed

interpretation tab_ids: op_invariant run_tab_op "\<lambda>_ _. True" tab_ids_distinct
  by unfold_locales (rule run_tab_op_distinct)

section \<open>The active tab\<close>

lemma last_tab_open: "last_tab_id ts = Some i \<Longrightarrow> i \<in> set (tab_ids ts)"
  by (auto simp: last_tab_id_def split: if_splits)

lemma active_exists_open: "active_exists ts (Some i) \<Longrightarrow> i \<in> tab_id ` set ts"
  by (auto simp: active_exists_def)

lemma find_member': "find P xs = Some x \<Longrightarrow> P x \<and> x \<in> set xs"
  by (auto simp: find_Some_iff)

lemma active_open_iff:
  "active_open s \<longleftrightarrow> (\<forall>i. activeTabId s = Some i \<longrightarrow> i \<in> set (tab_ids (tabs s)))"
  by (simp add: active_open_def split: option.split)

lemma active_openI: "(\<And>i. activeTabId s = Some i \<Longrightarrow> i \<in> set (tab_ids (tabs s))) \<Longrightarrow> active_open s"
  by (auto simp: active_open_def split: option.split)

lemma close_group_open: "active_open (close_group P Q s)"
  by (rule active_openI)
    (auto simp: close_group_tabs dest: last_tab_open active_exists_open split: if_splits)

lemma find_index_in_drop: "find_index P xs = Some i \<Longrightarrow> \<exists>x \<in> set (drop i xs). P x"
  using find_index_Some [of P xs i] by (metis Cons_nth_drop_Suc list.set_intros(1))

lemma find_index_in_take: "find_index P xs = Some i \<Longrightarrow> \<exists>x \<in> set (take (Suc i) xs). P x"
  using find_index_Some [of P xs i] by (auto simp: take_Suc_conv_app_nth)

lemma show_tabs_open:
  "(\<And>i. a = Some i \<Longrightarrow> i \<in> set (tab_ids ts)) \<Longrightarrow> active_open (show_tabs s ts a)"
  by (rule active_openI) simp

lemma closing_open:
  assumes "active_open s" and "closing op"
  shows "active_open (run_tab_op op s)"
proof (cases op)
  case (CloseTab i)
  have "active_open (closeTab i s)"
    unfolding closeTab_def Let_def
    using assms(1) by (intro show_tabs_open) (auto simp: active_open_def dest: last_tab_open split: if_splits option.splits)
  with CloseTab show ?thesis by simp
next
  case (CloseOthers i)
  with assms(1) show ?thesis
    by (auto simp: closeOtherTabs_def active_open_def dest: find_member' split: option.splits)
next
  case (CloseToLeft i)
  have "active_open (closeTabsToLeft i s)"
    using assms(1) find_index_in_drop [of "\<lambda>t. tab_id t = i" "tabs s"]
    by (auto simp: closeTabsToLeft_def Let_def intro!: show_tabs_open dest: active_exists_open
        split: option.split if_splits)
  with CloseToLeft show ?thesis by simp
next
  case (CloseToRight i)
  have "active_open (closeTabsToRight i s)"
    using assms(1) find_index_in_take [of "\<lambda>t. tab_id t = i" "tabs s"]
    by (auto simp: closeTabsToRight_def Let_def intro!: show_tabs_open dest: active_exists_open
        split: option.split if_splits)
  with CloseToRight show ?thesis by simp
next
  case (CloseConnection c)
  with assms(1) show ?thesis by (simp add: closeTabsByConnection_def Let_def close_group_open)
next
  case (CloseDatabase c d)
  with assms(1) show ?thesis by (simp add: closeTabsByDatabase_def Let_def close_group_open)
next
  case CloseAll
  then show ?thesis by (simp add: closeAllTabs_def active_open_def)
qed (use assms(2) in \<open>simp_all add: closing_def\<close>)

lemma moveTab_set: "set (tab_ids (tabs (moveTab a b s))) = set (tab_ids (tabs s))"
proof (cases "tabs (moveTab a b s) = tabs s")
  case False
  then obtain i j where i: "i < length (tabs s)"
    "tabs (moveTab a b s) = insert_at j (tabs s ! i) (remove_at i (tabs s))"
    by (auto simp: moveTab_def Let_def dest: find_index_less split: if_splits option.splits)
  have "set (tabs s) = insert (tabs s ! i) (set (remove_at i (tabs s)))"
    using remove_at_split [OF i(1)] by (metis (no_types) Un_insert_right append_Cons append_Nil list.set(2) remove_at_def set_append)
  with i(2) show ?thesis by simp
qed simp

lemma run_tab_op_open:
  assumes "active_open s" and "activates_open op s"
  shows "active_open (run_tab_op op s)"
proof (cases "closing op")
  case True
  with assms(1) show ?thesis by (rule closing_open)
next
  case False
  show ?thesis
  proof (cases op)
    case (AddTab tab)
    show ?thesis
    proof (cases rule: addTab_cases [of s tab])
      case (replaced i t)
      then have "t \<in> set (tabs (addTab tab s))" by (simp add: set_update_memI)
      then have "tab_id t \<in> set (tab_ids (tabs (addTab tab s)))" by simp
      with replaced(4) AddTab show ?thesis by (simp add: active_open_def)
    next
      case (appended t)
      with AddTab show ?thesis by (auto intro!: active_openI)
    qed
  next
    case (MoveTab a b)
    have "activeTabId (moveTab a b s) = activeTabId s"
      by (simp add: moveTab_def Let_def split: option.split)
    with MoveTab assms(1) moveTab_set [of a b s] show ?thesis by (simp add: active_open_iff)
  qed (use assms False in \<open>simp_all add: active_open_iff closing_def setActiveTab_def setActiveContext_def split: option.splits\<close>)
qed

interpretation active_tab: op_invariant run_tab_op activates_open active_open
  by unfold_locales (rule run_tab_op_open)

section \<open>Drafts\<close>

lemma apply_snapshot_fields [simp]:
  "tab_query (apply_snapshot now raw t) = tab_query t"
  "tab_connectionId (apply_snapshot now raw t) = tab_connectionId t"
  "tab_dbName (apply_snapshot now raw t) = tab_dbName t"
  "tab_title (apply_snapshot now raw t) = tab_title t"
  "resultPanelVisible (apply_snapshot now raw t) = resultPanelVisible t"
  "tab_maxRows (apply_snapshot now raw t) = tab_maxRows t"
  by (simp_all add: apply_snapshot_def Let_def)

definition new_snapshot ::
  "int \<Rightarrow> (jsstr \<times> js_number) option \<Rightarrow> restore_snapshot option \<Rightarrow> restore_snapshot option" where
  "new_snapshot now raw current =
     formatRestoreSnapshot (apply_snapshot now raw
       (undefined\<lparr>formatRestoreSnapshot := current\<rparr>))"

lemma apply_snapshot_eq: "apply_snapshot now raw t =
    t\<lparr>formatRestoreSnapshot := new_snapshot now raw (formatRestoreSnapshot t)\<rparr>"
  by (simp add: apply_snapshot_def new_snapshot_def Let_def)

lemma new_snapshot_idem: "new_snapshot now raw (new_snapshot now raw c) = new_snapshot now raw c"
  by (auto simp: new_snapshot_def apply_snapshot_def Let_def truthy_def split: option.splits)

text \<open>A draft acts on each field of a tab independently.\<close>

lemma draft_fields:
  "(case x of None \<Rightarrow> t | Some q \<Rightarrow> t\<lparr>tab_query := f q\<rparr>) =
   t\<lparr>tab_query := (case x of None \<Rightarrow> tab_query t | Some q \<Rightarrow> f q)\<rparr>"
  "(case y of None \<Rightarrow> t | Some c \<Rightarrow> t\<lparr>tab_connectionId := g c\<rparr>) =
   t\<lparr>tab_connectionId := (case y of None \<Rightarrow> tab_connectionId t | Some c \<Rightarrow> g c)\<rparr>"
  "(case z of None \<Rightarrow> t | Some b \<Rightarrow> if P b then t\<lparr>tab_dbName := h b\<rparr> else t) =
   t\<lparr>tab_dbName := (case z of None \<Rightarrow> tab_dbName t | Some b \<Rightarrow> if P b then h b else tab_dbName t)\<rparr>"
  "(case w of None \<Rightarrow> t | Some b \<Rightarrow> if Q b then t else t\<lparr>tab_title := k b\<rparr>) =
   t\<lparr>tab_title := (case w of None \<Rightarrow> tab_title t | Some b \<Rightarrow> if Q b then tab_title t else k b)\<rparr>"
  "(case v of None \<Rightarrow> t | Some b \<Rightarrow> t\<lparr>resultPanelVisible := Some b\<rparr>) =
   t\<lparr>resultPanelVisible := (case v of None \<Rightarrow> resultPanelVisible t | Some b \<Rightarrow> Some b)\<rparr>"
  "(case u of None \<Rightarrow> t | Some b \<Rightarrow> t\<lparr>formatRestoreSnapshot := l b\<rparr>) =
   t\<lparr>formatRestoreSnapshot := (case u of None \<Rightarrow> formatRestoreSnapshot t | Some b \<Rightarrow> l b)\<rparr>"
  "(case n of None \<Rightarrow> t | Some b \<Rightarrow> t\<lparr>tab_maxRows := m b\<rparr>) =
   t\<lparr>tab_maxRows := (case n of None \<Rightarrow> tab_maxRows t | Some b \<Rightarrow> m b)\<rparr>"
  by (simp_all split: option.split)

lemma apply_draft_eq: "apply_draft now d t =
    t\<lparr>tab_query := (case draft_query d of None \<Rightarrow> tab_query t | Some q \<Rightarrow> Some (persisted_query q)),
      tab_connectionId := (case draft_connectionId d of None \<Rightarrow> tab_connectionId t | Some c \<Rightarrow> trim c),
      tab_dbName := (case draft_dbName d of None \<Rightarrow> tab_dbName t
        | Some b \<Rightarrow> if case_option [] id (tab_dbName t) \<noteq> trim b then Some (trim b) else tab_dbName t),
      tab_title := (case draft_title d of None \<Rightarrow> tab_title t
        | Some x \<Rightarrow> if trim x = [] then tab_title t else trim x),
      resultPanelVisible := or_else (draft_visible d) (resultPanelVisible t),
      formatRestoreSnapshot := (case draft_snapshot d of None \<Rightarrow> formatRestoreSnapshot t
        | Some raw \<Rightarrow> new_snapshot now raw (formatRestoreSnapshot t)),
      tab_maxRows := (case draft_maxRows d of None \<Rightarrow> tab_maxRows t | Some n \<Rightarrow> positive_max_rows n)\<rparr>"
  unfolding apply_draft_def Let_def apply_snapshot_eq or_else_def draft_fields
  by (simp cong: option.case_cong if_cong)

lemma apply_draft_idem: "apply_draft now d (apply_draft now d t) = apply_draft now d t"
  by (simp add: apply_draft_eq new_snapshot_idem or_else_def split: option.split)

section \<open>Properties\<close>

text \<open>C10: Tab ids stay unique: whatever operations run, in whatever order, from a store whose tabs
  have distinct ids the store always has distinct ids.\<close>

theorem tab_ids_stay_distinct:
  assumes "reach run_tab_op (\<lambda>_ _. True) s0 s" and "distinct (tab_ids (tabs s0))"
  shows "distinct (tab_ids (tabs s))"
  using tab_ids.reach_inv [OF assms(1)] assms(2) by (simp add: tab_ids_distinct_def)

definition sample_tab :: "jsstr \<Rightarrow> tab_data" where
  "sample_tab i = \<lparr>tab_id = i, tab_title = i, tab_kind = Query, tab_connectionId = js ''c'',
     tab_dbName = None, tab_tableName = None, tab_query = None, tab_filePath = None,
     tab_savedQueryId = None, resultPanelVisible = None, formatRestoreSnapshot = None,
     resultsCleared = None, tab_maxRows = None, other_fields = (\<lambda>_. None)\<rparr>"

definition sample_store :: tab_store where
  "sample_store = \<lparr>tabs = map sample_tab [js ''a'', js ''b'', js ''c''], activeTabId = Some (js ''b''),
     activeContext = None, queryOptions_maxRows = 100, showQueryResultsPanel = False\<rparr>"

theorem tab_ids_stay_distinct_witness:
  "distinct (tab_ids (tabs (addTab (sample_tab (js ''b'')) (closeTab (js ''c'') sample_store))))"
proof -
  have "reach run_tab_op (\<lambda>_ _. True) sample_store (run_tab_op (AddTab (sample_tab (js ''b''))) (run_tab_op (CloseTab (js ''c'')) sample_store))"
    by (intro reach.step reach.start) simp_all
  moreover have "distinct (tab_ids (tabs sample_store))"
    by (simp add: sample_store_def sample_tab_def)
  ultimately show ?thesis using tab_ids_stay_distinct by fastforce
qed

text \<open>C11: The active tab is open: as long as callers activate only open tabs, no sequence of
  opening, editing, closing, moving and activating leaves an active id without its tab.\<close>

theorem active_tab_stays_open:
  assumes "reach run_tab_op activates_open s0 s"
    and "\<forall>i. activeTabId s0 = Some i \<longrightarrow> i \<in> set (tab_ids (tabs s0))"
  shows "\<forall>i. activeTabId s = Some i \<longrightarrow> i \<in> set (tab_ids (tabs s))"
proof -
  have "active_open s0" using assms(2) by (auto intro: active_openI)
  with active_tab.reach_inv [OF assms(1)] show ?thesis by (simp add: active_open_def split: option.splits)
qed

theorem active_tab_stays_open_witness:
  "activeTabId (closeTab (js ''b'') sample_store) = Some (js ''c'') \<and>
   js ''c'' \<in> set (tab_ids (tabs (closeTab (js ''b'') sample_store)))"
proof -
  have r: "reach run_tab_op activates_open sample_store (run_tab_op (CloseTab (js ''b'')) sample_store)"
    by (intro reach.step reach.start) simp
  have a: "activeTabId (closeTab (js ''b'') sample_store) = Some (js ''c'')"
    by (simp add: closeTab_def sample_store_def sample_tab_def Let_def last_tab_id_def show_tabs_def)
  have "\<forall>i. activeTabId sample_store = Some i \<longrightarrow> i \<in> set (tab_ids (tabs sample_store))"
    by (simp add: sample_store_def sample_tab_def)
  from active_tab_stays_open [OF r this] a show ?thesis by simp
qed

text \<open>Opening a tab shows it: the active tab is one that carries the title, the type and the
  connection of the request; every other tab is left as it was, in its place; and at most
  one tab is added, at the end.\<close>

theorem addTab_shows:
  "\<exists>i < length (tabs (addTab tab s)).
     activeTabId (addTab tab s) = Some (tab_id (tabs (addTab tab s) ! i)) \<and>
     tab_title (tabs (addTab tab s) ! i) = tab_title tab \<and>
     tab_kind (tabs (addTab tab s) ! i) = tab_kind tab \<and>
     tab_connectionId (tabs (addTab tab s) ! i) = tab_connectionId tab \<and>
     take i (tabs (addTab tab s)) = take i (tabs s) \<and>
     drop (Suc i) (tabs (addTab tab s)) = drop (Suc i) (tabs s) \<and>
     (length (tabs (addTab tab s)) = length (tabs s) \<or> i = length (tabs s))"
proof (cases rule: addTab_cases [of s tab])
  case (replaced i t)
  then show ?thesis by (intro exI [of _ i]) simp
next
  case (appended t)
  then show ?thesis by (intro exI [of _ "length (tabs s)"]) simp
qed

text \<open>Closing only removes: the tabs left by any closing operation are some of the old tabs in
  their old order, and a tab that was active and is still open stays active.\<close>

theorem closing_keeps_order:
  assumes "closing op"
  shows "subseq (tabs (run_tab_op op s)) (tabs s) \<and>
    (\<forall>i. activeTabId s = Some i \<and> i \<noteq> [] \<and> i \<in> set (tab_ids (tabs (run_tab_op op s))) \<and>
       (\<forall>k. op \<noteq> CloseOthers k) \<longrightarrow>
       activeTabId (run_tab_op op s) = Some i)"
proof
  show "subseq (tabs (run_tab_op op s)) (tabs s)" using assms by (rule closing_subseq)
  have e: "active_exists ts (Some i) \<longleftrightarrow> i \<noteq> [] \<and> i \<in> set (tab_ids ts)" for ts i
    by (auto simp: active_exists_def truthy_def)
  show "\<forall>i. activeTabId s = Some i \<and> i \<noteq> [] \<and> i \<in> set (tab_ids (tabs (run_tab_op op s))) \<and>
       (\<forall>k. op \<noteq> CloseOthers k) \<longrightarrow> activeTabId (run_tab_op op s) = Some i"
    using assms
    by (cases op)
      (auto simp: closing_def closeTab_def closeTabsToLeft_def closeTabsToRight_def closeTabsByConnection_def
        closeTabsByDatabase_def closeAllTabs_def close_group_tabs Let_def e split: option.splits if_splits)
qed

theorem closing_keeps_order_witness:
  "subseq (tabs (closeTabsToLeft (js ''b'') sample_store)) (tabs sample_store)"
  using closing_keeps_order [of "CloseToLeft (js ''b'')" sample_store] by (simp add: closing_def)

text \<open>Moving a tab permutes the tabs: when both tabs are open, the moved tab ends at the place
  of the target, and the other tabs keep their order.\<close>

theorem moveTab_correct:
  assumes "find_index (\<lambda>t. tab_id t = trim a) (tabs s) = Some i"
    and "find_index (\<lambda>t. tab_id t = trim b) (tabs s) = Some j"
    and "trim a \<noteq> []" and "trim b \<noteq> []"
  shows "mset (tabs (moveTab a b s)) = mset (tabs s) \<and> tabs (moveTab a b s) ! j = tabs s ! i \<and>
    remove_at j (tabs (moveTab a b s)) = remove_at i (tabs s)"
proof (cases "i = j")
  case True
  with assms have "tabs (moveTab a b s) = tabs s" by (simp add: moveTab_def Let_def)
  with True show ?thesis by simp
next
  case False
  note i = find_index_Some [OF assms(1)] and j = find_index_Some [OF assms(2)]
  from False i j have "trim a \<noteq> trim b" using assms(1,2) by auto
  with assms False have m: "tabs (moveTab a b s) = insert_at j (tabs s ! i) (remove_at i (tabs s))"
    by (simp add: moveTab_def Let_def)
  have jl: "j \<le> length (remove_at i (tabs s))" using i j False by (auto simp: length_remove_at)
  have "mset (insert_at j (tabs s ! i) (remove_at i (tabs s))) = add_mset (tabs s ! i) (mset (remove_at i (tabs s)))"
    unfolding insert_at_def
    by (metis append_take_drop_id mset.simps(2) mset_append union_mset_add_mset_right)
  also have "\<dots> = mset (take i (tabs s) @ [tabs s ! i] @ drop (Suc i) (tabs s))" by (simp add: remove_at_def)
  also have "\<dots> = mset (tabs s)" using i by (simp only: remove_at_split)
  finally show ?thesis using m jl nth_insert_at [OF jl]
    by (simp add: remove_at_def [of j] insert_at_def)
qed

theorem moveTab_correct_witness:
  "tab_ids (tabs (moveTab (js ''a'') (js ''c'') sample_store)) = [js ''b'', js ''c'', js ''a''] \<and>
   mset (tabs (moveTab (js ''a'') (js ''c'') sample_store)) = mset (tabs sample_store)"
proof -
  have t: "trim (js ''a'') = js ''a''" "trim (js ''c'') = js ''c''" by code_simp+
  have f: "find_index (\<lambda>t. tab_id t = trim (js ''a'')) (tabs sample_store) = Some 0"
    "find_index (\<lambda>t. tab_id t = trim (js ''c'')) (tabs sample_store) = Some 2"
    by (simp_all add: t sample_store_def sample_tab_def)
  have "tab_ids (tabs (moveTab (js ''a'') (js ''c'') sample_store)) = [js ''b'', js ''c'', js ''a'']"
    using f by (simp add: t moveTab_def Let_def insert_at_def remove_at_def)
      (simp add: sample_store_def sample_tab_def)
  with moveTab_correct [OF f] show ?thesis by (simp add: t)
qed

text \<open>Saving a draft: only the query tab with that id changes, it keeps its id and type, its text
  is cut to the persisted length, and saving the same draft again changes nothing.\<close>

theorem updateQueryTabDraft_correct:
  "updateQueryTabDraft now i d (updateQueryTabDraft now i d s) = updateQueryTabDraft now i d s \<and>
   length (tabs (updateQueryTabDraft now i d s)) = length (tabs s) \<and>
   (\<forall>k < length (tabs s).
      if tab_id (tabs s ! k) = trim i \<and> tab_kind (tabs s ! k) = Query \<and> trim i \<noteq> []
      then (case draft_query d of None \<Rightarrow> True
            | Some q \<Rightarrow> tab_query (tabs (updateQueryTabDraft now i d s) ! k) =
                Some (take MAX_PERSISTED_QUERY_LENGTH q))
      else tabs (updateQueryTabDraft now i d s) ! k = tabs s ! k)"
proof -
  have p: "persisted_query (persisted_query q) = persisted_query q" for q
    by (simp add: persisted_query_def slice_def)
  have idem: "apply_draft now d (apply_draft now d t) = apply_draft now d t" for t
    by (rule apply_draft_idem)
  have q: "tab_query (apply_draft now d t) = Some (take MAX_PERSISTED_QUERY_LENGTH x)"
    if "draft_query d = Some x" for t x
    using that by (simp add: apply_draft_def Let_def apply_snapshot_def persisted_query_def slice_def split: option.split)
  have "updateQueryTabDraft now i d (updateQueryTabDraft now i d s) = updateQueryTabDraft now i d s"
    by (simp add: updateQueryTabDraft_def comp_def idem cong: map_cong)
  moreover have "length (tabs (updateQueryTabDraft now i d s)) = length (tabs s)"
    by (simp add: updateQueryTabDraft_def)
  moreover have "if tab_id (tabs s ! k) = trim i \<and> tab_kind (tabs s ! k) = Query \<and> trim i \<noteq> []
      then (case draft_query d of None \<Rightarrow> True
            | Some q \<Rightarrow> tab_query (tabs (updateQueryTabDraft now i d s) ! k) =
                Some (take MAX_PERSISTED_QUERY_LENGTH q))
      else tabs (updateQueryTabDraft now i d s) ! k = tabs s ! k" if "k < length (tabs s)" for k
    using that q by (auto simp: updateQueryTabDraft_def split: option.split)
  ultimately show ?thesis by blast
qed

definition sample_draft :: query_draft where
  "sample_draft = \<lparr>draft_query = Some (js ''SELECT 1''), draft_connectionId = None, draft_dbName = Some (js '' db ''),
     draft_title = None, draft_visible = None, draft_snapshot = None, draft_maxRows = Some NonFinite\<rparr>"

theorem updateQueryTabDraft_correct_witness:
  "tab_query (tabs (updateQueryTabDraft 7 (js ''b'') sample_draft sample_store) ! 1) = Some (js ''SELECT 1'') \<and>
   tabs (updateQueryTabDraft 7 (js ''b'') sample_draft sample_store) ! 0 = tabs sample_store ! 0"
proof -
  have t: "trim (js ''b'') = js ''b''" and n: "take MAX_PERSISTED_QUERY_LENGTH (js ''SELECT 1'') = js ''SELECT 1''"
    by (code_simp, simp add: MAX_PERSISTED_QUERY_LENGTH_def)
  have "\<forall>k < length (tabs sample_store).
      if tab_id (tabs sample_store ! k) = trim (js ''b'') \<and> tab_kind (tabs sample_store ! k) = Query \<and> trim (js ''b'') \<noteq> []
      then (case draft_query sample_draft of None \<Rightarrow> True
            | Some q \<Rightarrow> tab_query (tabs (updateQueryTabDraft 7 (js ''b'') sample_draft sample_store) ! k) =
                Some (take MAX_PERSISTED_QUERY_LENGTH q))
      else tabs (updateQueryTabDraft 7 (js ''b'') sample_draft sample_store) ! k = tabs sample_store ! k"
    using updateQueryTabDraft_correct [of 7 "js ''b''" sample_draft sample_store] by (elim conjE)
  moreover have "length (tabs sample_store) = 3" "tab_id (tabs sample_store ! 0) = js ''a''"
    "tab_id (tabs sample_store ! 1) = js ''b''" "tab_kind (tabs sample_store ! 1) = Query"
    "js ''a'' \<noteq> js ''b''" "js ''b'' \<noteq> []" "draft_query sample_draft = Some (js ''SELECT 1'')"
    by (simp_all add: sample_store_def sample_tab_def sample_draft_def)
  ultimately show ?thesis by (simp only: t n option.case if_True if_False simp_thms)
qed

section \<open>What restoring does not ensure\<close>

text \<open>A repeated id gets its position as a suffix, without looking whether that id is taken as
  well: the restored tabs can have two tabs with one id.\<close>

definition stored_entry :: "jsstr \<Rightarrow> raw_tab" where
  "stored_entry i = \<lparr>raw_type = js ''query'', raw_id = Some i, raw_title = None, raw_connectionId = None,
     raw_dbName = None, raw_query = js ''SELECT 1'', raw_filePath = None, raw_savedQueryId = None,
     raw_visible = None, raw_readOnly = False, raw_snapshot = None, raw_tab_maxRows = NonFinite\<rparr>"

lemma restore_stored:
  assumes "trim i = i" and "i \<noteq> []"
    and "j = (if i \<in> seen then i @ js ''-'' @ nat_str (k + 1) else i)"
  shows "restore_step title now (r, seen) (k, stored_entry i) =
    (r @ [restored_tab title now j (stored_entry i)], insert j seen)"
proof -
  have "persisted_query (js ''SELECT 1'') = js ''SELECT 1''"
    by (simp add: persisted_query_def slice_def MAX_PERSISTED_QUERY_LENGTH_def)
  moreover have "trim (js ''SELECT 1'') \<noteq> []" by code_simp
  ultimately have q: "(trim (persisted_query (js ''SELECT 1'')) = []) = False" by (simp only: refl)
  show ?thesis
    by (simp only: restore_step_def stored_entry_def fallback_string_def Let_def prod.case fst_conv snd_conv
        raw_tab.simps option.case assms q HOL.simp_thms if_True if_False)
qed

lemma sanitizeQueryTabs_repeats_ids:
  "tab_ids (sanitizeQueryTabs (js ''new'') 0 (map stored_entry [js ''a-3'', js ''a'', js ''a''])) =
   [js ''a-3'', js ''a'', js ''a-3'']"
proof -
  have t: "trim (js ''a-3'') = js ''a-3''" "js ''a-3'' \<noteq> []" "trim (js ''a'') = js ''a''" "js ''a'' \<noteq> []"
    "js ''a'' \<notin> {js ''a-3''}" "js ''a-3'' = js ''a'' @ js ''-'' @ nat_str (2 + 1)" by code_simp+
  let ?x = "js ''a-3''" and ?y = "js ''a''" and ?r = "restored_tab (js ''new'') 0"
  have s1: "restore_step (js ''new'') 0 ([], {}) (0, stored_entry ?x) = ([?r ?x (stored_entry ?x)], {?x})"
    using restore_stored [OF t(1,2)] by simp
  have s2: "restore_step (js ''new'') 0 ([u], {?x}) (1, stored_entry ?y) =
      ([u, ?r ?y (stored_entry ?y)], {?y, ?x})" for u
    using restore_stored [OF t(3,4), of ?y "{?x}" 1] t(5) by simp
  have s3: "restore_step (js ''new'') 0 ([u, v], {?y, ?x}) (2, stored_entry ?y) =
      ([u, v, ?r ?x (stored_entry ?y)], {?x, ?y})" for u v
    using restore_stored [OF t(3,4), of ?x "{?y, ?x}" 2 "js ''new''" 0 "[u, v]"] t(6)
    by (simp add: insert_commute)
  have "enumerate 0 (map stored_entry [?x, ?y, ?y]) =
      [(0, stored_entry ?x), (1, stored_entry ?y), (2, stored_entry ?y)]"
    by (simp only: list.map enumerate_simps One_nat_def numeral_2_eq_2)
  then have "fst (foldl (restore_step (js ''new'') 0) ([], {}) (enumerate 0 (map stored_entry [?x, ?y, ?y]))) =
      [?r ?x (stored_entry ?x), ?r ?y (stored_entry ?y), ?r ?x (stored_entry ?y)]"
    by (simp only: foldl_Cons foldl_Nil s1 s2 s3 fst_conv)
  moreover have "tab_id (?r i raw) = i" for i raw by (simp add: restored_tab_def)
  ultimately show ?thesis
    by (simp only: sanitizeQueryTabs_def MAX_PERSISTED_QUERY_TABS_def) simp
qed

end
