(* ===== verification/SidebarStore.thy ===== *)
theory SidebarStore
  imports JsString "HOL-Library.AList" "HOL-Library.Multiset"
begin

text \<open>
  The sidebar of \<open>frontend/src/store.ts\<close>: connections, the tags that group them, and the order
  of the root nodes (lines 1058 to 1229 and 2542 to 2842). A root node is a tag or a
  connection that is in no tag; the order is a list of tokens \<open>tag:<id>\<close> and
  \<open>connection:<id>\<close>. A JavaScript \<open>Map\<close> is an association list: \<open>AList.update\<close> keeps the
  position of a key, as \<open>Map\<close> does. Of a connection only the id matters here; a connection
  that is added arrives as \<open>sanitizeSavedConnection\<close> left it, \<open>None\<close> when it was refused.
\<close>

section \<open>State\<close>

record connection_tag =
  ctag_id :: jsstr
  ctag_name :: jsstr
  ctag_connectionIds :: "jsstr list"

record saved_connection =
  conn_id :: jsstr
  conn_name :: jsstr
  conn_fields :: "jsstr \<Rightarrow> jsstr option"

record sidebar_store =
  connections :: "saved_connection list"
  connectionTags :: "connection_tag list"
  sidebarRootOrder :: "jsstr list"

section \<open>Root tokens\<close>

definition SIDEBAR_ROOT_TAG_TOKEN_PREFIX :: jsstr where
  "SIDEBAR_ROOT_TAG_TOKEN_PREFIX = js ''tag:''"

definition SIDEBAR_ROOT_CONNECTION_TOKEN_PREFIX :: jsstr where
  "SIDEBAR_ROOT_CONNECTION_TOKEN_PREFIX = js ''connection:''"

definition buildSidebarRootTagToken :: "jsstr \<Rightarrow> jsstr" where
  "buildSidebarRootTagToken tagId = SIDEBAR_ROOT_TAG_TOKEN_PREFIX @ trim tagId"

definition buildSidebarRootConnectionToken :: "jsstr \<Rightarrow> jsstr" where
  "buildSidebarRootConnectionToken connectionId = SIDEBAR_ROOT_CONNECTION_TOKEN_PREFIX @ trim connectionId"

definition isSidebarRootTagToken :: "jsstr \<Rightarrow> bool" where
  "isSidebarRootTagToken token \<longleftrightarrow>
     starts_with token SIDEBAR_ROOT_TAG_TOKEN_PREFIX \<and> length SIDEBAR_ROOT_TAG_TOKEN_PREFIX < length token"

definition isSidebarRootConnectionToken :: "jsstr \<Rightarrow> bool" where
  "isSidebarRootConnectionToken token \<longleftrightarrow>
     starts_with token SIDEBAR_ROOT_CONNECTION_TOKEN_PREFIX \<and>
     length SIDEBAR_ROOT_CONNECTION_TOKEN_PREFIX < length token"

text \<open>The loops that push a token unless it has been seen: the seen set is the set of the result.\<close>

definition push_unseen :: "'a list \<Rightarrow> 'a \<Rightarrow> 'a list" where
  "push_unseen result token = (if token \<in> set result then result else result @ [token])"

definition sanitizeSidebarRootOrder :: "jsstr list \<Rightarrow> jsstr list" where
  "sanitizeSidebarRootOrder entries =
     foldl push_unseen []
       (filter (\<lambda>token. isSidebarRootTagToken token \<or> isSidebarRootConnectionToken token) (map trim entries))"

definition grouped_ids :: "connection_tag list \<Rightarrow> jsstr set" where
  "grouped_ids tags = set (filter (\<lambda>i. i \<noteq> []) (concat (map ctag_connectionIds tags)))"

definition buildDefaultSidebarRootOrderTokens ::
  "connection_tag list \<Rightarrow> saved_connection list \<Rightarrow> jsstr list" where
  "buildDefaultSidebarRootOrderTokens tags conns =
     map (\<lambda>tag. buildSidebarRootTagToken (ctag_id tag)) tags @
     map (\<lambda>c. buildSidebarRootConnectionToken (conn_id c)) (filter (\<lambda>c. conn_id c \<notin> grouped_ids tags) conns)"

definition resolveSidebarRootOrderTokens ::
  "jsstr list \<Rightarrow> connection_tag list \<Rightarrow> saved_connection list \<Rightarrow> jsstr list" where
  "resolveSidebarRootOrderTokens rootOrder tags conns =
     (let defaultOrder = buildDefaultSidebarRootOrderTokens tags conns in
      if defaultOrder = [] then []
      else foldl push_unseen
             (foldl push_unseen [] (filter (\<lambda>t. t \<in> set defaultOrder) (sanitizeSidebarRootOrder rootOrder)))
             defaultOrder)"

definition insertSidebarRootTokenBeforeUngrouped :: "jsstr list \<Rightarrow> jsstr \<Rightarrow> jsstr list" where
  "insertSidebarRootTokenBeforeUngrouped rootOrder token =
     (if token = [] \<or> token \<in> set rootOrder then rootOrder
      else (case find_index isSidebarRootConnectionToken rootOrder of
              None \<Rightarrow> rootOrder @ [token] | Some i \<Rightarrow> insert_at i token rootOrder))"

definition insertSidebarRootTokenAfter :: "jsstr list \<Rightarrow> jsstr \<Rightarrow> jsstr \<Rightarrow> jsstr list" where
  "insertSidebarRootTokenAfter rootOrder token anchor =
     (if token = [] then rootOrder
      else (let nextOrder = filter (\<lambda>item. item \<noteq> token) rootOrder in
            case find_index (\<lambda>item. item = anchor) nextOrder of
              None \<Rightarrow> nextOrder @ [token] | Some i \<Rightarrow> insert_at (i + 1) token nextOrder))"

definition moveSidebarRootToken :: "jsstr list \<Rightarrow> jsstr \<Rightarrow> jsstr \<Rightarrow> bool \<Rightarrow> jsstr list" where
  "moveSidebarRootToken rootOrder sourceToken targetToken insertBefore =
     (if sourceToken = [] \<or> targetToken = [] \<or> sourceToken = targetToken then rootOrder
      else (let filtered = filter (\<lambda>token. token \<noteq> sourceToken) rootOrder;
                insertIndex = (case find_index (\<lambda>token. token = targetToken) filtered of
                    None \<Rightarrow> length filtered
                  | Some i \<Rightarrow> max 0 (min (length filtered) (if insertBefore then i else i + 1)))
            in insert_at insertIndex sourceToken filtered))"

text \<open>\<open>new Map(tags.map(tag => [tag.id, tag]))\<close>.\<close>

definition tag_map :: "connection_tag list \<Rightarrow> (jsstr \<times> connection_tag) list" where
  "tag_map tags = foldl (\<lambda>m tag. AList.update (ctag_id tag) tag m) [] tags"

definition order_step ::
  "connection_tag list \<times> (jsstr \<times> connection_tag) list \<Rightarrow> jsstr \<Rightarrow>
   connection_tag list \<times> (jsstr \<times> connection_tag) list" where
  "order_step acc token =
     (let (orderedTags, m) = acc; tagId = drop (length SIDEBAR_ROOT_TAG_TOKEN_PREFIX) token in
      if \<not> isSidebarRootTagToken token then acc
      else (case map_of m tagId of
              None \<Rightarrow> acc | Some tag \<Rightarrow> (orderedTags @ [tag], AList.delete tagId m)))"

definition orderConnectionTagsBySidebarRootOrder ::
  "connection_tag list \<Rightarrow> jsstr list \<Rightarrow> connection_tag list" where
  "orderConnectionTagsBySidebarRootOrder tags rootOrder =
     (let (orderedTags, m) = foldl order_step ([], tag_map tags) rootOrder in orderedTags @ map snd m)"

section \<open>Connections\<close>

text \<open>\<open>sanitizeConnections\<close> on entries already sanitized: a repeated id gets its position as a suffix.\<close>

definition connection_step ::
  "saved_connection list \<times> jsstr set \<Rightarrow> nat \<times> saved_connection option \<Rightarrow> saved_connection list \<times> jsstr set" where
  "connection_step acc entry =
     (let (result, idSet) = acc in
      case snd entry of
        None \<Rightarrow> acc
      | Some conn \<Rightarrow>
          (let nextId = (if conn_id conn \<in> idSet then conn_id conn @ js ''-'' @ nat_str (fst entry + 1)
                         else conn_id conn)
           in (result @ [conn\<lparr>conn_id := nextId\<rparr>], insert nextId idSet)))"

definition sanitizeConnections :: "saved_connection option list \<Rightarrow> saved_connection list" where
  "sanitizeConnections entries = fst (foldl connection_step ([], {}) (enumerate 0 entries))"

definition with_resolved_root ::
  "jsstr list \<Rightarrow> connection_tag list \<Rightarrow> saved_connection list \<Rightarrow> sidebar_store" where
  "with_resolved_root rootOrder tags conns =
     \<lparr>connections = conns, connectionTags = tags,
      sidebarRootOrder = resolveSidebarRootOrderTokens rootOrder tags conns\<rparr>"

definition addConnection :: "saved_connection option \<Rightarrow> sidebar_store \<Rightarrow> sidebar_store" where
  "addConnection sanitized s =
     (case sanitized of None \<Rightarrow> s | Some conn \<Rightarrow> s\<lparr>connections := connections s @ [conn]\<rparr>)"

definition updateConnection :: "jsstr \<Rightarrow> saved_connection option \<Rightarrow> sidebar_store \<Rightarrow> sidebar_store" where
  "updateConnection i sanitized s =
     (case sanitized of
        None \<Rightarrow> s
      | Some conn \<Rightarrow> s\<lparr>connections := map (\<lambda>c. if conn_id c = i then conn else c) (connections s)\<rparr>)"

definition drop_from_tag :: "jsstr \<Rightarrow> connection_tag \<Rightarrow> connection_tag" where
  "drop_from_tag i tag = tag\<lparr>ctag_connectionIds := filter (\<lambda>cid. cid \<noteq> i) (ctag_connectionIds tag)\<rparr>"

definition removeConnection :: "jsstr \<Rightarrow> sidebar_store \<Rightarrow> sidebar_store" where
  "removeConnection i s =
     with_resolved_root
       (filter (\<lambda>token. token \<noteq> buildSidebarRootConnectionToken i) (sidebarRootOrder s))
       (map (drop_from_tag i) (connectionTags s))
       (filter (\<lambda>c. conn_id c \<noteq> i) (connections s))"

definition replaceConnections :: "saved_connection option list \<Rightarrow> sidebar_store \<Rightarrow> sidebar_store" where
  "replaceConnections entries s =
     with_resolved_root (sidebarRootOrder s) (connectionTags s) (sanitizeConnections entries)"

section \<open>Tags\<close>

definition addConnectionTag :: "connection_tag \<Rightarrow> sidebar_store \<Rightarrow> sidebar_store" where
  "addConnectionTag tag s =
     with_resolved_root
       (insertSidebarRootTokenBeforeUngrouped
          (resolveSidebarRootOrderTokens (sidebarRootOrder s) (connectionTags s) (connections s))
          (buildSidebarRootTagToken (ctag_id tag)))
       (connectionTags s @ [tag]) (connections s)"

definition updateConnectionTag :: "connection_tag \<Rightarrow> sidebar_store \<Rightarrow> sidebar_store" where
  "updateConnectionTag tag s =
     with_resolved_root (sidebarRootOrder s)
       (map (\<lambda>t. if ctag_id t = ctag_id tag then tag else t) (connectionTags s)) (connections s)"

definition removeConnectionTag :: "jsstr \<Rightarrow> sidebar_store \<Rightarrow> sidebar_store" where
  "removeConnectionTag i s =
     with_resolved_root
       (filter (\<lambda>token. token \<noteq> buildSidebarRootTagToken i) (sidebarRootOrder s))
       (filter (\<lambda>t. ctag_id t \<noteq> i) (connectionTags s)) (connections s)"

text \<open>\<open>targetTagId\<close> is \<open>None\<close> for \<open>null\<close>. The source token is never empty, because it starts with
  the prefix, so the other branch of the conditional does not run.\<close>

definition put_in_tag ::
  "(jsstr list \<Rightarrow> jsstr list) \<Rightarrow> jsstr \<Rightarrow> jsstr option \<Rightarrow> connection_tag \<Rightarrow> connection_tag" where
  "put_in_tag ins i target tag =
     (if Some (ctag_id tag) = target
      then tag\<lparr>ctag_connectionIds := ins (filter (\<lambda>cid. cid \<noteq> i) (ctag_connectionIds tag))\<rparr>
      else drop_from_tag i tag)"

definition moveConnectionToTag :: "jsstr \<Rightarrow> jsstr option \<Rightarrow> sidebar_store \<Rightarrow> sidebar_store" where
  "moveConnectionToTag connectionId targetTagId s =
     (let newTags = map (put_in_tag (\<lambda>ids. ids @ [connectionId]) connectionId targetTagId) (connectionTags s);
          nextRootOrder = resolveSidebarRootOrderTokens (sidebarRootOrder s) newTags (connections s);
          connectionToken = buildSidebarRootConnectionToken connectionId;
          sourceToken = buildSidebarRootTagToken
            (case find (\<lambda>tag. connectionId \<in> set (ctag_connectionIds tag)) (connectionTags s) of
               None \<Rightarrow> [] | Some tag \<Rightarrow> ctag_id tag);
          insertedRootOrder = (if sourceToken \<noteq> []
            then insertSidebarRootTokenAfter nextRootOrder connectionToken sourceToken
            else insertSidebarRootTokenBeforeUngrouped nextRootOrder connectionToken)
      in if truthy targetTagId
         then s\<lparr>connectionTags := newTags,
                sidebarRootOrder := filter (\<lambda>token. token \<noteq> connectionToken) nextRootOrder\<rparr>
         else with_resolved_root insertedRootOrder newTags (connections s))"

section \<open>Reordering\<close>

definition normalizeInsertIndex :: "nat \<Rightarrow> nat \<Rightarrow> nat" where
  "normalizeInsertIndex len index = max 0 (min len index)"

definition insert_beside :: "jsstr \<Rightarrow> jsstr \<Rightarrow> bool \<Rightarrow> jsstr list \<Rightarrow> jsstr list" where
  "insert_beside i target before ids =
     (case find_index (\<lambda>x. x = target) ids of
        None \<Rightarrow> ids @ [i]
      | Some k \<Rightarrow> insert_at (normalizeInsertIndex (length ids) (if before then k else k + 1)) i ids)"

text \<open>The comparator puts the connections with an index first, by index, and keeps the others.\<close>

definition sort_by_index :: "jsstr list \<Rightarrow> saved_connection list \<Rightarrow> saved_connection list" where
  "sort_by_index order conns =
     (let m = map_of (rev (zip order [0..<length order]))
      in sort_key (\<lambda>c. case m (conn_id c) of Some k \<Rightarrow> k | None \<Rightarrow> length order) conns)"

definition reorderConnections ::
  "jsstr \<Rightarrow> jsstr \<Rightarrow> jsstr option \<Rightarrow> bool \<Rightarrow> sidebar_store \<Rightarrow> sidebar_store" where
  "reorderConnections connectionId targetConnectionId targetTagId insertBefore s =
     (if connectionId = [] \<or> targetConnectionId = [] \<or> connectionId = targetConnectionId then s
      else if truthy targetTagId
      then with_resolved_root (sidebarRootOrder s)
             (map (put_in_tag (insert_beside connectionId targetConnectionId insertBefore) connectionId targetTagId)
                (connectionTags s)) (connections s)
      else
        (let nextTags = map (drop_from_tag connectionId) (connectionTags s);
             ungroupedIds = filter (\<lambda>i. \<not> (\<exists>tag \<in> set nextTags. i \<in> set (ctag_connectionIds tag)))
               (filter (\<lambda>i. i \<noteq> connectionId) (map conn_id (connections s)));
             nextUngroupedIds = insert_beside connectionId targetConnectionId insertBefore ungroupedIds
         in with_resolved_root (sidebarRootOrder s) nextTags (sort_by_index nextUngroupedIds (connections s))))"

definition reorderTags :: "jsstr list \<Rightarrow> sidebar_store \<Rightarrow> sidebar_store" where
  "reorderTags tagIds s =
     (let nextRootOrder = resolveSidebarRootOrderTokens (sidebarRootOrder s) (connectionTags s) (connections s);
          orderedRootOrder = map buildSidebarRootTagToken tagIds @
            filter (\<lambda>token. \<not> isSidebarRootTagToken token) nextRootOrder
      in with_resolved_root orderedRootOrder
           (orderConnectionTagsBySidebarRootOrder (connectionTags s) orderedRootOrder) (connections s))"

definition reorderSidebarRoot :: "jsstr \<Rightarrow> jsstr \<Rightarrow> bool \<Rightarrow> sidebar_store \<Rightarrow> sidebar_store" where
  "reorderSidebarRoot sourceToken targetToken insertBefore s =
     (let nextRootOrder = moveSidebarRootToken
            (resolveSidebarRootOrderTokens (sidebarRootOrder s) (connectionTags s) (connections s))
            sourceToken targetToken insertBefore
      in s\<lparr>sidebarRootOrder := resolveSidebarRootOrderTokens nextRootOrder (connectionTags s) (connections s),
           connectionTags := orderConnectionTagsBySidebarRootOrder (connectionTags s) nextRootOrder\<rparr>)"

section \<open>The root order\<close>

lemma push_unseen_dedup: "foldl push_unseen acc xs = acc @ dedup_by id (set acc) xs"
  by (induction xs arbitrary: acc) (auto simp: push_unseen_def)

lemma dedup_id_filter: "distinct xs \<Longrightarrow> dedup_by id seen xs = filter (\<lambda>x. x \<notin> seen) xs"
proof (induction xs arbitrary: seen)
  case (Cons x xs)
  then have "filter (\<lambda>y. y \<notin> insert x seen) xs = filter (\<lambda>y. y \<notin> seen) xs"
    by (intro filter_cong) auto
  with Cons show ?case by simp
qed simp

lemma dedup_id_props [simp]: "distinct (dedup_by id seen xs)" "set (dedup_by id seen xs) = set xs - seen"
  using dedup_by_distinct [of id seen xs] dedup_by_keys [of id seen xs] by simp_all

lemma sanitize_root_props:
  "distinct (sanitizeSidebarRootOrder xs) \<and>
   (\<forall>t \<in> set (sanitizeSidebarRootOrder xs). isSidebarRootTagToken t \<or> isSidebarRootConnectionToken t)"
  by (auto simp: sanitizeSidebarRootOrder_def push_unseen_dedup)

lemma dedup_id_Nil: "set xs \<subseteq> seen \<Longrightarrow> dedup_by id seen xs = []"
  by (induction xs arbitrary: seen) auto

text \<open>The order in closed form: the valid stored tokens, then what is missing of the default.\<close>

lemma resolve_closed:
  "resolveSidebarRootOrderTokens rootOrder tags conns =
    (let d = buildDefaultSidebarRootOrderTokens tags conns;
         kept = filter (\<lambda>t. t \<in> set d) (sanitizeSidebarRootOrder rootOrder)
     in kept @ dedup_by id (set kept) d)"
proof -
  let ?d = "buildDefaultSidebarRootOrderTokens tags conns"
  let ?k = "filter (\<lambda>t. t \<in> set ?d) (sanitizeSidebarRootOrder rootOrder)"
  have "foldl push_unseen [] ?k = ?k"
    using sanitize_root_props [of rootOrder] by (simp add: push_unseen_dedup dedup_id_filter)
  then show ?thesis
    unfolding resolveSidebarRootOrderTokens_def Let_def
    by (cases "?d = []") (simp, simp add: push_unseen_dedup [of ?k])
qed

lemma resolve_props [simp]:
  "distinct (resolveSidebarRootOrderTokens rootOrder tags conns)"
  "set (resolveSidebarRootOrderTokens rootOrder tags conns) = set (buildDefaultSidebarRootOrderTokens tags conns)"
  using sanitize_root_props [of rootOrder]
  by (auto simp: resolve_closed Let_def)

lemma starts_with_append [simp]: "starts_with (p @ s) p"
  by (simp add: starts_with_def starts_with_at_def)

lemma tag_token_is [simp]: "isSidebarRootTagToken (buildSidebarRootTagToken i) \<longleftrightarrow> trim i \<noteq> []"
  by (simp add: isSidebarRootTagToken_def buildSidebarRootTagToken_def)

lemma connection_token_is [simp]:
  "isSidebarRootConnectionToken (buildSidebarRootConnectionToken i) \<longleftrightarrow> trim i \<noteq> []"
  by (simp add: isSidebarRootConnectionToken_def buildSidebarRootConnectionToken_def)

lemma token_kinds_differ [simp]:
  "buildSidebarRootTagToken i \<noteq> buildSidebarRootConnectionToken j"
  "buildSidebarRootConnectionToken j \<noteq> buildSidebarRootTagToken i"
  "\<not> isSidebarRootTagToken (buildSidebarRootConnectionToken i)"
  "\<not> isSidebarRootConnectionToken (buildSidebarRootTagToken i)"
  by (auto simp: buildSidebarRootTagToken_def buildSidebarRootConnectionToken_def isSidebarRootTagToken_def
      isSidebarRootConnectionToken_def starts_with_def starts_with_at_def slice_def js_Cons
      SIDEBAR_ROOT_TAG_TOKEN_PREFIX_def SIDEBAR_ROOT_CONNECTION_TOKEN_PREFIX_def)

lemma last_trim: "trim s \<noteq> [] \<Longrightarrow> \<not> is_js_space (last (trim s))"
  by (simp add: trim_def trim_end_last)

lemma prefix_trim:
  assumes "trim i \<noteq> []" and "p \<noteq> []" and "\<not> is_js_space (hd p)"
  shows "trim (p @ trim i) = p @ trim i"
  using assms last_trim [OF assms(1)] by (intro trim_id) auto

lemma token_trim:
  "trim i \<noteq> [] \<Longrightarrow> trim (buildSidebarRootTagToken i) = buildSidebarRootTagToken i"
  "trim i \<noteq> [] \<Longrightarrow> trim (buildSidebarRootConnectionToken i) = buildSidebarRootConnectionToken i"
proof -
  have "\<not> is_js_space (hd SIDEBAR_ROOT_TAG_TOKEN_PREFIX)" "SIDEBAR_ROOT_TAG_TOKEN_PREFIX \<noteq> []"
    "\<not> is_js_space (hd SIDEBAR_ROOT_CONNECTION_TOKEN_PREFIX)" "SIDEBAR_ROOT_CONNECTION_TOKEN_PREFIX \<noteq> []"
    by code_simp+
  then show "trim i \<noteq> [] \<Longrightarrow> trim (buildSidebarRootTagToken i) = buildSidebarRootTagToken i"
    "trim i \<noteq> [] \<Longrightarrow> trim (buildSidebarRootConnectionToken i) = buildSidebarRootConnectionToken i"
    by (simp_all add: buildSidebarRootTagToken_def buildSidebarRootConnectionToken_def prefix_trim)
qed

text \<open>Ids that are not blank: the sanitizers of tags and connections make only such ids.\<close>

definition ids_named :: "connection_tag list \<Rightarrow> saved_connection list \<Rightarrow> bool" where
  "ids_named tags conns \<longleftrightarrow> (\<forall>t \<in> set tags. trim (ctag_id t) \<noteq> []) \<and> (\<forall>c \<in> set conns. trim (conn_id c) \<noteq> [])"

lemma default_tokens_valid:
  assumes "ids_named tags conns" and "t \<in> set (buildDefaultSidebarRootOrderTokens tags conns)"
  shows "trim t = t \<and> (isSidebarRootTagToken t \<or> isSidebarRootConnectionToken t)"
  using assms by (auto simp: buildDefaultSidebarRootOrderTokens_def ids_named_def token_trim)

text \<open>A list of valid tokens without repetition is what it is sanitized to.\<close>

lemma sanitize_root_id:
  assumes "ids_named tags conns" and "set xs \<subseteq> set (buildDefaultSidebarRootOrderTokens tags conns)" and "distinct xs"
  shows "sanitizeSidebarRootOrder xs = xs"
proof -
  have "map trim xs = xs" and "\<forall>t \<in> set xs. isSidebarRootTagToken t \<or> isSidebarRootConnectionToken t"
    using default_tokens_valid [OF assms(1)] assms(2) by (auto intro!: map_idI)
  with assms(3) show ?thesis
    by (simp add: sanitizeSidebarRootOrder_def push_unseen_dedup dedup_id_filter)
qed

lemma resolve_keeps:
  assumes "ids_named tags conns" and "set xs \<subseteq> set (buildDefaultSidebarRootOrderTokens tags conns)" and "distinct xs"
  shows "resolveSidebarRootOrderTokens xs tags conns =
    xs @ dedup_by id (set xs) (buildDefaultSidebarRootOrderTokens tags conns)"
proof -
  have "filter (\<lambda>t. t \<in> set (buildDefaultSidebarRootOrderTokens tags conns)) xs = xs"
    using assms(2) by (intro filter_True) auto
  then show ?thesis by (simp only: resolve_closed Let_def sanitize_root_id [OF assms])
qed

text \<open>An order that already lists every root node is left alone.\<close>

lemma resolve_complete:
  assumes "ids_named tags conns" and "set xs = set (buildDefaultSidebarRootOrderTokens tags conns)" and "distinct xs"
  shows "resolveSidebarRootOrderTokens xs tags conns = xs"
  using resolve_keeps [OF assms(1) _ assms(3)] assms(2) by (simp add: dedup_id_Nil)

lemma default_map: "buildDefaultSidebarRootOrderTokens tags conns =
    map (buildSidebarRootTagToken \<circ> ctag_id) tags @
    map buildSidebarRootConnectionToken (filter (\<lambda>i. i \<notin> grouped_ids tags) (map conn_id conns))"
  by (simp add: buildDefaultSidebarRootOrderTokens_def filter_map comp_def)

lemma grouped_ids_set: "grouped_ids tags = \<Union> (set ` ctag_connectionIds ` set tags) - {[]}"
  by (auto simp: grouped_ids_def)

lemma default_set: "set (buildDefaultSidebarRootOrderTokens tags conns) =
    buildSidebarRootTagToken ` ctag_id ` set tags \<union>
    buildSidebarRootConnectionToken ` (conn_id ` set conns - grouped_ids tags)"
  by (auto simp: buildDefaultSidebarRootOrderTokens_def)

section \<open>Ordering tags by the root order\<close>

lemma update_fresh: "k \<notin> fst ` set m \<Longrightarrow> AList.update k v m = m @ [(k, v)]"
  by (induction m) auto

lemma tag_map_distinct:
  assumes "distinct (map ctag_id tags)"
  shows "tag_map tags = map (\<lambda>t. (ctag_id t, t)) tags"
proof -
  have "foldl (\<lambda>m tag. AList.update (ctag_id tag) tag m) m tags = m @ map (\<lambda>t. (ctag_id t, t)) tags"
    if "distinct (map fst m @ map ctag_id tags)" for m
    using that
  proof (induction tags arbitrary: m)
    case (Cons t ts)
    then have "ctag_id t \<notin> fst ` set m" by auto
    with Cons show ?case by (simp add: update_fresh)
  qed simp
  from this [of "[]"] assms show ?thesis by (simp add: tag_map_def)
qed

lemma mset_delete:
  assumes "distinct (map fst m)" and "map_of m k = Some v"
  shows "mset (map snd m) = add_mset v (mset (map snd (AList.delete k m)))"
  using assms
proof (induction m)
  case (Cons p m)
  show ?case
  proof (cases "fst p = k")
    case True
    with Cons.prems have "AList.delete k m = m" by (intro delete_id) auto
    with True Cons.prems show ?thesis by (cases p) simp
  next
    case False
    with Cons show ?thesis by (cases p) (simp add: add_mset_commute)
  qed
qed simp

lemma order_step_mset:
  assumes "distinct (map fst (snd acc))"
  shows "distinct (map fst (snd (order_step acc token))) \<and>
    mset (fst (order_step acc token)) + mset (map snd (snd (order_step acc token))) =
    mset (fst acc) + mset (map snd (snd acc))"
proof (cases "map_of (snd acc) (drop (length SIDEBAR_ROOT_TAG_TOKEN_PREFIX) token)")
  case None
  with assms show ?thesis by (cases acc) (simp add: order_step_def Let_def)
next
  case (Some tag)
  with assms mset_delete [OF assms Some] show ?thesis
    by (cases acc) (auto simp: order_step_def Let_def delete_keys distinct_removeAll simp del: mset_map)
qed

lemma orderConnectionTags_mset:
  assumes "distinct (map ctag_id tags)"
  shows "mset (orderConnectionTagsBySidebarRootOrder tags rootOrder) = mset tags"
proof -
  have "distinct (map fst (snd (foldl order_step acc rootOrder))) \<and>
    mset (fst (foldl order_step acc rootOrder)) + mset (map snd (snd (foldl order_step acc rootOrder))) =
    mset (fst acc) + mset (map snd (snd acc))" if "distinct (map fst (snd acc))" for acc
    using that
  proof (induction rootOrder arbitrary: acc)
    case (Cons t ts)
    from order_step_mset [OF Cons.prems, of t] Cons.IH [of "order_step acc t"] show ?case
      by (simp del: mset_map)
  qed simp
  from this [of "([], tag_map tags)"] assms have
    "mset (fst (foldl order_step ([], tag_map tags) rootOrder)) +
     mset (map snd (snd (foldl order_step ([], tag_map tags) rootOrder))) = mset tags"
    by (simp add: tag_map_distinct comp_def)
  then show ?thesis
    by (simp add: orderConnectionTagsBySidebarRootOrder_def case_prod_beta)
qed

text \<open>The fold takes the tags of the tokens in their order and leaves the tags that have none.\<close>

definition token_id :: "jsstr \<Rightarrow> jsstr" where
  "token_id token = drop (length SIDEBAR_ROOT_TAG_TOKEN_PREFIX) token"

lemma token_id_inj: "isSidebarRootTagToken a \<Longrightarrow> isSidebarRootTagToken b \<Longrightarrow> token_id a = token_id b \<longleftrightarrow> a = b"
  by (metis isSidebarRootTagToken_def token_id_def starts_with_def starts_with_at_def slice_def
      append_take_drop_id drop0 add_0)

lemma token_id_token [simp]: "token_id (buildSidebarRootTagToken i) = trim i"
  by (simp add: token_id_def buildSidebarRootTagToken_def)

lemma map_filter_cong': "(\<And>x. x \<in> set xs \<Longrightarrow> f x = g x) \<Longrightarrow> List.map_filter f xs = List.map_filter g xs"
  by (induction xs) (auto simp: List.map_filter_simps split: option.split)

lemma order_fold:
  assumes "distinct (filter isSidebarRootTagToken tokens)"
  shows "foldl order_step (ts, m) tokens =
    (ts @ List.map_filter (\<lambda>t. map_of m (token_id t)) (filter isSidebarRootTagToken tokens),
     filter (\<lambda>p. fst p \<notin> token_id ` set (filter isSidebarRootTagToken tokens)) m)"
  using assms
proof (induction tokens arbitrary: ts m)
  case Nil
  then show ?case by (simp add: List.map_filter_simps)
next
  case (Cons t tokens)
  show ?case
  proof (cases "isSidebarRootTagToken t")
    case False
    with Cons show ?thesis by (simp add: order_step_def Let_def)
  next
    case tok: True
    with Cons.prems have other: "token_id u \<noteq> token_id t" if "u \<in> set (filter isSidebarRootTagToken tokens)" for u
      using that by (auto simp: token_id_inj)
    show ?thesis
    proof (cases "map_of m (token_id t)")
      case None
      then have "fst p \<noteq> token_id t" if "p \<in> set m" for p
        using that by (metis map_of_eq_None_iff image_eqI)
      with tok None Cons show ?thesis
        by (auto simp: order_step_def token_id_def [symmetric] List.map_filter_simps intro!: filter_cong)
    next
      case (Some tag)
      have mf: "List.map_filter (\<lambda>u. map_of (AList.delete (token_id t) m) (token_id u)) (filter isSidebarRootTagToken tokens) =
          List.map_filter (\<lambda>u. map_of m (token_id u)) (filter isSidebarRootTagToken tokens)"
        using other by (intro map_filter_cong') (simp add: delete_conv')
      have fl: "filter (\<lambda>p. fst p \<notin> K) (AList.delete k m) = filter (\<lambda>p. fst p \<notin> insert k K) m" for K k
        by (auto simp: AList.delete_eq case_prod_beta intro!: filter_cong)
      from tok Some Cons.prems Cons.IH [of "ts @ [tag]" "AList.delete (token_id t) m"] show ?thesis
        by (simp add: order_step_def token_id_def [symmetric] List.map_filter_simps mf fl)
    qed
  qed
qed

lemma map_of_tags:
  assumes "distinct (map ctag_id tags)" and "t \<in> set tags"
  shows "map_of (map (\<lambda>t. (ctag_id t, t)) tags) (ctag_id t) = Some t"
  using assms by (intro map_of_is_SomeI) (auto simp: comp_def)

text \<open>When the order lists every tag, the tags follow the order exactly.\<close>

lemma orderConnectionTags_tokens:
  assumes d: "distinct (map ctag_id tags)" and trimmed_ids: "\<forall>t \<in> set tags. trim (ctag_id t) = ctag_id t"
    and dr: "distinct rootOrder"
    and all: "set (filter isSidebarRootTagToken rootOrder) = buildSidebarRootTagToken ` ctag_id ` set tags"
  shows "map (buildSidebarRootTagToken \<circ> ctag_id) (orderConnectionTagsBySidebarRootOrder tags rootOrder) =
    filter isSidebarRootTagToken rootOrder"
proof -
  let ?m = "map (\<lambda>t. (ctag_id t, t)) tags"
  have ids: "token_id ` set (filter isSidebarRootTagToken rootOrder) = ctag_id ` set tags"
    unfolding all using trimmed_ids by (force simp: image_iff)
  then have rest: "filter (\<lambda>p. fst p \<notin> token_id ` set (filter isSidebarRootTagToken rootOrder)) ?m = []"
    by (subst filter_empty_conv) auto
  have "map (buildSidebarRootTagToken \<circ> ctag_id) (List.map_filter (\<lambda>t. map_of ?m (token_id t)) xs) = xs"
    if "set xs \<subseteq> buildSidebarRootTagToken ` ctag_id ` set tags" for xs
    using that
  proof (induction xs)
    case (Cons x xs)
    then obtain t where "t \<in> set tags" "x = buildSidebarRootTagToken (ctag_id t)" by auto
    with Cons trimmed_ids show ?case by (simp add: List.map_filter_simps map_of_tags [OF d])
  qed (simp add: List.map_filter_simps)
  from this [of "filter isSidebarRootTagToken rootOrder"] all show ?thesis
    unfolding orderConnectionTagsBySidebarRootOrder_def tag_map_distinct [OF d]
    using order_fold [of rootOrder "[]" ?m] rest dr by simp
qed

section \<open>The state machine\<close>

datatype sidebar_op =
    AddConnection "saved_connection option"
  | UpdateConnection jsstr "saved_connection option"
  | RemoveConnection jsstr
  | ReplaceConnections "saved_connection option list"
  | AddTag connection_tag
  | UpdateTag connection_tag
  | RemoveTag jsstr
  | MoveToTag jsstr "jsstr option"
  | ReorderConnections jsstr jsstr "jsstr option" bool
  | ReorderTags "jsstr list"
  | ReorderRoot jsstr jsstr bool

fun run_sidebar_op :: "sidebar_op \<Rightarrow> sidebar_store \<Rightarrow> sidebar_store" where
  "run_sidebar_op (AddConnection c) s = addConnection c s"
| "run_sidebar_op (UpdateConnection i c) s = updateConnection i c s"
| "run_sidebar_op (RemoveConnection i) s = removeConnection i s"
| "run_sidebar_op (ReplaceConnections cs) s = replaceConnections cs s"
| "run_sidebar_op (AddTag t) s = addConnectionTag t s"
| "run_sidebar_op (UpdateTag t) s = updateConnectionTag t s"
| "run_sidebar_op (RemoveTag i) s = removeConnectionTag i s"
| "run_sidebar_op (MoveToTag c t) s = moveConnectionToTag c t s"
| "run_sidebar_op (ReorderConnections a b t before) s = reorderConnections a b t before s"
| "run_sidebar_op (ReorderTags tagIds) s = reorderTags tagIds s"
| "run_sidebar_op (ReorderRoot a b before) s = reorderSidebarRoot a b before s"

text \<open>What the dialogs respect: a tag that is added has a new id; the connections of a tag that is
  added or saved are listed once and are in no other tag; saving a connection keeps its id.\<close>

fun sidebar_allowed :: "sidebar_op \<Rightarrow> sidebar_store \<Rightarrow> bool" where
  "sidebar_allowed (AddTag t) s \<longleftrightarrow>
     ctag_id t \<notin> ctag_id ` set (connectionTags s) \<and> distinct (ctag_connectionIds t) \<and>
     (\<forall>u \<in> set (connectionTags s). set (ctag_connectionIds t) \<inter> set (ctag_connectionIds u) = {})"
| "sidebar_allowed (UpdateTag t) s \<longleftrightarrow>
     distinct (ctag_connectionIds t) \<and>
     (\<forall>u \<in> set (connectionTags s). ctag_id u \<noteq> ctag_id t \<longrightarrow>
        set (ctag_connectionIds t) \<inter> set (ctag_connectionIds u) = {})"
| "sidebar_allowed (UpdateConnection i c) s \<longleftrightarrow> (case c of None \<Rightarrow> True | Some conn \<Rightarrow> conn_id conn = i)"
| "sidebar_allowed _ s \<longleftrightarrow> True"

abbreviation tagged_ids :: "connection_tag list \<Rightarrow> jsstr list" where
  "tagged_ids tags \<equiv> concat (map ctag_connectionIds tags)"

definition sidebar_ok :: "sidebar_store \<Rightarrow> bool" where
  "sidebar_ok s \<longleftrightarrow>
     distinct (map ctag_id (connectionTags s)) \<and> distinct (tagged_ids (connectionTags s)) \<and>
     distinct (sidebarRootOrder s) \<and>
     set (sidebarRootOrder s) \<subseteq> set (buildDefaultSidebarRootOrderTokens (connectionTags s) (connections s))"

lemma with_resolved_ok:
  "distinct (map ctag_id tags) \<Longrightarrow> distinct (tagged_ids tags) \<Longrightarrow> sidebar_ok (with_resolved_root r tags conns)"
  by (simp add: sidebar_ok_def with_resolved_root_def)

lemma drop_from_tag_simps [simp]:
  "ctag_id (drop_from_tag i t) = ctag_id t"
  "ctag_connectionIds (drop_from_tag i t) = filter (\<lambda>c. c \<noteq> i) (ctag_connectionIds t)"
  by (simp_all add: drop_from_tag_def)

lemma put_in_tag_id [simp]: "ctag_id (put_in_tag ins i target t) = ctag_id t"
  by (simp add: put_in_tag_def)

lemma put_in_tag_None: "put_in_tag ins i None = drop_from_tag i"
  by (rule ext) (simp add: put_in_tag_def)

text \<open>An insertion that adds one element somewhere.\<close>

definition inserts :: "(jsstr list \<Rightarrow> jsstr list) \<Rightarrow> jsstr \<Rightarrow> bool" where
  "inserts ins i \<longleftrightarrow> (\<forall>ids. mset (ins ids) = add_mset i (mset ids))"

lemma mset_insert_at [simp]: "mset (insert_at k x xs) = add_mset x (mset xs)"
  by (metis append_take_drop_id insert_at_def mset.simps(2) mset_append union_mset_add_mset_right)

lemma inserts_end: "inserts (\<lambda>ids. ids @ [i]) i"
  by (simp add: inserts_def)

lemma inserts_beside: "inserts (insert_beside i target before) i"
  by (simp add: inserts_def insert_beside_def split: option.split)

lemma insertsD:
  assumes "inserts ins i"
  shows "set (ins ids) = insert i (set ids)" and "distinct (ins ids) \<longleftrightarrow> i \<notin> set ids \<and> distinct ids"
proof -
  have m: "mset (ins ids) = mset (i # ids)" using assms by (simp add: inserts_def)
  then show "set (ins ids) = insert i (set ids)" by (metis list.simps(15) set_mset_mset)
  from m show "distinct (ins ids) \<longleftrightarrow> i \<notin> set ids \<and> distinct ids"
    by (metis distinct.simps(2) mset_eq_imp_distinct_iff)
qed

lemma put_in_tag_set:
  assumes "inserts ins i"
  shows "set (ctag_connectionIds (put_in_tag ins i target t)) =
    set (ctag_connectionIds t) - {i} \<union> (if Some (ctag_id t) = target then {i} else {})"
  by (auto simp: put_in_tag_def insertsD [OF assms])

lemma other_tag_id: "distinct (map ctag_id (t # ts)) \<Longrightarrow> u \<in> set ts \<Longrightarrow> ctag_id u \<noteq> ctag_id t"
  by (metis distinct.simps(2) image_eqI image_set list.simps(9))

lemma put_in_tag_distinct:
  assumes ins: "inserts ins i" and "distinct (map ctag_id tags)" and "distinct (tagged_ids tags)"
  shows "distinct (tagged_ids (map (put_in_tag ins i target) tags))"
  using assms(2,3)
proof (induction tags)
  case (Cons t ts)
  have ids: "ctag_id u \<noteq> ctag_id t" if "u \<in> set ts" for u using that Cons.prems(1) by (rule other_tag_id [rotated])
  have "distinct (ctag_connectionIds (put_in_tag ins i target t))"
    using Cons.prems by (simp add: put_in_tag_def insertsD [OF ins])
  moreover have "set (ctag_connectionIds (put_in_tag ins i target t)) \<inter>
      set (tagged_ids (map (put_in_tag ins i target) ts)) = {}"
    using Cons.prems ids by (auto simp: put_in_tag_set [OF ins] split: if_splits)
  ultimately show ?case using Cons by simp
qed simp

lemma drop_from_tags_distinct:
  assumes "distinct (map ctag_id tags)" and "distinct (tagged_ids tags)"
  shows "distinct (tagged_ids (map (drop_from_tag i) tags))"
  using put_in_tag_distinct [OF inserts_end assms, of i None] by (simp add: put_in_tag_None)

lemma replace_tag_distinct:
  assumes "distinct (map ctag_id tags)" and "distinct (tagged_ids tags)" and "distinct (ctag_connectionIds t)"
    and "\<forall>u \<in> set tags. ctag_id u \<noteq> ctag_id t \<longrightarrow> set (ctag_connectionIds t) \<inter> set (ctag_connectionIds u) = {}"
  shows "distinct (tagged_ids (map (\<lambda>u. if ctag_id u = ctag_id t then t else u) tags))"
  using assms
proof (induction tags)
  case (Cons u us)
  let ?g = "\<lambda>u. if ctag_id u = ctag_id t then t else u"
  have IH: "distinct (tagged_ids (map ?g us))" using Cons by simp
  show ?case
  proof (cases "ctag_id u = ctag_id t")
    case True
    with Cons.prems(1) have o: "ctag_id v \<noteq> ctag_id t" if "v \<in> set us" for v
      using other_tag_id [OF Cons.prems(1) that] True by simp
    then have "map ?g us = us" by (intro map_idI) auto
    moreover have "set (ctag_connectionIds t) \<inter> set (tagged_ids us) = {}"
      using Cons.prems(4) o by auto
    ultimately show ?thesis using IH True Cons.prems(3) by simp
  next
    case False
    have "set (tagged_ids (map ?g us)) \<subseteq> set (tagged_ids us) \<union> set (ctag_connectionIds t)"
      by (auto split: if_splits)
    moreover have "set (ctag_connectionIds u) \<inter> set (tagged_ids us) = {}" using Cons.prems(2) by simp
    moreover have "set (ctag_connectionIds t) \<inter> set (ctag_connectionIds u) = {}"
      using Cons.prems(4) False by simp
    ultimately have "set (ctag_connectionIds u) \<inter> set (tagged_ids (map ?g us)) = {}" by blast
    with IH False Cons.prems(2) show ?thesis by simp
  qed
qed simp

lemma mset_tags_distinct:
  assumes "mset ts = mset us"
  shows "distinct (map ctag_id ts) \<longleftrightarrow> distinct (map ctag_id us)"
    and "distinct (tagged_ids ts) \<longleftrightarrow> distinct (tagged_ids us)" and "set ts = set us"
proof -
  have "mset (map ctag_id ts) = mset (map ctag_id us)" using assms by simp
  then show "distinct (map ctag_id ts) \<longleftrightarrow> distinct (map ctag_id us)" by (rule mset_eq_imp_distinct_iff)
  have "mset (concat (map f xs)) = \<Sum>\<^sub># (image_mset (mset \<circ> f) (mset xs))" for f :: "connection_tag \<Rightarrow> jsstr list" and xs
    by (induction xs) auto
  with assms have "mset (tagged_ids ts) = mset (tagged_ids us)" by simp
  then show "distinct (tagged_ids ts) \<longleftrightarrow> distinct (tagged_ids us)" by (rule mset_eq_imp_distinct_iff)
  show "set ts = set us" using assms by (rule mset_eq_setD)
qed

lemma default_same_tags: "set ts = set us \<Longrightarrow>
    set (buildDefaultSidebarRootOrderTokens ts conns) = set (buildDefaultSidebarRootOrderTokens us conns)"
  by (simp add: default_set grouped_ids_set)

lemma distinct_filter_map: "distinct (map f xs) \<Longrightarrow> distinct (map f (filter P xs))"
  by (induction xs) auto

lemma distinct_concat_filter: "distinct (tagged_ids tags) \<Longrightarrow> distinct (tagged_ids (filter P tags))"
  by (induction tags) auto

lemma update_connection_ids:
  "conn_id conn = i \<Longrightarrow> map conn_id (map (\<lambda>c. if conn_id c = i then conn else c) conns) = map conn_id conns"
  by (induction conns) auto

lemma run_sidebar_op_ok:
  assumes ok: "sidebar_ok s" and allowed: "sidebar_allowed op s"
  shows "sidebar_ok (run_sidebar_op op s)"
proof -
  from ok have d: "distinct (map ctag_id (connectionTags s))" and c: "distinct (tagged_ids (connectionTags s))"
    and r: "distinct (sidebarRootOrder s)"
      "set (sidebarRootOrder s) \<subseteq> set (buildDefaultSidebarRootOrderTokens (connectionTags s) (connections s))"
    by (simp_all add: sidebar_ok_def)
  have ids: "map ctag_id (map f ts) = map ctag_id ts" if "\<And>t. ctag_id (f t) = ctag_id t" for f ts
    using that by simp
  show ?thesis
  proof (cases op)
    case (AddConnection x)
    with ok show ?thesis
      by (cases x) (auto simp: addConnection_def sidebar_ok_def default_set)
  next
    case (UpdateConnection i x)
    show ?thesis
    proof (cases x)
      case (Some conn)
      with UpdateConnection allowed have "conn_id conn = i" by simp
      from update_connection_ids [OF this] have
        "buildDefaultSidebarRootOrderTokens tags (map (\<lambda>c. if conn_id c = i then conn else c) conns) =
         buildDefaultSidebarRootOrderTokens tags conns" for tags conns
        by (simp only: default_map)
      with ok UpdateConnection Some show ?thesis
        by (simp add: updateConnection_def sidebar_ok_def)
    qed (use ok UpdateConnection in \<open>simp add: updateConnection_def\<close>)
  next
    case (RemoveConnection i)
    with d c show ?thesis
      by (simp only: run_sidebar_op.simps removeConnection_def) (intro with_resolved_ok drop_from_tags_distinct; simp add: comp_def)
  next
    case (ReplaceConnections cs)
    with d c show ?thesis by (simp add: replaceConnections_def with_resolved_ok)
  next
    case (AddTag t)
    with d c allowed show ?thesis
      by (fastforce simp: addConnectionTag_def intro!: with_resolved_ok)
  next
    case (UpdateTag t)
    have "map ctag_id (map (\<lambda>u. if ctag_id u = ctag_id t then t else u) ts) = map ctag_id ts" for ts
      by (induction ts) auto
    with UpdateTag d c allowed show ?thesis
      unfolding run_sidebar_op.simps updateConnectionTag_def UpdateTag sidebar_allowed.simps
      by (intro with_resolved_ok replace_tag_distinct) (simp_all only:, blast+)
  next
    case (RemoveTag i)
    with d c show ?thesis
      by (simp add: removeConnectionTag_def with_resolved_ok distinct_filter_map distinct_concat_filter)
  next
    case (MoveToTag i t)
    let ?tags = "map (put_in_tag (\<lambda>ids. ids @ [i]) i t) (connectionTags s)"
    have "distinct (map ctag_id ?tags)" "distinct (tagged_ids ?tags)"
      using d put_in_tag_distinct [OF inserts_end d c] by (simp_all add: comp_def)
    with MoveToTag show ?thesis
      by (auto simp: moveConnectionToTag_def Let_def sidebar_ok_def with_resolved_root_def comp_def simp del: map_map)
  next
    case (ReorderConnections a b t before)
    let ?tags = "map (put_in_tag (insert_beside a b before) a t) (connectionTags s)"
    have "distinct (map ctag_id ?tags)" "distinct (tagged_ids ?tags)"
      using d put_in_tag_distinct [OF inserts_beside d c] by (simp_all add: comp_def)
    moreover have "distinct (map ctag_id (map (drop_from_tag a) (connectionTags s)))"
      using d by (simp add: comp_def)
    ultimately show ?thesis
      using ok ReorderConnections drop_from_tags_distinct [OF d c, of a]
      by (simp add: reorderConnections_def Let_def with_resolved_ok del: map_map)
  next
    case (ReorderTags tagIds)
    with d c show ?thesis
      by (simp add: reorderTags_def Let_def with_resolved_ok mset_tags_distinct(1,2) [OF orderConnectionTags_mset [OF d]])
  next
    case (ReorderRoot a b before)
    with d c show ?thesis
      by (simp add: reorderSidebarRoot_def Let_def sidebar_ok_def
          mset_tags_distinct(1,2) [OF orderConnectionTags_mset [OF d]]
          default_same_tags [OF mset_tags_distinct(3) [OF orderConnectionTags_mset [OF d]]])
  qed
qed

interpretation sidebar: op_invariant run_sidebar_op sidebar_allowed sidebar_ok
  by unfold_locales (rule run_sidebar_op_ok)

section \<open>Properties\<close>

text \<open>C12: The root order shown in the sidebar lists every tag and every connection outside the tags
  exactly once: first the stored tokens that still stand for a root node, in the stored order,
  then the other nodes in default order. Resolving again changes nothing.\<close>

theorem resolveSidebarRootOrderTokens_correct:
  assumes "ids_named tags conns" and "distinct (buildDefaultSidebarRootOrderTokens tags conns)"
  shows "resolveSidebarRootOrderTokens rootOrder tags conns =
      filter (\<lambda>t. t \<in> set (buildDefaultSidebarRootOrderTokens tags conns)) (sanitizeSidebarRootOrder rootOrder) @
      filter (\<lambda>t. t \<notin> set (sanitizeSidebarRootOrder rootOrder)) (buildDefaultSidebarRootOrderTokens tags conns) \<and>
    distinct (resolveSidebarRootOrderTokens rootOrder tags conns) \<and>
    set (resolveSidebarRootOrderTokens rootOrder tags conns) = set (buildDefaultSidebarRootOrderTokens tags conns) \<and>
    resolveSidebarRootOrderTokens (resolveSidebarRootOrderTokens rootOrder tags conns) tags conns =
      resolveSidebarRootOrderTokens rootOrder tags conns"
proof (intro conjI)
  show "resolveSidebarRootOrderTokens (resolveSidebarRootOrderTokens rootOrder tags conns) tags conns =
      resolveSidebarRootOrderTokens rootOrder tags conns"
    using assms(1) by (intro resolve_complete) simp_all
  show "resolveSidebarRootOrderTokens rootOrder tags conns =
      filter (\<lambda>t. t \<in> set (buildDefaultSidebarRootOrderTokens tags conns)) (sanitizeSidebarRootOrder rootOrder) @
      filter (\<lambda>t. t \<notin> set (sanitizeSidebarRootOrder rootOrder)) (buildDefaultSidebarRootOrderTokens tags conns)"
    using assms(2) by (auto simp: resolve_closed Let_def dedup_id_filter intro: filter_cong)
qed simp_all

definition sample_tags :: "connection_tag list" where
  "sample_tags = [\<lparr>ctag_id = js ''g'', ctag_name = js ''Group'', ctag_connectionIds = [js ''a'']\<rparr>,
                  \<lparr>ctag_id = js ''h'', ctag_name = js ''Other'', ctag_connectionIds = []\<rparr>]"

definition sample_connection :: "jsstr \<Rightarrow> saved_connection" where
  "sample_connection i = \<lparr>conn_id = i, conn_name = i, conn_fields = (\<lambda>_. None)\<rparr>"

definition sample_connections :: "saved_connection list" where
  "sample_connections = map sample_connection [js ''a'', js ''b'', js ''c'']"

definition sample_sidebar :: sidebar_store where
  "sample_sidebar = with_resolved_root [] sample_tags sample_connections"

lemma sample_ids:
  "map conn_id sample_connections = [js ''a'', js ''b'', js ''c'']"
  "map ctag_id sample_tags = [js ''g'', js ''h'']" "tagged_ids sample_tags = [js ''a'']"
  by (simp_all add: sample_connections_def sample_connection_def sample_tags_def)

lemma sample_trim:
  "trim (js ''a'') = js ''a''" "trim (js ''b'') = js ''b''" "trim (js ''c'') = js ''c''"
  "trim (js ''g'') = js ''g''" "trim (js ''h'') = js ''h''"
  by code_simp+

lemma sample_default:
  "buildDefaultSidebarRootOrderTokens sample_tags sample_connections =
   map js [''tag:g'', ''tag:h'', ''connection:b'', ''connection:c'']"
  using sample_trim sample_ids
  by (simp add: default_map grouped_ids_def comp_def buildSidebarRootTagToken_def buildSidebarRootConnectionToken_def
      SIDEBAR_ROOT_TAG_TOKEN_PREFIX_def SIDEBAR_ROOT_CONNECTION_TOKEN_PREFIX_def js_def sample_tags_def)

lemma sample_named: "ids_named sample_tags sample_connections"
  using sample_trim by (simp add: ids_named_def sample_tags_def sample_connections_def sample_connection_def)

theorem resolveSidebarRootOrderTokens_correct_witness:
  "resolveSidebarRootOrderTokens [js ''connection:c'', js ''tag:x'', js ''tag:h''] sample_tags sample_connections =
   [js ''connection:c'', js ''tag:h'', js ''tag:g'', js ''connection:b'']"
proof -
  have d: "distinct (buildDefaultSidebarRootOrderTokens sample_tags sample_connections)"
    by (simp add: sample_default)
  have "sanitizeSidebarRootOrder [js ''connection:c'', js ''tag:x'', js ''tag:h''] =
      [js ''connection:c'', js ''tag:x'', js ''tag:h'']" by code_simp
  with resolveSidebarRootOrderTokens_correct [OF sample_named d] show ?thesis
    by (simp add: sample_default)
qed


lemma sample_ok: "sidebar_ok sample_sidebar"
  unfolding sample_sidebar_def by (rule with_resolved_ok) (simp_all add: sample_tags_def)


section \<open>Moving\<close>

text \<open>\<open>a\<close> stands directly before or directly after \<open>b\<close>.\<close>

definition stands_beside :: "'a \<Rightarrow> 'a \<Rightarrow> bool \<Rightarrow> 'a list \<Rightarrow> bool" where
  "stands_beside a b before xs \<longleftrightarrow> (\<exists>pre post. xs = pre @ (if before then [a, b] else [b, a]) @ post)"

lemma insert_at_beside:
  assumes "find_index (\<lambda>x. x = b) xs = Some k" and "a \<notin> set xs"
  shows "stands_beside a b before (insert_at (if before then k else Suc k) a xs)"
    and "filter (\<lambda>x. x \<noteq> a) (insert_at j a xs) = xs"
proof -
  from find_index_Some [OF assms(1)] have k: "k < length xs" "xs ! k = b" by auto
  then have "xs = take k xs @ b # drop (Suc k) xs" by (metis id_take_nth_drop)
  moreover have "take (Suc k) xs = take k xs @ [b]" "drop k xs = b # drop (Suc k) xs"
    using k by (simp_all add: take_Suc_conv_app_nth Cons_nth_drop_Suc [symmetric])
  ultimately show "stands_beside a b before (insert_at (if before then k else Suc k) a xs)"
    unfolding stands_beside_def insert_at_def
    by (intro exI [of _ "take k xs"] exI [of _ "drop (Suc k) xs"]) simp
  show "filter (\<lambda>x. x \<noteq> a) (insert_at j a xs) = xs"
    using assms(2) by (subst filter_insert_at) (auto intro: filter_True)
qed

lemma find_index_eq: "b \<in> set xs \<Longrightarrow> \<exists>k. find_index (\<lambda>x. x = b) xs = Some k"
  by (cases "find_index (\<lambda>x. x = b) xs") auto

lemma insert_beside_props:
  assumes "b \<in> set xs" and "a \<notin> set xs"
  shows "stands_beside a b before (insert_beside a b before xs) \<and>
    filter (\<lambda>x. x \<noteq> a) (insert_beside a b before xs) = xs"
proof -
  obtain k where k: "find_index (\<lambda>x. x = b) xs = Some k" using find_index_eq [OF assms(1)] by blast
  then have "normalizeInsertIndex (length xs) (if before then k else k + 1) = (if before then k else Suc k)"
    using find_index_Some [OF k] by (auto simp: normalizeInsertIndex_def)
  with k insert_at_beside(1) [OF k assms(2), of before] insert_at_beside(2) [OF k assms(2)] show ?thesis
    by (simp add: insert_beside_def)
qed

lemma moveSidebarRootToken_props:
  assumes "distinct xs" and "a \<in> set xs" and "b \<in> set xs" and "a \<noteq> b" and "a \<noteq> []" and "b \<noteq> []"
  shows "stands_beside a b before (moveSidebarRootToken xs a b before) \<and>
    filter (\<lambda>x. x \<noteq> a) (moveSidebarRootToken xs a b before) = filter (\<lambda>x. x \<noteq> a) xs \<and>
    set (moveSidebarRootToken xs a b before) = set xs \<and> distinct (moveSidebarRootToken xs a b before)"
proof -
  let ?f = "filter (\<lambda>x. x \<noteq> a) xs"
  obtain k where k: "find_index (\<lambda>x. x = b) ?f = Some k"
    using find_index_eq [of b ?f] assms by auto
  then have "max 0 (min (length ?f) (if before then k else k + 1)) = (if before then k else Suc k)"
    using find_index_Some [OF k] by auto
  with k assms have "moveSidebarRootToken xs a b before = insert_at (if before then k else Suc k) a ?f"
    by (simp add: moveSidebarRootToken_def Let_def)
  with insert_at_beside(1) [OF k, of a before] insert_at_beside(2) [OF k, of a] assms show ?thesis by auto
qed

lemma insertSidebarRootTokenAfter_props:
  assumes "distinct xs" and "t \<in> set xs" and "b \<in> set xs" and "t \<noteq> b" and "t \<noteq> []"
  shows "stands_beside t b False (insertSidebarRootTokenAfter xs t b) \<and>
    set (insertSidebarRootTokenAfter xs t b) = set xs \<and> distinct (insertSidebarRootTokenAfter xs t b)"
proof -
  let ?f = "filter (\<lambda>x. x \<noteq> t) xs"
  obtain k where k: "find_index (\<lambda>x. x = b) ?f = Some k"
    using find_index_eq [of b ?f] assms by auto
  then have "insertSidebarRootTokenAfter xs t b = insert_at (Suc k) t ?f"
    using assms(5) by (simp add: insertSidebarRootTokenAfter_def Let_def)
  with insert_at_beside(1) [OF k, of t False] assms show ?thesis by auto
qed

lemma tagged_once:
  "distinct (tagged_ids tags) \<Longrightarrow> g \<in> set tags \<Longrightarrow> h \<in> set tags \<Longrightarrow>
   i \<in> set (ctag_connectionIds g) \<Longrightarrow> i \<in> set (ctag_connectionIds h) \<Longrightarrow> g = h"
  by (induction tags) fastforce+

lemma token_not_Nil [simp]: "buildSidebarRootTagToken i \<noteq> []" "buildSidebarRootConnectionToken i \<noteq> []"
  "[] \<noteq> buildSidebarRootTagToken i" "[] \<noteq> buildSidebarRootConnectionToken i"
  by (simp_all add: buildSidebarRootTagToken_def buildSidebarRootConnectionToken_def
      SIDEBAR_ROOT_TAG_TOKEN_PREFIX_def SIDEBAR_ROOT_CONNECTION_TOKEN_PREFIX_def)

lemma ids_named_map: "(\<And>t. ctag_id (f t) = ctag_id t) \<Longrightarrow> ids_named (map f tags) conns \<longleftrightarrow> ids_named tags conns"
  by (auto simp: ids_named_def)

lemma ungroup_order:
  assumes "sidebar_ok s" and named: "ids_named (connectionTags s) (connections s)"
    and i: "i \<in> conn_id ` set (connections s)" and g: "g \<in> set (connectionTags s)" "i \<in> set (ctag_connectionIds g)"
  shows "stands_beside (buildSidebarRootConnectionToken i) (buildSidebarRootTagToken (ctag_id g)) False
    (sidebarRootOrder (moveConnectionToTag i None s))"
proof -
  let ?tags = "map (drop_from_tag i) (connectionTags s)"
  let ?next = "resolveSidebarRootOrderTokens (sidebarRootOrder s) ?tags (connections s)"
  let ?ins = "insertSidebarRootTokenAfter ?next (buildSidebarRootConnectionToken i) (buildSidebarRootTagToken (ctag_id g))"
  have "find (\<lambda>tag. i \<in> set (ctag_connectionIds tag)) (connectionTags s) = Some g"
  proof (cases "find (\<lambda>tag. i \<in> set (ctag_connectionIds tag)) (connectionTags s)")
    case None
    with g show ?thesis by (simp add: find_None_iff)
  next
    case (Some h)
    then have "h \<in> set (connectionTags s)" "i \<in> set (ctag_connectionIds h)" by (auto simp: find_Some_iff)
    with g tagged_once assms(1) Some show ?thesis unfolding sidebar_ok_def by metis
  qed
  then have m: "sidebarRootOrder (moveConnectionToTag i None s) =
      resolveSidebarRootOrderTokens ?ins ?tags (connections s)"
    by (simp add: moveConnectionToTag_def Let_def put_in_tag_None with_resolved_root_def truthy_def)
  have "buildSidebarRootTagToken (ctag_id g) \<in> set ?next" using g(1) by (auto simp: default_set image_image)
  moreover have "buildSidebarRootConnectionToken i \<in> set ?next"
    using i by (auto simp: default_set grouped_ids_set)
  ultimately have p: "stands_beside (buildSidebarRootConnectionToken i) (buildSidebarRootTagToken (ctag_id g)) False ?ins"
    "set ?ins = set ?next" "distinct ?ins"
    using insertSidebarRootTokenAfter_props [of ?next "buildSidebarRootConnectionToken i"] by simp_all
  have "resolveSidebarRootOrderTokens ?ins ?tags (connections s) = ?ins"
    using p(2,3) named by (intro resolve_complete) (simp_all add: ids_named_map)
  with m p(1) show ?thesis by simp
qed

text \<open>C14: Moving a connection into a tag puts it in that tag and in no other, and takes it off the root;
  moving it out of its tag puts it in none and shows it directly after the tag it was in. No
  other connection changes tags.\<close>

theorem moveConnectionToTag_correct:
  assumes "sidebar_ok s" and "ids_named (connectionTags s) (connections s)" and "i \<in> conn_id ` set (connections s)"
  shows "map ctag_id (connectionTags (moveConnectionToTag i target s)) = map ctag_id (connectionTags s) \<and>
    (\<forall>t \<in> set (connectionTags (moveConnectionToTag i target s)).
       i \<in> set (ctag_connectionIds t) \<longleftrightarrow> Some (ctag_id t) = target) \<and>
    map (\<lambda>t. filter (\<lambda>j. j \<noteq> i) (ctag_connectionIds t)) (connectionTags (moveConnectionToTag i target s)) =
      map (\<lambda>t. filter (\<lambda>j. j \<noteq> i) (ctag_connectionIds t)) (connectionTags s) \<and>
    (case target of
       None \<Rightarrow> \<forall>g \<in> set (connectionTags s). i \<in> set (ctag_connectionIds g) \<longrightarrow>
         stands_beside (buildSidebarRootConnectionToken i) (buildSidebarRootTagToken (ctag_id g)) False
           (sidebarRootOrder (moveConnectionToTag i target s))
     | Some T \<Rightarrow> T \<noteq> [] \<longrightarrow>
         buildSidebarRootConnectionToken i \<notin> set (sidebarRootOrder (moveConnectionToTag i target s)))"
proof -
  have tags: "connectionTags (moveConnectionToTag i target s) =
      map (put_in_tag (\<lambda>ids. ids @ [i]) i target) (connectionTags s)"
    by (simp add: moveConnectionToTag_def Let_def with_resolved_root_def)
  have "map ctag_id (connectionTags (moveConnectionToTag i target s)) = map ctag_id (connectionTags s)"
    by (simp add: tags)
  moreover have "\<forall>t \<in> set (connectionTags (moveConnectionToTag i target s)).
       i \<in> set (ctag_connectionIds t) \<longleftrightarrow> Some (ctag_id t) = target"
    by (simp add: tags put_in_tag_set [OF inserts_end])
  moreover have "map (\<lambda>t. filter (\<lambda>j. j \<noteq> i) (ctag_connectionIds t)) (connectionTags (moveConnectionToTag i target s)) =
      map (\<lambda>t. filter (\<lambda>j. j \<noteq> i) (ctag_connectionIds t)) (connectionTags s)"
    by (simp add: tags put_in_tag_def)
  moreover have "T \<noteq> [] \<longrightarrow> buildSidebarRootConnectionToken i \<notin> set (sidebarRootOrder (moveConnectionToTag i (Some T) s))" for T
    by (simp add: moveConnectionToTag_def Let_def truthy_def)
  ultimately show ?thesis using ungroup_order [OF assms] by (simp split: option.split)
qed

lemma sample_member: "js ''b'' \<in> conn_id ` set (connections sample_sidebar)" "js ''a'' \<in> conn_id ` set (connections sample_sidebar)"
  "ids_named (connectionTags sample_sidebar) (connections sample_sidebar)"
  using sample_named
  by (simp_all add: sample_sidebar_def with_resolved_root_def sample_connections_def sample_connection_def)

lemma sample_root: "sidebarRootOrder sample_sidebar = map js [''tag:g'', ''tag:h'', ''connection:b'', ''connection:c'']"
proof -
  have "sanitizeSidebarRootOrder [] = []" by code_simp
  then show ?thesis
    by (simp add: sample_sidebar_def with_resolved_root_def resolve_closed sample_default dedup_id_filter)
qed

theorem moveConnectionToTag_correct_witness:
  "buildSidebarRootConnectionToken (js ''b'') \<notin>
     set (sidebarRootOrder (moveConnectionToTag (js ''b'') (Some (js ''h'')) sample_sidebar)) \<and>
   map ctag_id (connectionTags (moveConnectionToTag (js ''b'') (Some (js ''h'')) sample_sidebar)) =
     map ctag_id (connectionTags sample_sidebar)"
  using moveConnectionToTag_correct [OF sample_ok sample_member(3,1), of "Some (js ''h'')"] by simp

text \<open>Removing a connection leaves no trace of it: it is in no tag and not on the root, and the
  order of the other root nodes is kept.\<close>

theorem removeConnection_correct:
  assumes "sidebar_ok s" and "ids_named (connectionTags s) (connections s)"
    and "\<forall>c \<in> set (connections s). trim (conn_id c) = conn_id c" and "trim i = i"
    and "set (sidebarRootOrder s) = set (buildDefaultSidebarRootOrderTokens (connectionTags s) (connections s))"
  shows "i \<notin> conn_id ` set (connections (removeConnection i s)) \<and>
    i \<notin> set (concat (map ctag_connectionIds (connectionTags (removeConnection i s)))) \<and>
    sidebarRootOrder (removeConnection i s) =
      filter (\<lambda>t. t \<noteq> buildSidebarRootConnectionToken i) (sidebarRootOrder s)"
proof (intro conjI)
  let ?tags = "map (drop_from_tag i) (connectionTags s)" and ?conns = "filter (\<lambda>c. conn_id c \<noteq> i) (connections s)"
  have inj: "buildSidebarRootConnectionToken (conn_id c) = buildSidebarRootConnectionToken i \<longleftrightarrow> conn_id c = i"
    if "c \<in> set (connections s)" for c
    using that assms(3,4) by (simp add: buildSidebarRootConnectionToken_def)
  have "grouped_ids ?tags = grouped_ids (connectionTags s) - {i}" by (auto simp: grouped_ids_set)
  then have "conn_id ` set ?conns - grouped_ids ?tags =
      conn_id ` set (connections s) - grouped_ids (connectionTags s) - {i}" by auto
  moreover have "buildSidebarRootConnectionToken ` (conn_id ` set (connections s) - grouped_ids (connectionTags s) - {i}) =
      buildSidebarRootConnectionToken ` (conn_id ` set (connections s) - grouped_ids (connectionTags s)) -
      {buildSidebarRootConnectionToken i}"
    using inj by auto
  ultimately have "set (buildDefaultSidebarRootOrderTokens ?tags ?conns) =
      set (filter (\<lambda>t. t \<noteq> buildSidebarRootConnectionToken i) (sidebarRootOrder s))"
    unfolding assms(5) set_filter default_set by (auto simp: image_image)
  moreover have "ids_named ?tags ?conns" using assms(2) by (auto simp: ids_named_def)
  ultimately show "sidebarRootOrder (removeConnection i s) =
      filter (\<lambda>t. t \<noteq> buildSidebarRootConnectionToken i) (sidebarRootOrder s)"
    using assms(1) unfolding removeConnection_def with_resolved_root_def sidebar_store.simps
    by (intro resolve_complete) (simp_all add: sidebar_ok_def)
qed (auto simp: removeConnection_def with_resolved_root_def)

theorem removeConnection_correct_witness:
  "sidebarRootOrder (removeConnection (js ''b'') sample_sidebar) = map js [''tag:g'', ''tag:h'', ''connection:c'']"
proof -
  have t: "\<forall>c \<in> set (connections sample_sidebar). trim (conn_id c) = conn_id c"
    using sample_trim by (simp add: sample_sidebar_def with_resolved_root_def sample_connections_def sample_connection_def)
  have s: "set (sidebarRootOrder sample_sidebar) =
      set (buildDefaultSidebarRootOrderTokens (connectionTags sample_sidebar) (connections sample_sidebar))"
    by (simp add: sample_sidebar_def with_resolved_root_def)
  have "buildSidebarRootConnectionToken (js ''b'') = js ''connection:b''" by code_simp
  with removeConnection_correct [OF sample_ok sample_member(3) t sample_trim(2) s] show ?thesis
    by (simp add: sample_root)
qed

section \<open>Reordering\<close>

lemma index_map:
  assumes "distinct order" and "k < length order"
  shows "map_of (rev (zip order [0..<length order])) (order ! k) = Some k"
proof (rule map_of_is_SomeI)
  show "distinct (map fst (rev (zip order [0..<length order])))"
    using assms by (simp add: rev_map [symmetric])
  show "(order ! k, k) \<in> set (rev (zip order [0..<length order]))"
    using assms by (auto simp: in_set_zip)
qed

text \<open>The sorted connections, restricted to those with an index, are in the order of the indices.\<close>

lemma sort_by_index_order:
  assumes d: "distinct order" and dc: "distinct (map conn_id conns)" and sub: "set order \<subseteq> conn_id ` set conns"
  shows "map conn_id (filter (\<lambda>c. conn_id c \<in> set order) (sort_by_index order conns)) = order"
proof -
  define idx where "idx j = (case map_of (rev (zip order [0..<length order])) j of Some k \<Rightarrow> k | None \<Rightarrow> length order)" for j
  let ?sorted = "sort_by_index order conns" and ?ys = "map conn_id (filter (\<lambda>c. conn_id c \<in> set order) (sort_by_index order conns))"
  have s: "?sorted = sort_key (idx \<circ> conn_id) conns"
    by (simp add: sort_by_index_def idx_def comp_def)
  have nth: "idx (order ! k) = k" if "k < length order" for k
    using index_map [OF d that] by (simp add: idx_def)
  then have io: "map idx order = [0..<length order]" by (intro nth_equalityI) simp_all
  have inj: "inj_on idx (set order)"
    using io d by (metis distinct_map distinct_upt)
  have "sorted (map (idx \<circ> conn_id) ?sorted)" unfolding s by (rule sorted_sort_key)
  then have "sorted (map idx ?ys)"
    by (simp add: sorted_filter comp_def)
  moreover have ds: "distinct (map conn_id ?sorted)"
  proof -
    have "mset (map conn_id ?sorted) = mset (map conn_id conns)" by (simp add: s)
    with dc show ?thesis using mset_eq_imp_distinct_iff by blast
  qed
  have sety: "set ?ys = set order" using sub by (auto simp: s)
  have "distinct (map idx ?ys)"
    unfolding distinct_map [of idx] sety using distinct_filter_map [OF ds] inj by (rule conjI)
  moreover have "set (map idx ?ys) = set (map idx order)" using sety by (metis set_map)
  moreover have "sorted (map idx order)" "distinct (map idx order)" using io by simp_all
  ultimately have "map idx ?ys = map idx order" by (intro sorted_distinct_set_unique)
  moreover have "inj_on idx (set ?ys \<union> set order)" using inj sety by simp
  ultimately show ?thesis by (metis inj_on_map_eq_map)
qed

definition ungrouped :: "connection_tag list \<Rightarrow> jsstr \<Rightarrow> bool" where
  "ungrouped tags i \<longleftrightarrow> i \<notin> set (concat (map ctag_connectionIds tags))"

lemma reorder_ungrouped:
  fixes before :: bool and s' :: sidebar_store
  assumes "distinct (map conn_id (connections s))" and "a \<in> conn_id ` set (connections s)"
    and "b \<in> conn_id ` set (connections s)" and "a \<noteq> b" and "a \<noteq> []" and "b \<noteq> []"
    and "ungrouped (connectionTags s) b"
    and def: "s' = reorderConnections a b None before s"
  shows "stands_beside a b before (filter (ungrouped (connectionTags s')) (map conn_id (connections s'))) \<and>
    mset (connections s') = mset (connections s)"
proof -
  let ?tags = "map (drop_from_tag a) (connectionTags s)"
  let ?ung = "filter (\<lambda>i. \<not> (\<exists>tag \<in> set ?tags. i \<in> set (ctag_connectionIds tag)))
    (filter (\<lambda>i. i \<noteq> a) (map conn_id (connections s)))"
  let ?order = "insert_beside a b before ?ung"
  have "s' = with_resolved_root (sidebarRootOrder s) ?tags (sort_by_index ?order (connections s))"
    unfolding def reorderConnections_def Let_def truthy_def using assms(4-6) by (simp only: simp_thms if_False)
  then have s': "connections s' = sort_by_index ?order (connections s)" "connectionTags s' = ?tags"
    by (simp_all only: with_resolved_root_def sidebar_store.simps)
  have ba: "b \<in> set ?ung" "a \<notin> set ?ung" using assms(3,4,7) by (auto simp: ungrouped_def)
  note p = insert_beside_props [OF ba, of before]
  have set_order: "set ?order = insert a (set ?ung)" by (rule insertsD(1) [OF inserts_beside])
  have "distinct ?order"
    using insertsD(2) [OF inserts_beside, of a b before ?ung] assms(1) ba(2) by simp
  moreover have "set ?order \<subseteq> conn_id ` set (connections s)" using set_order assms(2) by auto
  ultimately have o: "map conn_id (filter (\<lambda>c. conn_id c \<in> set ?order) (connections s')) = ?order"
    unfolding s' by (intro sort_by_index_order assms(1))
  have m: "mset (connections s') = mset (connections s)" by (simp add: s' sort_by_index_def)
  have "ungrouped ?tags (conn_id c) \<longleftrightarrow> conn_id c \<in> set ?order" if "c \<in> set (connections s)" for c
    unfolding set_order using that by (auto simp: ungrouped_def)
  then have "filter (ungrouped ?tags) (map conn_id (connections s')) =
      map conn_id (filter (\<lambda>c. conn_id c \<in> set ?order) (connections s'))"
    using mset_eq_setD [OF m] by (auto simp: filter_map intro!: arg_cong [of _ _ "map conn_id"] filter_cong)
  with o p m s' show ?thesis by simp
qed

text \<open>Dragging a connection onto another puts it directly before or after it: in the tag of the
  target when one is given, else among the connections outside the tags. The connections
  are permuted, and no other connection changes tags.\<close>

theorem reorderConnections_correct:
  assumes "distinct (map conn_id (connections s))" and "a \<in> conn_id ` set (connections s)"
    and "b \<in> conn_id ` set (connections s)" and "a \<noteq> b" and "a \<noteq> []" and "b \<noteq> []"
  shows "mset (connections (reorderConnections a b target before s)) = mset (connections s) \<and>
    map (\<lambda>t. filter (\<lambda>j. j \<noteq> a) (ctag_connectionIds t)) (connectionTags (reorderConnections a b target before s)) =
      map (\<lambda>t. filter (\<lambda>j. j \<noteq> a) (ctag_connectionIds t)) (connectionTags s) \<and>
    (target = None \<and> ungrouped (connectionTags s) b \<longrightarrow>
       stands_beside a b before
         (filter (ungrouped (connectionTags (reorderConnections a b target before s)))
            (map conn_id (connections (reorderConnections a b target before s))))) \<and>
    (truthy target \<longrightarrow>
       (\<forall>t \<in> set (connectionTags s). Some (ctag_id t) = target \<and> b \<in> set (ctag_connectionIds t) \<longrightarrow>
          (\<exists>u \<in> set (connectionTags (reorderConnections a b target before s)).
             ctag_id u = ctag_id t \<and> stands_beside a b before (ctag_connectionIds u))))"
proof (intro conjI)
  let ?s = "reorderConnections a b target before s"
  show "mset (connections ?s) = mset (connections s)"
    by (simp add: reorderConnections_def Let_def with_resolved_root_def sort_by_index_def)
  have f: "filter (\<lambda>j. j \<noteq> a) (insert_beside a b before (filter (\<lambda>j. j \<noteq> a) ids)) = filter (\<lambda>j. j \<noteq> a) ids" for ids
    by (simp add: insert_beside_def filter_insert_at split: option.split)
  show "map (\<lambda>t. filter (\<lambda>j. j \<noteq> a) (ctag_connectionIds t)) (connectionTags ?s) =
      map (\<lambda>t. filter (\<lambda>j. j \<noteq> a) (ctag_connectionIds t)) (connectionTags s)"
    by (simp add: reorderConnections_def Let_def with_resolved_root_def put_in_tag_def f)
  show "target = None \<and> ungrouped (connectionTags s) b \<longrightarrow>
       stands_beside a b before (filter (ungrouped (connectionTags ?s)) (map conn_id (connections ?s)))"
    using reorder_ungrouped [OF assms, of ?s before] by auto
  show "truthy target \<longrightarrow>
       (\<forall>t \<in> set (connectionTags s). Some (ctag_id t) = target \<and> b \<in> set (ctag_connectionIds t) \<longrightarrow>
          (\<exists>u \<in> set (connectionTags ?s). ctag_id u = ctag_id t \<and> stands_beside a b before (ctag_connectionIds u)))"
  proof (intro impI ballI)
    fix t
    assume tr: "truthy target" and t: "t \<in> set (connectionTags s)" "Some (ctag_id t) = target \<and> b \<in> set (ctag_connectionIds t)"
    let ?u = "put_in_tag (insert_beside a b before) a target t"
    have "?u \<in> set (connectionTags ?s)"
      using tr t(1) assms(4-6) by (simp add: reorderConnections_def with_resolved_root_def)
    moreover have "stands_beside a b before (ctag_connectionIds ?u)"
      using t(2) assms(4) insert_beside_props [of b "filter (\<lambda>j. j \<noteq> a) (ctag_connectionIds t)" a before]
      by (simp add: put_in_tag_def)
    ultimately show "\<exists>u \<in> set (connectionTags ?s). ctag_id u = ctag_id t \<and> stands_beside a b before (ctag_connectionIds u)"
      by (intro bexI [of _ ?u]) simp_all
  qed
qed

theorem reorderConnections_correct_witness:
  "mset (connections (reorderConnections (js ''c'') (js ''b'') None True sample_sidebar)) = mset (connections sample_sidebar) \<and>
   stands_beside (js ''c'') (js ''b'') True
     (filter (ungrouped (connectionTags (reorderConnections (js ''c'') (js ''b'') None True sample_sidebar)))
        (map conn_id (connections (reorderConnections (js ''c'') (js ''b'') None True sample_sidebar))))"
proof -
  have "map conn_id (connections sample_sidebar) = [js ''a'', js ''b'', js ''c'']"
    by (simp add: sample_sidebar_def with_resolved_root_def sample_ids)
  moreover from this have "conn_id ` set (connections sample_sidebar) = {js ''a'', js ''b'', js ''c''}"
    by (metis image_set list.simps(15) set_empty list.set(1))
  moreover have "ungrouped (connectionTags sample_sidebar) (js ''b'')"
    by (simp add: ungrouped_def sample_sidebar_def with_resolved_root_def sample_ids)
  ultimately show ?thesis
    using reorderConnections_correct [of sample_sidebar "js ''c''" "js ''b''" None True] by simp
qed

text \<open>Dragging a root node puts it directly before or after the target, keeping the order of the
  other nodes, and the tags are permuted so that they follow the root order.\<close>

theorem reorderSidebarRoot_correct:
  assumes "sidebar_ok s" and "ids_named (connectionTags s) (connections s)"
    and "\<forall>t \<in> set (connectionTags s). trim (ctag_id t) = ctag_id t"
    and "a \<in> set (buildDefaultSidebarRootOrderTokens (connectionTags s) (connections s))"
    and "b \<in> set (buildDefaultSidebarRootOrderTokens (connectionTags s) (connections s))" and "a \<noteq> b"
  shows "stands_beside a b before (sidebarRootOrder (reorderSidebarRoot a b before s)) \<and>
    filter (\<lambda>t. t \<noteq> a) (sidebarRootOrder (reorderSidebarRoot a b before s)) =
      filter (\<lambda>t. t \<noteq> a) (resolveSidebarRootOrderTokens (sidebarRootOrder s) (connectionTags s) (connections s)) \<and>
    mset (connectionTags (reorderSidebarRoot a b before s)) = mset (connectionTags s) \<and>
    map (buildSidebarRootTagToken \<circ> ctag_id) (connectionTags (reorderSidebarRoot a b before s)) =
      filter isSidebarRootTagToken (sidebarRootOrder (reorderSidebarRoot a b before s))"
proof -
  let ?r = "resolveSidebarRootOrderTokens (sidebarRootOrder s) (connectionTags s) (connections s)"
  let ?m = "moveSidebarRootToken ?r a b before"
  have d: "distinct (map ctag_id (connectionTags s))" using assms(1) by (simp add: sidebar_ok_def)
  have "a \<noteq> []" "b \<noteq> []" using assms(4,5) by (auto simp: default_set)
  with moveSidebarRootToken_props [of ?r a b before] assms(4-6) have
    p: "stands_beside a b before ?m" "filter (\<lambda>x. x \<noteq> a) ?m = filter (\<lambda>x. x \<noteq> a) ?r" "distinct ?m"
      "set ?m = set (buildDefaultSidebarRootOrderTokens (connectionTags s) (connections s))" by simp_all
  have o: "sidebarRootOrder (reorderSidebarRoot a b before s) = ?m"
    "connectionTags (reorderSidebarRoot a b before s) = orderConnectionTagsBySidebarRootOrder (connectionTags s) ?m"
    using resolve_complete [OF assms(2) p(4,3)] by (simp_all add: reorderSidebarRoot_def Let_def)
  have "set (filter isSidebarRootTagToken ?m) = buildSidebarRootTagToken ` ctag_id ` set (connectionTags s)"
    using assms(2) unfolding set_filter p(4) default_set by (auto simp: ids_named_def)
  from orderConnectionTags_tokens [OF d assms(3) p(3) this] orderConnectionTags_mset [OF d] p(1,2)
  show ?thesis by (simp only: o)
qed

theorem reorderSidebarRoot_correct_witness:
  "stands_beside (js ''connection:c'') (js ''tag:h'') True
     (sidebarRootOrder (reorderSidebarRoot (js ''connection:c'') (js ''tag:h'') True sample_sidebar))"
proof -
  have t: "\<forall>t \<in> set (connectionTags sample_sidebar). trim (ctag_id t) = ctag_id t"
    using sample_trim by (simp add: sample_sidebar_def with_resolved_root_def sample_tags_def)
  have "set (buildDefaultSidebarRootOrderTokens (connectionTags sample_sidebar) (connections sample_sidebar)) =
      set (map js [''tag:g'', ''tag:h'', ''connection:b'', ''connection:c''])"
    by (simp add: sample_sidebar_def with_resolved_root_def sample_default)
  with reorderSidebarRoot_correct [OF sample_ok sample_member(3) t, of "js ''connection:c''" "js ''tag:h''" True]
  show ?thesis by simp
qed

section \<open>What moving does not ensure\<close>

text \<open>A move to a tag that does not exist takes the connection off the stored root order although it
  is in no tag; the next resolution puts it at the end.\<close>

lemma moveConnectionToTag_unknown_tag:
  assumes "T \<notin> ctag_id ` set (connectionTags s)" and "T \<noteq> []" and "i \<in> conn_id ` set (connections s)"
  shows "buildSidebarRootConnectionToken i \<notin> set (sidebarRootOrder (moveConnectionToTag i (Some T) s)) \<and>
    buildSidebarRootConnectionToken i \<in> set (buildDefaultSidebarRootOrderTokens
      (connectionTags (moveConnectionToTag i (Some T) s)) (connections (moveConnectionToTag i (Some T) s)))"
proof -
  let ?s = "moveConnectionToTag i (Some T) s"
  have t: "connectionTags ?s = map (put_in_tag (\<lambda>ids. ids @ [i]) i (Some T)) (connectionTags s)"
    "connections ?s = connections s"
    by (simp_all add: moveConnectionToTag_def Let_def with_resolved_root_def)
  have "i \<notin> grouped_ids (connectionTags ?s)"
    using assms(1) by (auto simp: t grouped_ids_set put_in_tag_set [OF inserts_end] split: if_splits)
  with assms(3) have "buildSidebarRootConnectionToken i \<in>
      set (buildDefaultSidebarRootOrderTokens (connectionTags ?s) (connections ?s))"
    unfolding default_set t(2) by blast
  moreover have "buildSidebarRootConnectionToken i \<notin> set (sidebarRootOrder ?s)"
    using assms(2) by (simp add: moveConnectionToTag_def Let_def truthy_def)
  ultimately show ?thesis by blast
qed

end
