(* ===== verification/Json.thy ===== *)
theory Json
  imports JsString
begin

text \<open>
  The values, the printer and the reader of JSON, as the standard library of JavaScript has them
  (\<open>JSON.stringify\<close>, \<open>JSON.parse\<close>). A number is an exact decimal; rounding to a double and the
  exponents that large and tiny numbers are printed with are not modelled. An object is the list of
  its members in the order of the language: keys that are array indices first, ascending.
\<close>

section \<open>Numbers\<close>

text \<open>\<open>(m, k)\<close> is \<open>m / 10 ^ k\<close>; it is normal when the last digit after the point is not zero.\<close>

type_synonym decimal = "int \<times> nat"

primrec dec_norm :: "int \<Rightarrow> nat \<Rightarrow> decimal" where
  "dec_norm m 0 = (m, 0)"
| "dec_norm m (Suc k) = (if m mod 10 = 0 then dec_norm (m div 10) k else (m, Suc k))"

definition pad_zeros :: "nat \<Rightarrow> jsstr \<Rightarrow> jsstr" where
  "pad_zeros n s = replicate (n - length s) 48 @ s"

definition dec_str :: "decimal \<Rightarrow> jsstr" where
  "dec_str d =
     (let (m, k) = d; s = pad_zeros (k + 1) (nat_str (nat \<bar>m\<bar>)) in
      (if m < 0 then [cu CHR ''-''] else []) @ take (length s - k) s @
      (if k = 0 then [] else cu CHR ''.'' # drop (length s - k) s))"

definition digits_of :: "jsstr \<Rightarrow> jsstr" where
  "digits_of s = takeWhile ascii_digit s"

definition int_part :: "jsstr \<Rightarrow> jsstr" where
  "int_part s = (case s of c # _ \<Rightarrow> if c = 48 then [48] else digits_of s | [] \<Rightarrow> [])"

text \<open>\<open>None\<close> is a point or an exponent without digits.\<close>

definition read_fraction :: "jsstr \<Rightarrow> (jsstr \<times> jsstr) option" where
  "read_fraction s =
     (case s of
        c # t \<Rightarrow>
          if c \<noteq> cu CHR ''.'' then Some ([], s)
          else if digits_of t = [] then None else Some (digits_of t, drop (length (digits_of t)) t)
      | [] \<Rightarrow> Some ([], []))"

definition read_exponent :: "jsstr \<Rightarrow> (int \<times> jsstr) option" where
  "read_exponent s =
     (case s of
        c # t \<Rightarrow>
          if c \<noteq> cu CHR ''e'' \<and> c \<noteq> cu CHR ''E'' then Some (0, s)
          else
            (let neg = (t \<noteq> [] \<and> hd t = cu CHR ''-'');
                 u = (if t \<noteq> [] \<and> (hd t = cu CHR ''-'' \<or> hd t = cu CHR ''+'') then tl t else t)
             in if digits_of u = [] then None
                else Some ((if neg then -1 else 1) * int (digits_value (digits_of u)), drop (length (digits_of u)) u))
      | [] \<Rightarrow> Some (0, []))"

definition scale_decimal :: "int \<Rightarrow> nat \<Rightarrow> int \<Rightarrow> decimal" where
  "scale_decimal m k e =
     (if 0 \<le> e then (if nat e \<le> k then dec_norm m (k - nat e) else (m * 10 ^ (nat e - k), 0))
      else dec_norm m (k + nat (- e)))"

definition read_number :: "jsstr \<Rightarrow> (decimal \<times> jsstr) option" where
  "read_number s =
     (let neg = (s \<noteq> [] \<and> hd s = cu CHR ''-''); t = (if neg then tl s else s); i = int_part t in
      if i = [] then None
      else
        (case read_fraction (drop (length i) t) of
           None \<Rightarrow> None
         | Some (f, u) \<Rightarrow>
             (case read_exponent u of
                None \<Rightarrow> None
              | Some (e, r) \<Rightarrow>
                  Some (scale_decimal ((if neg then -1 else 1) * int (digits_value (i @ f))) (length f) e, r))))"

section \<open>Strings\<close>

definition high_surrogate :: "jschar \<Rightarrow> bool" where
  "high_surrogate c \<longleftrightarrow> 55296 \<le> c \<and> c \<le> 56319"

definition low_surrogate :: "jschar \<Rightarrow> bool" where
  "low_surrogate c \<longleftrightarrow> 56320 \<le> c \<and> c \<le> 57343"

definition hex_digit :: "int \<Rightarrow> jschar" where
  "hex_digit n = (if n < 10 then 48 + n else 87 + n)"

definition hex_value :: "jschar \<Rightarrow> int option" where
  "hex_value c =
     (if 48 \<le> c \<and> c \<le> 57 then Some (c - 48)
      else if 97 \<le> c \<and> c \<le> 102 then Some (c - 87)
      else if 65 \<le> c \<and> c \<le> 70 then Some (c - 55)
      else None)"

definition hex4 :: "jschar \<Rightarrow> jsstr" where
  "hex4 c = [hex_digit (c div 4096 mod 16), hex_digit (c div 256 mod 16), hex_digit (c div 16 mod 16),
     hex_digit (c mod 16)]"

fun read_hex4 :: "jsstr \<Rightarrow> (jschar \<times> jsstr) option" where
  "read_hex4 (a # b # c # d # s) =
     (case (hex_value a, hex_value b, hex_value c, hex_value d) of
        (Some w, Some x, Some y, Some z) \<Rightarrow> Some (4096 * w + 256 * x + 16 * y + z, s)
      | _ \<Rightarrow> None)"
| "read_hex4 _ = None"

definition short_escapes :: "(jschar \<times> jschar) list" where
  "short_escapes = [(dquote, dquote), (backslash, backslash), (8, cu CHR ''b''), (9, cu CHR ''t''),
     (10, cu CHR ''n''), (12, cu CHR ''f''), (13, cu CHR ''r'')]"

definition escape_unit :: "jschar \<Rightarrow> jsstr" where
  "escape_unit c =
     (case map_of short_escapes c of
        Some e \<Rightarrow> [backslash, e]
      | None \<Rightarrow> if c < 32 \<or> high_surrogate c \<or> low_surrogate c then backslash # cu CHR ''u'' # hex4 c else [c])"

fun json_escape :: "jsstr \<Rightarrow> jsstr" where
  "json_escape (c # d # s) =
     (if high_surrogate c \<and> low_surrogate d then c # d # json_escape s else escape_unit c @ json_escape (d # s))"
| "json_escape [c] = escape_unit c"
| "json_escape [] = []"

definition read_escapes :: "(jschar \<times> jschar) list" where
  "read_escapes = (cu CHR ''/'', cu CHR ''/'') # map (\<lambda>(c, e). (e, c)) short_escapes"

definition read_unit :: "jsstr \<Rightarrow> (jschar \<times> jsstr) option" where
  "read_unit s =
     (case s of
        [] \<Rightarrow> None
      | c # t \<Rightarrow>
          if c = backslash then
            (case t of
               [] \<Rightarrow> None
             | e # u \<Rightarrow> if e = cu CHR ''u'' then read_hex4 u
                        else (case map_of read_escapes e of Some x \<Rightarrow> Some (x, u) | None \<Rightarrow> None))
          else if c < 32 then None else Some (c, t))"

lemma read_hex4_shorter: "read_hex4 s = Some (c, r) \<Longrightarrow> length r < length s"
  by (induction s rule: read_hex4.induct) (auto split: option.splits)

lemma read_unit_shorter: "read_unit s = Some (c, r) \<Longrightarrow> length r < length s"
  by (auto simp: read_unit_def dest: read_hex4_shorter split: list.splits if_splits option.splits)

text \<open>The rest of a string after its opening quote, up to the closing one.\<close>

function read_string :: "jsstr \<Rightarrow> (jsstr \<times> jsstr) option" where
  "read_string s =
     (if s \<noteq> [] \<and> hd s = dquote then Some ([], tl s)
      else
        (case read_unit s of
           None \<Rightarrow> None
         | Some (c, r) \<Rightarrow> (case read_string r of None \<Rightarrow> None | Some (cs, r') \<Rightarrow> Some (c # cs, r'))))"
  by pat_completeness auto
termination
  by (relation "measure length") (auto dest: read_unit_shorter)

declare read_string.simps [simp del]

section \<open>Values\<close>

datatype json =
    JNull
  | JBool bool
  | JNum decimal
  | JStr jsstr
  | JArr "json list"
  | JObj "(jsstr \<times> json) list"

definition is_index_key :: "jsstr \<Rightarrow> bool" where
  "is_index_key k \<longleftrightarrow> k \<noteq> [] \<and> (\<forall>c \<in> set k. ascii_digit c) \<and> (k = [48] \<or> hd k \<noteq> 48) \<and>
     int (digits_value k) < 4294967295"

text \<open>\<open>o[k] = v\<close>.\<close>

definition obj_put :: "jsstr \<Rightarrow> json \<Rightarrow> (jsstr \<times> json) list \<Rightarrow> (jsstr \<times> json) list" where
  "obj_put k v ms =
     (if k \<in> fst ` set ms then map (\<lambda>p. if fst p = k then (k, v) else p) ms
      else if is_index_key k then
        (let before = (\<lambda>p :: jsstr \<times> json. is_index_key (fst p) \<and> digits_value (fst p) < digits_value k)
         in takeWhile before ms @ (k, v) # dropWhile before ms)
      else ms @ [(k, v)])"

definition obj_of :: "(jsstr \<times> json) list \<Rightarrow> (jsstr \<times> json) list" where
  "obj_of ms = foldl (\<lambda>acc p. obj_put (fst p) (snd p) acc) [] ms"

definition quote_json :: "jsstr \<Rightarrow> jsstr" where
  "quote_json s = dquote # json_escape s @ [dquote]"

fun stringify :: "json \<Rightarrow> jsstr" where
  "stringify JNull = js ''null''"
| "stringify (JBool b) = (if b then js ''true'' else js ''false'')"
| "stringify (JNum d) = dec_str d"
| "stringify (JStr s) = quote_json s"
| "stringify (JArr vs) = cu CHR ''['' # join (js '','') (map stringify vs) @ js '']''"
| "stringify (JObj ms) =
     cu CHR ''{'' # join (js '','') (map (\<lambda>p. quote_json (fst p) @ cu CHR '':'' # stringify (snd p)) ms) @ js ''}''"

definition json_space :: "jschar \<Rightarrow> bool" where
  "json_space c \<longleftrightarrow> c = cu CHR '' '' \<or> c = 9 \<or> c = 10 \<or> c = 13"

definition skip_space :: "jsstr \<Rightarrow> jsstr" where
  "skip_space s = dropWhile json_space s"

text \<open>The first word of the list that starts the text.\<close>

definition json_words :: "(jsstr \<times> json) list" where
  "json_words = [(js ''null'', JNull), (js ''true'', JBool True), (js ''false'', JBool False)]"

definition read_word :: "jsstr \<Rightarrow> (json \<times> jsstr) option" where
  "read_word s =
     (case find (\<lambda>w. starts_with s (fst w)) json_words of
        Some w \<Rightarrow> Some (snd w, drop (length (fst w)) s)
      | None \<Rightarrow> (case read_number s of Some (d, r) \<Rightarrow> Some (JNum d, r) | None \<Rightarrow> None))"

text \<open>The readers have fuel; twice the length of the text is enough, since nesting one level deeper
  takes two readers and two characters.\<close>

fun parse_value :: "nat \<Rightarrow> jsstr \<Rightarrow> (json \<times> jsstr) option"
  and parse_elems :: "nat \<Rightarrow> jsstr \<Rightarrow> (json list \<times> jsstr) option"
  and parse_members :: "nat \<Rightarrow> jsstr \<Rightarrow> ((jsstr \<times> json) list \<times> jsstr) option"
where
  "parse_value 0 s = None"
| "parse_value (Suc n) s =
     (case skip_space s of
        [] \<Rightarrow> None
      | c # t \<Rightarrow>
          if c = dquote then (case read_string t of Some (x, r) \<Rightarrow> Some (JStr x, r) | None \<Rightarrow> None)
          else if c = cu CHR ''['' then
            (case skip_space t of
               d # u \<Rightarrow> if d = cu CHR '']'' then Some (JArr [], u)
                        else (case parse_elems n (d # u) of Some (vs, r) \<Rightarrow> Some (JArr vs, r) | None \<Rightarrow> None)
             | [] \<Rightarrow> None)
          else if c = cu CHR ''{'' then
            (case skip_space t of
               d # u \<Rightarrow> if d = cu CHR ''}'' then Some (JObj [], u)
                        else (case parse_members n (d # u) of
                                Some (ms, r) \<Rightarrow> Some (JObj (obj_of ms), r) | None \<Rightarrow> None)
             | [] \<Rightarrow> None)
          else read_word (c # t))"
| "parse_elems 0 s = None"
| "parse_elems (Suc n) s =
     (case parse_value n s of
        None \<Rightarrow> None
      | Some (v, r) \<Rightarrow>
          (case skip_space r of
             d # u \<Rightarrow>
               if d = cu CHR '','' then
                 (case parse_elems n u of Some (vs, r') \<Rightarrow> Some (v # vs, r') | None \<Rightarrow> None)
               else if d = cu CHR '']'' then Some ([v], u) else None
           | [] \<Rightarrow> None))"
| "parse_members 0 s = None"
| "parse_members (Suc n) s =
     (case skip_space s of
        c # t \<Rightarrow>
          if c \<noteq> dquote then None
          else
            (case read_string t of
               None \<Rightarrow> None
             | Some (k, r) \<Rightarrow>
                 (case skip_space r of
                    d # u \<Rightarrow>
                      if d \<noteq> cu CHR '':'' then None
                      else
                        (case parse_value n u of
                           None \<Rightarrow> None
                         | Some (v, r') \<Rightarrow>
                             (case skip_space r' of
                                e # w \<Rightarrow>
                                  if e = cu CHR '','' then
                                    (case parse_members n w of
                                       Some (ms, r'') \<Rightarrow> Some ((k, v) # ms, r'') | None \<Rightarrow> None)
                                  else if e = cu CHR ''}'' then Some ([(k, v)], w) else None
                              | [] \<Rightarrow> None))
                  | [] \<Rightarrow> None))
      | [] \<Rightarrow> None)"

definition parse_json :: "jsstr \<Rightarrow> json option" where
  "parse_json s =
     (case parse_value (2 * length s + 2) s of
        Some (v, r) \<Rightarrow> if skip_space r = [] then Some v else None
      | None \<Rightarrow> None)"

section \<open>Names of members\<close>

lemma obj_put_names: "fst ` set (obj_put k v ms) = insert k (fst ` set ms)"
proof (cases "k \<in> fst ` set ms")
  case True
  have "fst ` set (map (\<lambda>p. if fst p = k then (k, v) else p) ms) = fst ` set ms"
    unfolding set_map image_image by (rule image_cong) simp_all
  with True show ?thesis by (simp add: obj_put_def insert_absorb)
next
  case False
  have "set (takeWhile P ms) \<union> set (dropWhile P ms) = set ms" for P
    by (simp only: set_append [symmetric] takeWhile_dropWhile_id)
  then have "set (takeWhile P ms @ (k, v) # dropWhile P ms) = insert (k, v) (set ms)" for P by auto
  with False show ?thesis by (simp add: obj_put_def Let_def)
qed

lemma obj_of_names: "fst ` set (obj_of ms) = fst ` set ms"
proof -
  have "fst ` set (foldl (\<lambda>acc p. obj_put (fst p) (snd p) acc) acc ms) = fst ` set acc \<union> fst ` set ms" for acc
    by (induction ms arbitrary: acc) (auto simp: obj_put_names)
  then show ?thesis by (simp add: obj_of_def)
qed

section \<open>Numbers are read back\<close>

lemma digits_of_append:
  assumes "\<forall>c \<in> set ds. ascii_digit c" and "rest = [] \<or> \<not> ascii_digit (hd rest)"
  shows "digits_of (ds @ rest) = ds"
  using assms by (cases rest) (auto simp: digits_of_def takeWhile_append)

lemma digits_value_append_zeros: "digits_value (replicate k 48 @ s) = digits_value s"
proof -
  have "foldl (\<lambda>v c. 10 * v + nat (c - 48)) 0 (replicate k 48 @ s) = foldl (\<lambda>v c. 10 * v + nat (c - 48)) 0 s"
    by (induction k) simp_all
  then show ?thesis by (simp add: digits_value_def)
qed

lemma nat_str_hd: "0 < n \<Longrightarrow> hd (nat_str n) \<noteq> 48"
proof (induction n rule: nat_str.induct)
  case (1 n)
  then show ?case by (subst nat_str.simps) (auto simp: hd_append)
qed

lemma int_part_append:
  assumes "i \<noteq> []" and "\<forall>c \<in> set i. ascii_digit c" and "hd i = 48 \<longrightarrow> i = [48]"
    and "rest = [] \<or> \<not> ascii_digit (hd rest)"
  shows "int_part (i @ rest) = i"
proof (cases "hd i = 48")
  case True
  with assms(3) show ?thesis by (simp add: int_part_def)
next
  case False
  obtain c j where i: "i = c # j" using assms(1) by (cases i) auto
  have "digits_of (i @ rest) = i" by (rule digits_of_append [OF assms(2,4)])
  with i False show ?thesis by (simp add: int_part_def)
qed

text \<open>What may follow a value.\<close>

definition delimited :: "jsstr \<Rightarrow> bool" where
  "delimited rest \<longleftrightarrow> rest = [] \<or> hd rest = cu CHR '','' \<or> hd rest = cu CHR '']'' \<or> hd rest = cu CHR ''}''"

lemma delimited_facts:
  assumes "delimited rest"
  shows "rest = [] \<or> \<not> ascii_digit (hd rest)" and "read_exponent rest = Some (0, rest)"
    and "read_fraction rest = Some ([], rest)"
  using assms by (cases rest; auto simp: delimited_def read_exponent_def read_fraction_def ascii_digit_def cu_def)+

definition decimal_ok :: "decimal \<Rightarrow> bool" where
  "decimal_ok d \<longleftrightarrow> dec_norm (fst d) (snd d) = d"

lemma read_digits_fraction:
  assumes "delimited rest" and "f \<noteq> []" and "\<forall>c \<in> set f. ascii_digit c"
  shows "read_fraction (cu CHR ''.'' # f @ rest) = Some (f, rest)"
  using digits_of_append [OF assms(3) delimited_facts(1) [OF assms(1)]] assms(2)
  by (simp add: read_fraction_def)

lemma read_number_parts:
  assumes "i \<noteq> []" and "\<forall>c \<in> set (i @ f). ascii_digit c" and "hd i = 48 \<longrightarrow> i = [48]" and "delimited rest"
  shows "read_number ((if neg then [cu CHR ''-''] else []) @ i @ (if f = [] then [] else cu CHR ''.'' # f) @ rest) =
    Some (dec_norm ((if neg then -1 else 1) * int (digits_value (i @ f))) (length f), rest)"
proof -
  let ?tail = "(if f = [] then [] else cu CHR ''.'' # f) @ rest"
  let ?t = "i @ ?tail"
  obtain c j where i: "i = c # j" using assms(1) by (cases i) auto
  then have c: "ascii_digit c" using assms(2) by simp
  have "?tail = [] \<or> \<not> ascii_digit (hd ?tail)"
    using delimited_facts(1) [OF assms(4)] by (auto simp: ascii_digit_def cu_def)
  then have ip: "int_part ?t = i" using assms by (intro int_part_append) auto
  have fr: "read_fraction ?tail = Some (f, rest)"
    using read_digits_fraction [OF assms(4)] delimited_facts(3) [OF assms(4)] assms(2) by auto
  have d: "drop (length i) ?t = ?tail" by simp
  have s: "hd ?t \<noteq> cu CHR ''-''" using c i by (auto simp: ascii_digit_def cu_def)
  let ?s = "(if neg then [cu CHR ''-''] else []) @ ?t"
  have n: "(?s \<noteq> [] \<and> hd ?s = cu CHR ''-'') = neg" using s i by auto
  have tl: "(if neg then tl ?s else ?s) = ?t" by auto
  show ?thesis
    unfolding read_number_def Let_def n tl ip d fr
    using assms(1) delimited_facts(2) [OF assms(4)] by (simp add: scale_decimal_def)
qed

lemma dec_norm_zero: "dec_norm 0 k = (0, 0)"
  by (induction k) simp_all

lemma read_dec_str:
  assumes "decimal_ok d" and "delimited rest"
  shows "read_number (dec_str d @ rest) = Some (d, rest)"
proof -
  obtain m k where d: "d = (m, k)" by fastforce
  let ?n = "nat \<bar>m\<bar>" and ?s = "pad_zeros (k + 1) (nat_str (nat \<bar>m\<bar>))"
  let ?i = "take (length ?s - k) ?s" and ?f = "drop (length ?s - k) ?s"
  have len: "k < length ?s" by (simp add: pad_zeros_def)
  have dig: "\<forall>c \<in> set ?s. ascii_digit c"
    using nat_str_digits [of ?n] by (auto simp: pad_zeros_def ascii_digit_def)
  have "?s \<noteq> []" using len by (metis list.size(3) not_less_zero)
  with len have i: "?i \<noteq> []" by simp
  have lf: "length ?f = k" using len by simp
  have v: "digits_value (?i @ ?f) = ?n"
    unfolding append_take_drop_id by (simp add: pad_zeros_def digits_value_append_zeros)
  have z: "hd ?i = 48 \<longrightarrow> ?i = [48]"
  proof (cases "length (nat_str ?n) \<le> k")
    case True
    then have "length ?s = k + 1" by (simp add: pad_zeros_def)
    then have "length ?i = Suc 0" by simp
    then obtain a where "?i = [a]" by (metis length_0_conv length_Suc_conv)
    then show ?thesis by (metis list.sel(1))
  next
    case False
    then have s: "?s = nat_str ?n" by (simp add: pad_zeros_def)
    show ?thesis
    proof (cases "?n = 0")
      case True
      have "nat_str 0 = [48]" by (subst nat_str.simps) simp
      with True s False show ?thesis by simp
    next
      case nz: False
      have "hd ?i = hd ?s" using i by (metis append_take_drop_id hd_append2)
      then have "hd ?i \<noteq> 48" using nat_str_hd [of ?n] nz unfolding s by simp
      then show ?thesis by simp
    qed
  qed
  have e: "dec_str d = (if m < 0 then [cu CHR ''-''] else []) @ ?i @ (if ?f = [] then [] else cu CHR ''.'' # ?f)"
    using lf by (auto simp: dec_str_def d Let_def)
  have "\<forall>c \<in> set (?i @ ?f). ascii_digit c" unfolding append_take_drop_id by (rule dig)
  from read_number_parts [OF i this z assms(2), of "m < 0"]
  have r: "read_number (dec_str d @ rest) =
      Some (dec_norm ((if m < 0 then -1 else 1) * int (digits_value (?i @ ?f))) (length ?f), rest)"
    unfolding e by simp
  have m: "(if m < 0 then -1 else 1) * int ?n = m" by simp
  have "dec_norm m k = d" using assms(1) by (simp add: d decimal_ok_def)
  then show ?thesis unfolding r v lf m by simp
qed

section \<open>Strings are read back\<close>

lemma hex_value_digit: "0 \<le> n \<Longrightarrow> n < 16 \<Longrightarrow> hex_value (hex_digit n) = Some n"
  by (simp add: hex_value_def hex_digit_def)

lemma read_hex4_hex4:
  assumes "0 \<le> c" and "c < 65536"
  shows "read_hex4 (hex4 c @ s) = Some (c, s)"
proof -
  have h: "hex_value (hex_digit (x mod 16)) = Some (x mod 16)" for x by (rule hex_value_digit) simp_all
  have m: "c div 4096 mod 16 = c div 4096" using assms by simp
  have e: "4096 * (c div 4096 mod 16) + 256 * (c div 256 mod 16) + 16 * (c div 16 mod 16) + c mod 16 = c"
  proof -
    have "c div 256 = c div 16 div 16" "c div 4096 = c div 256 div 16"
      by (simp_all add: zdiv_zmult2_eq [symmetric])
    then show ?thesis
      using m mult_div_mod_eq [of 16 c] mult_div_mod_eq [of 16 "c div 16"]
        mult_div_mod_eq [of 16 "c div 256"] by linarith
  qed
  have r: "read_hex4 (hex4 c @ s) =
      Some (4096 * (c div 4096 mod 16) + 256 * (c div 256 mod 16) + 16 * (c div 16 mod 16) + c mod 16, s)"
    by (simp only: hex4_def append.simps read_hex4.simps h prod.case option.case)
  show ?thesis unfolding r e ..
qed

lemma read_unit_escape:
  assumes "0 \<le> c"
  shows "read_unit (escape_unit c @ s) = Some (c, s)" and "hd (escape_unit c @ s) \<noteq> dquote"
proof -
  have "read_unit (escape_unit c @ s) = Some (c, s) \<and> hd (escape_unit c @ s) \<noteq> dquote"
  proof (cases "map_of short_escapes c")
    case (Some e)
    then consider "c = dquote" "e = dquote" | "c = backslash" "e = backslash" | "c = 8" "e = cu CHR ''b''"
      | "c = 9" "e = cu CHR ''t''" | "c = 10" "e = cu CHR ''n''" | "c = 12" "e = cu CHR ''f''" | "c = 13" "e = cu CHR ''r''"
      by (auto simp: short_escapes_def split: if_splits)
    then show ?thesis
      by cases (simp_all add: Some escape_unit_def read_unit_def read_escapes_def short_escapes_def cu_def)
  next
    case None
    then have n: "c \<noteq> dquote" "c \<noteq> backslash" by (auto simp: short_escapes_def split: if_splits)
    show ?thesis
    proof (cases "c < 32 \<or> high_surrogate c \<or> low_surrogate c")
      case True
      then have "c < 65536" by (auto simp: high_surrogate_def low_surrogate_def)
      with True None assms show ?thesis by (simp add: escape_unit_def read_unit_def read_hex4_hex4)
    next
      case False
      with None n show ?thesis by (simp add: escape_unit_def read_unit_def)
    qed
  qed
  then show "read_unit (escape_unit c @ s) = Some (c, s)" and "hd (escape_unit c @ s) \<noteq> dquote" by auto
qed

lemma escape_unit_nonempty [simp]: "escape_unit c \<noteq> []"
  by (simp add: escape_unit_def split: option.split)

lemma read_string_step:
  assumes "read_unit s = Some (c, r)" and "hd s \<noteq> dquote" and "read_string r = Some (cs, r')"
  shows "read_string s = Some (c # cs, r')"
  using assms by (subst read_string.simps) simp

lemma read_string_escape:
  assumes "\<forall>c \<in> set s. 0 \<le> c"
  shows "read_string (json_escape s @ dquote # rest) = Some (s, rest)"
  using assms
proof (induction s rule: json_escape.induct)
  case (1 c d s)
  have u: "read_unit (escape_unit c @ t) = Some (c, t)" "hd (escape_unit c @ t) \<noteq> dquote" for t
    using read_unit_escape [of c t] "1.prems" by simp_all
  show ?case
  proof (cases "high_surrogate c \<and> low_surrogate d")
    case True
    then have r: "read_unit (c # t) = Some (c, t)" "read_unit (d # t) = Some (d, t)" "c \<noteq> dquote" "d \<noteq> dquote" for t
      by (auto simp: read_unit_def high_surrogate_def low_surrogate_def cu_def)
    have "read_string (d # json_escape s @ dquote # rest) = Some (d # s, rest)"
      by (rule read_string_step [OF r(2)]) (use "1.IH"(1) [OF True] "1.prems" r in simp_all)
    then have "read_string (c # d # json_escape s @ dquote # rest) = Some (c # d # s, rest)"
      using r by (intro read_string_step [OF r(1)]) simp_all
    with True show ?thesis by simp
  next
    case False
    then have "read_string (json_escape (d # s) @ dquote # rest) = Some (d # s, rest)"
      using "1.IH"(2) "1.prems" by simp
    from read_string_step [OF u this] False show ?thesis by auto
  qed
next
  case (2 c)
  have "read_string (dquote # rest) = Some ([], rest)" by (subst read_string.simps) simp
  moreover have "0 \<le> c" using 2 by simp
  ultimately show ?case using read_string_step [OF read_unit_escape [of c "dquote # rest"]] by simp
next
  case 3
  show ?case by (subst json_escape.simps, subst read_string.simps) simp
qed

section \<open>Values are read back\<close>

fun json_ok :: "json \<Rightarrow> bool" where
  "json_ok JNull \<longleftrightarrow> True"
| "json_ok (JBool b) \<longleftrightarrow> True"
| "json_ok (JNum d) \<longleftrightarrow> decimal_ok d"
| "json_ok (JStr s) \<longleftrightarrow> (\<forall>c \<in> set s. 0 \<le> c)"
| "json_ok (JArr vs) \<longleftrightarrow> (\<forall>v \<in> set vs. json_ok v)"
| "json_ok (JObj ms) \<longleftrightarrow> obj_of ms = ms \<and> (\<forall>p \<in> set ms. (\<forall>c \<in> set (fst p). 0 \<le> c) \<and> json_ok (snd p))"

lemma skip_space_id: "s = [] \<or> \<not> json_space (hd s) \<Longrightarrow> skip_space s = s"
  by (cases s) (auto simp: skip_space_def)

lemma skip_space_chars [simp]:
  "skip_space (dquote # s) = dquote # s" "skip_space (cu CHR ''['' # s) = cu CHR ''['' # s"
  "skip_space (cu CHR ''{'' # s) = cu CHR ''{'' # s" "skip_space (cu CHR '','' # s) = cu CHR '','' # s"
  "skip_space (cu CHR '']'' # s) = cu CHR '']'' # s" "skip_space (cu CHR ''}'' # s) = cu CHR ''}'' # s"
  "skip_space (cu CHR '':'' # s) = cu CHR '':'' # s"
  by (simp_all add: skip_space_def json_space_def cu_def)

text \<open>The first character of a value.\<close>

definition value_start :: "jschar \<Rightarrow> bool" where
  "value_start c \<longleftrightarrow> \<not> json_space c \<and> c \<noteq> cu CHR '']'' \<and> c \<noteq> cu CHR ''}''"

definition word_start :: "jschar \<Rightarrow> bool" where
  "word_start c \<longleftrightarrow> value_start c \<and> c \<noteq> dquote \<and> c \<noteq> cu CHR ''['' \<and> c \<noteq> cu CHR ''{''"

lemma dec_str_start:
  obtains c t where "dec_str d = c # t" and "ascii_digit c \<or> c = cu CHR ''-''"
proof -
  obtain m k where d: "d = (m, k)" by fastforce
  let ?s = "pad_zeros (k + 1) (nat_str (nat \<bar>m\<bar>))"
  have dig: "\<forall>c \<in> set ?s. ascii_digit c"
    using nat_str_digits by (auto simp: pad_zeros_def ascii_digit_def)
  have "k < length ?s" by (simp add: pad_zeros_def)
  then have "length (take (length ?s - k) ?s) \<noteq> 0" by simp
  then obtain c t where i: "take (length ?s - k) ?s = c # t" by (cases "take (length ?s - k) ?s") auto
  then have "ascii_digit c" using dig by (metis in_set_takeD list.set_intros(1))
  with i that show ?thesis by (cases "m < 0") (auto simp: dec_str_def d Let_def)
qed

lemma digit_word_start: "ascii_digit c \<or> c = cu CHR ''-'' \<Longrightarrow> word_start c"
  by (auto simp: word_start_def value_start_def json_space_def ascii_digit_def cu_def)

lemma parse_word:
  assumes "word_start c" and "read_word (c # t) = Some (v, r)" and "0 < n"
  shows "parse_value n (c # t) = Some (v, r)"
proof -
  have "skip_space (c # t) = c # t" using assms(1) by (simp add: skip_space_id word_start_def value_start_def)
  with assms show ?thesis by (cases n) (simp_all add: word_start_def)
qed

lemma read_word_number:
  assumes "decimal_ok d" and "delimited rest"
  shows "read_word (dec_str d @ rest) = Some (JNum d, rest)"
proof -
  obtain c t where c: "dec_str d = c # t" "ascii_digit c \<or> c = cu CHR ''-''" using dec_str_start by blast
  have "\<not> starts_with (c # u) (fst w)" if "w \<in> set json_words" for w u
    using that c(2) by (auto simp: json_words_def starts_with_def starts_with_at_def js_def ascii_digit_def cu_def)
  then have "find (\<lambda>w. starts_with (dec_str d @ rest) (fst w)) json_words = None"
    by (auto simp: find_None_iff c(1))
  then show ?thesis by (simp add: read_word_def read_dec_str [OF assms])
qed

lemma stringify_start: "\<exists>c t. stringify v = c # t \<and> value_start c"
proof (cases v)
  case (JNum d)
  then show ?thesis using dec_str_start [of d] digit_word_start by (metis stringify.simps(3) word_start_def)
qed (auto simp: js_def quote_json_def value_start_def json_space_def cu_def)

lemma parse_elems_back:
  assumes "vs \<noteq> []" and "length (join (js '','') (map stringify vs)) < n"
    and "\<And>v m rest. v \<in> set vs \<Longrightarrow> length (stringify v) \<le> m \<Longrightarrow> delimited rest \<Longrightarrow>
      parse_value m (stringify v @ rest) = Some (v, rest)"
  shows "parse_elems n (join (js '','') (map stringify vs) @ cu CHR '']'' # rest) = Some (vs, rest)"
  using assms
proof (induction vs arbitrary: n)
  case (Cons v vs)
  obtain m where n: "n = Suc m" using Cons.prems(2) by (cases n) auto
  show ?case
  proof (cases vs)
    case Nil
    have "parse_value m (stringify v @ cu CHR '']'' # rest) = Some (v, cu CHR '']'' # rest)"
      using Cons.prems Nil n by (intro Cons.prems(3)) (simp_all add: delimited_def)
    then show ?thesis by (simp add: Nil n)
  next
    case (Cons w ws)
    let ?tail = "join (js '','') (map stringify vs) @ cu CHR '']'' # rest"
    have j: "join (js '','') (map stringify (v # vs)) = stringify v @ cu CHR '','' # join (js '','') (map stringify vs)"
      by (simp add: Cons js_def)
    have "parse_value m (stringify v @ cu CHR '','' # ?tail) = Some (v, cu CHR '','' # ?tail)"
      using Cons.prems(2) j n by (intro Cons.prems(3)) (simp_all add: delimited_def)
    moreover have "parse_elems m ?tail = Some (vs, rest)"
      using Cons.prems(2) j n Cons by (intro Cons.IH) (simp_all add: Cons.prems(3))
    ultimately show ?thesis unfolding j n by simp
  qed
qed simp

abbreviation member_text :: "jsstr \<times> json \<Rightarrow> jsstr" where
  "member_text p \<equiv> quote_json (fst p) @ cu CHR '':'' # stringify (snd p)"

lemma read_string_quote: "\<forall>c \<in> set s. 0 \<le> c \<Longrightarrow> read_string (tl (quote_json s @ rest)) = Some (s, rest)"
  by (simp add: quote_json_def read_string_escape)

lemma parse_members_step:
  assumes "\<forall>c \<in> set (fst p). 0 \<le> c" and "parse_value n (stringify (snd p) @ e # w) = Some (snd p, e # w)"
    and "e = cu CHR '','' \<or> e = cu CHR ''}''"
  shows "parse_members (Suc n) (member_text p @ e # w) =
    (if e = cu CHR '','' then (case parse_members n w of Some (ms, r) \<Rightarrow> Some (p # ms, r) | None \<Rightarrow> None)
     else Some ([p], w))"
proof -
  have "skip_space (e # w) = e # w" using assms(3) by auto
  with assms read_string_escape [OF assms(1)] show ?thesis
    by (auto simp: quote_json_def split: option.split)
qed

lemma parse_members_back:
  assumes "ms \<noteq> []" and "length (join (js '','') (map member_text ms)) < n"
    and "\<forall>p \<in> set ms. \<forall>c \<in> set (fst p). 0 \<le> c"
    and "\<And>p m rest. p \<in> set ms \<Longrightarrow> length (stringify (snd p)) \<le> m \<Longrightarrow> delimited rest \<Longrightarrow>
      parse_value m (stringify (snd p) @ rest) = Some (snd p, rest)"
  shows "parse_members n (join (js '','') (map member_text ms) @ cu CHR ''}'' # rest) = Some (ms, rest)"
  using assms
proof (induction ms arbitrary: n)
  case (Cons p ms)
  obtain m where n: "n = Suc m" using Cons.prems(2) by (cases n) auto
  have key: "\<forall>c \<in> set (fst p). 0 \<le> c" using Cons.prems(3) by simp
  show ?case
  proof (cases ms)
    case Nil
    have "parse_value m (stringify (snd p) @ cu CHR ''}'' # rest) = Some (snd p, cu CHR ''}'' # rest)"
      using Cons.prems(2) Nil n by (intro Cons.prems(4)) (simp_all add: delimited_def)
    from parse_members_step [OF key this] show ?thesis by (simp add: Nil n)
  next
    case (Cons q qs)
    let ?tail = "join (js '','') (map member_text ms) @ cu CHR ''}'' # rest"
    have j: "join (js '','') (map member_text (p # ms)) = member_text p @ cu CHR '','' # join (js '','') (map member_text ms)"
      by (simp add: Cons js_def)
    have v: "parse_value m (stringify (snd p) @ cu CHR '','' # ?tail) = Some (snd p, cu CHR '','' # ?tail)"
      using Cons.prems(2) j n by (intro Cons.prems(4)) (simp_all add: delimited_def)
    have "parse_members m ?tail = Some (ms, rest)"
      using Cons.prems(2) j n Cons by (intro Cons.IH) (use Cons.prems(3,4) in simp_all)
    with parse_members_step [OF key v] show ?thesis unfolding j n by simp
  qed
qed simp

lemma parse_value_back:
  "json_ok v \<Longrightarrow> length (stringify v) \<le> n \<Longrightarrow> delimited rest \<Longrightarrow>
   parse_value n (stringify v @ rest) = Some (v, rest)"
proof (induction v arbitrary: n rest)
  case JNull
  then show ?case by (auto simp: js_def word_start_def value_start_def json_space_def cu_def read_word_def json_words_def
        starts_with_def starts_with_at_def intro!: parse_word)
next
  case (JBool b)
  then show ?case by (cases b) (auto simp: js_def word_start_def value_start_def json_space_def cu_def read_word_def
        json_words_def starts_with_def starts_with_at_def intro!: parse_word)
next
  case (JNum d)
  obtain c t where c: "dec_str d = c # t" "ascii_digit c \<or> c = cu CHR ''-''" using dec_str_start by blast
  have "read_word (c # (t @ rest)) = Some (JNum d, rest)" using read_word_number [of d rest] JNum c(1) by simp
  moreover have "0 < n" using JNum.prems(2) c(1) by auto
  ultimately show ?case using parse_word [OF digit_word_start [OF c(2)]] c(1) by simp
next
  case (JStr s)
  then obtain m where "n = Suc m" by (cases n) (auto simp: quote_json_def)
  with JStr read_string_escape [of s rest] show ?case by (simp add: quote_json_def)
next
  case (JArr vs)
  then obtain m where n: "n = Suc m" by (cases n) auto
  show ?case
  proof (cases vs)
    case Nil
    then show ?thesis by (simp add: n js_def)
  next
    case (Cons w ws)
    have "length (join (js '','') (map stringify vs)) < m" using JArr.prems(2) n by simp
    then have e: "parse_elems m (join (js '','') (map stringify vs) @ cu CHR '']'' # rest) = Some (vs, rest)"
      using Cons JArr.prems(1) by (intro parse_elems_back) (auto intro: JArr.IH)
    obtain c t where c: "join (js '','') (map stringify vs) @ cu CHR '']'' # rest = c # t" "value_start c"
      using stringify_start [of w] Cons by (cases ws) auto
    then have s: "skip_space (c # t) = c # t" by (simp add: skip_space_id value_start_def)
    show ?thesis using e c(2) unfolding n stringify.simps append_Cons append_assoc
      by (simp add: js_def [of "CHR '']'' # []"] c(1) s value_start_def)
  qed
next
  case (JObj ms)
  then obtain m where n: "n = Suc m" by (cases n) auto
  show ?case
  proof (cases ms)
    case Nil
    then show ?thesis by (simp add: n js_def)
  next
    case (Cons q qs)
    have "length (join (js '','') (map member_text ms)) < m" using JObj.prems(2) n by simp
    then have e: "parse_members m (join (js '','') (map member_text ms) @ cu CHR ''}'' # rest) = Some (ms, rest)"
      using Cons JObj.prems(1) by (intro parse_members_back) (auto intro: JObj.IH simp: snds.simps)
    obtain t where c: "join (js '','') (map member_text ms) @ cu CHR ''}'' # rest = dquote # t"
      using Cons by (cases qs) (auto simp: quote_json_def)
    show ?thesis using e JObj.prems(1) unfolding n stringify.simps append_Cons append_assoc
      by (simp add: js_def [of "CHR ''}'' # []"] c)
  qed
qed

theorem parse_stringify: "json_ok v \<Longrightarrow> parse_json (stringify v) = Some v"
  using parse_value_back [of v "2 * length (stringify v) + 2" "[]"]
  by (simp add: parse_json_def delimited_def skip_space_def)


section \<open>Texts and numbers\<close>

text \<open>\<open>String(v)\<close>, \<open>String(v ?? '')\<close> and \<open>Number(v)\<close> of a value that JSON can hold.\<close>

fun json_text :: "json \<Rightarrow> jsstr" where
  "json_text JNull = js ''null''"
| "json_text (JBool b) = (if b then js ''true'' else js ''false'')"
| "json_text (JNum d) = dec_str d"
| "json_text (JStr s) = s"
| "json_text (JArr vs) = join (js '','') (map (\<lambda>v. if v = JNull then [] else json_text v) vs)"
| "json_text (JObj ms) = js ''[object Object]''"

definition given_text :: "json option \<Rightarrow> jsstr" where
  "given_text v = (case v of None \<Rightarrow> [] | Some JNull \<Rightarrow> [] | Some w \<Rightarrow> json_text w)"

definition json_truthy :: "json \<Rightarrow> bool" where
  "json_truthy v =
     (case v of JNull \<Rightarrow> False | JBool b \<Rightarrow> b | JNum d \<Rightarrow> fst d \<noteq> 0 | JStr s \<Rightarrow> s \<noteq> [] | _ \<Rightarrow> True)"

datatype number = Dec decimal | Infinite bool | NaN

definition int_text :: "int \<Rightarrow> jsstr" where
  "int_text n = dec_str (n, 0)"

definition unsigned_decimal :: "jsstr \<Rightarrow> decimal option" where
  "unsigned_decimal s =
     (let i = digits_of s; t = drop (length i) s; p = (t \<noteq> [] \<and> hd t = cu CHR ''.'');
          f = (if p then digits_of (tl t) else []); u = (if p then drop (length f) (tl t) else t)
      in if i = [] \<and> f = [] then None
         else (case read_exponent u of
                 Some (e, r) \<Rightarrow>
                   if r = [] then Some (scale_decimal (int (digits_value (i @ f))) (length f) e) else None
               | None \<Rightarrow> None))"

definition radix_value :: "int \<Rightarrow> jsstr \<Rightarrow> int option" where
  "radix_value base s =
     (if s \<noteq> [] \<and> (\<forall>c \<in> set s. \<exists>d \<in> set_option (hex_value c). d < base)
      then Some (foldl (\<lambda>n c. base * n + (case hex_value c of Some d \<Rightarrow> d | None \<Rightarrow> 0)) 0 s) else None)"

definition radix_literal :: "jsstr \<Rightarrow> int option" where
  "radix_literal s =
     (case s of
        z # b # t \<Rightarrow>
          if z \<noteq> 48 then None
          else if b = cu CHR ''x'' \<or> b = cu CHR ''X'' then radix_value 16 t
          else if b = cu CHR ''o'' \<or> b = cu CHR ''O'' then radix_value 8 t
          else if b = cu CHR ''b'' \<or> b = cu CHR ''B'' then radix_value 2 t
          else None
      | _ \<Rightarrow> None)"

definition signed :: "jsstr \<Rightarrow> bool" where
  "signed s \<longleftrightarrow> s \<noteq> [] \<and> (hd s = cu CHR ''-'' \<or> hd s = cu CHR ''+'')"

definition strip_sign :: "jsstr \<Rightarrow> jsstr" where
  "strip_sign s = (if signed s then tl s else s)"

definition text_number :: "jsstr \<Rightarrow> number" where
  "text_number raw =
     (let s = trim raw; neg = (s \<noteq> [] \<and> hd s = cu CHR ''-''); u = strip_sign s in
      if s = [] then Dec (0, 0)
      else
        (case radix_literal s of
           Some n \<Rightarrow> Dec (n, 0)
         | None \<Rightarrow>
             if u = js ''Infinity'' then Infinite neg
             else (case unsigned_decimal u of
                     Some (m, k) \<Rightarrow> Dec (if neg then - m else m, k)
                   | None \<Rightarrow> NaN)))"

definition json_number :: "json \<Rightarrow> number" where
  "json_number v =
     (case v of
        JNull \<Rightarrow> Dec (0, 0)
      | JBool b \<Rightarrow> Dec (if b then 1 else 0, 0)
      | JNum d \<Rightarrow> Dec d
      | JObj ms \<Rightarrow> NaN
      | _ \<Rightarrow> text_number (json_text v))"

text \<open>Comparison with zero, and the integer part.\<close>

definition at_least_zero :: "number \<Rightarrow> bool" where
  "at_least_zero x = (case x of Dec d \<Rightarrow> 0 \<le> fst d | Infinite neg \<Rightarrow> \<not> neg | NaN \<Rightarrow> False)"

definition dec_trunc :: "decimal \<Rightarrow> int" where
  "dec_trunc d = sgn (fst d) * (\<bar>fst d\<bar> div 10 ^ snd d)"

definition dec_floor :: "decimal \<Rightarrow> int" where
  "dec_floor d = fst d div 10 ^ snd d"

section \<open>Members\<close>

text \<open>\<open>o[k] = v\<close> for a computed key: the name of the prototype makes no member.\<close>

definition obj_assign :: "jsstr \<Rightarrow> json \<Rightarrow> (jsstr \<times> json) list \<Rightarrow> (jsstr \<times> json) list" where
  "obj_assign k v ms = (if k = js ''__proto__'' then ms else obj_put k v ms)"

definition has_own :: "(jsstr \<times> json) list \<Rightarrow> jsstr \<Rightarrow> bool" where
  "has_own ms k \<longleftrightarrow> k \<in> fst ` set ms"

section \<open>Indented printing\<close>

text \<open>\<open>JSON.stringify(v, null, 2)\<close>.\<close>

definition json_indent :: "nat \<Rightarrow> jsstr" where
  "json_indent n = newline # replicate (2 * n) (cu CHR '' '')"

fun stringify_indented :: "nat \<Rightarrow> json \<Rightarrow> jsstr" where
  "stringify_indented n (JArr vs) =
     (if vs = [] then js ''[]''
      else cu CHR ''['' # json_indent (Suc n) @ join (cu CHR '','' # json_indent (Suc n))
             (map (stringify_indented (Suc n)) vs) @ json_indent n @ js '']'')"
| "stringify_indented n (JObj ms) =
     (if ms = [] then js ''{}''
      else cu CHR ''{'' # json_indent (Suc n) @ join (cu CHR '','' # json_indent (Suc n))
             (map (\<lambda>p. quote_json (fst p) @ js '': '' @ stringify_indented (Suc n) (snd p)) ms) @ json_indent n @ js ''}'')"
| "stringify_indented n v = stringify v"

lemma json_examples:
  "parse_json (js ''{\"b\":[1,2.50,-3e1],\"a\":{}}'') =
     Some (JObj [(js ''b'', JArr [JNum (1, 0), JNum (25, 1), JNum (-30, 0)]), (js ''a'', JObj [])])"
  "parse_json (js ''{\"a\":1,}'') = None"
  "text_number (js '' -1.50 '') = Dec (-15, 1)" "text_number (js ''0x1F'') = Dec (31, 0)"
  "text_number (js ''5.'') = Dec (5, 0)" "text_number (js ''asc'') = NaN" "text_number (js ''-Infinity'') = Infinite True"
  "json_text (JArr [JNull, JNum (5, 0), JArr [JStr (js ''x'')]]) = js '',5,x''"
  by code_simp+

end
