(* ===== verification/MongoValue.thy ===== *)
theory MongoValue
  imports Json
begin

text \<open>
  The values of MongoDB's extended JSON (\<open>utils/mongodb.ts\<close>): recognising the typed values
  (\<open>$oid\<close>, \<open>$date\<close>, \<open>$numberLong\<close>, \<open>$binary\<close> and the others), reading the literals of the shell
  (\<open>ObjectId("...")\<close>, \<open>NumberLong(...)\<close>, \<open>UUID("...")\<close>), printing a cell for display and for editing,
  and reading the edited text back as a value of the kind the cell had.

  An \<open>unknown\<close> of the code is a \<open>json option\<close>, with \<open>None\<close> for \<open>undefined\<close>; it holds no \<open>Date\<close>,
  \<open>RegExp\<close>, \<open>bigint\<close> or function, which do not come out of JSON. Three functions of the engine are
  parameters: \<open>date_ms\<close> is \<open>new Date(text).getTime()\<close> (\<open>None\<close> for an invalid date), \<open>iso_text\<close> is
  \<open>new Date(ms).toISOString()\<close>, and \<open>ev\<close> evaluates an expression with the constructors of the shell
  in scope (\<open>new Function\<close>), to a value or to the message of the error thrown.
\<close>

section \<open>Shapes of texts\<close>

definition hex_char :: "jschar \<Rightarrow> bool" where
  "hex_char c \<longleftrightarrow> hex_value c \<noteq> None"

definition all_digits :: "jsstr \<Rightarrow> bool" where
  "all_digits s \<longleftrightarrow> s \<noteq> [] \<and> (\<forall>c \<in> set s. ascii_digit c)"

definition HEX24_RE :: "jsstr \<Rightarrow> bool" where
  "HEX24_RE s \<longleftrightarrow> length s = 24 \<and> (\<forall>c \<in> set s. hex_char c)"

definition dash_positions :: "nat list" where
  "dash_positions = [8, 13, 18, 23]"

definition UUID_RE :: "jsstr \<Rightarrow> bool" where
  "UUID_RE s \<longleftrightarrow>
     length s = 36 \<and>
     (\<forall>i \<in> set [0..<36]. if i \<in> set dash_positions then s ! i = cu CHR ''-'' else hex_char (s ! i)) \<and>
     s ! 14 \<in> set (js ''12345'') \<and> s ! 19 \<in> set (js ''89abAB'')"

definition INTEGER_RE :: "jsstr \<Rightarrow> bool" where
  "INTEGER_RE s \<longleftrightarrow> all_digits (strip_sign s)"

definition after_dot :: "jsstr \<Rightarrow> jsstr option" where
  "after_dot s = (case s of c # t \<Rightarrow> if c = cu CHR ''.'' then Some t else None | [] \<Rightarrow> None)"

definition FLOAT_RE :: "jsstr \<Rightarrow> bool" where
  "FLOAT_RE s \<longleftrightarrow>
     (let u = strip_sign s; i = digits_of u in
      case after_dot (drop (length i) u) of
        None \<Rightarrow> False
      | Some f \<Rightarrow> if f = [] then i \<noteq> [] else all_digits f)"

definition SCIENTIFIC_RE :: "jsstr \<Rightarrow> bool" where
  "SCIENTIFIC_RE s \<longleftrightarrow>
     (let u = strip_sign s; i = digits_of u; t = drop (length i) u;
          r = (case after_dot t of
                 None \<Rightarrow> if i = [] then [] else t
               | Some f \<Rightarrow> if digits_of f = [] then [] else drop (length (digits_of f)) f)
      in r \<noteq> [] \<and> (hd r = cu CHR ''e'' \<or> hd r = cu CHR ''E'') \<and> INTEGER_RE (tl r))"

text \<open>\<open>Number(text)\<close> of a text one of these patterns accepts.\<close>

definition exact_number :: "jsstr \<Rightarrow> decimal" where
  "exact_number s = (case text_number s of Dec d \<Rightarrow> d | _ \<Rightarrow> (0, 0))"

section \<open>Values with one operator\<close>

definition isPlainMongoObject :: "json option \<Rightarrow> bool" where
  "isPlainMongoObject v \<longleftrightarrow> (case v of Some (JObj ms) \<Rightarrow> True | _ \<Rightarrow> False)"

definition getSingleMongoOperatorEntry :: "json option \<Rightarrow> (jsstr \<times> json) option" where
  "getSingleMongoOperatorEntry v =
     (case v of
        Some (JObj ms) \<Rightarrow> (case ms of [p] \<Rightarrow> Some p | _ \<Rightarrow> None)
      | _ \<Rightarrow> None)"

section \<open>UUIDs\<close>

definition base64_chars :: jsstr where
  "base64_chars = js ''ABCDEFGHIJKLMNOPQRSTUVWXYZabcdefghijklmnopqrstuvwxyz0123456789+/''"

definition base64_char :: "int \<Rightarrow> jschar" where
  "base64_char n = base64_chars ! nat n"

definition base64_value :: "jschar \<Rightarrow> int option" where
  "base64_value c = map_option int (find_index (\<lambda>d. d = c) base64_chars)"

fun byteArrayToBase64 :: "int list \<Rightarrow> jsstr" where
  "byteArrayToBase64 (a # b # c # r) =
     map base64_char [a div 4, a mod 4 * 16 + b div 16, b mod 16 * 4 + c div 64, c mod 64] @ byteArrayToBase64 r"
| "byteArrayToBase64 [a, b] = map base64_char [a div 4, a mod 4 * 16 + b div 16, b mod 16 * 4] @ js ''=''"
| "byteArrayToBase64 [a] = map base64_char [a div 4, a mod 4 * 16] @ js ''==''"
| "byteArrayToBase64 [] = []"

fun sextet_bytes :: "int list \<Rightarrow> int list" where
  "sextet_bytes (a # b # c # d # r) =
     [a * 4 + b div 16, b mod 16 * 16 + c div 4, c mod 4 * 64 + d] @ sextet_bytes r"
| "sextet_bytes [a, b, c] = [a * 4 + b div 16, b mod 16 * 16 + c div 4]"
| "sextet_bytes [a, b] = [a * 4 + b div 16]"
| "sextet_bytes _ = []"

text \<open>\<open>atob\<close>: white space is dropped, the padding only where the length is a multiple of four.\<close>

definition strip_padding :: "jsstr \<Rightarrow> jsstr" where
  "strip_padding s =
     (let e = cu CHR ''='' in
      if length s mod 4 \<noteq> 0 then s
      else if ends_with s [e, e] then take (length s - 2) s
      else if ends_with s [e] then take (length s - 1) s
      else s)"

definition base64_space :: "jschar \<Rightarrow> bool" where
  "base64_space c \<longleftrightarrow> c \<in> {9, 10, 12, 13, 32}"

definition base64ToByteArray :: "jsstr \<Rightarrow> int list option" where
  "base64ToByteArray base64 =
     (let s = strip_padding (filter (\<lambda>c. \<not> base64_space c) base64) in
      if length s mod 4 = 1 \<or> (\<exists>c \<in> set s. base64_value c = None) then None
      else Some (sextet_bytes (List.map_filter base64_value s)))"

definition hex_number :: "jsstr \<Rightarrow> int" where
  "hex_number s = foldl (\<lambda>n c. 16 * n + (case hex_value c of Some d \<Rightarrow> d | None \<Rightarrow> 0)) 0 (takeWhile hex_char s)"

definition uuidToBytes :: "jsstr \<Rightarrow> int list" where
  "uuidToBytes uuid =
     (let hex = to_lower (replace_char (cu CHR ''-'') [] (trim uuid)) in
      map (\<lambda>index. hex_number (slice hex (index * 2) (index * 2 + 2))) [0..<16])"

definition byte_hex :: "int \<Rightarrow> jsstr" where
  "byte_hex b = [hex_digit (b div 16), hex_digit (b mod 16)]"

definition bytesToUuid :: "int list \<Rightarrow> jsstr" where
  "bytesToUuid bytes =
     (let hex = concat (map byte_hex bytes) in
      if length hex \<noteq> 32 then []
      else join (js ''-'') [slice hex 0 8, slice hex 8 12, slice hex 12 16, slice hex 16 20, slice hex 20 32])"

definition buildMongoBinaryUUID :: "jsstr \<Rightarrow> json" where
  "buildMongoBinaryUUID uuidText =
     JObj [(js ''$binary'', JObj [(js ''base64'', JStr (byteArrayToBase64 (uuidToBytes uuidText))),
       (js ''subType'', JStr (js ''04''))])]"

definition buildMongoBinaryLiteralText :: "json option \<Rightarrow> jsstr option" where
  "buildMongoBinaryLiteralText raw =
     (case raw of
        Some (JObj ms) \<Rightarrow>
          (case map_of ms (js ''$binary'') of
             Some (JObj binary) \<Rightarrow>
               (let subType = to_lower (trim (given_text (map_of binary (js ''subType''))));
                    base64 = trim (given_text (map_of binary (js ''base64'')))
                in if subType \<noteq> js ''04'' \<or> base64 = [] then None
                   else (case base64ToByteArray base64 of
                           None \<Rightarrow> None
                         | Some bytes \<Rightarrow>
                             (let uuidText = bytesToUuid bytes in
                              if UUID_RE uuidText then Some (js ''UUID(\"'' @ uuidText @ js ''\")'') else None)))
           | _ \<Rightarrow> None)
      | _ \<Rightarrow> None)"

section \<open>Names of fields\<close>

definition name_endings :: "string list \<Rightarrow> jsstr \<Rightarrow> bool" where
  "name_endings ends s \<longleftrightarrow> (\<exists>e \<in> set ends. ends_with s (js e))"

definition isMongoObjectIdFieldName :: "jsstr \<Rightarrow> bool" where
  "isMongoObjectIdFieldName fieldName =
     (let s = trim fieldName in
      s \<noteq> [] \<and> (s = js ''_id'' \<or> s = js ''id'' \<or> name_endings [''Id'', ''ID'', ''_id'', ''-id''] s))"

definition isMongoDateFieldName :: "jsstr \<Rightarrow> bool" where
  "isMongoDateFieldName fieldName =
     (let s = trim fieldName in
      s \<noteq> [] \<and> (s \<in> set (map js [''date'', ''time'', ''timestamp'']) \<or>
        name_endings [''Date'', ''Time'', ''At'', ''Timestamp'', ''_date'', ''_time'', ''_at'', ''_timestamp'',
          ''-date'', ''-time'', ''-at'', ''-timestamp''] s))"

section \<open>Dates\<close>

text \<open>A date without a zone is read as UTC.\<close>

definition naive_time :: "jsstr \<Rightarrow> (jsstr \<times> jsstr) option" where
  "naive_time s =
     (if s = [] then Some (js ''00:00:00'', [])
      else if (hd s = cu CHR '' '' \<or> hd s = cu CHR ''T'') \<and> has_shape ''dd:dd:dd'' (take 8 (tl s)) then
        (let f = drop 9 s in
         if f = [] then Some (take 8 (tl s), [])
         else (case after_dot f of
                 Some d \<Rightarrow> if all_digits d \<and> length d \<le> 9 then Some (take 8 (tl s), f) else None
               | None \<Rightarrow> None))
      else None)"

definition naive_date :: "jsstr \<Rightarrow> jsstr option" where
  "naive_date s =
     (if has_shape ''dddd-dd-dd'' (take 10 s) then
        (case naive_time (drop 10 s) of
           Some (timePart, fractionPart) \<Rightarrow>
             (let fractionDigits = (if fractionPart = [] then js ''000'' else take 3 (tl fractionPart @ js ''000'')) in
              Some (take 10 s @ js ''T'' @ timePart @ js ''.'' @ fractionDigits @ js ''Z''))
         | None \<Rightarrow> None)
      else None)"

text \<open>\<open>s.replace(' ', 'T')\<close> for the first space.\<close>

definition space_to_T :: "jsstr \<Rightarrow> jsstr" where
  "space_to_T s = (case find_index (\<lambda>c. c = cu CHR '' '') s of Some i \<Rightarrow> s[i := cu CHR ''T''] | None \<Rightarrow> s)"

definition parseMongoDateToMillis :: "(jsstr \<Rightarrow> int option) \<Rightarrow> json option \<Rightarrow> int option" where
  "parseMongoDateToMillis date_ms raw =
     (case raw of
        Some (JNum d) \<Rightarrow> Some (dec_trunc d)
      | _ \<Rightarrow>
          (let s = trim (given_text raw) in
           if s = [] then None
           else if INTEGER_RE s then Some (dec_trunc (exact_number s))
           else
             (case Option.bind (naive_date s) date_ms of
                Some ms \<Rightarrow> Some ms
              | None \<Rightarrow> (case date_ms s of Some ms \<Rightarrow> Some ms | None \<Rightarrow> date_ms (space_to_T s)))))"

definition date_value :: "int option \<Rightarrow> json option \<Rightarrow> json" where
  "date_value millis raw =
     (case millis of
        Some ms \<Rightarrow> JObj [(js ''$date'', JObj [(js ''$numberLong'', JStr (int_text ms))])]
      | None \<Rightarrow> JObj [(js ''$date'', JStr (given_text raw))])"

text \<open>For a given value; without one the code takes the time of the clock.\<close>

definition buildMongoExtendedDate :: "(jsstr \<Rightarrow> int option) \<Rightarrow> json \<Rightarrow> json" where
  "buildMongoExtendedDate date_ms raw = date_value (parseMongoDateToMillis date_ms (Some raw)) (Some raw)"

definition buildMongoDateLiteralText :: "(jsstr \<Rightarrow> int option) \<Rightarrow> (int \<Rightarrow> jsstr) \<Rightarrow> json option \<Rightarrow> jsstr" where
  "buildMongoDateLiteralText date_ms iso_text raw =
     (let inner = (case raw of
                     Some (JObj ms) \<Rightarrow>
                       (case map_of ms (js ''$numberLong'') of
                          Some v \<Rightarrow> if v = JNull then raw else Some v
                        | None \<Rightarrow> raw)
                   | _ \<Rightarrow> raw)
      in case parseMongoDateToMillis date_ms inner of Some ms \<Rightarrow> iso_text ms | None \<Rightarrow> given_text raw)"

section \<open>Literals\<close>

text \<open>The names as a comparison without case writes them.\<close>

definition typed_names :: "jsstr list" where
  "typed_names = map js [''objectid'', ''isodate'', ''numberint'', ''numberlong'', ''numberdouble'', ''numberdecimal'',
     ''uuid'', ''maxkey'', ''minkey'']"

definition skip_js_spaces :: "jsstr \<Rightarrow> jsstr" where
  "skip_js_spaces s = dropWhile is_js_space s"

definition after_char :: "char \<Rightarrow> jsstr \<Rightarrow> jsstr option" where
  "after_char c s = (case s of d # t \<Rightarrow> if d = cu c then Some t else None | [] \<Rightarrow> None)"

definition looksLikeExplicitMongoTypedLiteral :: "jsstr \<Rightarrow> bool" where
  "looksLikeExplicitMongoTypedLiteral raw =
     (let s = trim raw in
      \<exists>name \<in> set typed_names. match_ci_at s name 0 \<and>
        after_char CHR ''('' (skip_js_spaces (drop (length name) s)) \<noteq> None)"

definition looksLikeMongoStructuredLiteral :: "jsstr \<Rightarrow> bool" where
  "looksLikeMongoStructuredLiteral raw =
     (let s = trim raw in
      s \<noteq> [] \<and> (hd s = cu CHR ''{'' \<and> last s = cu CHR ''}'' \<or> hd s = cu CHR ''['' \<and> last s = cu CHR '']''))"

definition parseBooleanLiteral :: "jsstr \<Rightarrow> bool option" where
  "parseBooleanLiteral raw =
     (let s = to_lower (trim raw) in
      if s = js ''true'' then Some True else if s = js ''false'' then Some False else None)"

definition normalizeMongoDoubleLiteral :: "jsstr \<Rightarrow> jsstr option" where
  "normalizeMongoDoubleLiteral raw =
     (let s = trim raw; lower = to_lower s in
      if s = [] then None
      else if lower = js ''nan'' then Some (js ''NaN'')
      else if lower = js ''infinity'' \<or> lower = js ''+infinity'' then Some (js ''Infinity'')
      else if lower = js ''-infinity'' then Some (js ''-Infinity'')
      else if INTEGER_RE s \<or> FLOAT_RE s \<or> SCIENTIFIC_RE s then Some (dec_str (exact_number s))
      else None)"

section \<open>Kinds of values\<close>

datatype MongoValueKind =
  KNullish | KString | KBoolean | KNumber | KObject | KArray | KObjectId | KDate | KInt32 | KInt64 | KDouble
  | KDecimal128 | KUuid | KBinary | KMaxKey | KMinKey

definition operator_kinds :: "(jsstr \<times> MongoValueKind) list" where
  "operator_kinds = [(js ''$oid'', KObjectId), (js ''$date'', KDate), (js ''$numberInt'', KInt32),
     (js ''$numberLong'', KInt64), (js ''$numberDouble'', KDouble), (js ''$numberDecimal'', KDecimal128),
     (js ''$binary'', KBinary), (js ''$maxKey'', KMaxKey), (js ''$minKey'', KMinKey)]"

definition operator_kind :: "jsstr \<times> json \<Rightarrow> MongoValueKind option" where
  "operator_kind p =
     (case map_of operator_kinds (fst p) of
        Some KBinary \<Rightarrow>
          (case snd p of
             JObj binary \<Rightarrow>
               if to_lower (trim (given_text (map_of binary (js ''subType'')))) = js ''04'' then Some KUuid
               else Some KBinary
           | _ \<Rightarrow> Some KBinary)
      | k \<Rightarrow> k)"

definition resolveMongoValueKind :: "json option \<Rightarrow> MongoValueKind" where
  "resolveMongoValueKind v =
     (case v of
        None \<Rightarrow> KNullish
      | Some JNull \<Rightarrow> KNullish
      | Some (JArr vs) \<Rightarrow> KArray
      | Some (JStr s) \<Rightarrow> KString
      | Some (JBool b) \<Rightarrow> KBoolean
      | Some (JNum d) \<Rightarrow> KNumber
      | Some (JObj ms) \<Rightarrow>
          (case Option.bind (getSingleMongoOperatorEntry v) operator_kind of Some k \<Rightarrow> k | None \<Rightarrow> KObject))"

section \<open>The literals of the shell, written as JSON\<close>

definition is_quote :: "jschar \<Rightarrow> bool" where
  "is_quote c \<longleftrightarrow> c = squote \<or> c = dquote"

text \<open>The end of a call: white space and the closing parenthesis.\<close>

definition after_close :: "jsstr \<Rightarrow> jsstr option" where
  "after_close s = after_char CHR '')'' (skip_js_spaces s)"

text \<open>An argument in quotes: what the quotes hold, and the text after the call.\<close>

definition quoted_arg :: "(jsstr \<Rightarrow> jsstr option) \<Rightarrow> jsstr \<Rightarrow> (jsstr \<times> jsstr) option" where
  "quoted_arg body s =
     (case skip_js_spaces s of
        q # t \<Rightarrow>
          if is_quote q then
            (case body t of
               Some b \<Rightarrow>
                 (case drop (length b) t of
                    q' # u \<Rightarrow> if is_quote q' then map_option (Pair b) (after_close u) else None
                  | [] \<Rightarrow> None)
             | None \<Rightarrow> None)
          else None
      | [] \<Rightarrow> None)"

text \<open>An argument whose quotes are optional, each of them on its own; a search that fails after all
  the leading white space is skipped tries again with the last of it in the argument.\<close>

definition bare_arg :: "(jsstr \<Rightarrow> jsstr option) \<Rightarrow> jsstr \<Rightarrow> (jsstr \<times> jsstr) option" where
  "bare_arg body t =
     (case body t of
        Some b \<Rightarrow>
          (case drop (length b) t of
             q # u \<Rightarrow> map_option (Pair b) (after_close (if is_quote q then u else q # u))
           | [] \<Rightarrow> None)
      | None \<Rightarrow> None)"

definition first_some :: "'a option \<Rightarrow> 'a option \<Rightarrow> 'a option" where
  "first_some x y = (case x of None \<Rightarrow> y | Some v \<Rightarrow> Some v)"

definition open_arg :: "(jsstr \<Rightarrow> jsstr option) \<Rightarrow> jsstr \<Rightarrow> (jsstr \<times> jsstr) option" where
  "open_arg body t =
     first_some (case t of q # u \<Rightarrow> if is_quote q then bare_arg body u else None | [] \<Rightarrow> None) (bare_arg body t)"

definition optional_arg :: "(jsstr \<Rightarrow> jsstr option) \<Rightarrow> jsstr \<Rightarrow> (jsstr \<times> jsstr) option" where
  "optional_arg body s =
     (let t = skip_js_spaces s; n = length s - length t in
      first_some (open_arg body t) (if n = 0 then None else open_arg body (drop (n - 1) s)))"

definition no_arg :: "jsstr \<Rightarrow> (jsstr \<times> jsstr) option" where
  "no_arg s = map_option (Pair []) (after_close s)"

text \<open>A call of a name, with its argument replaced by \<open>f\<close>.\<close>

definition call_match ::
  "string \<Rightarrow> (jsstr \<Rightarrow> (jsstr \<times> jsstr) option) \<Rightarrow> (jsstr \<Rightarrow> jsstr) \<Rightarrow> jsstr \<Rightarrow> (nat \<times> jsstr) option" where
  "call_match name arg f s =
     (if starts_with s (js name) then
        (case after_char CHR ''('' (skip_js_spaces (drop (length name) s)) of
           Some t \<Rightarrow> (case arg t of Some (b, r) \<Rightarrow> Some (length s - length r, f b) | None \<Rightarrow> None)
         | None \<Rightarrow> None)
      else None)"

definition hex24_body :: "jsstr \<Rightarrow> jsstr option" where
  "hex24_body s = (if HEX24_RE (take 24 s) then Some (take 24 s) else None)"

definition uuid_body :: "jsstr \<Rightarrow> jsstr option" where
  "uuid_body s =
     (if 36 \<le> length s \<and> (\<forall>c \<in> set (take 36 s). hex_char c \<or> c = cu CHR ''-'') then Some (take 36 s) else None)"

definition some_nonempty :: "jsstr \<Rightarrow> jsstr option" where
  "some_nonempty s = (if s = [] then None else Some s)"

definition unquoted_body :: "jsstr \<Rightarrow> jsstr option" where
  "unquoted_body s = some_nonempty (takeWhile (\<lambda>c. \<not> is_quote c) s)"

definition loose_body :: "jsstr \<Rightarrow> jsstr option" where
  "loose_body s = some_nonempty (takeWhile (\<lambda>c. \<not> is_quote c \<and> c \<noteq> cu CHR '')'') s)"

definition sign_of :: "jsstr \<Rightarrow> jsstr" where
  "sign_of s = (if signed s then take 1 s else [])"

definition integer_body :: "jsstr \<Rightarrow> jsstr option" where
  "integer_body s = (let d = digits_of (strip_sign s) in if d = [] then None else Some (sign_of s @ d))"

definition decimal_body :: "jsstr \<Rightarrow> jsstr option" where
  "decimal_body s =
     (let u = strip_sign s; i = digits_of u;
          f = (case after_dot (drop (length i) u) of Some f \<Rightarrow> digits_of f | None \<Rightarrow> [])
      in if i = [] \<and> f = [] then None
         else Some (sign_of s @ i @ (if f = [] then [] else cu CHR ''.'' # f)))"

definition op_text :: "string \<Rightarrow> jsstr \<Rightarrow> jsstr" where
  "op_text op b = js ''{\"'' @ js op @ js ''\":\"'' @ b @ js ''\"}''"

definition normalizeExtendedJSON :: "(jsstr \<Rightarrow> int option) \<Rightarrow> jsstr \<Rightarrow> jsstr" where
  "normalizeExtendedJSON date_ms raw =
     (let r = replace_matches;
          s1 = r (call_match ''ObjectId'' (quoted_arg hex24_body) (\<lambda>oid. stringify (JObj [(js ''$oid'', JStr oid)]))) raw;
          s2 = r (call_match ''ISODate'' (quoted_arg unquoted_body)
                 (\<lambda>dateText. stringify (buildMongoExtendedDate date_ms (JStr dateText)))) s1;
          s3 = r (call_match ''NumberLong'' (optional_arg integer_body) (op_text ''$numberLong'')) s2;
          s4 = r (call_match ''NumberInt'' (optional_arg integer_body) (op_text ''$numberInt'')) s3;
          s5 = r (call_match ''NumberDouble'' (optional_arg loose_body) (op_text ''$numberDouble'')) s4;
          s6 = r (call_match ''NumberDecimal'' (optional_arg decimal_body) (op_text ''$numberDecimal'')) s5;
          s7 = r (call_match ''UUID'' (quoted_arg uuid_body) (\<lambda>uuidText. stringify (buildMongoBinaryUUID uuidText))) s6;
          s8 = r (call_match ''MaxKey'' no_arg (\<lambda>_. js ''{\"$maxKey\":1}'')) s7
      in r (call_match ''MinKey'' no_arg (\<lambda>_. js ''{\"$minKey\":1}'')) s8)"

section \<open>Reading values\<close>

definition evalMongoLikeLiteral :: "(jsstr \<Rightarrow> jsstr + json) \<Rightarrow> jsstr \<Rightarrow> jsstr + json" where
  "evalMongoLikeLiteral ev raw = (let expression = trim raw in if expression = [] then Inr (JObj []) else ev expression)"

definition parseMongoJSONValue ::
  "(jsstr \<Rightarrow> int option) \<Rightarrow> (jsstr \<Rightarrow> jsstr + json) \<Rightarrow> jsstr \<Rightarrow> jsstr + json" where
  "parseMongoJSONValue date_ms ev raw =
     (let s = trim raw in
      if s = [] then Inr (JObj [])
      else (case parse_json (normalizeExtendedJSON date_ms s) of
              Some v \<Rightarrow> Inr v
            | None \<Rightarrow> evalMongoLikeLiteral ev s))"

definition parseMongoScalar :: "jsstr \<Rightarrow> jsstr \<Rightarrow> json" where
  "parseMongoScalar column rawValue =
     (let raw = trim rawValue; lower = to_lower raw in
      if raw = [] then JStr []
      else if lower = js ''null'' then JNull
      else if lower = js ''true'' then JBool True
      else if lower = js ''false'' then JBool False
      else if INTEGER_RE raw \<or> FLOAT_RE raw then JNum (exact_number raw)
      else if trim column = js ''_id'' \<and> HEX24_RE raw then JObj [(js ''$oid'', JStr (to_lower raw))]
      else JStr raw)"

section \<open>Display and editing\<close>

definition relaxMongoDateValue :: "(jsstr \<Rightarrow> int option) \<Rightarrow> (int \<Rightarrow> jsstr) \<Rightarrow> json \<Rightarrow> json" where
  "relaxMongoDateValue date_ms iso_text raw =
     JObj [(js ''$date'', JStr (buildMongoDateLiteralText date_ms iso_text (Some raw)))]"

definition normalize_string_field :: "(jsstr \<Rightarrow> int option) \<Rightarrow> (int \<Rightarrow> jsstr) \<Rightarrow> jsstr \<Rightarrow> jsstr \<Rightarrow> json" where
  "normalize_string_field date_ms iso_text fieldName value =
     (let s = trim value in
      if s = [] then JStr value
      else if isMongoObjectIdFieldName fieldName \<and> HEX24_RE s then JObj [(js ''$oid'', JStr (to_lower s))]
      else if isMongoDateFieldName fieldName then
        (case parseMongoDateToMillis date_ms (Some (JStr s)) of
           Some millis \<Rightarrow> relaxMongoDateValue date_ms iso_text (JNum (millis, 0))
         | None \<Rightarrow> JStr value)
      else JStr value)"

definition assign_all :: "(jsstr \<times> json) list \<Rightarrow> (jsstr \<times> json) list" where
  "assign_all ps = foldl (\<lambda>ms p. obj_assign (fst p) (snd p) ms) [] ps"

fun normalizeMongoFieldValueForEditing ::
  "(jsstr \<Rightarrow> int option) \<Rightarrow> (int \<Rightarrow> jsstr) \<Rightarrow> jsstr \<Rightarrow> json \<Rightarrow> json" where
  "normalizeMongoFieldValueForEditing date_ms iso_text fieldName (JArr vs) =
     JArr (map (normalizeMongoFieldValueForEditing date_ms iso_text fieldName) vs)"
| "normalizeMongoFieldValueForEditing date_ms iso_text fieldName (JObj ms) =
     (case getSingleMongoOperatorEntry (Some (JObj ms)) of
        Some entry \<Rightarrow>
          if fst entry = js ''$date'' then relaxMongoDateValue date_ms iso_text (snd entry) else JObj ms
      | None \<Rightarrow>
          JObj (assign_all (map (\<lambda>p. (fst p, normalizeMongoFieldValueForEditing date_ms iso_text (fst p) (snd p))) ms)))"
| "normalizeMongoFieldValueForEditing date_ms iso_text fieldName (JStr s) =
     normalize_string_field date_ms iso_text fieldName s"
| "normalizeMongoFieldValueForEditing date_ms iso_text fieldName v = v"

definition normalizeMongoDocumentForEditing :: "(jsstr \<Rightarrow> int option) \<Rightarrow> (int \<Rightarrow> jsstr) \<Rightarrow> json \<Rightarrow> json" where
  "normalizeMongoDocumentForEditing date_ms iso_text v = normalizeMongoFieldValueForEditing date_ms iso_text [] v"

definition operator_display ::
  "(jsstr \<Rightarrow> int option) \<Rightarrow> (int \<Rightarrow> jsstr) \<Rightarrow> jsstr \<times> json \<Rightarrow> jsstr option" where
  "operator_display date_ms iso_text p =
     (let v = given_text (Some (snd p)) in
      case map_of operator_kinds (fst p) of
        Some KObjectId \<Rightarrow> Some (js ''ObjectId(\"'' @ v @ js ''\")'')
      | Some KDate \<Rightarrow> Some (js ''ISODate(\"'' @ buildMongoDateLiteralText date_ms iso_text (Some (snd p)) @ js ''\")'')
      | Some KInt32 \<Rightarrow> Some (js ''NumberInt('' @ v @ js '')'')
      | Some KInt64 \<Rightarrow> Some (js ''NumberLong(\"'' @ v @ js ''\")'')
      | Some KDouble \<Rightarrow> Some v
      | Some KDecimal128 \<Rightarrow> Some (js ''NumberDecimal(\"'' @ v @ js ''\")'')
      | Some KBinary \<Rightarrow> buildMongoBinaryLiteralText (Some (JObj [p]))
      | Some KMaxKey \<Rightarrow> Some (js ''MaxKey()'')
      | Some KMinKey \<Rightarrow> Some (js ''MinKey()'')
      | _ \<Rightarrow> None)"

definition formatMongoValueForDisplay :: "(jsstr \<Rightarrow> int option) \<Rightarrow> (int \<Rightarrow> jsstr) \<Rightarrow> json option \<Rightarrow> jsstr" where
  "formatMongoValueForDisplay date_ms iso_text value =
     (case value of
        None \<Rightarrow> []
      | Some JNull \<Rightarrow> js ''NULL''
      | Some v \<Rightarrow>
          (case Option.bind (getSingleMongoOperatorEntry value) (operator_display date_ms iso_text) of
             Some t \<Rightarrow> t
           | None \<Rightarrow> (case v of JArr _ \<Rightarrow> stringify v | JObj _ \<Rightarrow> stringify v | _ \<Rightarrow> json_text v)))"

definition formatMongoEditableValue :: "(jsstr \<Rightarrow> int option) \<Rightarrow> (int \<Rightarrow> jsstr) \<Rightarrow> json option \<Rightarrow> jsstr \<Rightarrow> jsstr" where
  "formatMongoEditableValue date_ms iso_text value columnName =
     (case map_option (normalizeMongoFieldValueForEditing date_ms iso_text columnName) value of
        None \<Rightarrow> []
      | Some JNull \<Rightarrow> []
      | Some v \<Rightarrow>
          (case getSingleMongoOperatorEntry (Some v) of
             Some entry \<Rightarrow> formatMongoValueForDisplay date_ms iso_text (Some v)
           | None \<Rightarrow>
               (case v of
                  JArr _ \<Rightarrow> stringify_indented 0 v
                | JObj _ \<Rightarrow> stringify_indented 0 v
                | _ \<Rightarrow> json_text v)))"

text \<open>\<open>otherwise\<close>: the word \<open>null\<close> clears the cell, any other text is kept as it is.\<close>

definition null_or_raw :: "jsstr \<Rightarrow> json" where
  "null_or_raw rawValue = (if to_lower (trim rawValue) = js ''null'' then JNull else JStr rawValue)"

definition edited_by_kind ::
  "(jsstr \<Rightarrow> int option) \<Rightarrow> MongoValueKind \<Rightarrow> jsstr \<Rightarrow> json \<Rightarrow> json" where
  "edited_by_kind date_ms currentKind rawValue inferred =
     (let s = trim rawValue in
      case currentKind of
        KObjectId \<Rightarrow> if HEX24_RE s then JObj [(js ''$oid'', JStr (to_lower s))] else JStr rawValue
      | KDate \<Rightarrow> if s = [] then JStr rawValue else buildMongoExtendedDate date_ms (JStr s)
      | KInt32 \<Rightarrow>
          if INTEGER_RE s then JObj [(js ''$numberInt'', JStr (dec_str (exact_number s)))] else null_or_raw rawValue
      | KInt64 \<Rightarrow> if INTEGER_RE s then JObj [(js ''$numberLong'', JStr s)] else null_or_raw rawValue
      | KDouble \<Rightarrow>
          (case normalizeMongoDoubleLiteral s of
             Some d \<Rightarrow> JObj [(js ''$numberDouble'', JStr d)]
           | None \<Rightarrow> null_or_raw rawValue)
      | KDecimal128 \<Rightarrow>
          if INTEGER_RE s \<or> FLOAT_RE s then JObj [(js ''$numberDecimal'', JStr s)] else null_or_raw rawValue
      | KBoolean \<Rightarrow> (case parseBooleanLiteral s of Some b \<Rightarrow> JBool b | None \<Rightarrow> null_or_raw rawValue)
      | KNumber \<Rightarrow> if INTEGER_RE s \<or> FLOAT_RE s then JNum (exact_number s) else null_or_raw rawValue
      | KString \<Rightarrow> inferred
      | KNullish \<Rightarrow> inferred
      | _ \<Rightarrow> null_or_raw rawValue)"

definition parseMongoEditedValue ::
  "(jsstr \<Rightarrow> int option) \<Rightarrow> (int \<Rightarrow> jsstr) \<Rightarrow> (jsstr \<Rightarrow> jsstr + json) \<Rightarrow> jsstr \<Rightarrow> json option \<Rightarrow> json option \<Rightarrow>
   jsstr + json option" where
  "parseMongoEditedValue date_ms iso_text ev columnName rawValue currentValue =
     (case rawValue of
        Some (JStr raw) \<Rightarrow>
          (let normalize = normalizeMongoFieldValueForEditing date_ms iso_text columnName;
               currentKind = resolveMongoValueKind (map_option normalize currentValue)
           in if looksLikeMongoStructuredLiteral raw \<or> looksLikeExplicitMongoTypedLiteral raw
              then map_sum id Some (parseMongoJSONValue date_ms ev raw)
              else Inr (Some (edited_by_kind date_ms currentKind raw (normalize (JStr raw)))))
      | _ \<Rightarrow> Inr rawValue)"

lemma mongo_value_examples:
  fixes date_ms :: "jsstr \<Rightarrow> int option"
  shows "normalizeExtendedJSON date_ms (js ''{b: NumberDouble( 1.5 ), c: MaxKey( )}'') =
    js ''{b: {\"$numberDouble\":\"1.5 \"}, c: {\"$maxKey\":1}}''"
  "FLOAT_RE (js ''-.5'')" "FLOAT_RE (js ''5.'')" "\<not> FLOAT_RE (js ''.'')" "SCIENTIFIC_RE (js ''1.5e-3'')"
  "\<not> SCIENTIFIC_RE (js ''1.e5'')"
  "naive_date (js ''2024-01-02 03:04:05.1234'') = Some (js ''2024-01-02T03:04:05.123Z'')"
  by code_simp+

lemma typed_literal_examples:
  "looksLikeExplicitMongoTypedLiteral (js '' numberlong (5)'')" "\<not> looksLikeExplicitMongoTypedLiteral (js ''UUID'')"
  by (simp_all add: looksLikeExplicitMongoTypedLiteral_def trim_def trim_start_def trim_end_def js_def typed_names_def
      match_ci_at_def slice_def ascii_fold_def after_char_def skip_js_spaces_def is_js_space_def cu_def)

section \<open>Replacing calls\<close>

lemma replace_matches_Nil [simp]: "replace_matches m [] = []"
  by (subst replace_matches.simps) simp

lemma replace_matches_step: "m (c # t) = None \<Longrightarrow> replace_matches m (c # t) = c # replace_matches m t"
  by (subst replace_matches.simps) simp

lemma call_match_open: "cu CHR ''('' \<notin> set s \<Longrightarrow> call_match name arg f s = None"
proof -
  assume s: "cu CHR ''('' \<notin> set s"
  have "set (skip_js_spaces (drop (length name) s)) \<subseteq> set s"
    unfolding skip_js_spaces_def by (meson in_set_dropD set_dropWhileD subsetI)
  with s have "after_char CHR ''('' (skip_js_spaces (drop (length name) s)) = None"
    by (auto simp: after_char_def split: list.split)
  then show ?thesis by (simp add: call_match_def)
qed

lemma replace_no_call: "cu CHR ''('' \<notin> set s \<Longrightarrow> replace_matches (call_match name arg f) s = s"
proof (induction s)
  case (Cons c s)
  have "call_match name arg f (c # s) = None" by (rule call_match_open [OF Cons.prems])
  with Cons show ?case by (simp add: replace_matches_step)
qed simp

lemma starts_with_append_short:
  "starts_with (p @ x # q) w \<Longrightarrow> x \<notin> set w \<Longrightarrow> \<exists>r. p = w @ r"
proof (induction w arbitrary: p)
  case (Cons c w)
  then show ?case by (cases p) (auto simp: starts_with_def starts_with_at_def)
qed simp

text \<open>A call of another name is left alone.\<close>

lemma replace_other_call:
  assumes "cu CHR ''('' \<notin> set p \<union> set q" and "p \<noteq> []" and "\<not> is_js_space (last p)"
    and "\<not> ends_with p (js name)" and "cu CHR ''('' \<notin> set (js name)"
  shows "replace_matches (call_match name arg f) (p @ cu CHR ''('' # q) = p @ cu CHR ''('' # q"
  using assms(1-4)
proof (induction p)
  case (Cons c p)
  have none: "call_match name arg f (c # p @ cu CHR ''('' # q) = None"
  proof (cases "starts_with ((c # p) @ cu CHR ''('' # q) (js name)")
    case False
    then show ?thesis by (simp add: call_match_def)
  next
    case True
    then obtain r where r: "c # p = js name @ r" using starts_with_append_short assms(5) by blast
    have "r \<noteq> []" using r Cons.prems(4) by (auto simp: ends_with_def)
    then have l: "last r = last (c # p)" by (simp add: r)
    with Cons.prems(3) \<open>r \<noteq> []\<close> have "\<exists>x \<in> set r. \<not> is_js_space x" by (metis last_in_set)
    then have "skip_js_spaces (r @ cu CHR ''('' # q) = dropWhile is_js_space r @ cu CHR ''('' # q"
      and ne: "dropWhile is_js_space r \<noteq> []"
      by (auto simp: skip_js_spaces_def dropWhile_append)
    moreover have "hd (dropWhile is_js_space r) \<noteq> cu CHR ''(''"
    proof -
      have "hd (dropWhile is_js_space r) \<in> set r" using ne by (meson hd_in_set set_dropWhileD)
      then have "hd (dropWhile is_js_space r) \<in> set (c # p)" by (simp add: r)
      with Cons.prems(1) show ?thesis by auto
    qed
    moreover have "drop (length name) (c # p @ cu CHR ''('' # q) = r @ cu CHR ''('' # q"
      using r by (metis append_Cons append_assoc append_eq_conv_conj length_js)
    ultimately show ?thesis
      by (cases "dropWhile is_js_space r") (simp_all add: call_match_def after_char_def)
  qed
  have "replace_matches (call_match name arg f) (p @ cu CHR ''('' # q) = p @ cu CHR ''('' # q"
  proof (cases "p = []")
    case True
    have "call_match name arg f (cu CHR ''('' # q) = None"
    proof (cases "starts_with ([] @ cu CHR ''('' # q) (js name)")
      case starts: True
      then have "js name = []" using starts_with_append_short assms(5) by force
      with Cons.prems(4) show ?thesis by (simp add: ends_with_def)
    qed (simp add: call_match_def)
    with True replace_no_call Cons.prems(1) show ?thesis by (simp add: replace_matches_step)
  next
    case False
    have "ends_with (c # p) (js name)" if "ends_with p (js name)"
      using that by (auto simp: ends_with_def) (metis Suc_diff_le drop_Suc_Cons length_js)
    with Cons.prems have "\<not> ends_with p (js name)" by blast
    with Cons.prems False show ?thesis by (intro Cons.IH) simp_all
  qed
  with none show ?case by (simp add: replace_matches_step)
qed simp

lemma replace_this_call:
  assumes "arg t = Some (b, [])" and "cu CHR ''('' \<notin> set (js name)"
  shows "replace_matches (call_match name arg f) (js name @ cu CHR ''('' # t) = f b"
proof (cases "js name @ cu CHR ''('' # t")
  case (Cons c u)
  have "call_match name arg f (js name @ cu CHR ''('' # t) = Some (length (js name @ cu CHR ''('' # t), f b)"
    using assms(1)
    by (simp add: call_match_def starts_with_def starts_with_at_def after_char_def skip_js_spaces_def is_js_space_def cu_def)
  then show ?thesis unfolding Cons by (subst replace_matches.simps) simp
qed simp

section \<open>Bytes are read back\<close>

fun byte_sextets :: "int list \<Rightarrow> int list" where
  "byte_sextets (a # b # c # r) =
     [a div 4, a mod 4 * 16 + b div 16, b mod 16 * 4 + c div 64, c mod 64] @ byte_sextets r"
| "byte_sextets [a, b] = [a div 4, a mod 4 * 16 + b div 16, b mod 16 * 4]"
| "byte_sextets [a] = [a div 4, a mod 4 * 16]"
| "byte_sextets [] = []"

definition base64_padding :: "int list \<Rightarrow> jsstr" where
  "base64_padding bs = (if length bs mod 3 = 1 then js ''=='' else if length bs mod 3 = 2 then js ''='' else [])"

abbreviation bytes_ok :: "int list \<Rightarrow> bool" where
  "bytes_ok bs \<equiv> \<forall>b \<in> set bs. 0 \<le> b \<and> b < 256"

lemma byteArrayToBase64_parts: "byteArrayToBase64 bs = map base64_char (byte_sextets bs) @ base64_padding bs"
  by (induction bs rule: byteArrayToBase64.induct) (simp_all add: base64_padding_def)

lemma sextet_ranges:
  assumes "0 \<le> x" "x < 256" "0 \<le> y" "y < (256 :: int)"
  shows "x div 4 \<in> {0..<64}" "x mod 64 \<in> {0..<64}" "x mod 4 * 16 + y div 16 \<in> {0..<64}"
    "x mod 16 * 4 + y div 64 \<in> {0..<64}" "x mod 4 * 16 \<in> {0..<64}" "x mod 16 * 4 \<in> {0..<64}"
proof -
  have b: "0 \<le> y div 16" "y div 16 < 16" "0 \<le> y div 64" "y div 64 < 4" "0 \<le> x mod 4" "x mod 4 < 4"
    "0 \<le> x mod 16" "x mod 16 < 16"
    using assms by simp_all
  show "x div 4 \<in> {0..<64}" "x mod 64 \<in> {0..<64}"
    using assms div_pos_pos_trivial by (auto simp: pos_imp_zdiv_nonneg_iff)
  from b show "x mod 4 * 16 + y div 16 \<in> {0..<64}" "x mod 16 * 4 + y div 64 \<in> {0..<64}"
    "x mod 4 * 16 \<in> {0..<64}" "x mod 16 * 4 \<in> {0..<64}"
    unfolding atLeastLessThan_iff by linarith+
qed

lemma byte_sextets_range: "bytes_ok bs \<Longrightarrow> set (byte_sextets bs) \<subseteq> {0..<64}"
proof (induction bs rule: byte_sextets.induct)
  case (1 a b c r)
  then have bs: "0 \<le> a" "a < 256" "0 \<le> b" "b < 256" "0 \<le> c" "c < 256" by simp_all
  have "bytes_ok r" using "1.prems" by (meson list.set_intros(2))
  from "1.IH" [OF this] sextet_ranges [OF bs(1-4)] sextet_ranges [OF bs(3-6)] sextet_ranges [OF bs(5,6,5,6)]
  show ?case unfolding byte_sextets.simps set_append list.set by blast
next
  case (2 a b)
  then have bs: "0 \<le> a" "a < 256" "0 \<le> b" "b < 256" by simp_all
  from sextet_ranges [OF bs] sextet_ranges [OF bs(3,4,3,4)] show ?case
    unfolding byte_sextets.simps list.set by blast
next
  case (3 a)
  then have bs: "0 \<le> a" "a < 256" by simp_all
  from sextet_ranges [OF bs bs] show ?case unfolding byte_sextets.simps list.set by blast
qed simp

lemma glued: "0 \<le> f \<Longrightarrow> f < k \<Longrightarrow> (e * k + f) div k = (e :: int)" "0 \<le> f \<Longrightarrow> f < k \<Longrightarrow> (e * k + f) mod k = (f :: int)"
  by simp_all

lemma sextets_glue:
  assumes "0 \<le> y" "y < (256 :: int)"
  shows "(x mod 4 * 16 + y div 16) div 16 = x mod 4" "(x mod 4 * 16 + y div 16) mod 16 = y div 16"
    "(x mod 16 * 4 + y div 64) div 4 = x mod 16" "(x mod 16 * 4 + y div 64) mod 4 = y div 64"
  using assms by (intro glued; simp)+

lemma sextet_bytes_sextets: "bytes_ok bs \<Longrightarrow> sextet_bytes (byte_sextets bs) = bs"
proof (induction bs rule: byte_sextets.induct)
  case (1 a b c r)
  have "bytes_ok r" using "1.prems" by (meson list.set_intros(2))
  then have r: "sextet_bytes (byte_sextets r) = r" by (rule "1.IH")
  have "0 \<le> b" "b < 256" "0 \<le> c" "c < 256" using "1.prems" by simp_all
  then show ?case by (simp add: r sextets_glue div_mult_mod_eq)
next
  case (2 a b)
  then have "0 \<le> b" "b < 256" by simp_all
  then show ?case by (simp add: sextets_glue div_mult_mod_eq)
qed (simp_all add: div_mult_mod_eq)

lemma base64_char_value: "0 \<le> n \<Longrightarrow> n < 64 \<Longrightarrow> base64_value (base64_char n) = Some n"
proof -
  assume n: "0 \<le> n" "n < 64"
  have "\<forall>k \<in> set [0..<64]. base64_value (base64_char (int k)) = Some (int k)" by code_simp
  moreover have "nat n \<in> set [0..<64]" using n by auto
  ultimately have "base64_value (base64_char (int (nat n))) = Some (int (nat n))" by (rule bspec)
  with n show ?thesis by simp
qed

text \<open>The characters of the alphabet are plain: no quote, no parenthesis, no white space.\<close>

definition plain_char :: "jschar \<Rightarrow> bool" where
  "plain_char c \<longleftrightarrow> 33 \<le> c \<and> c < 127 \<and> c \<noteq> dquote \<and> c \<noteq> squote \<and> c \<noteq> backslash \<and> c \<noteq> cu CHR ''('' \<and>
     c \<noteq> cu CHR '')''"

lemma plain_hex: "hex_char c \<Longrightarrow> plain_char c"
  by (auto simp: hex_char_def hex_value_def plain_char_def cu_def split: if_splits)

lemma plain_digit: "ascii_digit c \<Longrightarrow> plain_char c"
  by (auto simp: ascii_digit_def plain_char_def cu_def)

lemma plain_base64: "0 \<le> n \<Longrightarrow> n < 64 \<Longrightarrow> plain_char (base64_char n) \<and> base64_char n \<noteq> cu CHR ''=''"
proof -
  assume n: "0 \<le> n" "n < 64"
  have "\<forall>k \<in> set [0..<64]. plain_char (base64_char (int k)) \<and> base64_char (int k) \<noteq> cu CHR ''=''" by code_simp
  moreover have "nat n \<in> set [0..<64]" using n by auto
  ultimately have "plain_char (base64_char (int (nat n))) \<and> base64_char (int (nat n)) \<noteq> cu CHR ''=''"
    by (rule bspec)
  with n show ?thesis by simp
qed

lemma plain_facts:
  "plain_char c \<Longrightarrow> \<not> is_js_space c" "plain_char c \<Longrightarrow> \<not> is_quote c" "plain_char c \<Longrightarrow> \<not> base64_space c"
  by (auto simp: plain_char_def is_js_space_def is_quote_def base64_space_def)

lemma length_byte_sextets: "length (byte_sextets bs @ base64_padding bs) mod 4 = 0"
  by (induction bs rule: byte_sextets.induct) (auto simp: base64_padding_def)

lemma strip_padding_append:
  assumes "\<forall>c \<in> set s. c \<noteq> cu CHR ''=''" and "length (s @ base64_padding bs) mod 4 = 0"
  shows "strip_padding (s @ base64_padding bs) = s"
proof -
  have no: "\<not> ends_with s (t @ [cu CHR ''=''])" for t
  proof
    assume "ends_with s (t @ [cu CHR ''=''])"
    then have "cu CHR ''='' \<in> set s" unfolding ends_with_def by (metis in_set_conv_decomp in_set_dropD)
    with assms(1) show False by blast
  qed
  have "\<not> ends_with s [cu CHR ''='']" "\<not> ends_with s [cu CHR ''='', cu CHR ''='']"
    using no [of "[]"] no [of "[cu CHR ''='']"] by simp_all
  moreover have "\<not> ends_with (s @ [cu CHR ''='']) [cu CHR ''='', cu CHR ''='']"
  proof
    assume "ends_with (s @ [cu CHR ''='']) [cu CHR ''='', cu CHR ''='']"
    then have "s \<noteq> []" and "drop (length s - 1) s = [cu CHR ''='']" by (auto simp: ends_with_def)
    with assms(1) show False by (metis in_set_dropD list.set_intros(1))
  qed
  ultimately show ?thesis
    using assms(2) by (auto simp: strip_padding_def base64_padding_def js_def Let_def)
      (auto simp: ends_with_def)
qed

lemma base64_read_back:
  assumes "bytes_ok bs"
  shows "base64ToByteArray (byteArrayToBase64 bs) = Some bs"
proof -
  let ?s = "map base64_char (byte_sextets bs)"
  have r: "0 \<le> n \<and> n < 64" if "n \<in> set (byte_sextets bs)" for n
    using byte_sextets_range [OF assms] that by auto
  have "filter (\<lambda>c. \<not> base64_space c) (?s @ base64_padding bs) = ?s @ base64_padding bs"
    using r plain_base64 plain_facts(3)
    by (auto simp: filter_id_conv base64_padding_def js_def) (auto simp: base64_space_def cu_def)
  moreover have "strip_padding (?s @ base64_padding bs) = ?s"
    using r length_byte_sextets [of bs] by (intro strip_padding_append) (auto simp: plain_base64)
  moreover have "length ?s mod 4 \<noteq> 1"
    using length_byte_sextets [of bs] by (auto simp: base64_padding_def split: if_splits) presburger+
  moreover have "List.map_filter base64_value ?s = byte_sextets bs"
  proof -
    have "List.map_filter base64_value (map base64_char ns) = ns" if "\<forall>n \<in> set ns. 0 \<le> n \<and> n < 64" for ns
      using that by (induction ns) (simp_all add: base64_char_value)
    then show ?thesis using r by blast
  qed
  moreover have "\<not> (\<exists>c \<in> set ?s. base64_value c = None)" using r by (auto simp: base64_char_value)
  ultimately show ?thesis
    by (simp add: base64ToByteArray_def byteArrayToBase64_parts Let_def sextet_bytes_sextets [OF assms])
qed

section \<open>A UUID is read back\<close>

lemma hex_digit_value: "hex_value c = Some d \<Longrightarrow> 0 \<le> d \<and> d < 16"
  by (auto simp: hex_value_def split: if_splits)

lemma hex_digit_lower: "hex_value c = Some d \<Longrightarrow> [hex_digit d] = lower_unit c"
  by (auto simp: hex_value_def hex_digit_def lower_unit_def split: if_splits)

lemma lower_hex_value: "hex_value c = Some d \<Longrightarrow> lower_unit c = [c'] \<Longrightarrow> hex_value c' = Some d"
  by (auto simp: hex_value_def lower_unit_def split: if_splits)

text \<open>The digits of a text of hexadecimal digits, two to a byte.\<close>

fun pair_bytes :: "int list \<Rightarrow> int list" where
  "pair_bytes (a # b # r) = (16 * a + b) # pair_bytes r"
| "pair_bytes _ = []"

lemma pair_bytes_ok: "\<forall>d \<in> set ds. 0 \<le> d \<and> d < 16 \<Longrightarrow> bytes_ok (pair_bytes ds)"
  by (induction ds rule: pair_bytes.induct) auto

lemma byte_hex_pairs:
  "even (length ds) \<Longrightarrow> \<forall>d \<in> set ds. 0 \<le> d \<and> d < 16 \<Longrightarrow>
   concat (map byte_hex (pair_bytes ds)) = map hex_digit ds"
proof (induction ds rule: pair_bytes.induct)
  case (1 a b r)
  then have "(16 * a + b) div 16 = a" "(16 * a + b) mod 16 = b" by simp_all
  with 1 show ?case by (simp add: byte_hex_def)
qed auto

definition hex_values :: "jsstr \<Rightarrow> int list" where
  "hex_values s = List.map_filter hex_value s"

lemma hex_values_facts:
  assumes "\<forall>c \<in> set s. hex_char c"
  shows "length (hex_values s) = length s" and "\<forall>d \<in> set (hex_values s). 0 \<le> d \<and> d < 16"
    and "map hex_digit (hex_values s) = to_lower s"
  using assms
  by (induction s; force simp: hex_values_def List.map_filter_def to_lower_Cons hex_char_def
      dest: hex_digit_value hex_digit_lower)+

lemma to_lower_hex:
  assumes "\<forall>c \<in> set s. hex_char c"
  shows "length (to_lower s) = length s" and "\<forall>c \<in> set (to_lower s). hex_char c"
    and "hex_values (to_lower s) = hex_values s"
proof -
  have "length (to_lower s) = length s \<and> (\<forall>c \<in> set (to_lower s). hex_char c) \<and> hex_values (to_lower s) = hex_values s"
    using assms
  proof (induction s)
    case (Cons c s)
    then obtain d where d: "hex_value c = Some d" by (auto simp: hex_char_def)
    then have "lower_unit c = [hex_digit d]" using hex_digit_lower by simp
    with d lower_hex_value [OF d] Cons show ?case
      by (auto simp: to_lower_Cons hex_values_def List.map_filter_def hex_char_def)
  qed (simp add: hex_values_def)
  then show "length (to_lower s) = length s" and "\<forall>c \<in> set (to_lower s). hex_char c"
    and "hex_values (to_lower s) = hex_values s" by auto
qed

lemma hex_number_pair:
  assumes "hex_value a = Some x" and "hex_value b = Some y"
  shows "hex_number [a, b] = 16 * x + y"
  using assms by (simp add: hex_number_def hex_char_def)

lemma slices_pairs:
  "length s = 2 * n \<Longrightarrow> \<forall>c \<in> set s. hex_char c \<Longrightarrow>
   map (\<lambda>i. hex_number (slice s (i * 2) (i * 2 + 2))) [0..<n] = pair_bytes (hex_values s)"
proof (induction n arbitrary: s)
  case (Suc n)
  then obtain a b r where s: "s = a # b # r" by (cases s rule: remdups_adj.cases) auto
  then obtain x y where xy: "hex_value a = Some x" "hex_value b = Some y"
    using Suc.prems(2) by (auto simp: hex_char_def)
  have "map (\<lambda>i. hex_number (slice s (i * 2) (i * 2 + 2))) [0..<Suc n] =
      hex_number (slice s 0 2) # map (\<lambda>i. hex_number (slice s (Suc i * 2) (Suc i * 2 + 2))) [0..<n]"
    by (simp del: upt_Suc add: upt_conv_Cons map_Suc_upt [symmetric] numeral_2_eq_2)
  also have "\<dots> = (16 * x + y) # map (\<lambda>i. hex_number (slice r (i * 2) (i * 2 + 2))) [0..<n]"
    by (simp add: s slice_def hex_number_pair [OF xy])
  also have "\<dots> = pair_bytes (hex_values s)"
    using Suc.IH [of r] Suc.prems by (simp add: s xy hex_values_def List.map_filter_def)
  finally show ?case .
qed (auto simp: hex_values_def)

lemma slice_Cons: "i < j \<Longrightarrow> j \<le> length s \<Longrightarrow> slice s i j = s ! i # slice s (Suc i) j"
  by (simp add: slice_def Cons_nth_drop_Suc [symmetric] Suc_diff_Suc [symmetric])

lemma ascii_to_lower: "\<forall>c \<in> set s. c < 128 \<Longrightarrow> to_lower s = map ascii_fold s"
  by (induction s) (auto simp: to_lower_Cons lower_unit_def ascii_fold_def)

lemma hex_fold: "hex_char c \<Longrightarrow> hex_char (ascii_fold c)" "hex_char c \<Longrightarrow> c < 128"
  by (auto simp: hex_char_def hex_value_def ascii_fold_def split: if_splits)

lemma UUID_chars:
  assumes "UUID_RE u" and "c \<in> set u"
  shows "hex_char c \<or> c = cu CHR ''-''"
proof -
  obtain i where "i < length u" "c = u ! i" using assms(2) by (auto simp: in_set_conv_nth)
  moreover from this assms(1) have "i \<in> set [0..<36]" by (auto simp: UUID_RE_def)
  ultimately show ?thesis using assms(1) unfolding UUID_RE_def by metis
qed

lemma UUID_ascii: "UUID_RE u \<Longrightarrow> to_lower u = map ascii_fold u"
  by (rule ascii_to_lower) (auto simp: cu_def dest: UUID_chars hex_fold(2))

lemma UUID_lower: "UUID_RE u \<Longrightarrow> UUID_RE (to_lower u)"
proof -
  assume u: "UUID_RE u"
  then have len: "length u = 36" by (simp add: UUID_RE_def)
  have at: "if i \<in> set dash_positions then map ascii_fold u ! i = cu CHR ''-'' else hex_char (map ascii_fold u ! i)"
    if "i \<in> set [0..<36]" for i
  proof -
    have "if i \<in> set dash_positions then u ! i = cu CHR ''-'' else hex_char (u ! i)"
      using u that unfolding UUID_RE_def by blast
    moreover have "i < length u" using that len by simp
    ultimately show ?thesis using hex_fold(1) by (auto simp: ascii_fold_def cu_def split: if_splits)
  qed
  have "u ! 14 \<in> set (js ''12345'')" "u ! 19 \<in> set (js ''89abAB'')" using u by (simp_all add: UUID_RE_def)
  then have "map ascii_fold u ! 14 \<in> set (js ''12345'')" "map ascii_fold u ! 19 \<in> set (js ''89abAB'')"
    using len by (auto simp: js_def cu_def ascii_fold_def)
  moreover have "length (map ascii_fold u) = 36" using len by simp
  moreover have "\<forall>i \<in> set [0..<36]. if i \<in> set dash_positions then map ascii_fold u ! i = cu CHR ''-''
      else hex_char (map ascii_fold u ! i)"
    using at by blast
  ultimately show ?thesis unfolding UUID_ascii [OF u] UUID_RE_def by blast
qed

lemma UUID_parts:
  assumes "UUID_RE u"
  obtains a b c d e where "u = join (js ''-'') [a, b, c, d, e]" and "\<forall>x \<in> set (a @ b @ c @ d @ e). hex_char x"
    and "length a = 8" "length b = 4" "length c = 4" "length d = 4" "length e = 12"
proof -
  have len: "length u = 36" using assms by (simp add: UUID_RE_def)
  have at: "if i \<in> set dash_positions then u ! i = cu CHR ''-'' else hex_char (u ! i)" if "i < 36" for i
  proof -
    have "i \<in> set [0..<36]" using that by simp
    with assms show ?thesis unfolding UUID_RE_def by blast
  qed
  have dash: "u ! 8 = cu CHR ''-''" "u ! 13 = cu CHR ''-''" "u ! 18 = cu CHR ''-''" "u ! 23 = cu CHR ''-''"
    using at [of 8] at [of 13] at [of 18] at [of 23] by (simp_all add: dash_positions_def)
  have hex: "\<forall>x \<in> set (slice u i j). hex_char x" if "\<forall>k \<in> set dash_positions. k < i \<or> j \<le> k" "j \<le> 36" for i j
  proof
    fix x assume "x \<in> set (slice u i j)"
    then obtain k where k: "x = u ! k" "i \<le> k" "k < j" by (auto simp: set_slice)
    then have "k \<notin> set dash_positions" using that(1) by auto
    with at [of k] k that(2) show "hex_char x" by simp
  qed
  have step: "slice u i 36 = slice u i j @ cu CHR ''-'' # slice u (Suc j) 36" if "i \<le> j" "u ! j = cu CHR ''-''" "j < 36" for i j
    using slice_append [of i j 36 u] slice_Cons [of j 36 u] that len by simp
  have "u = slice u 0 36" using len by (metis slice_all)
  also have "\<dots> = join (js ''-'') [slice u 0 8, slice u 9 13, slice u 14 18, slice u 19 23, slice u 24 36]"
    using step [of 0 8] step [of 9 13] step [of 14 18] step [of 19 23] dash by (simp add: js_def)
  finally have "u = join (js ''-'') [slice u 0 8, slice u 9 13, slice u 14 18, slice u 19 23, slice u 24 36]" .
  moreover have "\<forall>x \<in> set (slice u 0 8 @ slice u 9 13 @ slice u 14 18 @ slice u 19 23 @ slice u 24 36). hex_char x"
    using hex [of 0 8] hex [of 9 13] hex [of 14 18] hex [of 19 23] hex [of 24 36] by (auto simp: dash_positions_def)
  moreover have "length (slice u 0 8) = 8" "length (slice u 9 13) = 4" "length (slice u 14 18) = 4"
    "length (slice u 19 23) = 4" "length (slice u 24 36) = 12"
    using len by simp_all
  ultimately show thesis using that by blast
qed

lemma replace_char_append: "replace_char c r (s @ t) = replace_char c r s @ replace_char c r t"
  by (simp add: replace_char_def)

lemma uuid_read_back:
  assumes "UUID_RE u"
  shows "bytesToUuid (uuidToBytes u) = to_lower u" and "bytes_ok (uuidToBytes u)" and "length (uuidToBytes u) = 16"
proof -
  obtain a b c d e where u: "u = join (js ''-'') [a, b, c, d, e]" and hex: "\<forall>x \<in> set (a @ b @ c @ d @ e). hex_char x"
    and len: "length a = 8" "length b = 4" "length c = 4" "length d = 4" "length e = 12"
    using UUID_parts [OF assms] .
  let ?h = "a @ b @ c @ d @ e"
  have lenh: "length ?h = 2 * 16" using len by simp
  have nodash: "replace_char (cu CHR ''-'') [] s = s" if "\<forall>x \<in> set s. hex_char x" for s
  proof -
    have "cu CHR ''-'' \<notin> set s" using that by (auto simp: hex_char_def hex_value_def cu_def)
    then show ?thesis by (rule replace_char_id)
  qed
  have dashes: "replace_char (cu CHR ''-'') [] u = ?h"
    using hex nodash by (simp add: u js_def replace_char_append)
  have "\<forall>x \<in> set u. \<not> is_js_space x"
  proof
    fix x assume "x \<in> set u"
    then consider "hex_char x" | "x = cu CHR ''-''" using UUID_chars [OF assms] by blast
    then show "\<not> is_js_space x"
      by cases (simp_all add: plain_hex plain_facts(1), simp add: is_js_space_def cu_def)
  qed
  moreover have "u \<noteq> []" using assms by (auto simp: UUID_RE_def)
  ultimately have "trim u = u" by (intro trim_id) simp
  then have "uuidToBytes u = map (\<lambda>i. hex_number (slice (to_lower ?h) (i * 2) (i * 2 + 2))) [0..<16]"
    by (simp add: uuidToBytes_def dashes)
  also have "\<dots> = pair_bytes (hex_values ?h)"
    using slices_pairs [of "to_lower ?h" 16] to_lower_hex [OF hex] lenh by simp
  finally have bytes: "uuidToBytes u = pair_bytes (hex_values ?h)" .
  have vals: "length (hex_values ?h) = 32" "\<forall>x \<in> set (hex_values ?h). 0 \<le> x \<and> x < 16"
    using hex_values_facts [OF hex] lenh by simp_all
  show "bytes_ok (uuidToBytes u)" unfolding bytes by (rule pair_bytes_ok [OF vals(2)])
  show "length (uuidToBytes u) = 16" by (simp add: uuidToBytes_def)
  have "concat (map byte_hex (uuidToBytes u)) = to_lower ?h"
    unfolding bytes using byte_hex_pairs [OF _ vals(2)] vals(1) hex_values_facts(3) [OF hex] by simp
  moreover have "length (to_lower a) = 8" "length (to_lower b) = 4" "length (to_lower c) = 4" "length (to_lower d) = 4"
    "length (to_lower e) = 12"
    using to_lower_hex(1) [of a] to_lower_hex(1) [of b] to_lower_hex(1) [of c] to_lower_hex(1) [of d]
      to_lower_hex(1) [of e] hex len by simp_all
  moreover have "to_lower (js ''-'') = js ''-''" by code_simp
  ultimately show "bytesToUuid (uuidToBytes u) = to_lower u"
    by (simp add: bytesToUuid_def slice_def u)
qed

section \<open>A cell whose text is not changed\<close>

inductive typed_value :: "json \<Rightarrow> bool" where
  oid: "HEX24_RE h \<Longrightarrow> typed_value (JObj [(js ''$oid'', JStr h)])"
| int32: "INTEGER_RE s \<Longrightarrow> typed_value (JObj [(js ''$numberInt'', JStr s)])"
| int64: "INTEGER_RE s \<Longrightarrow> typed_value (JObj [(js ''$numberLong'', JStr s)])"
| decimal128: "decimal_body s = Some s \<Longrightarrow> typed_value (JObj [(js ''$numberDecimal'', JStr s)])"
| uuid: "UUID_RE u \<Longrightarrow> typed_value (buildMongoBinaryUUID u)"
| max_key: "typed_value (JObj [(js ''$maxKey'', JNum (1, 0))])"
| min_key: "typed_value (JObj [(js ''$minKey'', JNum (1, 0))])"

abbreviation plain_text :: "jsstr \<Rightarrow> bool" where
  "plain_text s \<equiv> \<forall>c \<in> set s. plain_char c"

lemma json_escape_plain: "plain_text s \<Longrightarrow> json_escape s = s"
proof (induction s rule: json_escape.induct)
  case (1 c d s)
  have "escape_unit c = [c]" "\<not> high_surrogate c" if "plain_char c" for c
    using that by (auto simp: plain_char_def escape_unit_def short_escapes_def high_surrogate_def low_surrogate_def)
  with 1 show ?case by simp
next
  case (2 c)
  then show ?case
    by (auto simp: plain_char_def escape_unit_def short_escapes_def high_surrogate_def low_surrogate_def)
qed simp

lemma op_text_stringify: "plain_text (js op) \<Longrightarrow> plain_text b \<Longrightarrow> op_text op b = stringify (JObj [(js op, JStr b)])"
  by (simp add: op_text_def quote_json_def json_escape_plain js_def)

lemma signed_plain: "signed s \<Longrightarrow> plain_char (hd s)"
  by (auto simp: signed_def plain_char_def cu_def)

lemma sign_strip: "sign_of s @ strip_sign s = s" "plain_text (sign_of s)"
proof -
  show "sign_of s @ strip_sign s = s" by (cases s) (simp_all add: sign_of_def strip_sign_def signed_def)
  show "plain_text (sign_of s)"
  proof (cases "signed s")
    case True
    moreover obtain c t where "s = c # t" using True by (cases s) (auto simp: signed_def)
    ultimately show ?thesis using signed_plain [OF True] by (simp add: sign_of_def)
  qed (simp add: sign_of_def)
qed

lemma INTEGER_body: "INTEGER_RE s \<Longrightarrow> integer_body s = Some s \<and> plain_text s"
proof -
  assume i: "INTEGER_RE s"
  then have "digits_of (strip_sign s) = strip_sign s" "strip_sign s \<noteq> []"
    by (simp_all add: INTEGER_RE_def all_digits_def digits_of_def takeWhile_eq_all_conv)
  moreover have "plain_text (strip_sign s)" using i by (simp add: INTEGER_RE_def all_digits_def plain_digit)
  moreover from this have "plain_text (sign_of s @ strip_sign s)" using sign_strip(2) [of s] by auto
  ultimately show ?thesis by (simp add: integer_body_def sign_strip(1))
qed

lemma digits_plain: "plain_text (digits_of s)"
  unfolding digits_of_def by (metis plain_digit set_takeWhileD)

lemma decimal_plain: "decimal_body s = Some b \<Longrightarrow> plain_text b"
  using sign_strip(2) [of s] digits_plain
  by (auto simp: decimal_body_def Let_def split: if_splits option.splits) (auto simp: plain_char_def cu_def)

lemma skip_plain: "c \<noteq> [] \<Longrightarrow> plain_text c \<Longrightarrow> skip_js_spaces (c @ s) = c @ s"
  by (cases c) (auto simp: skip_js_spaces_def plain_facts)

lemma quote_facts [simp]: "is_quote dquote" "\<not> is_js_space dquote" "\<not> is_js_space (cu CHR '')'')" "\<not> is_quote (cu CHR '')'')"
  by (simp_all add: is_quote_def is_js_space_def cu_def)

lemma after_close_end: "after_close [cu CHR '')''] = Some []"
  by (simp add: after_close_def skip_js_spaces_def after_char_def)

lemma quoted_arg_read:
  "body (b @ [dquote, cu CHR '')'']) = Some b \<Longrightarrow>
   quoted_arg body (dquote # b @ [dquote, cu CHR '')'']) = Some (b, [])"
  by (simp add: quoted_arg_def skip_js_spaces_def after_close_end)

lemma optional_arg_quoted:
  assumes "body (b @ [dquote, cu CHR '')'']) = Some b"
  shows "optional_arg body (dquote # b @ [dquote, cu CHR '')'']) = Some (b, [])"
  using assms by (simp add: optional_arg_def open_arg_def bare_arg_def first_some_def skip_js_spaces_def after_close_end)

lemma optional_arg_bare:
  assumes "body (b @ [cu CHR '')'']) = Some b" and "b \<noteq> []" and "plain_text b"
  shows "optional_arg body (b @ [cu CHR '')'']) = Some (b, [])"
proof -
  obtain c t where b: "b = c # t" using assms(2) by (cases b) auto
  have "skip_js_spaces (b @ [cu CHR '')'']) = b @ [cu CHR '')'']" using assms(2,3) by (rule skip_plain)
  moreover have "\<not> is_quote c" using assms(3) b plain_facts(2) by simp
  ultimately show ?thesis
    using assms(1) by (simp add: optional_arg_def open_arg_def bare_arg_def first_some_def after_close_end b)
qed

lemma body_stop:
  assumes "c = dquote \<or> c = cu CHR '')''"
  shows "integer_body s = Some s \<Longrightarrow> integer_body (s @ c # t) = Some s"
    and "decimal_body s = Some s \<Longrightarrow> decimal_body (s @ c # t) = Some s"
proof -
  have c: "\<not> ascii_digit c" "c \<noteq> cu CHR ''.''" "c \<noteq> cu CHR ''-''" "c \<noteq> cu CHR ''+''"
    using assms by (auto simp: ascii_digit_def cu_def)
  have d: "digits_of (u @ c # t) = digits_of u" for u
    using c(1) by (induction u) (simp_all add: digits_of_def)
  have s: "strip_sign (u @ c # t) = strip_sign u @ c # t" "sign_of (u @ c # t) = sign_of u" for u
    using c by (cases u; auto simp: strip_sign_def sign_of_def signed_def)+
  show "integer_body s = Some s \<Longrightarrow> integer_body (s @ c # t) = Some s"
    by (simp add: integer_body_def s d Let_def split: if_splits)
  have f: "(case after_dot (drop (length (digits_of u)) (u @ c # t)) of Some f \<Rightarrow> digits_of f | None \<Rightarrow> []) =
      (case after_dot (drop (length (digits_of u)) u) of Some f \<Rightarrow> digits_of f | None \<Rightarrow> [])" for u
  proof -
    have "length (digits_of u) \<le> length u" by (simp add: digits_of_def length_takeWhile_le)
    then show ?thesis using c(2) d by (cases "drop (length (digits_of u)) u") (auto simp: after_dot_def)
  qed
  have "decimal_body (s @ c # t) = decimal_body s" unfolding decimal_body_def Let_def s d f ..
  then show "decimal_body s = Some s \<Longrightarrow> decimal_body (s @ c # t) = Some s" by simp
qed

definition call_names :: "string list" where
  "call_names = [''ObjectId'', ''NumberLong'', ''NumberInt'', ''NumberDecimal'', ''UUID'', ''MaxKey'', ''MinKey'']"

definition all_names :: "string list" where
  "all_names = [''ObjectId'', ''ISODate'', ''NumberLong'', ''NumberInt'', ''NumberDouble'', ''NumberDecimal'', ''UUID'',
     ''MaxKey'', ''MinKey'']"

lemma names_computed:
  "\<forall>name \<in> set call_names. js name \<noteq> [] \<and> \<not> is_js_space (last (js name)) \<and> \<not> is_js_space (hd (js name)) \<and>
     map ascii_fold (js name) \<in> set typed_names"
  "\<forall>name \<in> set call_names. \<forall>other \<in> set all_names. other \<noteq> name \<longrightarrow> \<not> ends_with (js name) (js other)"
  "\<forall>name \<in> set all_names. cu CHR ''('' \<notin> set (js name)"
  "\<forall>name \<in> set call_names. name \<in> set all_names"
  by code_simp+

lemma literal_names:
  assumes "name \<in> set call_names"
  shows "cu CHR ''('' \<notin> set (js name)" and "js name \<noteq> []" and "\<not> is_js_space (last (js name))"
    and "\<not> is_js_space (hd (js name))"
    and "other \<in> set all_names \<Longrightarrow> other \<noteq> name \<Longrightarrow> \<not> ends_with (js name) (js other)"
    and "map ascii_fold (js name) \<in> set typed_names"
  using assms names_computed by blast+

text \<open>Of the nine passes the one for the name of the call replaces it; the others change nothing.\<close>

type_synonym pass = "string \<times> (jsstr \<Rightarrow> (jsstr \<times> jsstr) option) \<times> (jsstr \<Rightarrow> jsstr)"

definition passes :: "(jsstr \<Rightarrow> int option) \<Rightarrow> pass list" where
  "passes date_ms =
     [(''ObjectId'', quoted_arg hex24_body, \<lambda>oid. stringify (JObj [(js ''$oid'', JStr oid)])),
      (''ISODate'', quoted_arg unquoted_body, \<lambda>d. stringify (buildMongoExtendedDate date_ms (JStr d))),
      (''NumberLong'', optional_arg integer_body, op_text ''$numberLong''),
      (''NumberInt'', optional_arg integer_body, op_text ''$numberInt''),
      (''NumberDouble'', optional_arg loose_body, op_text ''$numberDouble''),
      (''NumberDecimal'', optional_arg decimal_body, op_text ''$numberDecimal''),
      (''UUID'', quoted_arg uuid_body, \<lambda>u. stringify (buildMongoBinaryUUID u)),
      (''MaxKey'', no_arg, \<lambda>_. js ''{\"$maxKey\":1}''), (''MinKey'', no_arg, \<lambda>_. js ''{\"$minKey\":1}'')]"

definition run_pass :: "jsstr \<Rightarrow> pass \<Rightarrow> jsstr" where
  "run_pass s p = replace_matches (call_match (fst p) (fst (snd p)) (snd (snd p))) s"

lemma normalize_passes: "normalizeExtendedJSON date_ms s = foldl run_pass s (passes date_ms)"
  by (simp add: normalizeExtendedJSON_def passes_def run_pass_def Let_def)

lemma pass_names: "map fst (passes date_ms) = all_names" "distinct all_names"
  by (simp_all add: passes_def all_names_def)

lemma passes_rest: "cu CHR ''('' \<notin> set r \<Longrightarrow> foldl run_pass r ps = r"
  by (induction ps) (simp_all add: run_pass_def replace_no_call)

lemma passes_other:
  assumes "name \<in> set call_names" and "cu CHR ''('' \<notin> set t" and "\<forall>p \<in> set ps. fst p \<in> set all_names \<and> fst p \<noteq> name"
  shows "foldl run_pass (js name @ cu CHR ''('' # t) ps = js name @ cu CHR ''('' # t"
  using assms(3)
proof (induction ps)
  case (Cons p ps)
  note nm = literal_names [OF assms(1)]
  have "replace_matches (call_match (fst p) arg f) (js name @ cu CHR ''('' # t) = js name @ cu CHR ''('' # t" for arg f
  proof (rule replace_other_call)
    show "cu CHR ''('' \<notin> set (js name) \<union> set t" using nm(1) assms(2) by blast
    show "js name \<noteq> []" by (rule nm(2))
    show "\<not> is_js_space (last (js name))" by (rule nm(3))
    show "\<not> ends_with (js name) (js (fst p))" using Cons.prems by (intro nm(5)) simp_all
    show "cu CHR ''('' \<notin> set (js (fst p))" using names_computed(3) Cons.prems by (meson list.set_intros(1))
  qed
  with Cons show ?case by (simp add: run_pass_def)
qed simp

lemma normalize_one_call:
  assumes "(name, arg, f) \<in> set (passes date_ms)" and "name \<in> set call_names" and "arg t = Some (b, [])"
    and "cu CHR ''('' \<notin> set t" and "cu CHR ''('' \<notin> set (f b)"
  shows "normalizeExtendedJSON date_ms (js name @ cu CHR ''('' # t) = f b"
proof -
  obtain ps qs where ps: "passes date_ms = ps @ (name, arg, f) # qs" using assms(1) by (meson split_list)
  have "\<forall>p \<in> set ps. fst p \<in> set all_names \<and> fst p \<noteq> name"
  proof
    fix p assume "p \<in> set ps"
    moreover have "map fst ps @ name # map fst qs = all_names" using pass_names(1) [of date_ms] by (simp add: ps)
    ultimately show "fst p \<in> set all_names \<and> fst p \<noteq> name" using pass_names(2)
      by (metis (no_types, lifting) Un_iff distinct_append disjoint_iff image_eqI list.set_intros(1) list.set_map set_append)
  qed
  then have "foldl run_pass (js name @ cu CHR ''('' # t) ps = js name @ cu CHR ''('' # t"
    by (rule passes_other [OF assms(2,4)])
  moreover have "run_pass (js name @ cu CHR ''('' # t) (name, arg, f) = f b"
    using replace_this_call [of arg t b name f, OF assms(3) literal_names(1) [OF assms(2)]] by (simp add: run_pass_def)
  ultimately show ?thesis unfolding normalize_passes ps using passes_rest [OF assms(5)] by simp
qed

text \<open>A call printed for editing is taken as a literal, and read as the value whose JSON it stands for.\<close>

lemma edited_literal:
  assumes "name \<in> set call_names" and "last t = cu CHR '')''" and "t \<noteq> []"
    and "(name, arg, f) \<in> set (passes date_ms)" and "arg t = Some (b, [])"
    and "cu CHR ''('' \<notin> set t" and "cu CHR ''('' \<notin> set (f b)" and "f b = stringify v" and "json_ok v"
  shows "parseMongoEditedValue date_ms iso_text ev col (Some (JStr (js name @ cu CHR ''('' # t))) current = Inr (Some v)"
proof -
  let ?s = "js name @ cu CHR ''('' # t"
  note nm = literal_names [OF assms(1)]
  have norm: "normalizeExtendedJSON date_ms ?s = stringify v"
    using normalize_one_call [OF assms(4,1,5-7)] assms(8) by simp
  have trim: "trim ?s = ?s"
  proof (rule trim_id)
    have "last ?s = cu CHR '')''" using assms(2,3) by simp
    moreover have "hd ?s = hd (js name)" using nm(2) by simp
    ultimately show "?s = [] \<or> \<not> is_js_space (hd ?s) \<and> \<not> is_js_space (last ?s)" using nm(4) by (metis quote_facts(3))
  qed
  have "match_ci_at ?s (map ascii_fold (js name)) 0" by (simp add: match_ci_at_def slice_def)
  moreover have "after_char CHR ''('' (skip_js_spaces (drop (length (map ascii_fold (js name))) ?s)) \<noteq> None"
    by (simp add: skip_js_spaces_def after_char_def is_js_space_def cu_def)
  ultimately have "looksLikeExplicitMongoTypedLiteral ?s"
    unfolding looksLikeExplicitMongoTypedLiteral_def Let_def trim using nm(6) by blast
  moreover have "parseMongoJSONValue date_ms ev ?s = Inr v"
    unfolding parseMongoJSONValue_def Let_def trim norm parse_stringify [OF assms(9)] by simp
  ultimately show ?thesis by (simp add: parseMongoEditedValue_def)
qed

lemma plain_basic: "plain_char c \<Longrightarrow> 0 \<le> c" "plain_char c \<Longrightarrow> c \<noteq> cu CHR ''(''"
  by (simp_all add: plain_char_def)

lemma edited_operator:
  assumes "fst p \<noteq> js ''$date''" and "operator_display date_ms iso_text p = Some t"
  shows "formatMongoEditableValue date_ms iso_text (Some (JObj [p])) col = t"
  using assms by (simp add: formatMongoEditableValue_def formatMongoValueForDisplay_def getSingleMongoOperatorEntry_def)

lemma operator_displays:
  "operator_display date_ms iso_text (js ''$oid'', JStr s) = Some (js ''ObjectId'' @ cu CHR ''('' # dquote # s @ [dquote, cu CHR '')''])"
  "operator_display date_ms iso_text (js ''$numberInt'', JStr s) = Some (js ''NumberInt'' @ cu CHR ''('' # s @ [cu CHR '')''])"
  "operator_display date_ms iso_text (js ''$numberLong'', JStr s) =
    Some (js ''NumberLong'' @ cu CHR ''('' # dquote # s @ [dquote, cu CHR '')''])"
  "operator_display date_ms iso_text (js ''$numberDecimal'', JStr s) =
    Some (js ''NumberDecimal'' @ cu CHR ''('' # dquote # s @ [dquote, cu CHR '')''])"
  "operator_display date_ms iso_text (js ''$maxKey'', v) = Some (js ''MaxKey'' @ cu CHR ''('' # [cu CHR '')''])"
  "operator_display date_ms iso_text (js ''$minKey'', v) = Some (js ''MinKey'' @ cu CHR ''('' # [cu CHR '')''])"
  by (simp_all add: operator_display_def operator_kinds_def given_text_def js_def)

lemma uuid_display:
  assumes "UUID_RE u"
  shows "buildMongoBinaryLiteralText (Some (buildMongoBinaryUUID u)) =
    Some (js ''UUID'' @ cu CHR ''('' # dquote # to_lower u @ [dquote, cu CHR '')''])"
proof -
  note rb = uuid_read_back [OF assms]
  let ?b = "byteArrayToBase64 (uuidToBytes u)"
  have ne: "?b \<noteq> []" using rb(3) by (cases "uuidToBytes u" rule: byteArrayToBase64.cases) auto
  have chars: "\<not> is_js_space c" if "c \<in> set ?b" for c
  proof -
    have "plain_char (base64_char n)" if "n \<in> set (byte_sextets (uuidToBytes u))" for n
      using byte_sextets_range [OF rb(2)] that plain_base64 by force
    moreover have "plain_char (cu CHR ''='')" by (simp add: plain_char_def cu_def)
    ultimately have "plain_char c"
      using that by (auto simp: byteArrayToBase64_parts base64_padding_def js_def split: if_splits)
    then show ?thesis by (rule plain_facts)
  qed
  then have t: "trim ?b = ?b" using ne by (intro trim_id) (meson hd_in_set last_in_set)
  have s: "to_lower (trim (js ''04'')) = js ''04''" by code_simp
  show ?thesis
    using ne UUID_lower [OF assms]
    by (simp add: buildMongoBinaryLiteralText_def buildMongoBinaryUUID_def given_text_def t s base64_read_back [OF rb(2)]
        rb(1)) (simp add: js_def)
qed

lemma uuid_text:
  assumes "UUID_RE u"
  shows "plain_text (to_lower u)" and "uuid_body (to_lower u @ t) = Some (to_lower u)"
    and "buildMongoBinaryUUID (to_lower u) = buildMongoBinaryUUID u"
proof -
  note l = UUID_lower [OF assms]
  have len: "length (to_lower u) = 36" using l by (simp add: UUID_RE_def)
  have chars: "hex_char c \<or> c = cu CHR ''-''" if "c \<in> set (to_lower u)" for c using UUID_chars [OF l that] .
  then show p: "plain_text (to_lower u)" using plain_hex by (force simp: plain_char_def cu_def)
  show "uuid_body (to_lower u @ t) = Some (to_lower u)" using len chars by (simp add: uuid_body_def)
  have "trim w = w" if "UUID_RE w" for w
  proof (rule trim_id)
    have "w \<noteq> []" using that by (auto simp: UUID_RE_def)
    moreover have "\<not> is_js_space c" if "c \<in> set w" for c
      using UUID_chars [OF \<open>UUID_RE w\<close> that] plain_hex plain_facts(1) by (auto simp: is_js_space_def cu_def)
    ultimately show "w = [] \<or> \<not> is_js_space (hd w) \<and> \<not> is_js_space (last w)" by (meson hd_in_set last_in_set)
  qed
  moreover have "to_lower (replace_char (cu CHR ''-'') [] (to_lower w)) = to_lower (replace_char (cu CHR ''-'') [] w)"
    if "\<forall>c \<in> set w. c < 128" for w
    using that by (induction w) (auto simp: to_lower_Cons lower_unit_def cu_def)
  moreover have "\<forall>c \<in> set u. c < 128" using UUID_chars [OF assms] hex_fold(2) by (force simp: cu_def)
  ultimately show "buildMongoBinaryUUID (to_lower u) = buildMongoBinaryUUID u"
    using assms l by (simp add: buildMongoBinaryUUID_def uuidToBytes_def)
qed

lemma quote_chars: "cu CHR ''('' \<noteq> dquote" "cu CHR ''('' \<noteq> cu CHR '')''"
  by simp_all

lemma brace_chars: "cu CHR ''('' \<notin> set (js ''}'')" "cu CHR ''('' \<notin> set (js '','')"
  by code_simp+

lemma uuid_json:
  assumes "UUID_RE u"
  shows "json_ok (buildMongoBinaryUUID u)" and "cu CHR ''('' \<notin> set (stringify (buildMongoBinaryUUID u))"
proof -
  have "plain_char (base64_char n)" if "n \<in> set (byte_sextets (uuidToBytes u))" for n
    using byte_sextets_range [OF uuid_read_back(2) [OF assms]] that plain_base64 by force
  then have p: "plain_text (byteArrayToBase64 (uuidToBytes u))"
    by (auto simp: byteArrayToBase64_parts base64_padding_def js_def) (auto simp: plain_char_def cu_def)
  have q: "plain_text (js ''04'')" "plain_text (js ''base64'')" "plain_text (js ''subType'')" "plain_text (js ''$binary'')"
    by (auto simp: js_def plain_char_def cu_def)
  have ne: "\<forall>c \<in> set s. c \<noteq> cu CHR ''(''" if "plain_text s" for s using that plain_basic by blast
  have pos: "\<forall>c \<in> set s. 0 \<le> c" if "plain_text s" for s using that plain_basic by blast
  have "obj_of [(js ''base64'', v), (js ''subType'', w)] = [(js ''base64'', v), (js ''subType'', w)]"
    "obj_of [(js ''$binary'', v)] = [(js ''$binary'', v)]" for v w
    by (simp_all add: obj_of_def obj_put_def is_index_key_def js_def cu_def ascii_digit_def)
  then show "json_ok (buildMongoBinaryUUID u)" using pos [OF p] pos [OF q(1)] pos [OF q(2)] pos [OF q(3)] pos [OF q(4)]
    by (simp add: buildMongoBinaryUUID_def)
  show "cu CHR ''('' \<notin> set (stringify (buildMongoBinaryUUID u))"
    using ne [OF p] ne [OF q(1)] ne [OF q(2)] ne [OF q(3)] ne [OF q(4)]
    by (auto simp: buildMongoBinaryUUID_def quote_json_def json_escape_plain [OF p] json_escape_plain [OF q(1)]
        json_escape_plain [OF q(2)] json_escape_plain [OF q(3)] json_escape_plain [OF q(4)] brace_chars)
qed

lemma operator_object:
  assumes "op \<in> {''$oid'', ''$numberInt'', ''$numberLong'', ''$numberDecimal'', ''$maxKey'', ''$minKey''}"
  shows "obj_of [(js op, v)] = [(js op, v)]" and "plain_text (js op)" and "js op \<noteq> js ''$date''"
    and "cu CHR ''('' \<notin> set (js op)"
  using assms by (auto simp: obj_of_def obj_put_def is_index_key_def js_def cu_def ascii_digit_def plain_char_def)

lemma operator_json:
  assumes "op \<in> {''$oid'', ''$numberInt'', ''$numberLong'', ''$numberDecimal'', ''$maxKey'', ''$minKey''}" and "plain_text s"
  shows "json_ok (JObj [(js op, JStr s)])" and "cu CHR ''('' \<notin> set (stringify (JObj [(js op, JStr s)]))"
    and "op_text op s = stringify (JObj [(js op, JStr s)])" and "cu CHR ''('' \<notin> set s"
proof -
  note o = operator_object [OF assms(1)]
  show "json_ok (JObj [(js op, JStr s)])" using o(1,2) assms(2) plain_basic(1) by simp
  show "op_text op s = stringify (JObj [(js op, JStr s)])" by (rule op_text_stringify [OF o(2) assms(2)])
  show s: "cu CHR ''('' \<notin> set s" using assms(2) plain_basic(2) by blast
  show "cu CHR ''('' \<notin> set (stringify (JObj [(js op, JStr s)]))"
    using s o(4) by (auto simp: quote_json_def json_escape_plain [OF o(2)] json_escape_plain [OF assms(2)] brace_chars)
qed

lemma key_json:
  "json_ok (JObj [(js ''$maxKey'', JNum (1, 0))])" "json_ok (JObj [(js ''$minKey'', JNum (1, 0))])"
  "stringify (JObj [(js ''$maxKey'', JNum (1, 0))]) = js ''{\"$maxKey\":1}''"
  "stringify (JObj [(js ''$minKey'', JNum (1, 0))]) = js ''{\"$minKey\":1}''"
  "cu CHR ''('' \<notin> set (js ''{\"$maxKey\":1}'')" "cu CHR ''('' \<notin> set (js ''{\"$minKey\":1}'')"
  by code_simp+

lemma operator_shown:
  assumes "op \<in> {''$oid'', ''$numberInt'', ''$numberLong'', ''$numberDecimal'', ''$maxKey'', ''$minKey''}"
    and "operator_display date_ms iso_text (js op, w) = Some t"
  shows "formatMongoEditableValue date_ms iso_text (Some (JObj [(js op, w)])) col = t"
  using edited_operator [of "(js op, w)"] operator_object(3) [OF assms(1)] assms(2) by simp

text \<open>What the editor shows of a typed value is a call that one of the passes replaces by the JSON of the
  value.\<close>

definition read_by_pass :: "(jsstr \<Rightarrow> int option) \<Rightarrow> jsstr \<Rightarrow> json \<Rightarrow> bool" where
  "read_by_pass date_ms s v \<longleftrightarrow>
     (\<exists>name arg f t b. s = js name @ cu CHR ''('' # t \<and> name \<in> set call_names \<and> (name, arg, f) \<in> set (passes date_ms) \<and>
        last t = cu CHR '')'' \<and> t \<noteq> [] \<and> arg t = Some (b, []) \<and> cu CHR ''('' \<notin> set t \<and> cu CHR ''('' \<notin> set (f b) \<and>
        f b = stringify v \<and> json_ok v)"

lemma read_by_passI:
  assumes "s = js name @ cu CHR ''('' # t" and "(name, arg, f) \<in> set (passes date_ms)" and "arg t = Some (b, [])"
    and "name \<in> set call_names" and "last t = cu CHR '')''" and "t \<noteq> []" and "cu CHR ''('' \<notin> set t"
    and "cu CHR ''('' \<notin> set (f b)" and "f b = stringify v" and "json_ok v"
  shows "read_by_pass date_ms s v"
  using assms unfolding read_by_pass_def by blast

lemma read_quoted_operator:
  assumes "formatted = js name @ cu CHR ''('' # dquote # s @ [dquote, cu CHR '')'']" and "(name, arg, f) \<in> set (passes date_ms)"
    and "arg (dquote # s @ [dquote, cu CHR '')'']) = Some (s, [])" and "name \<in> set call_names"
    and "op \<in> {''$oid'', ''$numberInt'', ''$numberLong'', ''$numberDecimal'', ''$maxKey'', ''$minKey''}"
    and "plain_text s" and "f s = stringify (JObj [(js op, JStr s)])"
  shows "read_by_pass date_ms formatted (JObj [(js op, JStr s)])"
  using assms(1-4) by (rule read_by_passI) (use operator_json [OF assms(5,6)] assms(7) in simp_all)

lemma uuid_call:
  assumes "UUID_RE u"
  shows "read_by_pass date_ms (formatMongoEditableValue date_ms iso_text (Some (buildMongoBinaryUUID u)) col)
    (buildMongoBinaryUUID u)"
proof -
  note t = uuid_text [OF assms] uuid_json [OF assms]
  have p: "cu CHR ''('' \<notin> set (to_lower u)" using t(1) plain_basic(2) by blast
  have "operator_display date_ms iso_text (js ''$binary'', w) =
      buildMongoBinaryLiteralText (Some (JObj [(js ''$binary'', w)]))" for w
    by (simp add: operator_display_def operator_kinds_def)
  then have s: "formatMongoEditableValue date_ms iso_text (Some (buildMongoBinaryUUID u)) col =
      js ''UUID'' @ cu CHR ''('' # dquote # to_lower u @ [dquote, cu CHR '')'']"
    using uuid_display [OF assms] unfolding buildMongoBinaryUUID_def by (intro edited_operator) simp_all
  show ?thesis
    by (rule read_by_passI [where arg = "quoted_arg uuid_body" and f = "\<lambda>u. stringify (buildMongoBinaryUUID u)", OF s _ quoted_arg_read [of uuid_body "to_lower u", OF t(2)]])
      (use t p in \<open>simp_all add: call_names_def passes_def\<close>)
qed

lemma typed_value_call:
  assumes "typed_value v"
  shows "read_by_pass date_ms (formatMongoEditableValue date_ms iso_text (Some v) col) v"
  using assms
proof cases
  case (oid h)
  have h: "plain_text h" "hex24_body (h @ t) = Some h" for t
    using oid(2) plain_hex by (auto simp: HEX24_RE_def hex24_body_def)
  show ?thesis unfolding oid(1)
    by (rule read_quoted_operator [where arg = "quoted_arg hex24_body" and f = "\<lambda>h. stringify (JObj [(js ''$oid'', JStr h)])",
          OF operator_shown [OF _ operator_displays(1)] _ quoted_arg_read [of hex24_body h, OF h(2)]])
      (simp_all add: passes_def call_names_def h(1))
next
  case (int32 s)
  note i = INTEGER_body [OF int32(2), THEN conjunct1] INTEGER_body [OF int32(2), THEN conjunct2]
  have ne: "s \<noteq> []" using i(1) by (auto simp: integer_body_def digits_of_def strip_sign_def signed_def)
  note r = optional_arg_bare [of integer_body s, OF body_stop(1) [OF _ i(1)] ne i(2)]
  show ?thesis unfolding int32(1)
    by (rule read_by_passI [where arg = "optional_arg integer_body" and f = "op_text ''$numberInt''",
          OF operator_shown [OF _ operator_displays(2)] _ r])
      (use operator_json [of "''$numberInt''", OF _ i(2)] in \<open>simp_all add: passes_def call_names_def\<close>)
next
  case (int64 s)
  note i = INTEGER_body [OF int64(2), THEN conjunct1] INTEGER_body [OF int64(2), THEN conjunct2]
  show ?thesis unfolding int64(1)
    by (rule read_quoted_operator [where arg = "optional_arg integer_body" and f = "op_text ''$numberLong''",
          OF operator_shown [OF _ operator_displays(3)] _
          optional_arg_quoted [of integer_body s, OF body_stop(1) [OF _ i(1)]]])
      (use operator_json [of "''$numberLong''", OF _ i(2)] in \<open>simp_all add: passes_def call_names_def i(2)\<close>)
next
  case (decimal128 s)
  note i = decimal128(2) decimal_plain [OF decimal128(2)]
  show ?thesis unfolding decimal128(1)
    by (rule read_quoted_operator [where arg = "optional_arg decimal_body" and f = "op_text ''$numberDecimal''",
          OF operator_shown [OF _ operator_displays(4)] _
          optional_arg_quoted [of decimal_body s, OF body_stop(2) [OF _ i(1)]]])
      (use operator_json [of "''$numberDecimal''", OF _ i(2)] in \<open>simp_all add: passes_def call_names_def i(2)\<close>)
next
  case (uuid u)
  then show ?thesis using uuid_call by simp
next
  case max_key
  show ?thesis unfolding max_key
    by (rule read_by_passI [where arg = no_arg and f = "\<lambda>_. js ''{\"$maxKey\":1}''" and b = "[]",
          OF operator_shown [OF _ operator_displays(5)]])
      (use key_json in \<open>simp_all add: call_names_def passes_def no_arg_def after_close_end\<close>)
next
  case min_key
  show ?thesis unfolding min_key
    by (rule read_by_passI [where arg = no_arg and f = "\<lambda>_. js ''{\"$minKey\":1}''" and b = "[]",
          OF operator_shown [OF _ operator_displays(6)]])
      (use key_json in \<open>simp_all add: call_names_def passes_def no_arg_def after_close_end\<close>)
qed

text \<open>C31: A cell with a typed value (an object id, a 32 or 64 bit integer, a decimal, a UUID, the largest or
  the smallest key) whose text is saved as the editor shows it keeps its value: the literal shown is
  recognised, written as JSON and read back as the value, whatever the column is called and however dates and
  other expressions are evaluated.\<close>

theorem typed_value_survives_editing:
  assumes "typed_value v"
  shows "parseMongoEditedValue date_ms iso_text ev col
    (Some (JStr (formatMongoEditableValue date_ms iso_text (Some v) col))) (Some v) = Inr (Some v)"
  using typed_value_call [OF assms, of date_ms iso_text col] edited_literal unfolding read_by_pass_def by metis

theorem typed_value_survives_editing_witness:
  "parseMongoEditedValue (\<lambda>_. None) int_text Inl (js ''ownerId'')
    (Some (JStr (formatMongoEditableValue (\<lambda>_. None) int_text (Some (JObj [(js ''$numberLong'', JStr (js ''-12''))])) (js ''ownerId''))))
    (Some (JObj [(js ''$numberLong'', JStr (js ''-12''))])) = Inr (Some (JObj [(js ''$numberLong'', JStr (js ''-12''))]))"
proof -
  have "INTEGER_RE (js ''-12'')" by code_simp
  from typed_value_survives_editing [OF typed_value.int64 [OF this]] show ?thesis .
qed

end
