(* ===== verification/MongoShell.thy ===== *)
theory MongoShell
  imports MongoValue
begin

text \<open>
  The commands of the MongoDB shell (\<open>utils/mongodb.ts\<close>): splitting arguments, reading
  \<open>db.collection.method(arguments).chain(...)\<close>, and building the JSON command the server runs.

  An exception is the left side of a sum, with its message. The reader of values
  (\<open>parseMongoJSONValue\<close>) is an argument, called \<open>parse\<close>, of the definitions that only pass it on.
  An object is the list of its members; the names a command has of its own are distinct and are no array
  indices, so a new member goes to the end.
\<close>

section \<open>Errors\<close>

definition attempt :: "'e + 'a \<Rightarrow> ('a \<Rightarrow> 'e + 'b) \<Rightarrow> 'e + 'b" where
  "attempt r f = (case r of Inl e \<Rightarrow> Inl e | Inr x \<Rightarrow> f x)"

lemma attempt_simps [simp]: "attempt (Inl e) f = Inl e" "attempt (Inr x) f = f x"
  by (simp_all add: attempt_def)

lemma attempt_Inr: "attempt r f = Inr y \<longleftrightarrow> (\<exists>x. r = Inr x \<and> f x = Inr y)"
  by (cases r) auto

section \<open>Quotes and brackets\<close>

record quotes =
  inSingle :: bool
  inDouble :: bool
  escape :: bool

definition outside :: quotes where
  "outside = \<lparr>inSingle = False, inDouble = False, escape = False\<rparr>"

text \<open>The state after a character that belongs to a quoted text or an escape; \<open>None\<close> for any other.\<close>

definition quote_step :: "jschar \<Rightarrow> quotes \<Rightarrow> quotes option" where
  "quote_step ch q =
     (if escape q then Some (q\<lparr>escape := False\<rparr>)
      else if ch = backslash then Some (q\<lparr>escape := True\<rparr>)
      else if inSingle q then Some (if ch = squote then q\<lparr>inSingle := False\<rparr> else q)
      else if inDouble q then Some (if ch = dquote then q\<lparr>inDouble := False\<rparr> else q)
      else if ch = squote then Some (q\<lparr>inSingle := True\<rparr>)
      else if ch = dquote then Some (q\<lparr>inDouble := True\<rparr>)
      else None)"

record depths =
  depthParen :: nat
  depthBrace :: nat
  depthBracket :: nat

definition no_depth :: depths where
  "no_depth = \<lparr>depthParen = 0, depthBrace = 0, depthBracket = 0\<rparr>"

definition bracket_step :: "jschar \<Rightarrow> depths \<Rightarrow> depths" where
  "bracket_step ch d =
     (if ch = cu CHR ''('' then d\<lparr>depthParen := depthParen d + 1\<rparr>
      else if ch = cu CHR '')'' then d\<lparr>depthParen := depthParen d - 1\<rparr>
      else if ch = cu CHR ''{'' then d\<lparr>depthBrace := depthBrace d + 1\<rparr>
      else if ch = cu CHR ''}'' then d\<lparr>depthBrace := depthBrace d - 1\<rparr>
      else if ch = cu CHR ''['' then d\<lparr>depthBracket := depthBracket d + 1\<rparr>
      else if ch = cu CHR '']'' then d\<lparr>depthBracket := depthBracket d - 1\<rparr>
      else d)"

fun comma_loop :: "jsstr \<Rightarrow> quotes \<Rightarrow> depths \<Rightarrow> jsstr list \<Rightarrow> jsstr \<Rightarrow> jsstr list \<times> jsstr" where
  "comma_loop [] q d result current = (result, current)"
| "comma_loop (ch # s) q d result current =
     (case quote_step ch q of
        Some q' \<Rightarrow> comma_loop s q' d result (current @ [ch])
      | None \<Rightarrow>
          (let d' = bracket_step ch d in
           if ch = cu CHR '','' \<and> d' = no_depth then comma_loop s q d' (result @ [butlast (current @ [ch])]) []
           else comma_loop s q d' result (current @ [ch])))"

definition splitTopLevelComma :: "jsstr \<Rightarrow> jsstr list" where
  "splitTopLevelComma raw =
     (let (result, current) = comma_loop raw outside no_depth [] [] in
      filter (\<lambda>item. item \<noteq> []) (map trim (if trim current \<noteq> [] then result @ [current] else result)))"

text \<open>The position of the parenthesis that closes the one the scan starts at.\<close>

fun close_position :: "jsstr \<Rightarrow> quotes \<Rightarrow> int \<Rightarrow> nat \<Rightarrow> nat option" where
  "close_position [] q depth i = None"
| "close_position (ch # s) q depth i =
     (case quote_step ch q of
        Some q' \<Rightarrow> close_position s q' depth (Suc i)
      | None \<Rightarrow>
          (let depth' = (if ch = cu CHR ''('' then depth + 1 else if ch = cu CHR '')'' then depth - 1 else depth) in
           if depth' = 0 then Some i else close_position s q depth' (Suc i)))"

definition extractBalancedParentheses :: "jsstr \<Rightarrow> nat \<Rightarrow> jsstr + jsstr \<times> nat" where
  "extractBalancedParentheses s openPos =
     (if at s openPos \<noteq> Some (cu CHR ''('') then Inl (js ''Syntax error: missing \"(\"'')
      else
        (case close_position (drop openPos s) outside 0 openPos of
           Some i \<Rightarrow> Inr (slice s (openPos + 1) i, i + 1)
         | None \<Rightarrow> Inl (js ''Syntax error: unclosed parenthesis'')))"

section \<open>Reading a call\<close>

record shell_call =
  collection :: jsstr
  callMethod :: jsstr
  argsText :: jsstr
  tailText :: jsstr

definition skip_while :: "(jschar \<Rightarrow> bool) \<Rightarrow> jsstr \<Rightarrow> nat \<Rightarrow> nat" where
  "skip_while p s i = advance (\<lambda>k. p (s ! k)) (length s) i"

definition collection_char :: "jschar \<Rightarrow> bool" where
  "collection_char c \<longleftrightarrow> ascii_letter c \<or> ascii_digit c \<or> c = cu CHR ''_'' \<or> c = cu CHR ''$'' \<or> c = cu CHR ''-''"

text \<open>\<open>/^["']([^"']+)["']$/\<close>.\<close>

definition quoted_name :: "jsstr \<Rightarrow> jsstr option" where
  "quoted_name s =
     (if 2 < length s \<and> is_quote (hd s) \<and> is_quote (last s) \<and> (\<forall>c \<in> set (butlast (tl s)). \<not> is_quote c)
      then Some (butlast (tl s)) else None)"

definition read_collection :: "jsstr \<Rightarrow> jsstr + jsstr \<times> nat" where
  "read_collection input =
     (if starts_with (to_lower (drop 3 input)) (js ''getcollection'') then
        (let pos = skip_while is_js_space input (3 + 13) in
         if at input pos \<noteq> Some (cu CHR ''('') then Inl (js ''Syntax error: getCollection missing arguments'')
         else attempt (extractBalancedParentheses input pos) (\<lambda>(args, nextPos).
           case quoted_name (trim args) of
             None \<Rightarrow> Inl (js ''Syntax error: getCollection argument must be a string'')
           | Some name \<Rightarrow> Inr (name, nextPos)))
      else
        (let e = skip_while collection_char input 3 in Inr (trim (slice input 3 e), e)))"

definition read_method :: "jsstr \<Rightarrow> jsstr \<Rightarrow> nat \<Rightarrow> jsstr + shell_call" where
  "read_method input name pos =
     (if name = [] then Inl (js ''Syntax error: collection name not found'')
      else if at input pos \<noteq> Some (cu CHR ''.'') then Inl (js ''Syntax error: expected method call after collection'')
      else
        (let methodEnd = skip_while ascii_letter input (pos + 1);
             p = skip_while is_js_space input methodEnd
         in if at input p \<noteq> Some (cu CHR ''('') then Inl (js ''Syntax error: missing \"(\" for method arguments'')
            else attempt (extractBalancedParentheses input p) (\<lambda>(args, nextPos).
              Inr \<lparr>collection = name, callMethod = to_lower (trim (slice input (pos + 1) methodEnd)), argsText = args,
                tailText = trim (drop nextPos input)\<rparr>)))"

definition parseCollectionAndMethod :: "jsstr \<Rightarrow> jsstr + shell_call option" where
  "parseCollectionAndMethod raw =
     (let input = trim raw in
      if \<not> match_ci_at input (js ''db.'') 0 then Inr None
      else attempt (read_collection input) (\<lambda>(name, pos). attempt (read_method input name pos) (\<lambda>c. Inr (Some c))))"

lemma close_position_bounds: "close_position s q depth i = Some j \<Longrightarrow> i \<le> j \<and> j < i + length s"
proof (induction s q depth i rule: close_position.induct)
  case (2 ch s q depth i)
  then show ?case by (fastforce simp: Let_def split: option.splits if_splits)
qed simp

lemma extract_next: "extractBalancedParentheses s i = Inr (args, n) \<Longrightarrow> 0 < n \<and> n \<le> length s"
  by (auto simp: extractBalancedParentheses_def at_Some_iff dest!: close_position_bounds split: if_splits option.splits)

function chain_loop :: "jsstr \<Rightarrow> (jsstr \<times> jsstr) list \<Rightarrow> jsstr + (jsstr \<times> jsstr) list" where
  "chain_loop tail result =
     (if tail = [] then Inr result
      else if \<not> starts_with tail (js ''.'') then Inl (js ''Syntax error: unsupported chain fragment '' @ tail)
      else
        (let pos = skip_while ascii_letter tail 1; name = to_lower (trim (slice tail 1 pos));
             p = skip_while is_js_space tail pos
         in if at tail p \<noteq> Some (cu CHR ''('') then Inl (js ''Syntax error: '' @ name @ js '' missing argument parenthesis'')
            else
              (case extractBalancedParentheses tail p of
                 Inl e \<Rightarrow> Inl e
               | Inr (args, nextPos) \<Rightarrow> chain_loop (trim (drop nextPos tail)) (result @ [(name, trim args)]))))"
  by pat_completeness auto
termination
proof (relation "measure (\<lambda>(tail, result). length tail)")
  fix tail args nextPos and result :: "(jsstr \<times> jsstr) list" and pos name p r z and y :: nat
  assume "tail \<noteq> []" and "extractBalancedParentheses tail p = Inr r" and "(args, nextPos) = r"
  then have "0 < nextPos" "nextPos \<le> length tail" using extract_next [of tail p args nextPos] by auto
  then have "length (drop nextPos tail) < length tail" by simp
  then have "length (trim (drop nextPos tail)) < length tail" using length_trim_le [of "drop nextPos tail"] by linarith
  then show "((trim (drop nextPos tail), result @ [(name, trim args)]), tail, result)
      \<in> measure (\<lambda>(tail, result). length tail)" by simp
qed simp_all

declare chain_loop.simps [simp del]

definition parseChainCalls :: "jsstr \<Rightarrow> jsstr + (jsstr \<times> jsstr) list" where
  "parseChainCalls rawTail = chain_loop (trim rawTail) []"

section \<open>Arguments\<close>

definition parsePositiveInt :: "jsstr \<Rightarrow> jsstr \<Rightarrow> jsstr + int" where
  "parsePositiveInt raw fieldName =
     (let s = trim raw; n = exact_number s in
      if \<not> INTEGER_RE s then Inl (fieldName @ js '' must be an integer'')
      else if fst n < 0 then Inl (fieldName @ js '' must be a non-negative integer'')
      else Inr (dec_floor n))"

type_synonym members = "(jsstr \<times> json) list"
type_synonym value_reader = "jsstr \<Rightarrow> jsstr + json"

definition mongo_direction :: "json \<Rightarrow> json" where
  "mongo_direction v = JNum (if at_least_zero (json_number v) then 1 else -1, 0)"

definition parseMongoSortObject :: "value_reader \<Rightarrow> jsstr \<Rightarrow> jsstr + members" where
  "parseMongoSortObject parse raw =
     attempt (parse raw) (\<lambda>v. case v of
        JObj ms \<Rightarrow> Inr (assign_all (map (\<lambda>p. (fst p, mongo_direction (snd p))) ms))
      | _ \<Rightarrow> Inl (js ''sort argument must be a JSON object''))"

definition parseMongoJSONDoc :: "value_reader \<Rightarrow> jsstr \<Rightarrow> jsstr \<Rightarrow> jsstr + members" where
  "parseMongoJSONDoc parse raw fieldName =
     attempt (parse raw) (\<lambda>v. case v of
        JObj ms \<Rightarrow> Inr ms
      | _ \<Rightarrow> Inl (fieldName @ js '' must be a JSON object''))"

definition parseMongoJSONPipeline :: "value_reader \<Rightarrow> jsstr \<Rightarrow> jsstr + json list" where
  "parseMongoJSONPipeline parse raw =
     attempt (parse raw) (\<lambda>v. case v of
        JArr vs \<Rightarrow> Inr vs
      | _ \<Rightarrow> Inl (js ''aggregate first argument must be a JSON array pipeline''))"

definition parseMongoJSONArray :: "value_reader \<Rightarrow> jsstr \<Rightarrow> jsstr \<Rightarrow> jsstr + json list" where
  "parseMongoJSONArray parse raw fieldName =
     attempt (parse raw) (\<lambda>v. case v of
        JArr vs \<Rightarrow> Inr vs
      | _ \<Rightarrow> Inl (fieldName @ js '' must be a JSON array''))"

definition is_object :: "json \<Rightarrow> bool" where
  "is_object v = (case v of JObj ms \<Rightarrow> True | _ \<Rightarrow> False)"

definition normalizeMongoDocuments :: "json \<Rightarrow> jsstr \<Rightarrow> jsstr + json list" where
  "normalizeMongoDocuments raw fieldName =
     (case raw of
        JArr vs \<Rightarrow>
          (case find_index (\<lambda>v. \<not> is_object v) vs of
             Some idx \<Rightarrow> Inl (fieldName @ js '' document at index '' @ nat_str idx @ js '' must be a JSON object'')
           | None \<Rightarrow> Inr vs)
      | JObj ms \<Rightarrow> Inr [raw]
      | _ \<Rightarrow> Inl (fieldName @ js '' must be a JSON object or JSON array''))"

definition parseMongoOptionalDoc :: "value_reader \<Rightarrow> jsstr option \<Rightarrow> jsstr + members" where
  "parseMongoOptionalDoc parse raw =
     (case raw of
        None \<Rightarrow> Inr []
      | Some s \<Rightarrow> if trim s = [] then Inr [] else parseMongoJSONDoc parse s (js ''options''))"

definition parseBooleanArg :: "jsstr \<Rightarrow> jsstr \<Rightarrow> jsstr + bool" where
  "parseBooleanArg raw fieldName =
     (let s = to_lower (trim raw) in
      if s = js ''true'' then Inr True
      else if s = js ''false'' then Inr False
      else Inl (fieldName @ js '' must be true or false''))"

definition isNoopMongoChainMethod :: "jsstr \<Rightarrow> bool" where
  "isNoopMongoChainMethod name \<longleftrightarrow> name = js ''toarray'' \<or> name = js ''pretty''"

section \<open>Commands\<close>

definition num :: "int \<Rightarrow> json" where
  "num n = JNum (n, 0)"

text \<open>\<open>if (typeof options.k !== 'undefined') command.k = f(options.k)\<close>.\<close>

definition given_member :: "members \<Rightarrow> (json \<Rightarrow> json) \<Rightarrow> string \<Rightarrow> members" where
  "given_member options f k = (case map_of options (js k) of Some v \<Rightarrow> [(js k, f v)] | None \<Rightarrow> [])"

definition as_bool :: "json \<Rightarrow> json" where
  "as_bool v = JBool (json_truthy v)"

definition same :: "json \<Rightarrow> json" where
  "same v = v"

record find_params =
  find_collection :: jsstr
  find_filter :: members
  find_sort :: "members option"
  find_limit :: "number option"
  find_skip :: "number option"
  find_projection :: "members option"
  includeObjectIDLocator :: bool

definition nonempty_member :: "string \<Rightarrow> members option \<Rightarrow> members" where
  "nonempty_member k m = (case m of Some (p # ps) \<Rightarrow> [(js k, JObj (p # ps))] | _ \<Rightarrow> [])"

definition floor_member :: "string \<Rightarrow> (int \<Rightarrow> bool) \<Rightarrow> number option \<Rightarrow> members" where
  "floor_member k ok n = (case n of Some (Dec d) \<Rightarrow> if ok (fst d) then [(js k, num (dec_floor d))] else [] | _ \<Rightarrow> [])"

definition find_command :: "find_params \<Rightarrow> json" where
  "find_command params =
     JObj ([(js ''find'', JStr (trim (find_collection params))), (js ''filter'', JObj (find_filter params))] @
       (if includeObjectIDLocator params then [(js ''__gonaviIncludeObjectIDLocator'', JBool True)] else []) @
       nonempty_member ''projection'' (find_projection params) @
       nonempty_member ''sort'' (find_sort params) @
       floor_member ''limit'' (\<lambda>m. 0 \<le> m) (find_limit params) @
       floor_member ''skip'' (\<lambda>m. 0 < m) (find_skip params))"

definition buildMongoFindCommand :: "find_params \<Rightarrow> jsstr" where
  "buildMongoFindCommand params = stringify (find_command params)"

definition buildMongoCountCommand :: "jsstr \<Rightarrow> members \<Rightarrow> jsstr" where
  "buildMongoCountCommand name query =
     stringify (JObj [(js ''count'', JStr (trim name)), (js ''query'', JObj query)])"

definition insert_command :: "jsstr \<Rightarrow> json list \<Rightarrow> members \<Rightarrow> json" where
  "insert_command name documents options =
     JObj ([(js ''insert'', JStr (trim name)), (js ''documents'', JArr documents)] @
       given_member options as_bool ''ordered'' @ given_member options as_bool ''bypassDocumentValidation'' @
       given_member options same ''writeConcern'' @ given_member options same ''comment'' @
       given_member options same ''let'')"

definition buildMongoInsertCommand :: "jsstr \<Rightarrow> json list \<Rightarrow> members \<Rightarrow> jsstr" where
  "buildMongoInsertCommand name documents options = stringify (insert_command name documents options)"

definition update_command :: "jsstr \<Rightarrow> members \<Rightarrow> json \<Rightarrow> members \<Rightarrow> bool \<Rightarrow> json" where
  "update_command name query update options multi =
     JObj ([(js ''update'', JStr (trim name)),
        (js ''updates'', JArr [JObj ([(js ''q'', JObj query), (js ''u'', update), (js ''multi'', JBool multi)] @
           given_member options as_bool ''upsert'' @ given_member options same ''collation'' @
           given_member options same ''arrayFilters'' @ given_member options same ''hint'')])] @
       given_member options as_bool ''ordered'' @ given_member options same ''writeConcern'' @
       given_member options as_bool ''bypassDocumentValidation'' @ given_member options same ''comment'' @
       given_member options same ''let'')"

definition buildMongoUpdateCommand :: "jsstr \<Rightarrow> members \<Rightarrow> json \<Rightarrow> members \<Rightarrow> bool \<Rightarrow> jsstr" where
  "buildMongoUpdateCommand name query update options multi = stringify (update_command name query update options multi)"

definition delete_command :: "jsstr \<Rightarrow> members \<Rightarrow> members \<Rightarrow> int \<Rightarrow> json" where
  "delete_command name query options limit =
     JObj ([(js ''delete'', JStr (trim name)),
        (js ''deletes'', JArr [JObj ([(js ''q'', JObj query), (js ''limit'', num limit)] @
           given_member options same ''collation'' @ given_member options same ''hint'')])] @
       given_member options as_bool ''ordered'' @ given_member options same ''writeConcern'' @
       given_member options same ''comment'' @ given_member options same ''let'')"

definition buildMongoDeleteCommand :: "jsstr \<Rightarrow> members \<Rightarrow> members \<Rightarrow> int \<Rightarrow> jsstr" where
  "buildMongoDeleteCommand name query options limit = stringify (delete_command name query options limit)"

section \<open>Shortcuts\<close>

datatype shell_result = NotRecognized | Command jsstr | ShellError jsstr

definition shell_semicolon :: "jschar \<Rightarrow> bool" where
  "shell_semicolon c \<longleftrightarrow> c = cu CHR '';'' \<or> c = fullwidth_semicolon"

text \<open>\<open>s.replace(/[;\<close>fullwidth \<open>;]+\s*$/, '')\<close>.\<close>

definition strip_semicolons :: "jsstr \<Rightarrow> jsstr" where
  "strip_semicolons s =
     (let t = trim_end s in
      if t \<noteq> [] \<and> shell_semicolon (last t) then rev (dropWhile shell_semicolon (rev t)) else s)"

definition convertMongoShellShortcutCommand :: "jsstr \<Rightarrow> jsstr option" where
  "convertMongoShellShortcutCommand raw =
     (let normalized = to_lower (collapse_spaces (trim (strip_semicolons raw))) in
      if normalized = [] then None
      else if normalized = js ''show dbs'' \<or> normalized = js ''show databases'' then
        Some (stringify (JObj [(js ''listDatabases'', num 1), (js ''nameOnly'', JBool True)]))
      else if normalized = js ''show collections'' \<or> normalized = js ''show tables'' then
        Some (stringify (JObj [(js ''listCollections'', num 1), (js ''filter'', JObj []), (js ''nameOnly'', JBool True)]))
      else None)"

section \<open>Chained calls\<close>

text \<open>A loop over the chain that may throw.\<close>

fun chain_fold :: "('s \<Rightarrow> jsstr \<times> jsstr \<Rightarrow> jsstr + 's) \<Rightarrow> 's \<Rightarrow> (jsstr \<times> jsstr) list \<Rightarrow> jsstr + 's" where
  "chain_fold f st [] = Inr st"
| "chain_fold f st (item # items) = attempt (f st item) (\<lambda>st'. chain_fold f st' items)"

definition unsupported :: "jsstr \<Rightarrow> jsstr" where
  "unsupported name = js ''Unsupported chain method .'' @ name @ js ''()''"

definition noop_step :: "unit \<Rightarrow> jsstr \<times> jsstr \<Rightarrow> jsstr + unit" where
  "noop_step st item = (if isNoopMongoChainMethod (fst item) then Inr () else Inl (unsupported (fst item)))"

record find_state =
  fs_projection :: "members option"
  fs_sort :: "members option"
  fs_limit :: "int option"
  fs_skip :: "int option"
  useCountCommand :: bool

definition find_step :: "value_reader \<Rightarrow> find_state \<Rightarrow> jsstr \<times> jsstr \<Rightarrow> jsstr + find_state" where
  "find_step parse st item =
     (let (name, arg) = item in
      if name = js ''sort'' then attempt (parseMongoSortObject parse arg) (\<lambda>s. Inr (st\<lparr>fs_sort := Some s\<rparr>))
      else if name = js ''limit'' then attempt (parsePositiveInt arg (js ''limit'')) (\<lambda>n. Inr (st\<lparr>fs_limit := Some n\<rparr>))
      else if name = js ''skip'' then attempt (parsePositiveInt arg (js ''skip'')) (\<lambda>n. Inr (st\<lparr>fs_skip := Some n\<rparr>))
      else if name = js ''project'' then
        attempt (parseMongoJSONDoc parse arg (js ''project argument'')) (\<lambda>p. Inr (st\<lparr>fs_projection := Some p\<rparr>))
      else if name = js ''count'' then
        (if arg \<noteq> [] \<and> parseBooleanLiteral arg = None then Inl (js ''count chain argument must be true or false'')
         else Inr (st\<lparr>useCountCommand := True\<rparr>))
      else if isNoopMongoChainMethod name then Inr st
      else Inl (unsupported name))"

definition finite_number :: "int option \<Rightarrow> number option" where
  "finite_number n = map_option (\<lambda>k. Dec (k, 0)) n"

text \<open>The argument at an index, as a document.\<close>

definition doc_arg :: "value_reader \<Rightarrow> jsstr list \<Rightarrow> nat \<Rightarrow> jsstr \<Rightarrow> jsstr + members option" where
  "doc_arg parse args i fieldName =
     (if i < length args then attempt (parseMongoJSONDoc parse (args ! i) fieldName) (\<lambda>d. Inr (Some d)) else Inr None)"

definition or_empty :: "members option \<Rightarrow> members" where
  "or_empty m = (case m of Some ms \<Rightarrow> ms | None \<Rightarrow> [])"

definition opt_arg :: "jsstr list \<Rightarrow> nat \<Rightarrow> jsstr option" where
  "opt_arg args i = (if i < length args then Some (args ! i) else None)"

section \<open>One method each\<close>

definition convert_find ::
  "value_reader \<Rightarrow> jsstr \<Rightarrow> jsstr \<Rightarrow> jsstr list \<Rightarrow> (jsstr \<times> jsstr) list \<Rightarrow> jsstr + jsstr" where
  "convert_find parse name mtd args chain =
     attempt (doc_arg parse args 0 (mtd @ js '' first argument'')) (\<lambda>query.
     attempt (doc_arg parse args 1 (mtd @ js '' second argument (projection)'')) (\<lambda>projection.
     attempt (chain_fold (find_step parse) \<lparr>fs_projection = projection, fs_sort = None,
         fs_limit = (if mtd = js ''findone'' then Some 1 else None), fs_skip = None, useCountCommand = False\<rparr> chain) (\<lambda>st.
       let limit = (if mtd = js ''findone'' then Some 1 else fs_limit st) in
       if useCountCommand st then Inr (buildMongoCountCommand name (or_empty query))
       else Inr (buildMongoFindCommand \<lparr>find_collection = name, find_filter = or_empty query, find_sort = fs_sort st,
         find_limit = finite_number limit, find_skip = finite_number (fs_skip st), find_projection = fs_projection st,
         includeObjectIDLocator = False\<rparr>))))"

definition convert_count :: "value_reader \<Rightarrow> jsstr \<Rightarrow> jsstr \<Rightarrow> jsstr list \<Rightarrow> jsstr + jsstr" where
  "convert_count parse name mtd args =
     attempt (doc_arg parse args 0 (mtd @ js '' argument'')) (\<lambda>query.
       Inr (buildMongoCountCommand name (or_empty query)))"

definition stage :: "string \<Rightarrow> json \<Rightarrow> json" where
  "stage op v = JObj [(js op, v)]"

definition aggregate_step ::
  "value_reader \<Rightarrow> json list \<times> members \<Rightarrow> jsstr \<times> jsstr \<Rightarrow> jsstr + json list \<times> members" where
  "aggregate_step parse st item =
     (let (pipeline, options) = st; (name, arg) = item; push = (\<lambda>s. Inr (pipeline @ [s], options)) in
      if name = js ''sort'' then attempt (parseMongoSortObject parse arg) (\<lambda>s. push (stage ''$sort'' (JObj s)))
      else if name = js ''limit'' then attempt (parsePositiveInt arg (js ''limit'')) (\<lambda>n. push (stage ''$limit'' (num n)))
      else if name = js ''skip'' then attempt (parsePositiveInt arg (js ''skip'')) (\<lambda>n. push (stage ''$skip'' (num n)))
      else if name = js ''match'' then
        attempt (parseMongoJSONDoc parse arg (js ''match argument'')) (\<lambda>d. push (stage ''$match'' (JObj d)))
      else if name = js ''project'' then
        attempt (parseMongoJSONDoc parse arg (js ''project argument'')) (\<lambda>d. push (stage ''$project'' (JObj d)))
      else if name = js ''allowdiskuse'' then
        attempt (parseBooleanArg arg (js ''allowDiskUse argument'')) (\<lambda>b.
          Inr (pipeline, obj_put (js ''allowDiskUse'') (JBool b) options))
      else if isNoopMongoChainMethod name then Inr (pipeline, options)
      else Inl (unsupported name))"

text \<open>\<open>Object.assign(command, options)\<close>.\<close>

definition assign_members :: "members \<Rightarrow> members \<Rightarrow> members" where
  "assign_members target source = foldl (\<lambda>ms p. obj_assign (fst p) (snd p) ms) target source"

definition aggregate_command :: "jsstr \<Rightarrow> json list \<Rightarrow> members \<Rightarrow> json" where
  "aggregate_command name pipeline options =
     (let command = assign_members [(js ''aggregate'', JStr name), (js ''pipeline'', JArr pipeline)] options in
      JObj (if has_own command (js ''cursor'') then command else obj_put (js ''cursor'') (JObj []) command))"

definition convert_aggregate ::
  "value_reader \<Rightarrow> jsstr \<Rightarrow> jsstr list \<Rightarrow> (jsstr \<times> jsstr) list \<Rightarrow> jsstr + jsstr" where
  "convert_aggregate parse name args chain =
     attempt (case args of [] \<Rightarrow> Inr [] | a # _ \<Rightarrow> parseMongoJSONPipeline parse a) (\<lambda>pipeline.
     attempt (doc_arg parse args 1 (js ''aggregate second argument (options)'')) (\<lambda>options.
     attempt (chain_fold (aggregate_step parse) (pipeline, or_empty options) chain) (\<lambda>(pipeline', options').
       Inr (stringify (aggregate_command name pipeline' options')))))"

definition insert_documents :: "value_reader \<Rightarrow> jsstr \<Rightarrow> jsstr \<Rightarrow> jsstr + json list" where
  "insert_documents parse mtd a =
     attempt (parse a) (\<lambda>firstArg.
       if mtd = js ''insertone'' then
         (if is_object firstArg then Inr [firstArg] else Inl (js ''insertOne first argument must be a JSON object''))
       else if mtd = js ''insertmany'' then
         attempt (parseMongoJSONArray parse a (js ''insertMany first argument'')) (\<lambda>docs.
           normalizeMongoDocuments (JArr docs) (js ''insertMany first argument''))
       else normalizeMongoDocuments firstArg (js ''insert first argument''))"

definition convert_insert ::
  "value_reader \<Rightarrow> jsstr \<Rightarrow> jsstr \<Rightarrow> jsstr list \<Rightarrow> (jsstr \<times> jsstr) list \<Rightarrow> jsstr + jsstr" where
  "convert_insert parse name mtd args chain =
     (case args of
        [] \<Rightarrow> Inl (mtd @ js '' first argument is required'')
      | a # _ \<Rightarrow>
          attempt (insert_documents parse mtd a) (\<lambda>documents.
          attempt (parseMongoOptionalDoc parse (opt_arg args 1)) (\<lambda>options.
          attempt (chain_fold noop_step () chain) (\<lambda>_. Inr (buildMongoInsertCommand name documents options)))))"

definition convert_replace ::
  "value_reader \<Rightarrow> jsstr \<Rightarrow> jsstr list \<Rightarrow> (jsstr \<times> jsstr) list \<Rightarrow> jsstr + jsstr" where
  "convert_replace parse name args chain =
     (case args of
        a # b # _ \<Rightarrow>
          attempt (parseMongoJSONDoc parse a (js ''replaceOne first argument'')) (\<lambda>query.
          attempt (parseMongoJSONDoc parse b (js ''replaceOne second argument'')) (\<lambda>replacement.
          attempt (parseMongoOptionalDoc parse (opt_arg args 2)) (\<lambda>options.
          attempt (chain_fold noop_step () chain) (\<lambda>_.
            Inr (buildMongoUpdateCommand name query (JObj replacement) options False)))))
      | _ \<Rightarrow> Inl (js ''replaceOne requires filter and replacement arguments''))"

text \<open>The third and the fourth argument of the old \<open>update\<close>: options or the flag \<open>upsert\<close>, and the flag
  \<open>multi\<close>.\<close>

definition multi_flag :: "jsstr option \<Rightarrow> members \<Rightarrow> jsstr + members" where
  "multi_flag fourth options =
     (case fourth of
        None \<Rightarrow> Inr options
      | Some s \<Rightarrow>
          if trim s = [] then Inr options
          else (case parseBooleanLiteral s of
                  None \<Rightarrow> Inl (js ''update fourth argument must be true or false'')
                | Some b \<Rightarrow> Inr (obj_put (js ''multi'') (JBool b) options)))"

definition update_options :: "value_reader \<Rightarrow> jsstr list \<Rightarrow> jsstr + members" where
  "update_options parse args =
     (case opt_arg args 2 of
        None \<Rightarrow> Inr []
      | Some third \<Rightarrow>
          if trim third = [] then Inr []
          else
            (case parseBooleanLiteral third of
               Some b \<Rightarrow> multi_flag (opt_arg args 3) [(js ''upsert'', JBool b)]
             | None \<Rightarrow> attempt (parseMongoOptionalDoc parse (Some third)) (multi_flag (opt_arg args 3))))"

definition is_update_expr :: "json \<Rightarrow> bool" where
  "is_update_expr v = (case v of JObj ms \<Rightarrow> True | JArr vs \<Rightarrow> True | _ \<Rightarrow> False)"

definition convert_update ::
  "value_reader \<Rightarrow> jsstr \<Rightarrow> jsstr \<Rightarrow> jsstr list \<Rightarrow> (jsstr \<times> jsstr) list \<Rightarrow> jsstr + jsstr" where
  "convert_update parse name mtd args chain =
     (case args of
        a # b # _ \<Rightarrow>
          attempt (parseMongoJSONDoc parse a (mtd @ js '' first argument'')) (\<lambda>query.
          attempt (parse b) (\<lambda>updateExpr.
            if \<not> is_update_expr updateExpr then Inl (mtd @ js '' second argument must be update document or pipeline'')
            else
              attempt (if mtd = js ''update'' then update_options parse args
                       else parseMongoOptionalDoc parse (opt_arg args 2)) (\<lambda>options.
              let multi = (mtd = js ''updatemany'' \<or>
                    (mtd = js ''update'' \<and> map_of options (js ''multi'') = Some (JBool True)))
              in attempt (chain_fold noop_step () chain) (\<lambda>_.
                   Inr (buildMongoUpdateCommand name query updateExpr options multi)))))
      | _ \<Rightarrow> Inl (mtd @ js '' requires at least filter and update arguments''))"

text \<open>The options and the limit of a \<open>remove\<close>, whose second argument may be the flag \<open>justOne\<close>.\<close>

definition remove_options :: "value_reader \<Rightarrow> jsstr \<Rightarrow> jsstr + members \<times> int" where
  "remove_options parse second =
     (let rawSecond = to_lower (trim second) in
      if rawSecond = js ''true'' \<or> rawSecond = js ''false'' then Inr ([], if rawSecond = js ''true'' then 1 else 0)
      else attempt (parseMongoOptionalDoc parse (Some second)) (\<lambda>options.
        case map_of options (js ''justOne'') of
          Some v \<Rightarrow> Inr (filter (\<lambda>p. fst p \<noteq> js ''justOne'') options, if json_truthy v then 1 else 0)
        | None \<Rightarrow> Inr (options, 0)))"

definition delete_options :: "value_reader \<Rightarrow> jsstr \<Rightarrow> jsstr list \<Rightarrow> jsstr + members \<times> int" where
  "delete_options parse mtd args =
     (let limit = (if mtd = js ''deleteone'' then 1 else 0) in
      case opt_arg args 1 of
        None \<Rightarrow> Inr ([], limit)
      | Some second \<Rightarrow>
          if mtd = js ''remove'' then remove_options parse second
          else attempt (parseMongoOptionalDoc parse (Some second)) (\<lambda>options. Inr (options, limit)))"

definition convert_delete ::
  "value_reader \<Rightarrow> jsstr \<Rightarrow> jsstr \<Rightarrow> jsstr list \<Rightarrow> (jsstr \<times> jsstr) list \<Rightarrow> jsstr + jsstr" where
  "convert_delete parse name mtd args chain =
     attempt (doc_arg parse args 0 (mtd @ js '' first argument'')) (\<lambda>query.
     attempt (delete_options parse mtd args) (\<lambda>(options, l).
     let limit = (if mtd = js ''deletemany'' then 0 else if mtd = js ''deleteone'' then 1 else l)
     in attempt (chain_fold noop_step () chain) (\<lambda>_.
          Inr (buildMongoDeleteCommand name (or_empty query) options limit))))"

section \<open>The conversion\<close>

text \<open>\<open>s.replace(/^[\s]*(\/\/[^\n]*\n)+/g, '')\<close>: the lines of comment at the start.\<close>

function comment_lines :: "jsstr \<Rightarrow> jsstr" where
  "comment_lines s =
     (let line = takeWhile (\<lambda>c. c \<noteq> newline) s in
      if starts_with s (js ''//'') \<and> length line < length s then comment_lines (drop (length line + 1) s) else s)"
  by pat_completeness auto
termination by (relation "measure length") auto

declare comment_lines.simps [simp del]

definition strip_comment_lines :: "jsstr \<Rightarrow> jsstr" where
  "strip_comment_lines s =
     (let t = dropWhile is_js_space s; u = comment_lines t in if length u < length t then u else s)"

definition shell_input :: "jsstr \<Rightarrow> jsstr" where
  "shell_input raw = strip_semicolons (trim (strip_comment_lines (trim raw)))"

definition convert_method :: "value_reader \<Rightarrow> shell_call \<Rightarrow> jsstr list \<Rightarrow> (jsstr \<times> jsstr) list \<Rightarrow> (jsstr + jsstr) option" where
  "convert_method parse call args chain =
     (let name = collection call; mtd = callMethod call in
      if mtd \<in> set (map js [''find'', ''findone'']) then Some (convert_find parse name mtd args chain)
      else if mtd \<in> set (map js [''count'', ''countdocuments'']) then Some (convert_count parse name mtd args)
      else if mtd = js ''aggregate'' then Some (convert_aggregate parse name args chain)
      else if mtd \<in> set (map js [''insertone'', ''insertmany'', ''insert'']) then Some (convert_insert parse name mtd args chain)
      else if mtd = js ''replaceone'' then Some (convert_replace parse name args chain)
      else if mtd \<in> set (map js [''updateone'', ''updatemany'', ''update'']) then Some (convert_update parse name mtd args chain)
      else if mtd \<in> set (map js [''deleteone'', ''deletemany'', ''remove'']) then Some (convert_delete parse name mtd args chain)
      else None)"

definition convertMongoShellToJsonCommand ::
  "(jsstr \<Rightarrow> int option) \<Rightarrow> value_reader \<Rightarrow> jsstr \<Rightarrow> shell_result" where
  "convertMongoShellToJsonCommand date_ms ev raw =
     (let input = shell_input raw in
      case convertMongoShellShortcutCommand input of
        Some command \<Rightarrow> Command command
      | None \<Rightarrow>
          if \<not> match_ci_at input (js ''db.'') 0 then NotRecognized
          else
            (case attempt (parseCollectionAndMethod input) (\<lambda>parsed.
               case parsed of
                 None \<Rightarrow> Inr None
               | Some call \<Rightarrow>
                   attempt (parseChainCalls (tailText call)) (\<lambda>chain.
                     case convert_method (parseMongoJSONValue date_ms ev) call (splitTopLevelComma (argsText call)) chain of
                       None \<Rightarrow> Inr None
                     | Some r \<Rightarrow> attempt r (\<lambda>command. Inr (Some command)))) of
               Inl message \<Rightarrow> ShellError message
             | Inr None \<Rightarrow> NotRecognized
             | Inr (Some command) \<Rightarrow> Command command))"


lemma shell_examples:
  fixes ev :: value_reader and date_ms :: "jsstr \<Rightarrow> int option"
  shows "splitTopLevelComma (js ''{\"a\": [1, 2]}, \"b,(\" , 3'') = [js ''{\"a\": [1, 2]}'', js ''\"b,(\"'', js ''3'']"
  "extractBalancedParentheses (js ''f(a, \")\", (b)) x'') 1 = Inr (js ''a, \")\", (b)'', 14)"
  "convertMongoShellToJsonCommand date_ms ev (js ''show  DBS;'') = Command (js ''{\"listDatabases\":1,\"nameOnly\":true}'')"
  "convertMongoShellToJsonCommand date_ms ev (js ''db.users.deleteOne({\"a\":1})'') =
    Command (js ''{\"delete\":\"users\",\"deletes\":[{\"q\":{\"a\":1},\"limit\":1}]}'')"
  by code_simp+

end
