(* ===== verification/MongoCalls.thy ===== *)
theory MongoCalls
  imports MongoShell
begin

text \<open>
  What the commands of the MongoDB shell become: arguments whose quotes and brackets are closed are split
  back, JSON texts are such arguments, and the calls of the shell with JSON arguments become the commands
  they stand for.
\<close>

section \<open>Texts whose quotes and brackets are closed\<close>

text \<open>The state after a text every character of which belongs to a quoted text or an escape.\<close>

fun quote_run :: "jsstr \<Rightarrow> quotes \<Rightarrow> quotes option" where
  "quote_run [] q = Some q"
| "quote_run (c # s) q = (case quote_step c q of Some q' \<Rightarrow> quote_run s q' | None \<Rightarrow> None)"

lemma quote_run_append:
  "quote_run s q = Some q' \<Longrightarrow> quote_run (s @ t) q = quote_run t q'"
  by (induction s arbitrary: q) (auto split: option.splits)

lemma comma_loop_quotes:
  "quote_run s q = Some q' \<Longrightarrow> comma_loop (s @ rest) q d r cur = comma_loop rest q' d r (cur @ s)"
  by (induction s arbitrary: q cur) (auto split: option.splits)

lemma close_position_quotes:
  "quote_run s q = Some q' \<Longrightarrow> close_position (s @ rest) q k i = close_position rest q' k (i + length s)"
  by (induction s arbitrary: q i) (auto split: option.splits)

definition bracket_pairs :: "(jschar \<times> jschar) list" where
  "bracket_pairs = [(cu CHR ''('', cu CHR '')''), (cu CHR ''{'', cu CHR ''}''), (cu CHR ''['', cu CHR '']'')]"

definition inert :: "jschar \<Rightarrow> bool" where
  "inert c \<longleftrightarrow> quote_step c outside = None \<and> c \<noteq> cu CHR '','' \<and> c \<notin> fst ` set bracket_pairs \<and> c \<notin> snd ` set bracket_pairs"

text \<open>The flag tells whether the text may have a comma outside brackets.\<close>

inductive closed :: "bool \<Rightarrow> jsstr \<Rightarrow> bool" where
  closed_Nil: "closed b []"
| closed_quoted: "quote_run u outside = Some outside \<Longrightarrow> closed b s \<Longrightarrow> closed b (u @ s)"
| closed_inert: "inert c \<Longrightarrow> closed b s \<Longrightarrow> closed b (c # s)"
| closed_comma: "closed True s \<Longrightarrow> closed True (cu CHR '','' # s)"
| closed_bracket: "(l, r) \<in> set bracket_pairs \<Longrightarrow> closed True t \<Longrightarrow> closed b s \<Longrightarrow> closed b (l # t @ r # s)"

lemma bracket_steps:
  assumes "(l, r) \<in> set bracket_pairs"
  shows "quote_step l outside = None" and "quote_step r outside = None" and "bracket_step r (bracket_step l d) = d"
    and "bracket_step l d \<noteq> no_depth" and "l \<noteq> cu CHR '',''" and "r \<noteq> cu CHR '',''"
  using assms by (cases d; auto simp: bracket_pairs_def quote_step_def outside_def bracket_step_def no_depth_def cu_def)+

lemma inert_steps: "inert c \<Longrightarrow> quote_step c outside = None \<and> bracket_step c d = d \<and> c \<noteq> cu CHR '',''"
  by (auto simp: inert_def bracket_pairs_def bracket_step_def)

lemma comma_loop_closed:
  "closed b s \<Longrightarrow> (b \<Longrightarrow> d \<noteq> no_depth) \<Longrightarrow> comma_loop (s @ rest) outside d r cur = comma_loop rest outside d r (cur @ s)"
proof (induction arbitrary: d cur rest rule: closed.induct)
  case (closed_quoted u b s)
  then show ?case using comma_loop_quotes [OF closed_quoted.hyps(1)] by simp
next
  case (closed_inert c b s)
  then show ?case using inert_steps [OF closed_inert.hyps(1)] by simp
next
  case (closed_comma s)
  moreover have "quote_step (cu CHR '','') outside = None" "bracket_step (cu CHR '','') d = d"
    by (simp_all add: quote_step_def outside_def bracket_step_def cu_def)
  ultimately show ?case by simp
next
  case (closed_bracket l r t b s)
  note st = bracket_steps [OF closed_bracket.hyps(1)]
  show ?case using st closed_bracket.IH(1) [of "bracket_step l d" "r # s @ rest"] closed_bracket.IH(2) [OF closed_bracket.prems]
    by simp
qed simp

lemma close_position_closed:
  "closed b s \<Longrightarrow> 0 < k \<Longrightarrow> close_position (s @ rest) outside k i = close_position rest outside k (i + length s)"
proof (induction arbitrary: k i rest rule: closed.induct)
  case (closed_quoted u b s)
  then show ?case using close_position_quotes [OF closed_quoted.hyps(1)] by (simp add: add.assoc)
next
  case (closed_inert c b s)
  moreover have "c \<noteq> cu CHR ''(''" "c \<noteq> cu CHR '')''" using closed_inert.hyps(1) by (auto simp: inert_def bracket_pairs_def)
  ultimately show ?case using inert_steps [OF closed_inert.hyps(1)] by simp
next
  case (closed_comma s)
  moreover have "quote_step (cu CHR '','') outside = None" by (simp add: quote_step_def outside_def cu_def)
  ultimately show ?case by simp
next
  case (closed_bracket l r t b s)
  note st = bracket_steps [OF closed_bracket.hyps(1)]
  have inner: "close_position (t @ u) outside k' j = close_position u outside k' (j + length t)" if "0 < k'" for k' j u
    using closed_bracket.IH(1) [OF that] .
  show ?case
  proof (cases "l = cu CHR ''(''")
    case True
    then have "r = cu CHR '')''" using closed_bracket.hyps(1) by (auto simp: bracket_pairs_def)
    moreover have "0 < k + 1" using closed_bracket.prems by simp
    ultimately show ?thesis using True st closed_bracket.IH(2) [OF closed_bracket.prems] closed_bracket.prems
      by (simp add: inner Let_def add.assoc)
  next
    case False
    then have "l \<noteq> cu CHR '')''" "r \<noteq> cu CHR ''(''" "r \<noteq> cu CHR '')''"
      using closed_bracket.hyps(1) by (auto simp: bracket_pairs_def)
    with False st closed_bracket.IH(2) [OF closed_bracket.prems] closed_bracket.prems show ?thesis
      by (simp add: inner Let_def add.assoc)
  qed
qed simp

lemma closed_append: "closed b s \<Longrightarrow> closed b t \<Longrightarrow> closed b (s @ t)"
  by (induction rule: closed.induct) (auto intro: closed.intros)

lemma closed_comma_free: "closed False s \<Longrightarrow> closed True s"
proof (induction "False" s rule: closed.induct)
qed (auto intro: closed.intros)

lemma closed_join: "\<forall>s \<in> set ss. closed True s \<Longrightarrow> closed True (join (js '','') ss)"
proof (induction "js '',''" ss rule: join.induct)
  case (3 x y xs)
  then show ?case by (auto simp: js_def intro: closed_append closed.intros)
qed (auto intro: closed.intros)

section \<open>Arguments are split back\<close>

text \<open>A text that ends in a comma outside brackets stands before the rest of the arguments.\<close>

lemma comma_loop_args:
  assumes "args \<noteq> []" and "\<forall>a \<in> set args. closed False a"
  shows "comma_loop (join (js '','') args) outside no_depth r [] = (r @ butlast args, last args)"
  using assms
proof (induction "js '',''" args arbitrary: r rule: join.induct)
  case (2 x)
  then show ?case using comma_loop_closed [of False x no_depth "[]" r "[]"] by simp
next
  case (3 x y xs)
  have "quote_step (cu CHR '','') outside = None" "bracket_step (cu CHR '','') no_depth = no_depth"
    by (simp_all add: quote_step_def outside_def bracket_step_def no_depth_def cu_def)
  with 3 show ?case using comma_loop_closed [of False x no_depth] by (simp add: js_def)
qed simp

lemma splitTopLevelComma_args:
  assumes "\<forall>a \<in> set args. closed False a \<and> a \<noteq> [] \<and> trim a = a"
  shows "splitTopLevelComma (join (js '','') args) = args"
proof (cases "args = []")
  case False
  have "trim (last args) \<noteq> []" using assms False by (metis last_in_set)
  moreover have "butlast args @ [last args] = args" using False by simp
  moreover have "filter (\<lambda>a. a \<noteq> []) (map trim args) = args"
    using assms by (simp add: map_idI filter_id_conv)
  ultimately show ?thesis
    using comma_loop_args [OF False, of "[]"] assms by (simp add: splitTopLevelComma_def)
qed (simp add: splitTopLevelComma_def)

section \<open>JSON texts are closed\<close>

definition in_text :: quotes where
  "in_text = \<lparr>inSingle = False, inDouble = True, escape = False\<rparr>"

lemma quote_run_plain:
  "\<forall>c \<in> set s. c \<noteq> backslash \<and> c \<noteq> dquote \<Longrightarrow> quote_run s in_text = Some in_text"
  by (induction s) (auto simp: quote_step_def in_text_def)

lemma hex_digit_safe: "0 \<le> n \<Longrightarrow> n < 16 \<Longrightarrow> hex_digit n \<noteq> backslash \<and> hex_digit n \<noteq> dquote"
  by (auto simp: hex_digit_def cu_def)

lemma quote_run_unit: "0 \<le> c \<Longrightarrow> quote_run (escape_unit c) in_text = Some in_text"
proof (cases "map_of short_escapes c")
  case (Some e)
  then show ?thesis by (simp add: escape_unit_def quote_step_def in_text_def)
next
  case None
  then have n: "c \<noteq> dquote" "c \<noteq> backslash" by (auto simp: short_escapes_def split: if_splits)
  have "quote_run (hex4 c) in_text = Some in_text"
    using hex_digit_safe by (intro quote_run_plain) (auto simp: hex4_def)
  then have "quote_run (cu CHR ''u'' # hex4 c) (in_text\<lparr>escape := True\<rparr>) = Some in_text"
    by (simp add: quote_step_def in_text_def)
  moreover have "quote_step backslash in_text = Some (in_text\<lparr>escape := True\<rparr>)" by (simp add: quote_step_def in_text_def)
  moreover have "quote_run [c] in_text = Some in_text" using n by (intro quote_run_plain) simp
  ultimately show ?thesis using None by (simp add: escape_unit_def)
qed

lemma quote_run_escape: "\<forall>c \<in> set s. 0 \<le> c \<Longrightarrow> quote_run (json_escape s) in_text = Some in_text"
proof (induction s rule: json_escape.induct)
  case (1 c d s)
  show ?case
  proof (cases "high_surrogate c \<and> low_surrogate d")
    case True
    then have "quote_run [c, d] in_text = Some in_text"
      by (intro quote_run_plain) (auto simp: high_surrogate_def low_surrogate_def cu_def)
    from quote_run_append [OF this] True 1 show ?thesis by simp
  next
    case False
    with 1 quote_run_append [OF quote_run_unit [of c]] show ?thesis by auto
  qed
qed (simp_all add: quote_run_unit)

lemma quote_run_json: "\<forall>c \<in> set s. 0 \<le> c \<Longrightarrow> quote_run (quote_json s) outside = Some outside"
proof -
  assume s: "\<forall>c \<in> set s. 0 \<le> c"
  have "quote_step dquote outside = Some in_text" "quote_step dquote in_text = Some outside"
    by (simp_all add: quote_step_def outside_def in_text_def)
  with quote_run_append [OF quote_run_escape [OF s]] show ?thesis by (simp add: quote_json_def)
qed

lemma closed_inerts: "\<forall>c \<in> set s. inert c \<Longrightarrow> closed b s"
  by (induction s) (auto intro: closed.intros)

lemma inert_chars: "ascii_digit c \<or> ascii_letter c \<or> c = cu CHR ''-'' \<or> c = cu CHR ''.'' \<or> c = cu CHR '':'' \<Longrightarrow> inert c"
  by (auto simp: inert_def bracket_pairs_def quote_step_def outside_def ascii_digit_def ascii_letter_def cu_def)

lemma dec_str_chars: "c \<in> set (dec_str d) \<Longrightarrow> ascii_digit c \<or> c = cu CHR ''-'' \<or> c = cu CHR ''.''"
  using nat_str_digits
  by (fastforce simp: dec_str_def pad_zeros_def Let_def ascii_digit_def split: prod.splits if_splits
      dest: in_set_takeD in_set_dropD)

lemma closed_stringify: "json_ok v \<Longrightarrow> closed b (stringify v)"
proof (induction v arbitrary: b)
  case JNull
  then show ?case by (auto simp: js_def ascii_letter_def cu_def intro!: closed_inerts inert_chars)
next
  case (JBool x)
  then show ?case by (auto simp: js_def ascii_letter_def cu_def intro!: closed_inerts inert_chars)
next
  case (JNum d)
  have "\<forall>c \<in> set (dec_str d). inert c" using dec_str_chars inert_chars by blast
  then show ?case by (simp add: closed_inerts)
next
  case (JStr s)
  then show ?case using closed_quoted [OF quote_run_json closed_Nil] by simp
next
  case (JArr vs)
  have "closed True (join (js '','') (map stringify vs))" using JArr by (intro closed_join) auto
  from closed_bracket [OF _ this closed_Nil, of "cu CHR ''[''" "cu CHR '']''" b] show ?case
    by (simp add: bracket_pairs_def js_def)
next
  case (JObj ms)
  have "closed True (quote_json (fst p) @ cu CHR '':'' # stringify (snd p))" if "p \<in> set ms" for p
  proof (rule closed_quoted [OF quote_run_json])
    show "\<forall>c \<in> set (fst p). 0 \<le> c" using JObj.prems that by simp
    have "closed True (stringify (snd p))" using JObj that by (cases p) (auto simp: snds.simps)
    then show "closed True (cu CHR '':'' # stringify (snd p))" by (intro closed_inert inert_chars) simp_all
  qed
  then have "closed True (join (js '','') (map (\<lambda>p. quote_json (fst p) @ cu CHR '':'' # stringify (snd p)) ms))"
    by (intro closed_join) auto
  from closed_bracket [OF _ this closed_Nil, of "cu CHR ''{''" "cu CHR ''}''" b] show ?case
    by (simp add: bracket_pairs_def js_def)
qed

section \<open>A call without chain\<close>

definition shell_text :: "jsstr \<Rightarrow> jsstr \<Rightarrow> jsstr \<Rightarrow> jsstr" where
  "shell_text name mtd args = js ''db.'' @ name @ cu CHR ''.'' # mtd @ cu CHR ''('' # args @ [cu CHR '')'']"

definition name_ok :: "jsstr \<Rightarrow> bool" where
  "name_ok name \<longleftrightarrow> name \<noteq> [] \<and> (\<forall>c \<in> set name. collection_char c) \<and> \<not> starts_with (to_lower name) (js ''getcollection'')"

lemma skip_while_run:
  assumes "\<forall>c \<in> set v. p c" and "w = [] \<or> \<not> p (hd w)" and "i = length u"
  shows "skip_while p (u @ v @ w) i = i + length v"
  unfolding skip_while_def
proof (rule advance_eqI)
  show "p ((u @ v @ w) ! k)" if "i \<le> k" "k < i + length v" for k
    using that assms by (simp add: nth_append)
  show "\<not> p ((u @ v @ w) ! (i + length v))" if "i + length v < length (u @ v @ w)"
    using that assms by (cases w) (auto simp: nth_append)
qed (simp_all add: assms(3))

lemma slice_run: "i = length u \<Longrightarrow> j = length u + length v \<Longrightarrow> slice (u @ v @ w) i j = v"
  by (simp add: slice_def)

lemma at_run: "i = length u \<Longrightarrow> at (u @ c # w) i = Some c"
  by (simp add: at_def)

lemma collection_not_space: "collection_char c \<Longrightarrow> \<not> is_js_space c"
  by (auto simp: collection_char_def ascii_letter_def ascii_digit_def is_js_space_def cu_def)

lemma letter_not_space: "ascii_letter c \<Longrightarrow> \<not> is_js_space c"
  by (auto simp: ascii_letter_def is_js_space_def)

lemma trim_no_space: "\<forall>c \<in> set s. \<not> is_js_space c \<Longrightarrow> trim s = s"
  by (rule trim_id) (metis hd_in_set last_in_set)

lemma extract_run:
  assumes "closed True t" and "i = length u"
  shows "extractBalancedParentheses (u @ cu CHR ''('' # t @ cu CHR '')'' # w) i = Inr (t, i + length t + 2)"
proof -
  have q: "quote_step (cu CHR ''('') outside = None" "quote_step (cu CHR '')'') outside = None"
    by (simp_all add: quote_step_def outside_def cu_def)
  have "close_position (cu CHR ''('' # t @ cu CHR '')'' # w) outside 0 i = Some (i + length t + 1)"
    using close_position_closed [OF assms(1), of 1 "cu CHR '')'' # w" "Suc i"] q by simp
  moreover have "slice (u @ cu CHR ''('' # t @ cu CHR '')'' # w) (i + 1) (i + length t + 1) = t"
    using slice_run [of "i + 1" "u @ [cu CHR ''('']" "i + length t + 1" t "cu CHR '')'' # w"] assms(2) by simp
  ultimately show ?thesis using assms(2) at_run [of i u] by (simp add: extractBalancedParentheses_def)
qed

lemma collection_read:
  assumes "name_ok name"
  shows "read_collection (shell_text name mtd args) = Inr (name, 3 + length name)"
proof -
  let ?w = "cu CHR ''.'' # mtd @ cu CHR ''('' # args @ [cu CHR '')'']"
  have s: "shell_text name mtd args = js ''db.'' @ name @ ?w" by (simp add: shell_text_def)
  have "drop 3 (shell_text name mtd args) = name @ ?w" by (simp add: s js_def)
  moreover have "\<not> starts_with (to_lower (name @ ?w)) (js ''getcollection'')"
  proof
    have l: "to_lower (name @ ?w) = to_lower name @ cu CHR ''.'' # to_lower (tl ?w)"
      by (simp add: to_lower_Cons lower_unit_def cu_def)
    have d: "cu CHR ''.'' \<notin> set (js ''getcollection'')" by (simp add: js_def cu_def)
    assume "starts_with (to_lower (name @ ?w)) (js ''getcollection'')"
    then obtain r where "to_lower name = js ''getcollection'' @ r"
      unfolding l using starts_with_append_short [OF _ d] by blast
    then have "starts_with (to_lower name) (js ''getcollection'')"
      by (simp add: starts_with_def starts_with_at_def)
    with assms show False by (simp add: name_ok_def)
  qed
  moreover have "skip_while collection_char (shell_text name mtd args) 3 = 3 + length name"
    unfolding s using assms by (intro skip_while_run) (auto simp: name_ok_def collection_char_def ascii_letter_def ascii_digit_def cu_def)
  moreover have "slice (shell_text name mtd args) 3 (3 + length name) = name" unfolding s by (rule slice_run) simp_all
  moreover have "trim name = name" using assms by (intro trim_no_space) (auto simp: name_ok_def collection_not_space)
  ultimately show ?thesis by (simp add: read_collection_def)
qed

lemma method_read:
  assumes "name_ok name" and "\<forall>c \<in> set mtd. ascii_letter c" and "closed True args"
  shows "read_method (shell_text name mtd args) name (3 + length name) =
    Inr \<lparr>collection = name, callMethod = to_lower mtd, argsText = args, tailText = []\<rparr>"
proof -
  let ?u = "js ''db.'' @ name @ [cu CHR ''.'']" and ?v = "cu CHR ''('' # args @ [cu CHR '')'']"
  let ?i = "4 + length name" and ?p = "4 + length name + length mtd"
  have s: "shell_text name mtd args = ?u @ mtd @ ?v" by (simp add: shell_text_def)
  have s2: "shell_text name mtd args = (?u @ mtd) @ cu CHR ''('' # args @ cu CHR '')'' # []" by (simp add: shell_text_def)
  have dot: "at (shell_text name mtd args) (3 + length name) = Some (cu CHR ''.'')"
    using at_run [of "3 + length name" "js ''db.'' @ name"] by (simp add: shell_text_def)
  have "skip_while ascii_letter (shell_text name mtd args) ?i = ?i + length mtd"
    unfolding s using assms(2) by (intro skip_while_run) (auto simp: ascii_letter_def cu_def)
  moreover have "skip_while is_js_space ((?u @ mtd) @ [] @ ?v) ?p = ?p + length ([] :: jsstr)"
    by (rule skip_while_run) (auto simp: is_js_space_def cu_def)
  moreover have "slice (shell_text name mtd args) ?i ?p = mtd" unfolding s by (rule slice_run) simp_all
  moreover have "trim mtd = mtd" using assms(2) letter_not_space by (intro trim_no_space) blast
  moreover have "at (shell_text name mtd args) ?p = Some (cu CHR ''('')" unfolding s2 by (rule at_run) simp
  moreover have "extractBalancedParentheses (shell_text name mtd args) ?p = Inr (args, ?p + length args + 2)"
    unfolding s2 by (rule extract_run [OF assms(3)]) simp
  moreover have "drop (?p + length args + 2) (shell_text name mtd args) = []" by (simp add: shell_text_def)
  moreover have "shell_text name mtd args = (?u @ mtd) @ [] @ ?v" by (simp add: shell_text_def)
  ultimately show ?thesis using assms(1) dot
    by (simp add: read_method_def name_ok_def Let_def add.commute add.left_commute)
qed

lemma shell_text_ends:
  "hd (shell_text name mtd args) = cu CHR ''d''" "last (shell_text name mtd args) = cu CHR '')''" "shell_text name mtd args \<noteq> []"
  "match_ci_at (shell_text name mtd args) (js ''db.'') 0"
  by (simp_all add: shell_text_def js_def match_ci_at_def slice_def ascii_fold_def cu_def)

lemma trim_shell_text: "trim (shell_text name mtd args) = shell_text name mtd args"
  by (rule trim_id) (simp add: shell_text_ends is_js_space_def cu_def)

lemma call_read:
  assumes "name_ok name" and "\<forall>c \<in> set mtd. ascii_letter c" and "closed True args"
  shows "parseCollectionAndMethod (shell_text name mtd args) =
    Inr (Some \<lparr>collection = name, callMethod = to_lower mtd, argsText = args, tailText = []\<rparr>)"
  using collection_read [OF assms(1)] method_read [OF assms]
  by (simp add: parseCollectionAndMethod_def trim_shell_text shell_text_ends(4))

lemma shell_input_call: "shell_input (shell_text name mtd args) = shell_text name mtd args"
proof -
  let ?s = "shell_text name mtd args"
  have d: "dropWhile is_js_space ?s = ?s"
    using shell_text_ends(1,3) [of name mtd args] by (cases ?s) (simp_all add: is_js_space_def cu_def)
  have "\<not> starts_with ?s (js ''//'')"
    by (simp add: shell_text_def js_def starts_with_def starts_with_at_def)
  then have "comment_lines ?s = ?s" by (subst comment_lines.simps) (simp add: Let_def)
  then have "strip_comment_lines ?s = ?s" by (simp add: strip_comment_lines_def d)
  moreover have "trim_end ?s = ?s" by (rule trim_end_id) (simp add: shell_text_ends is_js_space_def cu_def)
  ultimately show ?thesis
    by (simp add: shell_input_def trim_shell_text strip_semicolons_def shell_text_ends shell_semicolon_def)
qed

lemma collapse_spaces_hd: "s \<noteq> [] \<Longrightarrow> \<not> is_js_space (hd s) \<Longrightarrow> \<exists>t. collapse_spaces s = hd s # t"
  by (cases s rule: collapse_spaces.cases) auto

lemma no_shortcut: "convertMongoShellShortcutCommand (shell_text name mtd args) = None"
proof -
  let ?s = "shell_text name mtd args"
  have "trim_end ?s = ?s" by (rule trim_end_id) (simp add: shell_text_ends is_js_space_def cu_def)
  then have "trim (strip_semicolons ?s) = ?s"
    by (simp add: strip_semicolons_def shell_text_ends shell_semicolon_def trim_shell_text)
  moreover obtain t where "collapse_spaces ?s = cu CHR ''d'' # t"
    using collapse_spaces_hd [of ?s] shell_text_ends(1,3) [of name mtd args] by (auto simp: is_js_space_def cu_def)
  ultimately have "to_lower (collapse_spaces (trim (strip_semicolons ?s))) = cu CHR ''d'' # to_lower t"
    by (simp add: to_lower_Cons lower_unit_def cu_def)
  then show ?thesis by (simp add: convertMongoShellShortcutCommand_def js_def)
qed

section \<open>A call whose arguments are JSON\<close>

text \<open>The ends of a JSON text are visible characters.\<close>

lemma stringify_ends: "stringify v \<noteq> [] \<and> \<not> is_js_space (hd (stringify v)) \<and> \<not> is_js_space (last (stringify v))"
proof (cases v)
  case (JNum d)
  obtain c t where d: "dec_str d = c # t" using dec_str_start by blast
  have "\<not> is_js_space x" if "x \<in> set (dec_str d)" for x
    using dec_str_chars [OF that] by (auto simp: ascii_digit_def is_js_space_def cu_def)
  moreover have "dec_str d \<noteq> []" by (simp add: d)
  ultimately show ?thesis using hd_in_set last_in_set by (metis JNum stringify.simps(3))
qed (auto simp: js_def quote_json_def is_js_space_def cu_def)

lemma trim_stringify: "trim (stringify v) = stringify v"
  using stringify_ends [of v] by (intro trim_id) blast

definition arg_ok :: "json \<Rightarrow> bool" where
  "arg_ok v \<longleftrightarrow> json_ok v \<and> cu CHR ''('' \<notin> set (stringify v)"

lemma parse_json_arg: "arg_ok v \<Longrightarrow> parseMongoJSONValue date_ms ev (stringify v) = Inr v"
proof -
  assume v: "arg_ok v"
  then have "normalizeExtendedJSON date_ms (stringify v) = stringify v"
    unfolding normalize_passes arg_ok_def by (intro passes_rest) simp
  with v show ?thesis
    by (simp add: parseMongoJSONValue_def trim_stringify stringify_ends parse_stringify arg_ok_def)
qed

definition json_call :: "jsstr \<Rightarrow> jsstr \<Rightarrow> json list \<Rightarrow> jsstr" where
  "json_call name mtd vs = shell_text name mtd (join (js '','') (map stringify vs))"

definition converted :: "(jsstr + jsstr) option \<Rightarrow> shell_result" where
  "converted r = (case r of None \<Rightarrow> NotRecognized | Some (Inl e) \<Rightarrow> ShellError e | Some (Inr c) \<Rightarrow> Command c)"

lemma convert_json_call:
  assumes "name_ok name" and "\<forall>c \<in> set mtd. ascii_letter c" and "\<forall>v \<in> set vs. json_ok v"
  shows "convertMongoShellToJsonCommand date_ms ev (json_call name mtd vs) =
    converted (convert_method (parseMongoJSONValue date_ms ev)
      \<lparr>collection = name, callMethod = to_lower mtd, argsText = join (js '','') (map stringify vs), tailText = []\<rparr>
      (map stringify vs) [])"
proof -
  let ?args = "join (js '','') (map stringify vs)"
  have "closed True ?args" using assms(3) closed_stringify by (intro closed_join) auto
  note call = call_read [OF assms(1,2) this]
  have "splitTopLevelComma ?args = map stringify vs"
    using assms(3) closed_stringify stringify_ends trim_stringify by (intro splitTopLevelComma_args) auto
  moreover have "parseChainCalls [] = Inr []" by (simp add: parseChainCalls_def chain_loop.simps)
  ultimately show ?thesis
    by (simp add: json_call_def convertMongoShellToJsonCommand_def shell_input_call no_shortcut shell_text_ends call
        converted_def attempt_def split: option.split sum.split)
qed

lemma method_names:
  "to_lower (js ''find'') = js ''find''" "to_lower (js ''findOne'') = js ''findone''"
  "to_lower (js ''countDocuments'') = js ''countdocuments''" "to_lower (js ''insertOne'') = js ''insertone''"
  "to_lower (js ''updateOne'') = js ''updateone''" "to_lower (js ''updateMany'') = js ''updatemany''"
  "to_lower (js ''deleteOne'') = js ''deleteone''" "to_lower (js ''deleteMany'') = js ''deletemany''"
  "\<forall>m \<in> set (map js [''find'', ''findOne'', ''countDocuments'', ''insertOne'', ''updateOne'', ''updateMany'', ''deleteOne'',
     ''deleteMany'']). \<forall>c \<in> set m. ascii_letter c"
  by code_simp+

text \<open>C32: A call of the shell that is printed from its parts is read back: for a collection name of plain
  characters, a method name of letters, and arguments whose quotes and brackets are closed and which have no
  comma outside them, the parser finds the collection, the method and nothing after the call, and the argument
  splitter gives exactly the arguments, however deep the brackets nest and whatever the quoted texts hold.\<close>

theorem shell_call_read_back:
  assumes "name_ok name" and "\<forall>c \<in> set mtd. ascii_letter c"
    and "\<forall>a \<in> set args. closed False a \<and> a \<noteq> [] \<and> trim a = a"
  shows "\<exists>call. parseCollectionAndMethod (shell_text name mtd (join (js '','') args)) = Inr (Some call) \<and>
    collection call = name \<and> callMethod call = to_lower mtd \<and> tailText call = [] \<and> splitTopLevelComma (argsText call) = args"
proof -
  have "closed True (join (js '','') args)" using assms(3) closed_comma_free by (intro closed_join) blast
  from call_read [OF assms(1,2) this] splitTopLevelComma_args [OF assms(3)] show ?thesis by simp
qed

lemma closed_example: "closed False (js ''{\"a,(\": [1, 2]}'')" "closed False (js ''5'')"
proof -
  have q: "quote_run (js ''\"a,(\"'') outside = Some outside" by code_simp
  have i: "\<forall>c \<in> set (js '': '') \<union> set (js ''1'') \<union> set (js '' 2'') \<union> set (js ''5''). inert c" by code_simp
  show "closed False (js ''5'')" using i by (intro closed_inerts) blast
  have t: "closed True (js ''1'')" "closed True (js '' 2'')" "closed True (js '': '')" using i by (intro closed_inerts; blast)+
  have "closed True (js ''1'' @ cu CHR '','' # js '' 2'')" by (intro closed_append t closed_comma)
  then have "closed True (cu CHR ''['' # (js ''1'' @ cu CHR '','' # js '' 2'') @ cu CHR '']'' # [])"
    by (rule closed_bracket [rotated]) (simp_all add: bracket_pairs_def closed_Nil)
  then have "closed True (js ''\"a,(\"'' @ js '': '' @ cu CHR ''['' # (js ''1'' @ cu CHR '','' # js '' 2'') @ cu CHR '']'' # [])"
    by (intro closed_quoted q closed_append t)
  from closed_bracket [OF _ this closed_Nil, of "cu CHR ''{''" "cu CHR ''}''" False]
  show "closed False (js ''{\"a,(\": [1, 2]}'')" by (simp add: bracket_pairs_def js_def)
qed

theorem shell_call_read_back_witness:
  "\<exists>call. parseCollectionAndMethod (js ''db.users.updateOne({\"a,(\": [1, 2]},5)'') = Inr (Some call) \<and>
    collection call = js ''users'' \<and> callMethod call = js ''updateone'' \<and> tailText call = [] \<and>
    splitTopLevelComma (argsText call) = [js ''{\"a,(\": [1, 2]}'', js ''5'']"
proof -
  have n: "name_ok (js ''users'')" by code_simp
  have l: "\<forall>c \<in> set (js ''updateOne''). ascii_letter c" using method_names(9) by simp
  have a: "\<forall>a \<in> set [js ''{\"a,(\": [1, 2]}'', js ''5'']. closed False a \<and> a \<noteq> [] \<and> trim a = a"
  proof -
    have "trim (js ''{\"a,(\": [1, 2]}'') = js ''{\"a,(\": [1, 2]}''" "trim (js ''5'') = js ''5''" by code_simp+
    with closed_example show ?thesis by simp
  qed
  have t: "shell_text (js ''users'') (js ''updateOne'') (join (js '','') [js ''{\"a,(\": [1, 2]}'', js ''5'']) =
      js ''db.users.updateOne({\"a,(\": [1, 2]},5)''" by code_simp
  from shell_call_read_back [OF n l a] show ?thesis unfolding t method_names .
qed

definition run_json ::
  "(jsstr \<Rightarrow> int option) \<Rightarrow> value_reader \<Rightarrow> jsstr \<Rightarrow> string \<Rightarrow> json list \<Rightarrow> shell_result" where
  "run_json date_ms ev name mtd vs = convertMongoShellToJsonCommand date_ms ev (json_call name (js mtd) vs)"

definition plain_find :: "jsstr \<Rightarrow> members \<Rightarrow> number option \<Rightarrow> find_params" where
  "plain_find name q limit = \<lparr>find_collection = name, find_filter = q, find_sort = None, find_limit = limit, find_skip = None,
     find_projection = None, includeObjectIDLocator = False\<rparr>"

lemma convert_named_call:
  assumes "name_ok name"
    and "js mtd \<in> set (map js [''find'', ''findOne'', ''countDocuments'', ''insertOne'', ''updateOne'', ''updateMany'', ''deleteOne'',
      ''deleteMany''])" and "\<forall>v \<in> set vs. arg_ok v"
  shows "run_json date_ms ev name mtd vs = converted (convert_method (parseMongoJSONValue date_ms ev)
    \<lparr>collection = name, callMethod = to_lower (js mtd), argsText = join (js '','') (map stringify vs), tailText = []\<rparr>
    (map stringify vs) [])"
proof -
  have "\<forall>c \<in> set (js mtd). ascii_letter c" using method_names(9) assms(2) by blast
  moreover have "\<forall>v \<in> set vs. json_ok v" using assms(3) by (simp add: arg_ok_def)
  ultimately show ?thesis unfolding run_json_def using assms(1) by (intro convert_json_call)
qed

lemma document_arguments:
  assumes "arg_ok (JObj q)"
  shows "doc_arg (parseMongoJSONValue date_ms ev) (map stringify [JObj q]) 0 f = Inr (Some q)"
    and "doc_arg (parseMongoJSONValue date_ms ev) (map stringify [JObj q]) 1 f = Inr None"
    and "doc_arg (parseMongoJSONValue date_ms ev) (map stringify [JObj q]) (Suc 0) f = Inr None"
    and "doc_arg (parseMongoJSONValue date_ms ev) [stringify (JObj q)] 0 f = Inr (Some q)"
  by (simp_all add: doc_arg_def parseMongoJSONDoc_def parse_json_arg [OF assms] del: stringify.simps)

lemma find_call_translated:
  assumes "name_ok name" and "arg_ok (JObj q)"
  shows "run_json date_ms ev name ''find'' [JObj q] = Command (buildMongoFindCommand (plain_find name q None))"
  using assms(2)
  by (simp add: convert_named_call [OF assms(1)] document_arguments [OF assms(2)] method_names convert_method_def
      convert_find_def plain_find_def finite_number_def or_empty_def converted_def del: stringify.simps list.map)





section \<open>What the readers do not expect\<close>

text \<open>A direction of a sort that is a text, as \<open>asc\<close>, is not a number, and sorts downwards.\<close>

lemma sort_text_descends:
  "parseMongoSortObject (parseMongoJSONValue (\<lambda>_. None) Inl) (js ''{\"name\":\"asc\"}'') = Inr [(js ''name'', num (-1))]"
  by code_simp

text \<open>An apostrophe in a regular expression opens a quoted text, so the call seems not to end.\<close>

lemma regex_apostrophe_unclosed:
  "convertMongoShellToJsonCommand (\<lambda>_. None) ev (js ''db.c.find({a: /it's/})'') =
   ShellError (js ''Syntax error: unclosed parenthesis'')"
  by code_simp

text \<open>The name of a collection that begins with \<open>getCollection\<close> is taken for the call.\<close>

lemma get_collection_prefix:
  "convertMongoShellToJsonCommand (\<lambda>_. None) ev (js ''db.getCollectionLog.find({})'') =
   ShellError (js ''Syntax error: getCollection missing arguments'')"
  by code_simp

end
