(* ===== verification/ConnectionReadOnly.thy ===== *)
theory ConnectionReadOnly
  imports SqlDialect SqlRoundtrip MongoCalls
begin

text \<open>
  Protected connections: \<open>frontend/src/utils/connectionReadOnly.ts\<close>. Which protections a
  connection has, and which statements of a script a protected connection refuses. An
  absent configuration is \<open>None\<close>, a missing flag is not true and is \<open>False\<close>. Texts for MongoDB are
  translated to commands by \<open>convertMongoShellToJsonCommand\<close>, whose readers of dates and of expressions
  are arguments here too.
\<close>

section \<open>Configuration\<close>

datatype protection_key =
    RestrictDataEdit | RestrictStructureEdit | RestrictScriptExecution | RestrictDataImport

record protection_config =
  restrictDataEdit :: bool
  restrictStructureEdit :: bool
  restrictScriptExecution :: bool
  restrictDataImport :: bool

record connection_config =
  config_type :: jsstr
  config_driver :: jsstr
  config_oceanBaseProtocol :: jsstr
  config_readOnly :: bool
  config_protection :: "protection_config option"

definition CONNECTION_PROTECTION_KEYS :: "protection_key list" where
  "CONNECTION_PROTECTION_KEYS =
     [RestrictDataEdit, RestrictStructureEdit, RestrictScriptExecution, RestrictDataImport]"

fun protection_of :: "protection_config \<Rightarrow> protection_key \<Rightarrow> bool" where
  "protection_of p RestrictDataEdit = restrictDataEdit p"
| "protection_of p RestrictStructureEdit = restrictStructureEdit p"
| "protection_of p RestrictScriptExecution = restrictScriptExecution p"
| "protection_of p RestrictDataImport = restrictDataImport p"

definition EMPTY_CONNECTION_PROTECTION :: protection_config where
  "EMPTY_CONNECTION_PROTECTION =
     \<lparr>restrictDataEdit = False, restrictStructureEdit = False, restrictScriptExecution = False,
      restrictDataImport = False\<rparr>"

definition FULL_CONNECTION_PROTECTION :: protection_config where
  "FULL_CONNECTION_PROTECTION =
     \<lparr>restrictDataEdit = True, restrictStructureEdit = True, restrictScriptExecution = True,
      restrictDataImport = True\<rparr>"

definition CONNECTION_READ_ONLY_TYPES :: "jsstr list" where
  "CONNECTION_READ_ONLY_TYPES = map js
     [''mysql'', ''goldendb'', ''mariadb'', ''oceanbase'', ''diros'', ''starrocks'', ''sphinx'',
      ''postgres'', ''kingbase'', ''highgo'', ''vastbase'', ''opengauss'', ''gaussdb'', ''sqlserver'',
      ''iris'', ''sqlite'', ''duckdb'', ''oracle'', ''dameng'', ''tdengine'', ''clickhouse'', ''trino'',
      ''mongodb'']"

definition resolveConnectionReadOnlyType :: "connection_config option \<Rightarrow> jsstr" where
  "resolveConnectionReadOnlyType config =
     (case config of
        None \<Rightarrow> []
      | Some c \<Rightarrow> to_lower (trim (resolveSqlDialect (config_type c) (config_driver c) (config_oceanBaseProtocol c))))"

definition supportsConnectionReadOnlyMode :: "connection_config option \<Rightarrow> bool" where
  "supportsConnectionReadOnlyMode config \<longleftrightarrow>
     resolveConnectionReadOnlyType config \<in> set CONNECTION_READ_ONLY_TYPES"

definition normalizeConnectionProtectionConfig :: "protection_config option \<Rightarrow> protection_config" where
  "normalizeConnectionProtectionConfig v = (case v of None \<Rightarrow> EMPTY_CONNECTION_PROTECTION | Some p \<Rightarrow> p)"

definition deriveLegacyConnectionReadOnlyFlag :: "protection_config \<Rightarrow> bool" where
  "deriveLegacyConnectionReadOnlyFlag p = list_all (protection_of p) CONNECTION_PROTECTION_KEYS"

definition resolveConnectionProtectionConfig :: "connection_config option \<Rightarrow> protection_config" where
  "resolveConnectionProtectionConfig config =
     (case config of
        None \<Rightarrow> EMPTY_CONNECTION_PROTECTION
      | Some c \<Rightarrow>
          if \<not> supportsConnectionReadOnlyMode config then EMPTY_CONNECTION_PROTECTION
          else (let normalized = normalizeConnectionProtectionConfig (config_protection c) in
                if list_ex (protection_of normalized) CONNECTION_PROTECTION_KEYS then normalized
                else if config_readOnly c then FULL_CONNECTION_PROTECTION
                else EMPTY_CONNECTION_PROTECTION))"

definition isConnectionProtectionEnabled :: "connection_config option \<Rightarrow> protection_key \<Rightarrow> bool" where
  "isConnectionProtectionEnabled config key = protection_of (resolveConnectionProtectionConfig config) key"

definition getConnectionProtectionEnabledCount :: "connection_config option \<Rightarrow> nat" where
  "getConnectionProtectionEnabledCount config =
     length (filter (protection_of (resolveConnectionProtectionConfig config)) CONNECTION_PROTECTION_KEYS)"

definition hasAnyConnectionProtection :: "connection_config option \<Rightarrow> bool" where
  "hasAnyConnectionProtection config \<longleftrightarrow> 0 < getConnectionProtectionEnabledCount config"

definition isConnectionScriptExecutionRestricted :: "connection_config option \<Rightarrow> bool" where
  "isConnectionScriptExecutionRestricted config = isConnectionProtectionEnabled config RestrictScriptExecution"

definition isConnectionForcedReadOnly :: "connection_config option \<Rightarrow> bool" where
  "isConnectionForcedReadOnly config =
     deriveLegacyConnectionReadOnlyFlag (resolveConnectionProtectionConfig config)"

section \<open>SQL statements\<close>

definition SQL_READ_ONLY_KEYWORDS :: "jsstr list" where
  "SQL_READ_ONLY_KEYWORDS = map js
     [''select'', ''with'', ''show'', ''describe'', ''desc'', ''explain'', ''pragma'', ''values'', ''consume'']"

definition MUTATING_WITH_KEYWORDS :: "jsstr list" where
  "MUTATING_WITH_KEYWORDS = map js [''insert'', ''update'', ''delete'', ''replace'', ''merge'', ''upsert'']"

text \<open>What follows the first \<open>p\<close>, without leading white space; empty when there is no \<open>p\<close>.\<close>

definition rest_after :: "jsstr \<Rightarrow> jsstr \<Rightarrow> jsstr" where
  "rest_after text p =
     (case index_of text p 0 of None \<Rightarrow> [] | Some n \<Rightarrow> trim_start (drop (n + length p) text))"

lemma trim_start_length: "length (trim_start s) \<le> length s"
  by (simp add: trim_start_def length_dropWhile_le)

lemma rest_after_length: "p \<noteq> [] \<Longrightarrow> text \<noteq> [] \<Longrightarrow> length (rest_after text p) < length text"
  using index_of_Some(3) [of "text" p 0]
  by (auto simp: rest_after_def split: option.split intro!: le_less_trans [OF trim_start_length])

lemma starts_with_Nil: "starts_with [] p \<longleftrightarrow> p = []"
  by (auto simp: starts_with_def starts_with_at_def)

function strip_comments :: "jsstr \<Rightarrow> jsstr" where
  "strip_comments text =
     (if starts_with text (js ''--'') then strip_comments (rest_after text [newline])
      else if starts_with text (js ''#'') then strip_comments (rest_after text [newline])
      else if starts_with text (js ''/*'') then strip_comments (rest_after text (js ''*/''))
      else text)"
  by pat_completeness auto
termination
proof (relation "measure length")
  show "wf (measure length)" by simp
qed (auto simp: starts_with_Nil intro!: rest_after_length)

declare strip_comments.simps [simp del]

definition stripLeadingSqlComments :: "jsstr \<Rightarrow> jsstr" where
  "stripLeadingSqlComments statement = strip_comments (trim statement)"

definition leading_word :: "jsstr \<Rightarrow> jsstr" where
  "leading_word text =
     (case text of [] \<Rightarrow> [] | c # _ \<Rightarrow> if ascii_digit c then [] else takeWhile word_char text)"

definition extractLeadingSqlKeyword :: "jsstr \<Rightarrow> jsstr" where
  "extractLeadingSqlKeyword statement = to_lower (leading_word (stripLeadingSqlComments statement))"

text \<open>\<open>/^\s*select\b[\s\S]*\binto\b/i\<close>.\<close>

definition word_at_ci :: "jsstr \<Rightarrow> jsstr \<Rightarrow> nat \<Rightarrow> bool" where
  "word_at_ci s w i \<longleftrightarrow> match_ci_at s w i \<and> word_boundary s i \<and> word_boundary s (i + length w)"

definition select_into :: "jsstr \<Rightarrow> bool" where
  "select_into text \<longleftrightarrow>
     (let i = advance (\<lambda>k. is_js_space (text ! k)) (length text) 0 in
      match_ci_at text (js ''select'') i \<and> word_boundary text (i + 6) \<and>
      (\<exists>j \<in> set [i + 6 ..< Suc (length text)]. word_at_ci text (js ''into'') j))"

definition isReadOnlySqlStatement :: "jsstr \<Rightarrow> bool" where
  "isReadOnlySqlStatement statement =
     (let text = stripLeadingSqlComments statement; keyword = extractLeadingSqlKeyword text in
      if text = [] then True
      else if keyword = [] \<or> keyword \<notin> set SQL_READ_ONLY_KEYWORDS then False
      else if keyword = js ''select'' then \<not> select_into text
      else if keyword = js ''with'' then
        \<not> select_into text \<and> \<not> list_ex (contains_word_ci text) MUTATING_WITH_KEYWORDS
      else True)"

section \<open>MongoDB commands\<close>

definition MONGO_READ_ONLY_COMMANDS :: "jsstr list" where
  "MONGO_READ_ONLY_COMMANDS = map js
     [''aggregate'', ''buildinfo'', ''collstats'', ''connectionstatus'', ''count'', ''countdocuments'',
      ''dbstats'', ''distinct'', ''explain'', ''find'', ''findone'', ''getparameter'', ''hello'',
      ''hostinfo'', ''ismaster'', ''listcollections'', ''listdatabases'', ''listindexes'', ''ping'',
      ''serverstatus'']"

definition MONGO_WRITE_COMMANDS :: "jsstr list" where
  "MONGO_WRITE_COMMANDS = map js
     [''bulkwrite'', ''collmod'', ''create'', ''createindexes'', ''delete'', ''drop'', ''dropdatabase'',
      ''dropindexes'', ''findandmodify'', ''insert'', ''mapreduce'', ''renamecollection'', ''update'']"

definition MONGO_META_KEYS :: "jsstr list" where
  "MONGO_META_KEYS = map js
     [''$db'', ''$readpreference'', ''api'', ''apideprecationerrors'', ''apistrict'', ''comment'', ''let'',
      ''lsid'', ''maxtimems'', ''ordered'', ''readconcern'', ''writeconcern'']"

definition resolveMongoCommandKey :: "jsstr list \<Rightarrow> jsstr" where
  "resolveMongoCommandKey keys =
     (let effectiveKeys = filter (\<lambda>key. to_lower key \<noteq> [] \<and> to_lower key \<notin> set MONGO_META_KEYS) (map trim keys) in
      case find (\<lambda>key. to_lower key \<in> set MONGO_WRITE_COMMANDS) effectiveKeys of
        Some key \<Rightarrow> key
      | None \<Rightarrow>
          (case find (\<lambda>key. to_lower key \<in> set MONGO_READ_ONLY_COMMANDS) effectiveKeys of
             Some key \<Rightarrow> key
           | None \<Rightarrow> (case effectiveKeys of [] \<Rightarrow> [] | key # _ \<Rightarrow> key)))"

definition normalizeMongoCommandText :: "(jsstr \<Rightarrow> int option) \<Rightarrow> value_reader \<Rightarrow> jsstr \<Rightarrow> jsstr" where
  "normalizeMongoCommandText date_ms ev statement =
     (let trimmed = trim statement in
      if trimmed = [] then []
      else if starts_with trimmed (js ''{'') then trimmed
      else (case convertMongoShellToJsonCommand date_ms ev trimmed of Command command \<Rightarrow> command | _ \<Rightarrow> []))"

definition isReadOnlyMongoStatement :: "(jsstr \<Rightarrow> int option) \<Rightarrow> value_reader \<Rightarrow> jsstr \<Rightarrow> bool" where
  "isReadOnlyMongoStatement date_ms ev statement =
     (let commandText = normalizeMongoCommandText date_ms ev statement in
      if commandText = [] then False
      else
        (case parse_json commandText of
           Some (JObj parsed) \<Rightarrow>
             (let commandKey = to_lower (resolveMongoCommandKey (map fst parsed)) in
              if commandKey = [] then False
              else if commandKey \<in> set MONGO_WRITE_COMMANDS then False
              else commandKey \<in> set MONGO_READ_ONLY_COMMANDS)
         | _ \<Rightarrow> False))"

section \<open>Scripts\<close>

definition isConnectionReadOnlyStatement ::
  "(jsstr \<Rightarrow> int option) \<Rightarrow> value_reader \<Rightarrow> connection_config option \<Rightarrow> jsstr \<Rightarrow> bool" where
  "isConnectionReadOnlyStatement date_ms ev config statement =
     (if resolveConnectionReadOnlyType config = js ''mongodb''
      then isReadOnlyMongoStatement date_ms ev statement
      else isReadOnlySqlStatement statement)"

definition findConnectionMutatingStatements ::
  "(jsstr \<Rightarrow> int option) \<Rightarrow> value_reader \<Rightarrow> connection_config option \<Rightarrow> jsstr \<Rightarrow> jsstr list" where
  "findConnectionMutatingStatements date_ms ev config sql =
     (if \<not> isConnectionScriptExecutionRestricted config then []
      else filter (\<lambda>statement. \<not> isConnectionReadOnlyStatement date_ms ev config statement)
             (filter (\<lambda>statement. statement \<noteq> []) (map (\<lambda>r. trim (range_text r)) (findSqlStatementRanges sql))))"

text \<open>The single-purpose tests the components call.\<close>

definition isConnectionDataEditRestricted :: "connection_config option \<Rightarrow> bool" where
  "isConnectionDataEditRestricted config = isConnectionProtectionEnabled config RestrictDataEdit"

definition isConnectionStructureEditRestricted :: "connection_config option \<Rightarrow> bool" where
  "isConnectionStructureEditRestricted config = isConnectionProtectionEnabled config RestrictStructureEdit"

definition isConnectionDataImportRestricted :: "connection_config option \<Rightarrow> bool" where
  "isConnectionDataImportRestricted config = isConnectionProtectionEnabled config RestrictDataImport"

section \<open>Searching for delimiters\<close>

lemma index_ofI:
  assumes "starts_with_at s p k" and "from \<le> k" and "p \<noteq> []"
    and "\<And>j. from \<le> j \<Longrightarrow> j < k \<Longrightarrow> \<not> starts_with_at s p j"
  shows "index_of s p from = Some k"
proof (cases "index_of s p from")
  case None
  with assms(1-3) starts_with_at_bound show ?thesis by (auto simp: index_of_None)
next
  case (Some k')
  have "\<not> k < k'" using index_of_least [OF Some assms(2)] assms(1) by blast
  moreover have "\<not> k' < k" using assms(4) index_of_Some [OF Some] by blast
  ultimately show ?thesis using Some by simp
qed

lemma starts_with_at_one: "starts_with_at s [a] j \<longleftrightarrow> j < length s \<and> s ! j = a"
proof (cases "j < length s")
  case True
  then show ?thesis by (simp add: starts_with_at_def Cons_nth_drop_Suc [symmetric])
qed (simp add: starts_with_at_def)

lemma starts_with_at_two:
  "starts_with_at s [a, b] j \<longleftrightarrow> Suc j < length s \<and> s ! j = a \<and> s ! Suc j = b"
proof (cases "Suc j < length s")
  case True
  then show ?thesis
    by (simp add: starts_with_at_def Cons_nth_drop_Suc [symmetric, of j] Cons_nth_drop_Suc [symmetric, of "Suc j"])
next
  case False
  then show ?thesis by (auto simp: starts_with_at_def dest: arg_cong [of _ _ length])
qed

section \<open>Leading comments\<close>

datatype sql_comment = LineDash jsstr | LineHash jsstr | Block jsstr

fun comment_str :: "sql_comment \<Rightarrow> jsstr" where
  "comment_str (LineDash c) = js ''--'' @ c @ [newline]"
| "comment_str (LineHash c) = js ''#'' @ c @ [newline]"
| "comment_str (Block c) = js ''/*'' @ c @ js ''*/''"

text \<open>A comment body does not contain its end, and a block comment does not start with the slash
  that the code would take for the end of the opening star.\<close>

fun comment_ok :: "sql_comment \<Rightarrow> bool" where
  "comment_ok (LineDash c) \<longleftrightarrow> newline \<notin> set c"
| "comment_ok (LineHash c) \<longleftrightarrow> newline \<notin> set c"
| "comment_ok (Block c) \<longleftrightarrow> \<not> includes_str c (js ''*/'') \<and> \<not> starts_with c (js ''/'')"

lemma rest_after_line:
  assumes "newline \<notin> set p" and "newline \<notin> set c"
  shows "rest_after (p @ c @ newline # s) [newline] = trim_start s"
proof -
  have "index_of (p @ c @ newline # s) [newline] 0 = Some (length p + length c)"
    using assms by (intro index_ofI) (auto simp: starts_with_at_one nth_append in_set_conv_nth)
  then show ?thesis by (simp add: rest_after_def)
qed

lemma rest_after_block:
  assumes "comment_ok (Block c)"
  shows "rest_after (comment_str (Block c) @ s) (js ''*/'') = trim_start s"
proof -
  let ?a = "cu CHR ''*''" and ?b = "cu CHR ''/''"
  let ?t = "?b # ?a # c @ ?a # ?b # s"
  have t: "comment_str (Block c) @ s = ?t" and close: "js ''*/'' = [?a, ?b]" by (simp_all add: js_Cons)
  from assms have inner: "\<not> starts_with_at c [?a, ?b] j" for j
    using starts_with_at_bound [of c "[?a, ?b]" j]
    by (auto simp: includes_str_def index_of_None close)
  from assms have hd: "c \<noteq> [] \<Longrightarrow> c ! 0 \<noteq> ?b"
    by (auto simp: starts_with_def js_Cons starts_with_at_one)
  have "index_of ?t [?a, ?b] 0 = Some (Suc (Suc (length c)))"
  proof (rule index_ofI)
    show "starts_with_at ?t [?a, ?b] (Suc (Suc (length c)))"
      by (simp add: starts_with_at_two nth_append)
    fix j assume "j < Suc (Suc (length c))"
    then consider "j = 0" | "j = 1" | k where "j = Suc (Suc k)" "k < length c"
      by (metis One_nat_def Suc_less_eq not0_implies_Suc)
    then show "\<not> starts_with_at ?t [?a, ?b] j"
    proof cases
      case 2
      then show ?thesis using hd by (cases c) (auto simp: starts_with_at_two)
    next
      case 3
      then show ?thesis using inner [of k]
        by (cases "Suc k < length c") (auto simp: starts_with_at_two nth_append)
    qed (simp add: starts_with_at_two)
  qed simp_all
  then show ?thesis unfolding t close by (simp add: rest_after_def)
qed

lemma strip_comment_step:
  assumes "comment_ok cm"
  shows "strip_comments (comment_str cm @ s) = strip_comments (trim_start s)"
proof (cases cm)
  case (LineDash c)
  with assms have "rest_after (comment_str cm @ s) [newline] = trim_start s"
    using rest_after_line [of "js ''--''" c s] by (simp add: js_Cons newline_def cu_def)
  moreover have "starts_with (comment_str cm @ s) (js ''--'')"
    using LineDash by (simp add: starts_with_def js_Cons starts_with_at_two)
  ultimately show ?thesis by (subst strip_comments.simps) simp
next
  case (LineHash c)
  with assms have "rest_after (comment_str cm @ s) [newline] = trim_start s"
    using rest_after_line [of "js ''#''" c s] by (simp add: js_Cons newline_def cu_def)
  moreover have "starts_with (comment_str cm @ s) (js ''#'')" "\<not> starts_with (comment_str cm @ s) (js ''--'')"
    using LineHash by (simp_all add: starts_with_def js_Cons starts_with_at_one starts_with_at_two)
  ultimately show ?thesis by (subst strip_comments.simps) simp
next
  case (Block c)
  have "starts_with (comment_str cm @ s) (js ''/*'')" "\<not> starts_with (comment_str cm @ s) (js ''--'')"
    "\<not> starts_with (comment_str cm @ s) (js ''#'')"
    using Block by (simp_all add: starts_with_def js_Cons starts_with_at_one starts_with_at_two)
  with rest_after_block [of c s] Block assms show ?thesis by (subst strip_comments.simps) simp
qed

lemma comment_first: "\<exists>c r. comment_str cm = c # r \<and> \<not> is_js_space c"
proof -
  have "\<not> is_js_space (cu CHR ''-'')" "\<not> is_js_space (cu CHR ''#'')" "\<not> is_js_space (cu CHR ''/'')"
    by code_simp+
  then show ?thesis by (cases cm) (simp_all add: js_Cons)
qed

lemma comments_first:
  "\<not> is_js_space (hd body) \<Longrightarrow> body \<noteq> [] \<Longrightarrow> \<not> is_js_space (hd (concat (map comment_str cms) @ body))"
  using comment_first by (cases cms) (simp, metis append_Cons concat.simps(2) list.sel(1) list.simps(9))

lemma strip_comments_all:
  assumes "\<forall>cm \<in> set cms. comment_ok cm" and "\<not> is_js_space (hd body)" and "body \<noteq> []"
  shows "strip_comments (concat (map comment_str cms) @ body) = strip_comments body"
  using assms(1)
proof (induction cms)
  case (Cons cm cms)
  have "trim_start (concat (map comment_str cms) @ body) = concat (map comment_str cms) @ body"
    using comments_first [OF assms(2,3)] by (intro trim_start_id) simp
  with Cons strip_comment_step [of cm "concat (map comment_str cms) @ body"] show ?case by simp
qed simp

lemma stripLeadingSqlComments_all:
  assumes "\<forall>cm \<in> set cms. comment_ok cm" and "trim body = body" and "body \<noteq> []"
  shows "stripLeadingSqlComments (concat (map comment_str cms) @ body) = stripLeadingSqlComments body"
proof -
  note b = trim_ends [OF assms(2,3)]
  have "trim (concat (map comment_str cms) @ body) = concat (map comment_str cms) @ body"
    using comments_first [of body cms] b assms(3) by (intro trim_id) simp
  with strip_comments_all [of cms body] assms b show ?thesis by (simp add: stripLeadingSqlComments_def)
qed

section \<open>Properties\<close>

text \<open>C15: Which protections hold: none when the database type has no read-only mode; the explicit
  protections when one is set; else all or none by the old read-only flag. The counts and
  the forced read-only test agree with them.\<close>

theorem connection_protection_correct:
  "(isConnectionProtectionEnabled config key \<longleftrightarrow>
     (case config of
        None \<Rightarrow> False
      | Some c \<Rightarrow> supportsConnectionReadOnlyMode config \<and>
          (if (\<exists>p k. config_protection c = Some p \<and> protection_of p k)
           then protection_of (the (config_protection c)) key else config_readOnly c))) \<and>
   getConnectionProtectionEnabledCount config = card {k. isConnectionProtectionEnabled config k} \<and>
   (hasAnyConnectionProtection config \<longleftrightarrow> (\<exists>k. isConnectionProtectionEnabled config k)) \<and>
   (isConnectionForcedReadOnly config \<longleftrightarrow> (\<forall>k. isConnectionProtectionEnabled config k))"
proof (intro conjI)
  have keys: "set CONNECTION_PROTECTION_KEYS = UNIV" "distinct CONNECTION_PROTECTION_KEYS"
    using protection_key.exhaust by (auto simp: CONNECTION_PROTECTION_KEYS_def)
  have e: "\<not> protection_of EMPTY_CONNECTION_PROTECTION k" "protection_of FULL_CONNECTION_PROTECTION k" for k
    by (cases k; simp add: EMPTY_CONNECTION_PROTECTION_def FULL_CONNECTION_PROTECTION_def)+
  have e': "Ex (protection_of EMPTY_CONNECTION_PROTECTION) \<longleftrightarrow> False" using e(1) by simp
  have ex: "list_ex P CONNECTION_PROTECTION_KEYS \<longleftrightarrow> (\<exists>k. P k)" for P
    by (simp add: list_ex_iff keys)
  show "isConnectionProtectionEnabled config key \<longleftrightarrow>
     (case config of
        None \<Rightarrow> False
      | Some c \<Rightarrow> supportsConnectionReadOnlyMode config \<and>
          (if (\<exists>p k. config_protection c = Some p \<and> protection_of p k)
           then protection_of (the (config_protection c)) key else config_readOnly c))"
    by (simp add: isConnectionProtectionEnabled_def resolveConnectionProtectionConfig_def e e' ex Let_def
        normalizeConnectionProtectionConfig_def split: option.split)
  have "getConnectionProtectionEnabledCount config =
      length (filter (isConnectionProtectionEnabled config) CONNECTION_PROTECTION_KEYS)"
    by (simp add: getConnectionProtectionEnabledCount_def isConnectionProtectionEnabled_def [abs_def])
  also have "\<dots> = card (set (filter (isConnectionProtectionEnabled config) CONNECTION_PROTECTION_KEYS))"
    using keys(2) by (simp add: distinct_card del: set_filter)
  finally show c: "getConnectionProtectionEnabledCount config = card {k. isConnectionProtectionEnabled config k}"
    by (simp add: keys)
  have "finite {k. isConnectionProtectionEnabled config k}"
    using keys(1) by (metis List.finite_set finite_subset top_greatest)
  then show "hasAnyConnectionProtection config \<longleftrightarrow> (\<exists>k. isConnectionProtectionEnabled config k)"
    by (auto simp: hasAnyConnectionProtection_def c card_gt_0_iff)
  show "isConnectionForcedReadOnly config \<longleftrightarrow> (\<forall>k. isConnectionProtectionEnabled config k)"
    by (simp add: isConnectionForcedReadOnly_def deriveLegacyConnectionReadOnlyFlag_def list_all_iff keys
        isConnectionProtectionEnabled_def)
qed

text \<open>C16: Leading comments hide nothing: whatever well-formed comments precede a statement, it is
  judged as the statement alone, and a statement that starts with a word outside the list
  of reading keywords is refused.\<close>

theorem leading_comments_hide_nothing:
  assumes "\<forall>cm \<in> set cms. comment_ok cm" and "trim body = body" and "body \<noteq> []"
  shows "isReadOnlySqlStatement (concat (map comment_str cms) @ body) = isReadOnlySqlStatement body \<and>
    (word_char (hd body) \<and> to_lower (leading_word body) \<notin> set SQL_READ_ONLY_KEYWORDS \<longrightarrow>
       \<not> isReadOnlySqlStatement (concat (map comment_str cms) @ body))"
proof -
  have a: "isReadOnlySqlStatement (concat (map comment_str cms) @ body) = isReadOnlySqlStatement body"
    using stripLeadingSqlComments_all [OF assms] by (simp add: isReadOnlySqlStatement_def)
  have "\<not> isReadOnlySqlStatement body"
    if w: "word_char (hd body)" "to_lower (leading_word body) \<notin> set SQL_READ_ONLY_KEYWORDS"
  proof -
    have "\<not> word_char (cu CHR ''-'')" "\<not> word_char (cu CHR ''#'')" "\<not> word_char (cu CHR ''/'')"
      by code_simp+
    with w(1) assms(3) have n: "\<not> starts_with body (js ''--'')" "\<not> starts_with body (js ''#'')"
      "\<not> starts_with body (js ''/*'')"
      by (auto simp: starts_with_def js_Cons starts_with_at_one starts_with_at_two hd_conv_nth)
    have "strip_comments body = body" using n by (subst strip_comments.simps) simp
    then have s: "stripLeadingSqlComments body = body" using assms(2) by (simp add: stripLeadingSqlComments_def)
    with w(2) assms(3) show ?thesis by (simp add: isReadOnlySqlStatement_def extractLeadingSqlKeyword_def Let_def)
  qed
  with a show ?thesis by blast
qed

theorem leading_comments_hide_nothing_witness:
  "\<not> isReadOnlySqlStatement (js ''/* a */'' @ js ''# b'' @ [newline] @ js ''drop table t'')"
proof -
  have "\<forall>cm \<in> set [Block (js '' a ''), LineHash (js '' b'')]. comment_ok cm" by code_simp
  moreover have "trim (js ''drop table t'') = js ''drop table t''" "js ''drop table t'' \<noteq> []" by code_simp+
  moreover have "word_char (hd (js ''drop table t''))" by code_simp
  moreover have "to_lower (leading_word (js ''drop table t'')) \<notin> set SQL_READ_ONLY_KEYWORDS" by code_simp
  moreover have "concat (map comment_str [Block (js '' a ''), LineHash (js '' b'')]) @ js ''drop table t'' =
      js ''/* a */'' @ js ''# b'' @ [newline] @ js ''drop table t''" by code_simp
  ultimately show ?thesis using leading_comments_hide_nothing by metis
qed

lemma split_script:
  assumes "ss \<noteq> []" and "\<forall>ts \<in> set ss. stmt_ok ts" and "13 \<notin> set (join [cu CHR '';''] (map toks_str ss))"
  shows "map range_text (findSqlStatementRanges (join [cu CHR '';''] (map toks_str ss))) = map toks_str ss"
  using split_statements_join [OF assms(1,2)] normalize_newlines_id [OF assms(3)]
  by (simp add: findSqlStatementRanges_def)

lemma stmt_nonempty: "stmt_ok ts \<Longrightarrow> toks_str ts \<noteq> []"
proof (cases ts)
  case (Cons t us)
  assume "stmt_ok ts"
  with Cons have "tok_ok t" by (cases us) (simp_all add: stmt_ok_def)
  with Cons show ?thesis by (cases t) (simp_all add: toks_str_def)
qed (simp add: stmt_ok_def)

text \<open>Splitting and judging compose: of a script of statements joined with semicolons, a
  connection with restricted scripts reports exactly the statements that are not read-only,
  in their order, whatever separators and comment marks their quoted parts contain; an
  unrestricted connection reports none.\<close>

theorem findConnectionMutatingStatements_join:
  assumes "ss \<noteq> []" and "\<forall>ts \<in> set ss. stmt_ok ts \<and> trim (toks_str ts) = toks_str ts"
    and "13 \<notin> set (join [cu CHR '';''] (map toks_str ss))"
  shows "findConnectionMutatingStatements date_ms ev config (join [cu CHR '';''] (map toks_str ss)) =
    (if isConnectionScriptExecutionRestricted config
     then filter (\<lambda>st. \<not> isConnectionReadOnlyStatement date_ms ev config st) (map toks_str ss) else [])"
proof -
  have "map trim (map toks_str ss) = map toks_str ss" using assms(2) by simp
  moreover have "filter (\<lambda>st. st \<noteq> []) (map toks_str ss) = map toks_str ss"
    using assms(2) stmt_nonempty by (intro filter_True) auto
  moreover have "map (\<lambda>r. trim (range_text r)) (findSqlStatementRanges (join [cu CHR '';''] (map toks_str ss))) =
      map trim (map range_text (findSqlStatementRanges (join [cu CHR '';''] (map toks_str ss))))" by simp
  moreover have "map range_text (findSqlStatementRanges (join [cu CHR '';''] (map toks_str ss))) = map toks_str ss"
    using assms by (intro split_script) auto
  ultimately show ?thesis by (simp only: findConnectionMutatingStatements_def) simp
qed

definition protected_mysql :: "connection_config option" where
  "protected_mysql = Some \<lparr>config_type = js ''mysql'', config_driver = [], config_oceanBaseProtocol = [],
     config_readOnly = True, config_protection = None\<rparr>"

theorem findConnectionMutatingStatements_join_witness:
  "findConnectionMutatingStatements (\<lambda>_. None) Inl protected_mysql
     (join [cu CHR '';''] [js ''select '' @ [squote] @ js ''a;b'' @ [squote], js ''drop t'']) = [js ''drop t'']"
proof -
  let ?ss = "[[Word (js ''select''), Plain (cu CHR '' ''), Quoted squote (js ''a;b'')],
              [Word (js ''drop''), Plain (cu CHR '' ''), Word (js ''t'')]]"
  have t: "map toks_str ?ss = [js ''select '' @ [squote] @ js ''a;b'' @ [squote], js ''drop t'']" by code_simp
  have a: "?ss \<noteq> []" "\<forall>ts \<in> set ?ss. stmt_ok ts \<and> trim (toks_str ts) = toks_str ts"
    "13 \<notin> set (join [cu CHR '';''] (map toks_str ?ss))" by code_simp+
  have r: "isConnectionScriptExecutionRestricted protected_mysql" by code_simp
  have m: "resolveConnectionReadOnlyType protected_mysql \<noteq> js ''mongodb''" by code_simp
  have s: "isReadOnlySqlStatement (js ''select '' @ [squote] @ js ''a;b'' @ [squote])"
    "\<not> isReadOnlySqlStatement (js ''drop t'')" by code_simp+
  show ?thesis
    using findConnectionMutatingStatements_join [OF a, of "\<lambda>_. None" Inl protected_mysql] r m s
    by (simp only: t isConnectionReadOnlyStatement_def) simp
qed

section \<open>Writes of the MongoDB shell\<close>

text \<open>The first name of a command is read back whatever its values are.\<close>

lemma first_key_read:
  assumes "\<forall>c \<in> set k. 0 \<le> c" and "parse_json (stringify (JObj ((k, v) # ms))) = Some j"
  obtains parsed where "j = JObj parsed" and "k \<in> fst ` set parsed"
proof -
  obtain w where s: "stringify (JObj ((k, v) # ms)) = cu CHR ''{'' # quote_json k @ cu CHR '':'' # w"
    by (cases ms) simp_all
  from read_string_quote [OF assms(1)]
  have string_read: "read_string (json_escape k @ dquote # cu CHR '':'' # w) = Some (k, cu CHR '':'' # w)"
    by (simp add: quote_json_def)
  obtain r where "parse_value (Suc (Suc (2 * length (stringify (JObj ((k, v) # ms)))))) (stringify (JObj ((k, v) # ms))) = Some (j, r)"
    using assms(2) unfolding parse_json_def
    by (simp del: stringify.simps parse_value.simps split: option.splits prod.splits if_splits)
  then have p: "(case parse_members (Suc (2 * length (stringify (JObj ((k, v) # ms))))) (quote_json k @ cu CHR '':'' # w) of
      Some (ms, r) \<Rightarrow> Some (JObj (obj_of ms), r) | None \<Rightarrow> None) = Some (j, r)"
    unfolding s by (simp add: quote_json_def)
  then obtain ms' where "j = JObj (obj_of ms')" "k \<in> fst ` set ms'"
    using string_read by (auto simp: quote_json_def simp del: stringify.simps split: option.splits list.splits if_splits)
  then show ?thesis using that by (simp add: obj_of_names)
qed

lemma write_key_refuses:
  assumes "key \<in> set keys" and "trim key = key" and "to_lower key \<in> set MONGO_WRITE_COMMANDS"
    and "to_lower key \<notin> set MONGO_META_KEYS"
  shows "to_lower (resolveMongoCommandKey keys) \<in> set MONGO_WRITE_COMMANDS"
proof -
  let ?keys = "filter (\<lambda>key. to_lower key \<noteq> [] \<and> to_lower key \<notin> set MONGO_META_KEYS) (map trim keys)"
  have "to_lower key \<noteq> []" using assms(3) by (auto simp: MONGO_WRITE_COMMANDS_def js_def)
  with assms(1,2,4) have "key \<in> set ?keys" by force
  with assms(3) obtain found where "find (\<lambda>key. to_lower key \<in> set MONGO_WRITE_COMMANDS) ?keys = Some found"
    by (cases "find (\<lambda>key. to_lower key \<in> set MONGO_WRITE_COMMANDS) ?keys") (auto simp: find_None_iff)
  moreover from this have "to_lower found \<in> set MONGO_WRITE_COMMANDS" by (auto simp: find_Some_iff)
  ultimately show ?thesis by (simp only: resolveMongoCommandKey_def Let_def option.case)
qed

text \<open>The commands the writing methods become.\<close>

definition writing_methods :: "jsstr list" where
  "writing_methods = map js [''insertone'', ''insertmany'', ''insert'', ''replaceone'', ''updateone'', ''updatemany'', ''update'',
     ''deleteone'', ''deletemany'', ''remove'']"

lemma writing_method_command:
  assumes "convert_method parse call args chain = Some (Inr command)" and "callMethod call \<in> set writing_methods"
  shows "\<exists>k v ms. k \<in> set (map js [''insert'', ''update'', ''delete'']) \<and> command = stringify (JObj ((k, v) # ms))"
proof -
  have b: "\<exists>v ms. buildMongoInsertCommand n ds os = stringify (JObj ((js ''insert'', v) # ms))"
    "\<exists>v ms. buildMongoUpdateCommand n q u os m = stringify (JObj ((js ''update'', v) # ms))"
    "\<exists>v ms. buildMongoDeleteCommand n q os l = stringify (JObj ((js ''delete'', v) # ms))" for n ds os q u m l
    by (simp_all only: buildMongoInsertCommand_def insert_command_def buildMongoUpdateCommand_def update_command_def
        buildMongoDeleteCommand_def delete_command_def append.simps) blast+
  consider "convert_insert parse (collection call) (callMethod call) args chain = Inr command"
    | "convert_replace parse (collection call) args chain = Inr command"
    | "convert_update parse (collection call) (callMethod call) args chain = Inr command"
    | "convert_delete parse (collection call) (callMethod call) args chain = Inr command"
    using assms by (auto simp: convert_method_def writing_methods_def js_def Let_def split: if_splits)
  then show ?thesis
  proof cases
    case 1
    then obtain ds os where "command = buildMongoInsertCommand (collection call) ds os"
      by (auto simp: convert_insert_def attempt_Inr Let_def split: list.splits if_splits)
    with b(1) show ?thesis by fastforce
  next
    case 2
    then obtain q u os where "command = buildMongoUpdateCommand (collection call) q u os False"
      by (auto simp: convert_replace_def attempt_Inr Let_def split: list.splits if_splits)
    with b(2) show ?thesis by fastforce
  next
    case 3
    then obtain q u os m where "command = buildMongoUpdateCommand (collection call) q u os m"
      by (auto simp: convert_update_def attempt_Inr Let_def split: list.splits if_splits)
    with b(2) show ?thesis by fastforce
  next
    case 4
    then obtain q os l where "command = buildMongoDeleteCommand (collection call) q os l"
      by (auto simp: convert_delete_def attempt_Inr Let_def split: list.splits if_splits)
    with b(3) show ?thesis by fastforce
  qed
qed

lemma command_refused:
  assumes "k \<in> set (map js [''insert'', ''update'', ''delete''])"
    and "parse_json (stringify (JObj ((k, v) # ms))) = Some (JObj parsed)"
  shows "to_lower (resolveMongoCommandKey (map fst parsed)) \<in> set MONGO_WRITE_COMMANDS"
proof -
  have k: "\<forall>c \<in> set k. 0 \<le> c" "trim k = k" "to_lower k \<in> set MONGO_WRITE_COMMANDS" "to_lower k \<notin> set MONGO_META_KEYS"
  proof -
    have "list_all (\<lambda>k. list_all (\<lambda>c. 0 \<le> c) k \<and> trim k = k \<and> to_lower k \<in> set MONGO_WRITE_COMMANDS \<and>
        to_lower k \<notin> set MONGO_META_KEYS) (map js [''insert'', ''update'', ''delete''])" by code_simp
    with assms(1) show "\<forall>c \<in> set k. 0 \<le> c" "trim k = k" "to_lower k \<in> set MONGO_WRITE_COMMANDS"
      "to_lower k \<notin> set MONGO_META_KEYS" unfolding list_all_iff by blast+
  qed
  obtain parsed' where "JObj parsed = JObj parsed'" "k \<in> fst ` set parsed'"
    by (rule first_key_read [OF k(1) assms(2)])
  then have "k \<in> set (map fst parsed)" by simp
  then show ?thesis using k by (intro write_key_refuses) auto
qed

text \<open>A text that starts as a JSON command is no call of the shell.\<close>

lemma drop_end_brace: "\<not> P (cu CHR ''{'') \<Longrightarrow> \<exists>u. rev (dropWhile P (rev (cu CHR ''{'' # s))) = cu CHR ''{'' # u"
proof -
  assume "\<not> P (cu CHR ''{'')"
  then have "dropWhile P (rev s @ [cu CHR ''{'']) = (if \<forall>c \<in> set s. P c then [] else dropWhile P (rev s)) @ [cu CHR ''{'']"
    by (auto simp: dropWhile_append)
  then show ?thesis by simp
qed

lemma trim_brace: "\<exists>t. trim (cu CHR ''{'' # s) = cu CHR ''{'' # t" "\<exists>t. trim_end (cu CHR ''{'' # s) = cu CHR ''{'' # t"
proof -
  have n: "trim_start (cu CHR ''{'' # s) = cu CHR ''{'' # s" "\<not> is_js_space (cu CHR ''{'')"
    by (simp_all add: trim_start_def is_js_space_def cu_def)
  from drop_end_brace [of is_js_space, OF n(2)]
  show "\<exists>t. trim_end (cu CHR ''{'' # s) = cu CHR ''{'' # t" by (simp only: trim_end_def)
  then show "\<exists>t. trim (cu CHR ''{'' # s) = cu CHR ''{'' # t" by (simp only: trim_def n)
qed

lemma brace_is_no_call:
  assumes "starts_with (trim s) (js ''{'')"
  shows "parseCollectionAndMethod (shell_input (trim s)) = Inr None"
proof -
  obtain t where t: "trim s = cu CHR ''{'' # t"
    using assms by (cases "trim s") (auto simp: starts_with_def starts_with_at_def js_def)
  have "comment_lines (trim s) = trim s"
    by (subst comment_lines.simps) (simp add: t starts_with_def starts_with_at_def js_def)
  then have c: "strip_comment_lines (trim s) = trim s"
    by (simp add: strip_comment_lines_def t is_js_space_def cu_def)
  have "\<exists>u. strip_semicolons (trim s) = cu CHR ''{'' # u"
  proof -
    obtain x where x: "trim_end (trim s) = cu CHR ''{'' # x" using trim_brace(2) [of t] t by auto
    have "\<not> shell_semicolon (cu CHR ''{'')" by (simp add: shell_semicolon_def fullwidth_semicolon_def cu_def)
    from drop_end_brace [of shell_semicolon, OF this] t x show ?thesis by (simp only: strip_semicolons_def Let_def) simp
  qed
  then obtain u where "shell_input (trim s) = cu CHR ''{'' # u" by (auto simp: shell_input_def c)
  with trim_brace(1) [of u] obtain w where "trim (shell_input (trim s)) = cu CHR ''{'' # w" by auto
  then show ?thesis
    by (simp add: parseCollectionAndMethod_def Let_def match_ci_at_def slice_def ascii_fold_def js_def cu_def)
qed

text \<open>C38: On a protected connection the writing calls of the MongoDB shell are refused: a text that the shell's
  parser takes for a call whose method inserts, replaces, updates, deletes or removes never counts as reading,
  whatever its arguments and the calls chained to it are, and however dates and expressions are read.\<close>

theorem shell_writes_refused:
  assumes "resolveConnectionReadOnlyType config = js ''mongodb''"
    and "convertMongoShellShortcutCommand (shell_input (trim statement)) = None"
    and "parseCollectionAndMethod (shell_input (trim statement)) = Inr (Some call)"
    and "callMethod call \<in> set writing_methods"
  shows "\<not> isConnectionReadOnlyStatement date_ms ev config statement"
proof -
  let ?t = "trim statement" and ?P = "parseMongoJSONValue date_ms ev"
  have "\<not> starts_with ?t (js ''{'')" using assms(3) brace_is_no_call [of statement] by auto
  then have m: "normalizeMongoCommandText date_ms ev statement = (if ?t = [] then [] else
      case convertMongoShellToJsonCommand date_ms ev ?t of Command command \<Rightarrow> command | _ \<Rightarrow> [])"
    by (simp add: normalizeMongoCommandText_def)
  have c: "\<exists>k v ms. k \<in> set (map js [''insert'', ''update'', ''delete'']) \<and> command = stringify (JObj ((k, v) # ms))"
    if "convertMongoShellToJsonCommand date_ms ev ?t = Command command" for command
  proof -
    from that obtain chain where
      "convert_method ?P call (splitTopLevelComma (argsText call)) chain = Some (Inr command)"
      using assms(2,3)
      by (auto simp: convertMongoShellToJsonCommand_def attempt_def Let_def split: if_splits sum.splits option.splits)
    then show ?thesis using assms(4) by (rule writing_method_command)
  qed
  have "\<not> isReadOnlyMongoStatement date_ms ev statement"
  proof (cases "convertMongoShellToJsonCommand date_ms ev ?t")
    case (Command command)
    obtain k v ms where k: "k \<in> set (map js [''insert'', ''update'', ''delete''])"
      "command = stringify (JObj ((k, v) # ms))" using c [OF Command] by blast
    show ?thesis
      using command_refused [OF k(1)] by (auto simp: isReadOnlyMongoStatement_def m Command k(2) Let_def
          simp del: stringify.simps split: option.splits json.splits)
  qed (simp_all add: isReadOnlyMongoStatement_def m)
  with assms(1) show ?thesis by (simp add: isConnectionReadOnlyStatement_def)
qed

text \<open>A query stays possible: \<open>find\<close> with a JSON filter counts as reading.\<close>

lemma shell_find_reads:
  assumes "resolveConnectionReadOnlyType config = js ''mongodb''" and "name_ok name" and "arg_ok (JObj q)"
  shows "isConnectionReadOnlyStatement date_ms ev config (json_call name (js ''find'') [JObj q])"
proof -
  let ?cmd = "JObj [(js ''find'', JStr name), (js ''filter'', JObj q)]"
  let ?s = "json_call name (js ''find'') [JObj q]"
  have n: "trim name = name" using assms(2) by (intro trim_no_space) (auto simp: name_ok_def collection_not_space)
  have f: "buildMongoFindCommand (plain_find name q None) = stringify ?cmd"
    by (simp add: buildMongoFindCommand_def find_command_def plain_find_def nonempty_member_def floor_member_def n)
  have "\<forall>c \<in> set name. 0 \<le> c"
    using assms(2) by (auto simp: name_ok_def collection_char_def ascii_letter_def ascii_digit_def cu_def)
  moreover have "json_ok (JObj q)" using assms(3) by (simp add: arg_ok_def)
  moreover have "obj_of [(js ''find'', JStr name), (js ''filter'', JObj q)] = [(js ''find'', JStr name), (js ''filter'', JObj q)]"
    by (simp add: obj_of_def obj_put_def is_index_key_def js_def ascii_digit_def cu_def)
  ultimately have "json_ok ?cmd" by (simp add: js_def cu_def)
  then have p: "parse_json (stringify ?cmd) = Some ?cmd" by (rule parse_stringify)
  have key: "resolveMongoCommandKey [js ''find'', js ''filter''] = js ''find''" by code_simp
  have found: "to_lower (js ''find'') \<in> set MONGO_READ_ONLY_COMMANDS" "to_lower (js ''find'') \<notin> set MONGO_WRITE_COMMANDS"
    "to_lower (js ''find'') \<noteq> []" by code_simp+
  have t: "normalizeMongoCommandText date_ms ev ?s = stringify ?cmd"
  proof -
    have "\<not> starts_with ?s (js ''{'')"
      by (simp add: json_call_def shell_text_def js_def starts_with_def starts_with_at_def cu_def)
    moreover have "trim ?s = ?s" "?s \<noteq> []" by (simp_all only: json_call_def trim_shell_text shell_text_ends(3) not_False_eq_True)
    ultimately show ?thesis
      using find_call_translated [OF assms(2,3), of date_ms ev] unfolding run_json_def f
      by (simp add: normalizeMongoCommandText_def del: stringify.simps)
  qed
  have "stringify ?cmd \<noteq> []" by simp
  with p key found show ?thesis
    by (simp add: isConnectionReadOnlyStatement_def assms(1) isReadOnlyMongoStatement_def t del: stringify.simps)
qed

definition protected_mongodb :: "connection_config option" where
  "protected_mongodb = Some \<lparr>config_type = js ''mongodb'', config_driver = [], config_oceanBaseProtocol = [],
     config_readOnly = True, config_protection = None\<rparr>"

theorem shell_writes_refused_witness:
  "\<not> isConnectionReadOnlyStatement (\<lambda>_. None) Inl protected_mongodb (js '' db.c.deleteMany({}).pretty();'')"
proof -
  let ?s = "js '' db.c.deleteMany({}).pretty();''"
  have "resolveConnectionReadOnlyType protected_mongodb = js ''mongodb''" by code_simp
  moreover have "convertMongoShellShortcutCommand (shell_input (trim ?s)) = None" by code_simp
  moreover have "parseCollectionAndMethod (shell_input (trim ?s)) = Inr (Some
      \<lparr>collection = js ''c'', callMethod = js ''deletemany'', argsText = js ''{}'', tailText = js ''.pretty()''\<rparr>)" by code_simp
  ultimately show ?thesis by (rule shell_writes_refused) (simp add: writing_methods_def)
qed

section \<open>What passes as reading\<close>

text \<open>A block comment that starts with a slash is closed too early, so the code inside the comment
  decides; a comment that MySQL executes counts as empty; \<open>EXPLAIN ANALYZE\<close> runs its
  statement but counts as reading.\<close>

lemma read_only_bypasses:
  "isReadOnlySqlStatement (js ''/*/select*/ delete from t'')"
  "isReadOnlySqlStatement (js ''/*!50000 drop table t */'')"
  "isReadOnlySqlStatement (js ''explain analyze delete from t'')"
  by code_simp+

text \<open>An aggregation that writes its result into a collection counts as reading.\<close>

lemma aggregate_out_reads:
  "isReadOnlyMongoStatement (\<lambda>_. None) Inl (js ''db.c.aggregate([{\"$out\": \"d\"}])'')"
  by code_simp

end
