(* ===== verification/EditorTransaction.thy ===== *)
theory EditorTransaction
  imports JsString
begin

text \<open>
  Managed transactions of the SQL editor: \<open>frontend/src/utils/sqlEditorTransaction.ts\<close>. The scanners
  return a position, \<open>None\<close> for -1 or \<open>null\<close>. The analysis of a \<open>WITH\<close> statement and the
  test for a managed write call each other: the body of a common table expression is a
  shorter text, and every round of the \<open>WITH\<close> loop moves forward.
\<close>

definition SQL_EDITOR_DML_KEYWORDS :: "jsstr list" where
  "SQL_EDITOR_DML_KEYWORDS = map js [''insert'', ''update'', ''delete'', ''replace'', ''merge'', ''upsert'']"

definition SQL_EDITOR_READ_KEYWORDS :: "jsstr list" where
  "SQL_EDITOR_READ_KEYWORDS = map js
     [''select'', ''with'', ''show'', ''describe'', ''desc'', ''explain'', ''pragma'', ''values'']"

definition SQL_EDITOR_TRANSACTION_CONTROL_KEYWORDS :: "jsstr list" where
  "SQL_EDITOR_TRANSACTION_CONTROL_KEYWORDS = map js
     [''begin'', ''commit'', ''rollback'', ''savepoint'', ''release'']"

section \<open>Scanners\<close>

definition trivia_body :: "jsstr \<Rightarrow> nat \<Rightarrow> unit \<Rightarrow> nat + nat \<times> unit" where
  "trivia_body s i u =
     (if is_js_space (s ! i) then Inr (i + 1, u)
      else if starts_with_at s (js ''--'') i \<or> starts_with_at s (js ''#'') i then
        (case index_of s [newline] i of None \<Rightarrow> Inl (length s) | Some n \<Rightarrow> Inr (n + 1, u))
      else if starts_with_at s (js ''/*'') i then
        (case index_of s (js ''*/'') (i + 2) of None \<Rightarrow> Inl (length s) | Some n \<Rightarrow> Inr (n + 2, u))
      else Inl i)"

definition returned :: "nat + nat \<times> 'a \<Rightarrow> nat" where
  "returned r = (case r of Inl i \<Rightarrow> i | Inr p \<Rightarrow> fst p)"

definition skipSqlEditorTrivia :: "jsstr \<Rightarrow> nat \<Rightarrow> nat" where
  "skipSqlEditorTrivia s start = returned (loop_ret (length s) (trivia_body s) start ())"

definition word_stop :: "jsstr \<Rightarrow> nat \<Rightarrow> nat" where
  "word_stop s i = advance (\<lambda>k. word_char (s ! k)) (length s) i"

definition readSqlEditorKeyword :: "jsstr \<Rightarrow> nat \<Rightarrow> jsstr \<times> nat" where
  "readSqlEditorKeyword s start =
     (let pos = skipSqlEditorTrivia s start in
      if \<not> word_at s pos then ([], pos)
      else (let stop = word_stop s (pos + 1) in (to_lower (slice s pos stop), stop)))"

definition delimited_body :: "jsstr \<Rightarrow> jschar \<Rightarrow> nat \<Rightarrow> unit \<Rightarrow> nat + nat \<times> unit" where
  "delimited_body s d i u =
     (if s ! i = d then (if at s (i + 1) = Some d then Inr (i + 2, u) else Inl (i + 1)) else Inr (i + 1, u))"

definition skipSqlEditorDelimited :: "jsstr \<Rightarrow> nat \<Rightarrow> jschar \<Rightarrow> nat" where
  "skipSqlEditorDelimited s start d =
     (case loop_ret (length s) (delimited_body s d) (start + 1) () of Inl i \<Rightarrow> i | Inr _ \<Rightarrow> length s)"

definition resolveSqlEditorDollarQuoteTag :: "jsstr \<Rightarrow> nat \<Rightarrow> jsstr" where
  "resolveSqlEditorDollarQuoteTag s start =
     (if at s start \<noteq> Some (cu CHR ''$'') then []
      else (let stop = word_stop s (start + 1) in
            if at s stop = Some (cu CHR ''$'') then slice s start (stop + 1) else []))"

text \<open>\<open>const end = text.indexOf(p, from); end < 0 ? text.length : end + p.length\<close>.\<close>

definition after_or_end :: "jsstr \<Rightarrow> jsstr \<Rightarrow> nat \<Rightarrow> nat" where
  "after_or_end s p from = (case index_of s p from of None \<Rightarrow> length s | Some n \<Rightarrow> n + length p)"

definition skipSqlEditorQuotedOrComment :: "jsstr \<Rightarrow> nat \<Rightarrow> nat option" where
  "skipSqlEditorQuotedOrComment s start =
     (if starts_with_at s (js ''--'') start \<or> starts_with_at s (js ''#'') start
      then Some (after_or_end s [newline] start)
      else if starts_with_at s (js ''/*'') start then Some (after_or_end s (js ''*/'') (start + 2))
      else if at s start \<in> {Some squote, Some dquote, Some backtick}
        then Some (skipSqlEditorDelimited s start (the (at s start)))
      else if at s start = Some (cu CHR ''['') then Some (after_or_end s (js '']'') (start + 1))
      else (let tag = resolveSqlEditorDollarQuoteTag s start in
            if tag \<noteq> [] then Some (after_or_end s tag (start + length tag)) else None))"

definition parens_body :: "jsstr \<Rightarrow> nat \<Rightarrow> int \<Rightarrow> nat + nat \<times> int" where
  "parens_body s i depth =
     (case skipSqlEditorQuotedOrComment s i of
        Some j \<Rightarrow> Inr (j, depth)
      | None \<Rightarrow>
          if s ! i = cu CHR ''('' then Inr (i + 1, depth + 1)
          else if s ! i = cu CHR '')'' then (if depth - 1 = 0 then Inl (i + 1) else Inr (i + 1, depth - 1))
          else Inr (i + 1, depth))"

definition skipBalancedSqlEditorParens :: "jsstr \<Rightarrow> nat \<Rightarrow> nat option" where
  "skipBalancedSqlEditorParens s start =
     (if at s start \<noteq> Some (cu CHR ''('') then None
      else (case loop_ret (length s) (parens_body s) start 0 of Inl i \<Rightarrow> Some i | Inr _ \<Rightarrow> None))"

definition skipSqlEditorIdentifierToken :: "jsstr \<Rightarrow> nat \<Rightarrow> nat option" where
  "skipSqlEditorIdentifierToken s start =
     (if length s \<le> start then None
      else (let c = s ! start in
            if c = dquote \<or> c = backtick then Some (skipSqlEditorDelimited s start c)
            else if c = cu CHR ''['' then Some (after_or_end s (js '']'') (start + 1))
            else if \<not> word_char c then None
            else Some (word_stop s (start + 1))))"

definition top_keyword_body :: "jsstr \<Rightarrow> jsstr \<Rightarrow> nat \<Rightarrow> nat \<Rightarrow> nat + nat \<times> nat" where
  "top_keyword_body s keyword i depth =
     (case skipSqlEditorQuotedOrComment s i of
        Some j \<Rightarrow> Inr (j, depth)
      | None \<Rightarrow>
          if s ! i = cu CHR ''('' then Inr (i + 1, depth + 1)
          else if s ! i = cu CHR '')'' then Inr (i + 1, if 0 < depth then depth - 1 else depth)
          else if depth = 0 \<and> word_char (s ! i) then
            (let stop = word_stop s (i + 1) in
             if to_lower (slice s i stop) = keyword then Inl stop else Inr (stop, depth))
          else Inr (i + 1, depth))"

definition findTopLevelSqlEditorKeyword :: "jsstr \<Rightarrow> nat \<Rightarrow> jsstr \<Rightarrow> nat option" where
  "findTopLevelSqlEditorKeyword s start keyword =
     (case loop_ret (length s) (top_keyword_body s keyword) start 0 of Inl i \<Rightarrow> Some i | Inr _ \<Rightarrow> None)"

section \<open>Common table expressions\<close>

text \<open>One round of the loop: \<open>name [(columns)] AS [[NOT] MATERIALIZED] (body)\<close>. The result is where
  the body starts and where the closing parenthesis ends, \<open>None\<close> when the text does not fit.\<close>

definition after_columns :: "jsstr \<Rightarrow> nat \<Rightarrow> nat option" where
  "after_columns s pos =
     (if at s pos = Some (cu CHR ''('')
      then map_option (skipSqlEditorTrivia s) (skipBalancedSqlEditorParens s pos) else Some pos)"

definition after_materialized :: "jsstr \<Rightarrow> nat \<Rightarrow> nat" where
  "after_materialized s pos =
     (let (keyword, stop) = readSqlEditorKeyword s pos in
      if keyword = js ''not'' then
        (let (keyword', stop') = readSqlEditorKeyword s stop in
         if keyword' = js ''materialized'' then stop' else pos)
      else if keyword = js ''materialized'' then stop else pos)"

definition parse_cte :: "jsstr \<Rightarrow> nat \<Rightarrow> (nat \<times> nat) option" where
  "parse_cte s pos0 =
     (case skipSqlEditorIdentifierToken s (skipSqlEditorTrivia s pos0) of
        None \<Rightarrow> None
      | Some identifierEnd \<Rightarrow>
          (case after_columns s (skipSqlEditorTrivia s identifierEnd) of
             None \<Rightarrow> None
           | Some pos \<Rightarrow>
               (case findTopLevelSqlEditorKeyword s pos (js ''as'') of
                  None \<Rightarrow> None
                | Some asEnd \<Rightarrow>
                    (let open = skipSqlEditorTrivia s (after_materialized s (skipSqlEditorTrivia s asEnd)) in
                     map_option (\<lambda>cteEnd. (open + 1, cteEnd)) (skipBalancedSqlEditorParens s open)))))"

definition with_start :: "jsstr \<Rightarrow> nat \<Rightarrow> nat" where
  "with_start s start =
     (let pos = skipSqlEditorTrivia s start; (keyword, stop) = readSqlEditorKeyword s pos in
      if keyword = js ''recursive'' then stop else pos)"

section \<open>Every scanner moves forward\<close>

lemma after_or_end_gt [scan_bounds]: "p \<noteq> [] \<Longrightarrow> start \<le> from \<Longrightarrow> start < length s \<Longrightarrow> start < after_or_end s p from"
  using index_of_Some(1) [of s p "from"]
  by (cases "index_of s p from") (simp_all add: after_or_end_def trans_less_add1 flip: length_greater_0_conv)

lemma after_or_end_le [scan_bounds, simp]: "after_or_end s p from \<le> length s"
  using index_of_Some(3) [of s p "from"] by (auto simp: after_or_end_def split: option.split)

lemma word_stop_ge [scan_bounds, simp]: "i \<le> word_stop s i"
  by (simp add: word_stop_def)

lemma word_stop_Suc [simp]: "i < word_stop s (Suc i)"
  using word_stop_ge [of "Suc i" s] by (simp add: Suc_le_eq del: word_stop_ge)

lemma word_stop_le [scan_bounds]: "i \<le> length s \<Longrightarrow> word_stop s i \<le> length s"
  by (simp add: word_stop_def advance_le)

lemma trivia_body_advances: "i < length s \<Longrightarrow> trivia_body s i u = Inr p \<Longrightarrow> i < fst p \<and> fst p \<le> length s"
  using index_of_Some [of s "[newline]" i] index_of_Some [of s "js ''*/''" "i + 2"]
  by (fastforce simp: trivia_body_def split: if_splits option.splits)

interpretation trivia: advancing_ret "length s" "trivia_body s" "\<lambda>_. True" for s
  by unfold_locales (auto dest: trivia_body_advances)

lemma skipTrivia_bounds:
  assumes "start \<le> length s"
  shows "start \<le> skipSqlEditorTrivia s start \<and> skipSqlEditorTrivia s start \<le> length s"
proof -
  have "case loop_ret (length s) (trivia_body s) start () of
      Inl r \<Rightarrow> start \<le> r \<and> r \<le> length s
    | Inr p \<Rightarrow> (start \<le> fst p \<and> fst p \<le> length s) \<and> True \<and> length s \<le> fst p"
  proof (rule trivia.loop_ret_induct)
    fix i u r assume "i < length s" "start \<le> i \<and> i \<le> length s" "trivia_body s i u = Inl r"
    then show "start \<le> r \<and> r \<le> length s" by (auto simp: trivia_body_def split: if_splits option.splits)
  next
    fix i u p assume "i < length s" "start \<le> i \<and> i \<le> length s" "trivia_body s i u = Inr p"
    with trivia_body_advances [of i s u p] show "start \<le> fst p \<and> fst p \<le> length s" by simp
  qed (use assms in simp_all)
  then show ?thesis
    by (cases "loop_ret (length s) (trivia_body s) start ()") (simp_all add: skipSqlEditorTrivia_def returned_def)
qed

lemma skipTrivia_ge: "start \<le> skipSqlEditorTrivia s start"
proof (cases "start \<le> length s")
  case False
  then show ?thesis by (simp add: skipSqlEditorTrivia_def loop_ret.simps returned_def)
qed (simp add: skipTrivia_bounds)

lemma skipTrivia_le: "start \<le> length s \<Longrightarrow> skipSqlEditorTrivia s start \<le> length s"
  by (simp add: skipTrivia_bounds)

lemma readKeyword_bounds:
  "start \<le> snd (readSqlEditorKeyword s start)"
  "start \<le> length s \<Longrightarrow> snd (readSqlEditorKeyword s start) \<le> length s"
proof -
  have "skipSqlEditorTrivia s start < length s" if "word_at s (skipSqlEditorTrivia s start)"
    using that by (auto simp: word_at_def at_def split: if_splits)
  then show "start \<le> snd (readSqlEditorKeyword s start)"
    "start \<le> length s \<Longrightarrow> snd (readSqlEditorKeyword s start) \<le> length s"
    using skipTrivia_ge [of start s] skipTrivia_le [of start s]
      word_stop_Suc [of "skipSqlEditorTrivia s start" s] word_stop_le [of "skipSqlEditorTrivia s start + 1" s]
    by (auto simp: readSqlEditorKeyword_def Let_def simp del: word_stop_Suc)
qed

lemma skipDelimited_bounds:
  assumes "start < length s"
  shows "start < skipSqlEditorDelimited s start d \<and> skipSqlEditorDelimited s start d \<le> length s"
proof -
  have "case loop_ret (length s) (delimited_body s d) (start + 1) () of
      Inl r \<Rightarrow> start < r \<and> r \<le> length s
    | Inr p \<Rightarrow> start < fst p \<and> length s \<le> fst p"
    by (rule loop_ret_invariant) (auto simp: delimited_body_def split: if_splits)
  with assms show ?thesis by (auto simp: skipSqlEditorDelimited_def split: sum.splits)
qed

lemma dollar_tag_length: "start + length (resolveSqlEditorDollarQuoteTag s start) \<le> max start (length s)"
  by (auto simp: resolveSqlEditorDollarQuoteTag_def Let_def at_def split: if_splits)

lemma skipQuoted_bounds:
  assumes "skipSqlEditorQuotedOrComment s start = Some j" and "start < length s"
  shows "start < j \<and> j \<le> length s"
  using assms after_or_end_gt [of _ start _ s] skipDelimited_bounds [OF assms(2)]
  by (auto simp: skipSqlEditorQuotedOrComment_def Let_def split: if_splits)

lemma skipBalanced_bounds:
  assumes "skipBalancedSqlEditorParens s start = Some j"
  shows "start + 1 < j \<and> j \<le> length s"
proof -
  from assms have st: "at s start = Some (cu CHR ''('')"
    and l: "loop_ret (length s) (parens_body s) start 0 = Inl j"
    by (auto simp: skipBalancedSqlEditorParens_def split: if_splits sum.splits)
  have "case loop_ret (length s) (parens_body s) start 0 of
      Inl r \<Rightarrow> start + 1 < r \<and> r \<le> length s
    | Inr p \<Rightarrow> ((start = fst p \<and> snd p = 0) \<or> start < fst p) \<and> length s \<le> fst p"
  proof (rule loop_ret_invariant [where I = "\<lambda>i d. (start = i \<and> d = 0) \<or> start < i"])
    fix i :: nat and d r assume "i < length s" "(start = i \<and> d = 0) \<or> start < i" "parens_body s i d = Inl r"
    with st show "start + 1 < r \<and> r \<le> length s"
      by (auto simp: parens_body_def at_Some_iff split: option.splits if_splits)
  next
    fix i :: nat and d p assume "i < length s" "(start = i \<and> d = 0) \<or> start < i" "parens_body s i d = Inr p"
    then show "(start = max (Suc i) (fst p) \<and> snd p = 0) \<or> start < max (Suc i) (fst p)" by auto
  qed simp
  with l show ?thesis by simp
qed

lemma skipIdentifier_bounds:
  "skipSqlEditorIdentifierToken s start = Some j \<Longrightarrow> start < j \<and> j \<le> length s"
  using skipDelimited_bounds [of start s] after_or_end_gt [of "js '']''" start "start + 1" s]
    word_stop_le [of "start + 1" s]
  by (auto simp: skipSqlEditorIdentifierToken_def Let_def split: if_splits)

lemma findTopLevel_bounds:
  assumes "findTopLevelSqlEditorKeyword s start keyword = Some j"
  shows "start < j \<and> j \<le> length s"
proof -
  have "case loop_ret (length s) (top_keyword_body s keyword) start 0 of
      Inl r \<Rightarrow> start < r \<and> r \<le> length s
    | Inr p \<Rightarrow> start \<le> fst p \<and> length s \<le> fst p"
  proof (rule loop_ret_invariant [where I = "\<lambda>i d. start \<le> i"])
    fix i d r assume "i < length s" "start \<le> i" "top_keyword_body s keyword i d = Inl r"
    then show "start < r \<and> r \<le> length s"
      using word_stop_Suc [of i s] word_stop_le [of "i + 1" s]
      by (auto simp: top_keyword_body_def Let_def simp del: word_stop_Suc split: option.splits if_splits)
  qed (auto split: option.splits)
  with assms show ?thesis by (auto simp: findTopLevelSqlEditorKeyword_def split: sum.splits)
qed

text \<open>A round of the \<open>WITH\<close> loop consumes text, and the body is a proper part of it.\<close>

lemma parse_cte_bounds:
  assumes "parse_cte s pos = Some (b, e)"
  shows "pos < b \<and> b < e \<and> e \<le> length s"
proof -
  from assms obtain i p a where i: "skipSqlEditorIdentifierToken s (skipSqlEditorTrivia s pos) = Some i"
    and p: "after_columns s (skipSqlEditorTrivia s i) = Some p"
    and a: "findTopLevelSqlEditorKeyword s p (js ''as'') = Some a"
    and o: "b = skipSqlEditorTrivia s (after_materialized s (skipSqlEditorTrivia s a)) + 1"
      "skipBalancedSqlEditorParens s (skipSqlEditorTrivia s (after_materialized s (skipSqlEditorTrivia s a))) = Some e"
    by (auto simp: parse_cte_def Let_def split: option.splits)
  have "pos < i" using skipIdentifier_bounds [OF i] skipTrivia_ge [of pos s] by linarith
  also have "i \<le> p"
    using p skipTrivia_ge [of i s] skipBalanced_bounds [of s "skipSqlEditorTrivia s i"]
    by (auto simp: after_columns_def split: if_splits intro: order_trans [OF _ skipTrivia_ge])
  also have "p < a" using findTopLevel_bounds [OF a] by simp
  also have "a \<le> after_materialized s (skipSqlEditorTrivia s a)"
    using skipTrivia_ge [of a s] readKeyword_bounds(1) [of "skipSqlEditorTrivia s a" s]
      readKeyword_bounds(1) [of "snd (readSqlEditorKeyword s (skipSqlEditorTrivia s a))" s]
    by (auto simp: after_materialized_def split: prod.splits)
  also have "\<dots> < b" using skipTrivia_ge o(1) by (simp add: le_imp_less_Suc)
  finally show ?thesis using skipBalanced_bounds [OF o(2)] o(1) by simp
qed

section \<open>Managed writes\<close>

function (sequential) sqlEditorStatementHasManagedWrite :: "jsstr \<Rightarrow> bool"
  and with_loop :: "jsstr \<Rightarrow> nat \<Rightarrow> bool \<Rightarrow> jsstr \<times> bool" where
  "sqlEditorStatementHasManagedWrite s =
     (let (keyword, stop) = readSqlEditorKeyword s 0 in
      if keyword = js ''with'' then
        (let (operation, cteHasManagedWrite) = with_loop s (with_start s stop) False in
         cteHasManagedWrite \<or> operation \<in> set SQL_EDITOR_DML_KEYWORDS)
      else keyword \<in> set SQL_EDITOR_DML_KEYWORDS)"
| "with_loop s pos write =
     (if pos < length s then
        (case parse_cte s pos of
           None \<Rightarrow> ([], write)
         | Some (bodyStart, cteEnd) \<Rightarrow>
             (let write' = (if sqlEditorStatementHasManagedWrite (slice s bodyStart (max bodyStart (cteEnd - 1)))
                            then True else write);
                  next_pos = skipSqlEditorTrivia s cteEnd
              in if at s next_pos = Some (cu CHR '','') then with_loop s (next_pos + 1) write'
                 else (fst (readSqlEditorKeyword s next_pos), write')))
      else ([], write))"
  by pat_completeness auto
termination
proof (relation "inv_image (less_than <*lex*> less_than <*lex*> less_than)
    (\<lambda>x. case x of Inl s \<Rightarrow> (length s, 1, 0) | Inr (s, pos, write) \<Rightarrow> (length s, 0, length s - pos))")
  show "wf (inv_image (less_than <*lex*> less_than <*lex*> less_than)
    (\<lambda>x. case x of Inl s \<Rightarrow> (length s, 1::nat, 0::nat) | Inr (s, pos, write) \<Rightarrow> (length s, 0, length s - pos)))"
    by (rule wf_inv_image) (intro wf_lex_prod wf_less_than)
next
  fix s pos wr p b e assume "pos < length s" "parse_cte s pos = Some p" "(b, e) = p"
  then show "(Inl (slice s b (max b (e - 1))), Inr (s, pos, wr)) \<in>
      inv_image (less_than <*lex*> less_than <*lex*> less_than)
    (\<lambda>x. case x of Inl s \<Rightarrow> (length s, 1, 0) | Inr (s, pos, write) \<Rightarrow> (length s, 0, length s - pos))"
    using parse_cte_bounds [of s pos b e] by auto
next
  fix s pos wr p b e w n assume "pos < length s" "parse_cte s pos = Some p" "(b, e) = p"
    "n = skipSqlEditorTrivia s e"
  then show "(Inr (s, n + 1, w), Inr (s, pos, wr)) \<in> inv_image (less_than <*lex*> less_than <*lex*> less_than)
    (\<lambda>x. case x of Inl s \<Rightarrow> (length s, 1, 0) | Inr (s, pos, write) \<Rightarrow> (length s, 0, length s - pos))"
    using parse_cte_bounds [of s pos b e] skipTrivia_ge [of e s] by auto
qed auto

declare sqlEditorStatementHasManagedWrite.simps [simp del] with_loop.simps [simp del]

definition resolveSqlEditorWithAnalysis :: "jsstr \<Rightarrow> nat \<Rightarrow> jsstr \<times> bool" where
  "resolveSqlEditorWithAnalysis s start = with_loop s (with_start s start) False"

definition resolveSqlEditorOperationKeyword :: "jsstr \<Rightarrow> jsstr" where
  "resolveSqlEditorOperationKeyword s =
     (let (keyword, stop) = readSqlEditorKeyword s 0 in
      if keyword \<noteq> js ''with'' then keyword
      else (let operation = fst (resolveSqlEditorWithAnalysis s stop) in
            if operation = [] then keyword else operation))"

definition isSqlEditorTransactionControlStatement :: "jsstr \<Rightarrow> bool" where
  "isSqlEditorTransactionControlStatement s =
     (let keyword = fst (readSqlEditorKeyword s 0) in
      if keyword \<in> set SQL_EDITOR_TRANSACTION_CONTROL_KEYWORDS then True
      else keyword = js ''start'' \<and> contains_word_ci s (js ''transaction''))"

section \<open>Decisions\<close>

text \<open>The loops over the statements; \<open>False\<close> at the first statement that does not fit.\<close>

fun managed_loop :: "jsstr list \<Rightarrow> bool \<Rightarrow> bool" where
  "managed_loop [] hasManagedWrite = hasManagedWrite"
| "managed_loop (statement # statements) hasManagedWrite =
     (let trimmed = trim statement in
      if trimmed = [] then managed_loop statements hasManagedWrite
      else if isSqlEditorTransactionControlStatement trimmed then False
      else if sqlEditorStatementHasManagedWrite trimmed then managed_loop statements True
      else if resolveSqlEditorOperationKeyword trimmed \<in> set SQL_EDITOR_READ_KEYWORDS
        then managed_loop statements hasManagedWrite
      else False)"

definition shouldUseSqlEditorManagedTransactionForType :: "jsstr \<Rightarrow> jsstr list \<Rightarrow> bool" where
  "shouldUseSqlEditorManagedTransactionForType db_type statements =
     (if to_lower (trim db_type) = js ''trino'' then False else managed_loop statements False)"

definition shouldUseSqlEditorManagedTransaction :: "jsstr list \<Rightarrow> bool" where
  "shouldUseSqlEditorManagedTransaction statements = shouldUseSqlEditorManagedTransactionForType [] statements"

fun reuse_loop :: "jsstr list \<Rightarrow> bool \<Rightarrow> bool" where
  "reuse_loop [] hasReadStatement = hasReadStatement"
| "reuse_loop (statement # statements) hasReadStatement =
     (let trimmed = trim statement in
      if trimmed = [] then reuse_loop statements hasReadStatement
      else if isSqlEditorTransactionControlStatement trimmed then False
      else if sqlEditorStatementHasManagedWrite trimmed then False
      else if resolveSqlEditorOperationKeyword trimmed \<notin> set SQL_EDITOR_READ_KEYWORDS then False
      else reuse_loop statements True)"

definition canReusePendingSqlEditorTransactionForType :: "jsstr \<Rightarrow> jsstr list \<Rightarrow> bool" where
  "canReusePendingSqlEditorTransactionForType db_type statements =
     (if to_lower (trim db_type) = js ''trino'' then False else reuse_loop statements False)"

definition canReusePendingSqlEditorTransaction :: "jsstr list \<Rightarrow> bool" where
  "canReusePendingSqlEditorTransaction statements = canReusePendingSqlEditorTransactionForType [] statements"

section \<open>Specification of the decisions\<close>

text \<open>What a statement does to the transaction of the editor.\<close>

datatype statement_role = Blank | ControlsTransaction | ManagedWrite | Reads | Other

definition role_of :: "jsstr \<Rightarrow> statement_role" where
  "role_of statement =
     (let trimmed = trim statement in
      if trimmed = [] then Blank
      else if isSqlEditorTransactionControlStatement trimmed then ControlsTransaction
      else if sqlEditorStatementHasManagedWrite trimmed then ManagedWrite
      else if resolveSqlEditorOperationKeyword trimmed \<in> set SQL_EDITOR_READ_KEYWORDS then Reads
      else Other)"

definition opens_spec :: "statement_role set \<Rightarrow> bool" where
  "opens_spec roles \<longleftrightarrow> ManagedWrite \<in> roles \<and> roles \<subseteq> {Blank, ManagedWrite, Reads}"

definition reuses_spec :: "statement_role set \<Rightarrow> bool" where
  "reuses_spec roles \<longleftrightarrow> Reads \<in> roles \<and> roles \<subseteq> {Blank, Reads}"

lemma managed_loop_step: "managed_loop (st # sts) w =
    (case role_of st of
       Blank \<Rightarrow> managed_loop sts w | ControlsTransaction \<Rightarrow> False | ManagedWrite \<Rightarrow> managed_loop sts True
     | Reads \<Rightarrow> managed_loop sts w | Other \<Rightarrow> False)"
  by (simp add: role_of_def Let_def)

lemma reuse_loop_step: "reuse_loop (st # sts) w =
    (case role_of st of
       Blank \<Rightarrow> reuse_loop sts w | ControlsTransaction \<Rightarrow> False | ManagedWrite \<Rightarrow> False
     | Reads \<Rightarrow> reuse_loop sts True | Other \<Rightarrow> False)"
  by (simp add: role_of_def Let_def)

lemma managed_loop_roles:
  "managed_loop statements w \<longleftrightarrow>
     (w \<or> ManagedWrite \<in> role_of ` set statements) \<and> role_of ` set statements \<subseteq> {Blank, ManagedWrite, Reads}"
proof (induction statements arbitrary: w)
  case (Cons st sts)
  show ?case unfolding managed_loop_step by (cases "role_of st") (simp_all add: Cons.IH)
qed simp

lemma reuse_loop_roles:
  "reuse_loop statements w \<longleftrightarrow>
     (w \<or> Reads \<in> role_of ` set statements) \<and> role_of ` set statements \<subseteq> {Blank, Reads}"
proof (induction statements arbitrary: w)
  case (Cons st sts)
  show ?case unfolding reuse_loop_step by (cases "role_of st") (simp_all add: Cons.IH)
qed simp

section \<open>A managed write names a writing keyword\<close>

text \<open>\<open>w\<close> occurs in \<open>s\<close>, whatever its case.\<close>

definition occurs_ci :: "jsstr \<Rightarrow> jsstr \<Rightarrow> bool" where
  "occurs_ci w s \<longleftrightarrow> (\<exists>i j. to_lower (slice s i j) = w)"

lemma slice_slice: "slice (slice s a b) i j = slice s (a + i) (min b (a + j))"
  unfolding slice_def drop_take take_take drop_drop
  by (rule arg_cong2 [of _ _ _ _ take]) (auto simp: min_def add.commute)

lemma occurs_ciI: "to_lower (slice s i j) = w \<Longrightarrow> occurs_ci w s"
  unfolding occurs_ci_def by blast

lemma occurs_ci_slice: "occurs_ci w (slice s a b) \<Longrightarrow> occurs_ci w s"
  unfolding occurs_ci_def slice_slice by blast

lemma occurs_ci_Nil: "occurs_ci [] s"
  by (rule occurs_ciI [of s 0 0]) simp

lemma readKeyword_occurs: "occurs_ci (fst (readSqlEditorKeyword s start)) s"
  by (auto simp: readSqlEditorKeyword_def Let_def occurs_ci_Nil intro: occurs_ciI)

definition names_write :: "jsstr \<Rightarrow> bool" where
  "names_write s \<longleftrightarrow> (\<exists>w \<in> set SQL_EDITOR_DML_KEYWORDS. occurs_ci w s)"

lemma managed_write_names:
  "sqlEditorStatementHasManagedWrite s \<Longrightarrow> names_write s"
  "occurs_ci (fst (with_loop s pos wr)) s \<and> (snd (with_loop s pos wr) \<longrightarrow> wr \<or> names_write s)"
proof (induction s and s pos wr rule: sqlEditorStatementHasManagedWrite_with_loop.induct)
  case (1 s)
  obtain k stop where r: "readSqlEditorKeyword s 0 = (k, stop)" by fastforce
  have k: "occurs_ci k s" using readKeyword_occurs [of s 0] r by simp
  show ?case
  proof (cases "k = js ''with''")
    case True
    from "1.IH" [OF r [symmetric] refl True] "1.prems" r True show ?thesis
      by (auto simp: sqlEditorStatementHasManagedWrite.simps [of s] names_write_def split: prod.splits)
  next
    case False
    with r k "1.prems" show ?thesis
      by (auto simp: sqlEditorStatementHasManagedWrite.simps [of s] names_write_def)
  qed
next
  case (2 s pos wr)
  show ?case
  proof (cases "pos < length s")
    case False
    then show ?thesis by (simp add: with_loop.simps [of s pos] occurs_ci_Nil)
  next
    case pos: True
    show ?thesis
    proof (cases "parse_cte s pos")
      case None
      with pos show ?thesis by (simp add: with_loop.simps [of s pos] occurs_ci_Nil)
    next
      case (Some p)
      obtain b e where p: "p = (b, e)" by fastforce
      let ?body = "slice s b (max b (e - 1))"
      let ?w = "if sqlEditorStatementHasManagedWrite ?body then True else wr"
      let ?n = "skipSqlEditorTrivia s e"
      have body: "names_write s" if "sqlEditorStatementHasManagedWrite ?body"
        using "2.IH"(1) [OF pos Some p [symmetric] that] unfolding names_write_def
        by (auto dest: occurs_ci_slice)
      have eq: "with_loop s pos wr = (if at s ?n = Some (cu CHR '','') then with_loop s (?n + 1) ?w
          else (fst (readSqlEditorKeyword s ?n), ?w))"
        using pos Some p by (simp add: with_loop.simps [of s pos] Let_def)
      show ?thesis
      proof (cases "at s ?n = Some (cu CHR '','')")
        case True
        from "2.IH"(2) [OF pos Some p [symmetric] refl refl True] eq True body show ?thesis by auto
      next
        case False
        with eq body readKeyword_occurs show ?thesis by auto
      qed
    qed
  qed
qed

section \<open>Properties\<close>

text \<open>C17: The decisions of the editor are those of a specification that only looks at the set of roles
  the statements have: a managed transaction is opened when some statement is a managed
  write and the others read or are blank; a pending one is reused when some statement reads
  and the others are blank; Trino has neither. The two never hold together.\<close>

theorem transaction_decisions_correct:
  "(shouldUseSqlEditorManagedTransactionForType db_type statements \<longleftrightarrow>
      to_lower (trim db_type) \<noteq> js ''trino'' \<and> opens_spec (role_of ` set statements)) \<and>
   (canReusePendingSqlEditorTransactionForType db_type statements \<longleftrightarrow>
      to_lower (trim db_type) \<noteq> js ''trino'' \<and> reuses_spec (role_of ` set statements)) \<and>
   \<not> (shouldUseSqlEditorManagedTransactionForType db_type statements \<and>
      canReusePendingSqlEditorTransactionForType db_type statements)"
proof -
  have "\<not> (opens_spec R \<and> reuses_spec R)" for R by (auto simp: opens_spec_def reuses_spec_def)
  then show ?thesis
    by (simp add: shouldUseSqlEditorManagedTransactionForType_def canReusePendingSqlEditorTransactionForType_def
        managed_loop_roles reuse_loop_roles opens_spec_def [symmetric] reuses_spec_def [symmetric])
qed

text \<open>No transaction without a write: when a managed transaction is opened, one of the statements
  contains one of the writing keywords, at whatever depth of nested common table
  expressions it was found.\<close>

theorem managed_transaction_has_write:
  assumes "shouldUseSqlEditorManagedTransactionForType db_type statements"
  shows "\<exists>st \<in> set statements. \<exists>w \<in> set SQL_EDITOR_DML_KEYWORDS. \<exists>i j. to_lower (slice (trim st) i j) = w"
proof -
  have "ManagedWrite \<in> role_of ` set statements"
    using assms by (auto simp: shouldUseSqlEditorManagedTransactionForType_def managed_loop_roles split: if_splits)
  then obtain st where "st \<in> set statements" "role_of st = ManagedWrite" by force
  then have "sqlEditorStatementHasManagedWrite (trim st)" by (auto simp: role_of_def Let_def split: if_splits)
  from managed_write_names(1) [OF this] \<open>st \<in> set statements\<close> show ?thesis
    unfolding names_write_def occurs_ci_def by blast
qed

theorem managed_transaction_has_write_witness:
  "shouldUseSqlEditorManagedTransactionForType (js ''mysql'')
     [js ''select 1'', js ''with a as (select 1), b as (delete from t) select 2''] \<and>
   (\<exists>st \<in> set [js ''select 1'', js ''with a as (select 1), b as (delete from t) select 2''].
      \<exists>w \<in> set SQL_EDITOR_DML_KEYWORDS. \<exists>i j. to_lower (slice (trim st) i j) = w)"
proof -
  have s: "shouldUseSqlEditorManagedTransactionForType (js ''mysql'')
     [js ''select 1'', js ''with a as (select 1), b as (delete from t) select 2'']" by code_simp
  with managed_transaction_has_write [OF this] show ?thesis by blast
qed

section \<open>Termination\<close>

text \<open>The loop with a bound on its rounds; \<open>None\<close> when the bound is reached.\<close>

fun with_rounds :: "nat \<Rightarrow> jsstr \<Rightarrow> nat \<Rightarrow> bool \<Rightarrow> (jsstr \<times> bool) option" where
  "with_rounds 0 s pos write = None"
| "with_rounds (Suc n) s pos write =
     (if pos < length s then
        (case parse_cte s pos of
           None \<Rightarrow> Some ([], write)
         | Some (bodyStart, cteEnd) \<Rightarrow>
             (let write' = (if sqlEditorStatementHasManagedWrite (slice s bodyStart (max bodyStart (cteEnd - 1)))
                            then True else write);
                  next_pos = skipSqlEditorTrivia s cteEnd
              in if at s next_pos = Some (cu CHR '','') then with_rounds n s (next_pos + 1) write'
                 else Some (fst (readSqlEditorKeyword s next_pos), write')))
      else Some ([], write))"

text \<open>C18: The analysis of a \<open>WITH\<close> statement ends: from any position, one round more than there are
  characters left is always enough, and the bounded loop then gives the result of the loop.\<close>

theorem with_analysis_terminates:
  "with_rounds (Suc (length s - pos) + n) s pos wr = Some (with_loop s pos wr)"
proof (induction "length s - pos" arbitrary: pos wr n rule: less_induct)
  case less
  show ?case
  proof (cases "pos < length s \<and> parse_cte s pos \<noteq> None")
    case False
    then show ?thesis by (cases "parse_cte s pos") (auto simp: with_loop.simps [of s pos wr])
  next
    case True
    then obtain b e where p: "parse_cte s pos = Some (b, e)" and l: "pos < length s" by auto
    let ?q = "skipSqlEditorTrivia s e + 1"
    have q: "pos < ?q" using parse_cte_bounds [OF p] skipTrivia_ge [of e s] by simp
    with l have "length s - ?q < length s - pos" by simp
    note IH = less [OF this, where n = "length s - pos - Suc (length s - ?q) + n"]
    have "Suc (length s - ?q) + (length s - pos - Suc (length s - ?q) + n) = length s - pos + n"
      using q l by simp
    with IH have "with_rounds (length s - pos + n) s ?q w = Some (with_loop s ?q w)" for w by (simp only:)
    then show ?thesis using p l by (simp add: with_loop.simps [of s pos wr] Let_def)
  qed
qed

section \<open>Reading a statement from its pieces\<close>

text \<open>The scanners at a position whose rest of the text is known.\<close>

definition word_text :: "jsstr \<Rightarrow> bool" where
  "word_text w \<longleftrightarrow> w \<noteq> [] \<and> list_all word_char w"

definition no_word_first :: "jsstr \<Rightarrow> bool" where
  "no_word_first r \<longleftrightarrow> (case r of [] \<Rightarrow> True | c # _ \<Rightarrow> \<not> word_char c)"

lemma rest_nth: "drop i s = c # r \<Longrightarrow> i < length s \<and> s ! i = c \<and> drop (Suc i) s = r"
  by (metis Cons_nth_drop_Suc drop_all leI list.distinct(1) list.inject)

lemma starts_with_at_rest: "drop i s = r \<Longrightarrow> starts_with_at s p i \<longleftrightarrow> take (length p) r = p"
  by (simp add: starts_with_at_def)

lemma word_not_special:
  "word_char c \<Longrightarrow> \<not> is_js_space c \<and> c \<notin> {cu CHR ''-'', cu CHR ''#'', cu CHR ''/'', squote, dquote, backtick,
     cu CHR ''['', cu CHR ''$'', cu CHR ''('', cu CHR '')''}"
  by (auto simp: word_char_def ascii_letter_def ascii_digit_def is_js_space_def cu_def)

text \<open>A character that is no trivia and opens no quoted part or comment.\<close>

definition bare :: "jschar \<Rightarrow> bool" where
  "bare c \<longleftrightarrow> c \<notin> {cu CHR ''-'', cu CHR ''#'', cu CHR ''/'', squote, dquote, backtick, cu CHR ''['', cu CHR ''$''}"

lemma trivia_space:
  assumes "drop i s = c # r" and "is_js_space c"
  shows "skipSqlEditorTrivia s i = skipSqlEditorTrivia s (Suc i)"
  using rest_nth [OF assms(1)] assms(2)
  by (simp add: skipSqlEditorTrivia_def trivia.loop_ret_unfold [of s i "()"] trivia_body_def)

lemma trivia_stay:
  assumes "drop i s = c # r" and "\<not> is_js_space c" and "bare c"
  shows "skipSqlEditorTrivia s i = i"
proof -
  have "trivia_body s i u = Inl i" for u
    using rest_nth [OF assms(1)] assms
    by (simp add: trivia_body_def starts_with_at_rest [OF assms(1)] js_Cons bare_def)
  with rest_nth [OF assms(1)] show ?thesis
    by (simp add: skipSqlEditorTrivia_def trivia.loop_ret_unfold [of s i "()"] returned_def)
qed

lemma word_stop_rest:
  assumes "drop i s = w @ r" and "list_all word_char w" and "no_word_first r"
  shows "word_stop s i = i + length w"
proof (cases "i \<le> length s")
  case True
  have len: "length s = i + length w + length r" using arg_cong [OF assms(1), of length] True by simp
  have nth: "s ! (i + k) = (w @ r) ! k" if "i + k < length s" for k
    using that assms(1) by (metis True nth_drop)
  show ?thesis unfolding word_stop_def
  proof (rule advance_eqI)
    fix k assume "i \<le> k" "k < i + length w"
    moreover from this have "k - i < length w" by linarith
    ultimately show "word_char (s ! k)"
      using nth [of "k - i"] assms(2) len by (simp add: nth_append list_all_length)
  next
    assume "i + length w < length s"
    then show "\<not> word_char (s ! (i + length w))"
      using nth [of "length w"] assms(3) len by (cases r) (simp_all add: no_word_first_def)
  qed (simp_all add: len)
next
  case False
  with assms(1) show ?thesis by (simp add: word_stop_def advance_stay)
qed

lemma read_word:
  assumes d: "drop i s = w @ r" and w: "word_text w" and r: "no_word_first r"
  shows "readSqlEditorKeyword s i = (to_lower w, i + length w)" and "skipSqlEditorTrivia s i = i"
proof -
  obtain c v where cv: "w = c # v" and c: "word_char c" and v: "list_all word_char v"
    using w by (cases w) (auto simp: word_text_def)
  note i = rest_nth [of i s c "v @ r"]
  from c have nb: "\<not> is_js_space c" "bare c" using word_not_special by (auto simp: bare_def)
  with d cv show t: "skipSqlEditorTrivia s i = i" by (intro trivia_stay) simp_all
  have "word_stop s (Suc i) = Suc i + length v"
    using i d cv v r by (intro word_stop_rest) simp_all
  moreover have "slice s i (i + length w) = w" using d by (simp add: slice_def)
  moreover have "word_at s i" using i d cv c by (simp add: word_at_def)
  ultimately show "readSqlEditorKeyword s i = (to_lower w, i + length w)"
    using cv by (simp add: readSqlEditorKeyword_def t)
qed

lemma quoted_none:
  assumes "drop i s = c # r" and "bare c"
  shows "skipSqlEditorQuotedOrComment s i = None"
  using rest_nth [OF assms(1)] assms
  by (simp add: skipSqlEditorQuotedOrComment_def starts_with_at_rest [OF assms(1)] js_Cons bare_def
      resolveSqlEditorDollarQuoteTag_def)

definition plain_body :: "jsstr \<Rightarrow> bool" where
  "plain_body b \<longleftrightarrow> list_all (\<lambda>c. bare c \<and> c \<noteq> cu CHR ''('' \<and> c \<noteq> cu CHR '')'') b"

lemma parens_body_advances: "i < length s \<Longrightarrow> parens_body s i d = Inr p \<Longrightarrow> i < fst p"
  using skipQuoted_bounds [of s i] by (auto simp: parens_body_def split: option.splits if_splits)

interpretation parens: advancing_ret "length s" "parens_body s" "\<lambda>_. True" for s
  by unfold_locales (auto dest: parens_body_advances)

lemma parens_plain:
  assumes "drop i s = b @ cu CHR '')'' # r" and "plain_body b"
  shows "loop_ret (length s) (parens_body s) i 1 = Inl (i + length b + 1)"
  using assms
proof (induction b arbitrary: i)
  case Nil
  then have d: "drop i s = cu CHR '')'' # r" by simp
  have "bare (cu CHR '')'')" by code_simp
  then have "parens_body s i 1 = Inl (i + 1)"
    using rest_nth [OF d] quoted_none [OF d] by (simp add: parens_body_def)
  with rest_nth [OF d] show ?case by (simp add: parens.loop_ret_unfold [of s i 1])
next
  case (Cons c b)
  then have d: "drop i s = c # (b @ cu CHR '')'' # r)" and c: "bare c" "c \<noteq> cu CHR ''(''" "c \<noteq> cu CHR '')''"
    by (simp_all add: plain_body_def)
  have "parens_body s i 1 = Inr (i + 1, 1)"
    using rest_nth [OF d] quoted_none [OF d c(1)] c by (simp add: parens_body_def)
  moreover have "loop_ret (length s) (parens_body s) (Suc i) 1 = Inl (Suc i + length b + 1)"
    using rest_nth [OF d] Cons.prems(2) by (intro Cons.IH) (simp_all add: plain_body_def)
  ultimately show ?case using rest_nth [OF d] by (simp add: parens.loop_ret_unfold [of s i 1])
qed

lemma balanced_plain:
  assumes "drop i s = cu CHR ''('' # b @ cu CHR '')'' # r" and "plain_body b"
  shows "skipBalancedSqlEditorParens s i = Some (i + length b + 2)"
proof -
  note i = rest_nth [OF assms(1)]
  have "bare (cu CHR ''('')" by code_simp
  then have "parens_body s i 0 = Inr (i + 1, 1)"
    using i quoted_none [OF assms(1)] by (simp add: parens_body_def)
  moreover have "loop_ret (length s) (parens_body s) (Suc i) 1 = Inl (Suc i + length b + 1)"
    using i assms(2) by (intro parens_plain) simp_all
  ultimately show ?thesis
    using i by (simp add: skipBalancedSqlEditorParens_def parens.loop_ret_unfold [of s i 0])
qed

lemma top_keyword_here:
  assumes d: "drop i s = w @ r" and w: "word_text w" and r: "no_word_first r"
  shows "findTopLevelSqlEditorKeyword s i (to_lower w) = Some (i + length w)"
proof -
  obtain c v where cv: "w = c # v" and c: "word_char c" and v: "list_all word_char v"
    using w by (cases w) (auto simp: word_text_def)
  have dc: "drop i s = c # v @ r" using d cv by simp
  note i = rest_nth [OF dc]
  from c have "bare c" using word_not_special by (auto simp: bare_def)
  note q = quoted_none [OF dc this]
  have "word_stop s (Suc i) = Suc i + length v" using i v r by (intro word_stop_rest) simp_all
  moreover have "slice s i (Suc i + length v) = w" using d cv by (simp add: slice_def)
  ultimately have "top_keyword_body s (to_lower w) i 0 = Inl (i + length w)"
    using q i c cv word_not_special [OF c] by (simp add: top_keyword_body_def)
  with i show ?thesis by (simp add: findTopLevelSqlEditorKeyword_def loop_ret.simps [of _ _ i])
qed

lemma identifier_here:
  assumes d: "drop i s = w @ r" and w: "word_text w" and r: "no_word_first r"
  shows "skipSqlEditorIdentifierToken s i = Some (i + length w)"
proof -
  obtain c v where cv: "w = c # v" and c: "word_char c" and v: "list_all word_char v"
    using w by (cases w) (auto simp: word_text_def)
  have dc: "drop i s = c # v @ r" using d cv by simp
  note i = rest_nth [OF dc]
  have "word_stop s (Suc i) = Suc i + length v" using i v r by (intro word_stop_rest) simp_all
  with i c cv word_not_special [OF c] show ?thesis
    by (simp add: skipSqlEditorIdentifierToken_def)
qed

section \<open>Statements with a common table expression\<close>

definition with_statement :: "jsstr \<Rightarrow> jsstr \<Rightarrow> jsstr \<Rightarrow> jsstr \<Rightarrow> jsstr" where
  "with_statement name body operation rest =
     js ''with '' @ name @ js '' as ('' @ body @ js '') '' @ operation @ rest"

lemma parse_with_statement:
  assumes n: "word_text n" and b: "plain_body b" and k: "word_text k" and r: "no_word_first r"
  defines "s \<equiv> with_statement n b k r" and "p \<equiv> 5 + length n"
  shows "parse_cte s 5 = Some (p + 5, p + 6 + length b)"
    and "slice s (p + 5) (p + 5 + length b) = b"
    and "drop (p + 6 + length b) s = cu CHR '' '' # k @ r"
    and "drop 5 s = n @ js '' as ('' @ b @ js '') '' @ k @ r"
proof -
  have space: "is_js_space (cu CHR '' '')" "\<not> is_js_space (cu CHR ''('')" "bare (cu CHR ''('')"
    "word_text (js ''as'')" "to_lower (js ''as'') = js ''as''" "\<not> word_char (cu CHR '' '')" "\<not> word_char (cu CHR ''('')"
    by code_simp+
  show d5: "drop 5 s = n @ js '' as ('' @ b @ js '') '' @ k @ r"
    by (simp add: s_def with_statement_def js_Cons)
  have dp: "drop p s = cu CHR '' '' # js ''as ('' @ b @ js '') '' @ k @ r"
    using d5 unfolding p_def drop_drop [symmetric] add.commute [of 5] by (simp add: js_Cons)
  have d1: "drop (Suc p) s = js ''as'' @ cu CHR '' '' # cu CHR ''('' # b @ cu CHR '')'' # cu CHR '' '' # k @ r"
    using rest_nth [OF dp] by (simp add: js_Cons)
  have d3: "drop (p + 3) s = cu CHR '' '' # cu CHR ''('' # b @ cu CHR '')'' # cu CHR '' '' # k @ r"
    using arg_cong [OF d1, of "drop 2"] by (simp add: js_Cons numeral_3_eq_3 numeral_2_eq_2)
  have d4: "drop (p + 4) s = cu CHR ''('' # b @ cu CHR '')'' # cu CHR '' '' # k @ r"
    using rest_nth [OF d3] by (simp add: eval_nat_numeral)
  have d5': "drop (p + 5) s = b @ cu CHR '')'' # cu CHR '' '' # k @ r"
    using rest_nth [OF d4] by (simp add: eval_nat_numeral)
  then show "slice s (p + 5) (p + 5 + length b) = b" by (simp add: slice_def)
  show "drop (p + 6 + length b) s = cu CHR '' '' # k @ r"
    using arg_cong [OF d5', of "drop (Suc (length b))"] by (simp add: eval_nat_numeral add.commute)
  have nr: "no_word_first (js '' as ('' @ b @ js '') '' @ k @ r)"
    using space(6) by (simp add: no_word_first_def js_Cons)
  have i: "skipSqlEditorIdentifierToken s (skipSqlEditorTrivia s 5) = Some p"
    using read_word(2) [OF d5 n nr] identifier_here [OF d5 n nr] by (simp add: p_def)
  have nr': "no_word_first (cu CHR '' '' # cu CHR ''('' # b @ cu CHR '')'' # cu CHR '' '' # k @ r)"
    using space(6) by (simp add: no_word_first_def)
  have t1: "skipSqlEditorTrivia s p = Suc p"
    using trivia_space [OF dp space(1)] read_word(2) [OF d1 space(4) nr'] by simp
  have "at s (Suc p) \<noteq> Some (cu CHR ''('')"
    using rest_nth [of "Suc p" s "cu CHR ''a''"] d1 by (simp add: js_Cons)
  then have c: "after_columns s (skipSqlEditorTrivia s p) = Some (Suc p)" by (simp add: t1 after_columns_def)
  have a: "findTopLevelSqlEditorKeyword s (Suc p) (js ''as'') = Some (p + 3)"
    using top_keyword_here [OF d1 space(4) nr'] space(5) by (simp add: numeral_3_eq_3)
  have t4: "skipSqlEditorTrivia s (p + 4) = p + 4" using d4 space by (intro trivia_stay)
  have t3: "skipSqlEditorTrivia s (p + 3) = p + 4"
    using trivia_space [OF d3 space(1)] t4 by (simp add: eval_nat_numeral)
  have "readSqlEditorKeyword s (p + 4) = ([], p + 4)"
    using rest_nth [OF d4] space(7) t4 by (simp add: readSqlEditorKeyword_def word_at_def)
  then have m: "skipSqlEditorTrivia s (after_materialized s (skipSqlEditorTrivia s (p + 3))) = p + 4"
    by (simp add: after_materialized_def t3 t4)
  show "parse_cte s 5 = Some (p + 5, p + 6 + length b)"
    using balanced_plain [OF d4 b] by (simp add: parse_cte_def i c a m Let_def)
qed



end
