(* ===== verification/RowLocator.thy ===== *)
theory RowLocator
  imports SqlDialect "HOL-Library.AList" "HOL-Library.Product_Lexorder"
begin

text \<open>
  How an edited row is found again: \<open>frontend/src/utils/rowLocator.ts\<close> and the unique keys of
  \<open>frontend/src/components/dataGridCopyInsert.ts\<close> (lines 425 to 528). An index is what
  \<open>IndexDefinition\<close> declares; other spellings of its fields, which the code also accepts, are not
  modelled. A translated reason or error is its key with its parameters.
\<close>

section \<open>Unique keys\<close>

record index_definition =
  index_name :: jsstr
  index_columnName :: jsstr
  index_nonUnique :: js_number
  index_seqInIndex :: js_number

record index_column =
  ic_columnName :: jsstr
  ic_seqInIndex :: int
  ic_order :: nat

record index_bucket =
  bucket_order :: nat
  bucket_columns :: "index_column list"

definition MAX_SAFE_INTEGER :: int where
  "MAX_SAFE_INTEGER = 9007199254740991"

definition isUniqueIndex :: "index_definition \<Rightarrow> bool" where
  "isUniqueIndex index \<longleftrightarrow> index_nonUnique index = Finite 0"

definition index_seq :: "index_definition \<Rightarrow> int" where
  "index_seq index = (case index_seqInIndex index of Finite n \<Rightarrow> n | NonFinite \<Rightarrow> 0)"

definition bucket_step ::
  "(jsstr \<times> index_bucket) list \<Rightarrow> nat \<times> index_definition \<Rightarrow> (jsstr \<times> index_bucket) list" where
  "bucket_step buckets entry =
     (let order = fst entry; index = snd entry;
          name = trim (index_name index); columnName = trim (index_columnName index) in
      if \<not> isUniqueIndex index then buckets
      else if name = [] \<or> columnName = [] then buckets
      else
        (let bucket = (case map_of buckets name of
               None \<Rightarrow> \<lparr>bucket_order = order, bucket_columns = []\<rparr> | Some b \<Rightarrow> b)
         in AList.update name
              (bucket\<lparr>bucket_columns := bucket_columns bucket @
                 [\<lparr>ic_columnName = columnName, ic_seqInIndex = index_seq index, ic_order = order\<rparr>]\<rparr>) buckets))"

definition column_key :: "index_column \<Rightarrow> int \<times> nat" where
  "column_key c = (if 0 < ic_seqInIndex c then ic_seqInIndex c else MAX_SAFE_INTEGER, ic_order c)"

definition bucket_group :: "index_bucket \<Rightarrow> jsstr list" where
  "bucket_group bucket = dedup_by to_lower {} (map ic_columnName (sort_key column_key (bucket_columns bucket)))"

definition resolveUniqueKeyGroupsFromIndexes :: "index_definition list \<Rightarrow> jsstr list list" where
  "resolveUniqueKeyGroupsFromIndexes indexes =
     filter (\<lambda>names. names \<noteq> [])
       (map bucket_group (sort_key bucket_order (map snd (foldl bucket_step [] (enumerate 0 indexes)))))"

section \<open>Locators\<close>

datatype locator_strategy = PrimaryKey | UniqueKey | OracleRowid | DuckdbRowid | NoStrategy

datatype locator_reason =
    NoSafeLocator | OracleRowIDMissing | DuckDBRowIDMissing | PrimaryKeyColumnMissing "jsstr list"

record row_locator =
  strategy :: locator_strategy
  columns :: "jsstr list"
  valueColumns :: "jsstr list"
  hiddenColumns :: "jsstr list"
  writableColumns :: "(jsstr \<times> jsstr) list option"
  locator_readOnly :: bool
  locator_reason :: "locator_reason option"
  countWhereFallback :: bool

record locator_params =
  param_dbType :: jsstr
  param_resultColumns :: "jsstr list"
  param_primaryKeys :: "jsstr list"
  param_indexes :: "index_definition list"
  allowOracleRowID :: bool
  allowDuckDBRowID :: bool
  allowCountFallback :: "bool option"
  allowMysqlCountFallback :: "bool option"

definition ORACLE_ROWID_LOCATOR_COLUMN :: jsstr where
  "ORACLE_ROWID_LOCATOR_COLUMN = js ''__gonavi_oracle_rowid__''"

definition DUCKDB_ROWID_LOCATOR_COLUMN :: jsstr where
  "DUCKDB_ROWID_LOCATOR_COLUMN = js ''__gonavi_duckdb_rowid__''"

definition supportsCountFallbackLocate :: "jsstr \<Rightarrow> bool" where
  "supportsCountFallbackLocate dbType \<longleftrightarrow>
     to_lower (trim dbType) \<in> set (map js [''mysql'', ''postgres'', ''postgresql''])"

definition isMysqlCountFallbackLocator :: "row_locator option \<Rightarrow> bool" where
  "isMysqlCountFallbackLocator locator =
     (case locator of None \<Rightarrow> False | Some l \<Rightarrow> \<not> locator_readOnly l \<and> countWhereFallback l)"

definition same_column :: "jsstr \<Rightarrow> jsstr \<Rightarrow> bool" where
  "same_column target column \<longleftrightarrow> to_lower (trim column) = to_lower (trim target)"

definition hasColumn :: "jsstr list \<Rightarrow> jsstr \<Rightarrow> bool" where
  "hasColumn cols target = list_ex (same_column target) cols"

definition findColumn :: "jsstr list \<Rightarrow> jsstr \<Rightarrow> jsstr" where
  "findColumn cols target =
     (case find (same_column target) cols of
        None \<Rightarrow> target | Some column \<Rightarrow> if column = [] then target else column)"

definition buildReadOnlyLocator :: "locator_reason \<Rightarrow> row_locator" where
  "buildReadOnlyLocator reason =
     \<lparr>strategy = NoStrategy, columns = [], valueColumns = [], hiddenColumns = [], writableColumns = None,
      locator_readOnly = True, locator_reason = Some reason, countWhereFallback = False\<rparr>"

definition key_locator :: "locator_strategy \<Rightarrow> jsstr list \<Rightarrow> jsstr list \<Rightarrow> row_locator" where
  "key_locator strat cols key =
     \<lparr>strategy = strat, columns = key, valueColumns = map (findColumn cols) key, hiddenColumns = [],
      writableColumns = None, locator_readOnly = False, locator_reason = None, countWhereFallback = False\<rparr>"

definition rowid_locator :: "locator_strategy \<Rightarrow> jsstr \<Rightarrow> jsstr \<Rightarrow> row_locator" where
  "rowid_locator strat name rowIDColumn =
     \<lparr>strategy = strat, columns = [name], valueColumns = [rowIDColumn], hiddenColumns = [rowIDColumn],
      writableColumns = None, locator_readOnly = False, locator_reason = None, countWhereFallback = False\<rparr>"

definition countFallbackEnabled :: "locator_params \<Rightarrow> bool" where
  "countFallbackEnabled p =
     (case allowCountFallback p of
        Some b \<Rightarrow> b
      | None \<Rightarrow> (case allowMysqlCountFallback p of Some b \<Rightarrow> b | None \<Rightarrow> True))"

definition resolveEditRowLocator :: "locator_params \<Rightarrow> row_locator" where
  "resolveEditRowLocator p =
     (let cols = filter (\<lambda>c. c \<noteq> []) (map trim (param_resultColumns p));
          primaryKeyColumns = filter (\<lambda>c. c \<noteq> []) (map trim (param_primaryKeys p));
          dbTypeLower = to_lower (trim (param_dbType p));
          missing = filter (\<lambda>c. \<not> hasColumn cols c) primaryKeyColumns;
          oracle = allowOracleRowID p \<and> isOracleLikeDialect (param_dbType p);
          duckdb = allowDuckDBRowID p \<and> dbTypeLower = js ''duckdb''
      in
      if primaryKeyColumns \<noteq> [] then
        (if missing = [] then key_locator PrimaryKey cols primaryKeyColumns
         else buildReadOnlyLocator (PrimaryKeyColumnMissing missing))
      else
        (case find (\<lambda>names. names \<noteq> [] \<and> list_all (hasColumn cols) names)
                (resolveUniqueKeyGroupsFromIndexes (param_indexes p)) of
           Some key_group \<Rightarrow> key_locator UniqueKey cols key_group
         | None \<Rightarrow>
             if oracle \<and> hasColumn cols ORACLE_ROWID_LOCATOR_COLUMN
             then rowid_locator OracleRowid (js ''ROWID'') (findColumn cols ORACLE_ROWID_LOCATOR_COLUMN)
             else if duckdb \<and> hasColumn cols DUCKDB_ROWID_LOCATOR_COLUMN
             then rowid_locator DuckdbRowid (js ''rowid'') (findColumn cols DUCKDB_ROWID_LOCATOR_COLUMN)
             else if oracle then buildReadOnlyLocator OracleRowIDMissing
             else if duckdb then buildReadOnlyLocator DuckDBRowIDMissing
             else if countFallbackEnabled p \<and> supportsCountFallbackLocate dbTypeLower
             then (buildReadOnlyLocator NoSafeLocator)\<lparr>locator_readOnly := False, countWhereFallback := True\<rparr>
             else buildReadOnlyLocator NoSafeLocator))"

section \<open>Locator values\<close>

datatype cell = NullCell | TextCell jsstr | OtherCell jsstr

datatype locator_error = NoLocatorError | EmptyLocatorValue jsstr

definition empty_cell :: "cell option \<Rightarrow> bool" where
  "empty_cell v \<longleftrightarrow> v = None \<or> v = Some NullCell \<or> v = Some (TextCell [])"

text \<open>\<open>locator.valueColumns[index] || column\<close>.\<close>

definition value_column :: "row_locator \<Rightarrow> nat \<Rightarrow> jsstr" where
  "value_column l i =
     (if i < length (valueColumns l) \<and> valueColumns l ! i \<noteq> [] then valueColumns l ! i else columns l ! i)"

function values_loop ::
  "row_locator \<Rightarrow> (jsstr \<Rightarrow> cell option) \<Rightarrow> nat \<Rightarrow> (jsstr \<times> cell) list \<Rightarrow> locator_error + (jsstr \<times> cell) list" where
  "values_loop l row i acc =
     (if i < length (columns l) then
        (let v = row (value_column l i) in
         if empty_cell v then Inl (EmptyLocatorValue (columns l ! i))
         else values_loop l row (i + 1) (AList.update (columns l ! i) (the v) acc))
      else Inr acc)"
  by pat_completeness auto
termination
  by (relation "measure (\<lambda>(l, row, i, acc). length (columns l) - i)") auto

declare values_loop.simps [simp del]

definition resolveRowLocatorValues ::
  "row_locator option \<Rightarrow> (jsstr \<Rightarrow> cell option) \<Rightarrow> locator_error + (jsstr \<times> cell) list" where
  "resolveRowLocatorValues locator row =
     (case locator of
        None \<Rightarrow> Inl NoLocatorError
      | Some l \<Rightarrow>
          if locator_readOnly l then Inl NoLocatorError
          else if strategy l = NoStrategy then (if countWhereFallback l then Inr [] else Inl NoLocatorError)
          else values_loop l row 0 [])"

section \<open>Hidden and writable columns\<close>

definition locator_hidden :: "row_locator option \<Rightarrow> jsstr list" where
  "locator_hidden locator = (case locator of None \<Rightarrow> [] | Some l \<Rightarrow> hiddenColumns l)"

definition filterHiddenLocatorColumns :: "jsstr list \<Rightarrow> row_locator option \<Rightarrow> jsstr list" where
  "filterHiddenLocatorColumns cols locator =
     (let hidden = set (map (\<lambda>c. to_lower (trim c)) (locator_hidden locator)) in
      if hidden = {} then cols else filter (\<lambda>c. to_lower (trim c) \<notin> hidden) cols)"

definition isHiddenLocatorColumn :: "jsstr \<Rightarrow> row_locator option \<Rightarrow> bool" where
  "isHiddenLocatorColumn column locator =
     list_ex (\<lambda>hidden. to_lower (trim hidden) = to_lower (trim column)) (locator_hidden locator)"

definition resolveWritableColumnName :: "jsstr \<Rightarrow> row_locator option \<Rightarrow> jsstr option" where
  "resolveWritableColumnName column locator =
     (let normalized = trim column in
      if normalized = [] \<or> isHiddenLocatorColumn normalized locator then None
      else (case (case locator of None \<Rightarrow> None | Some l \<Rightarrow> writableColumns l) of
              None \<Rightarrow> Some normalized
            | Some writable \<Rightarrow>
                (let tableColumnName = (case find (\<lambda>e. to_lower (trim (fst e)) = to_lower normalized) writable of
                       None \<Rightarrow> [] | Some e \<Rightarrow> trim (snd e))
                 in if tableColumnName = [] then None else Some tableColumnName)))"

definition isWritableResultColumn :: "jsstr \<Rightarrow> row_locator option \<Rightarrow> bool" where
  "isWritableResultColumn column locator \<longleftrightarrow> resolveWritableColumnName column locator \<noteq> None"

section \<open>Correctness\<close>

subsection \<open>Unique keys\<close>

definition index_key_column :: "jsstr \<Rightarrow> index_definition \<Rightarrow> bool" where
  "index_key_column name index \<longleftrightarrow>
     isUniqueIndex index \<and> trim (index_name index) = name \<and> name \<noteq> [] \<and> trim (index_columnName index) \<noteq> []"

definition bucket_names :: "(jsstr \<times> index_bucket) list \<Rightarrow> jsstr \<Rightarrow> jsstr list" where
  "bucket_names buckets name =
     (case map_of buckets name of None \<Rightarrow> [] | Some b \<Rightarrow> map ic_columnName (bucket_columns b))"

lemma bucket_step_names:
  "bucket_names (bucket_step buckets (i, index)) name =
   bucket_names buckets name @ (if index_key_column name index then [trim (index_columnName index)] else [])"
  by (auto simp: bucket_names_def bucket_step_def Let_def index_key_column_def update_conv' split: option.splits)

lemma bucket_step_distinct: "distinct (map fst buckets) \<Longrightarrow> distinct (map fst (bucket_step buckets e))"
  by (simp add: bucket_step_def Let_def distinct_update)

definition key_columns :: "jsstr \<Rightarrow> index_definition list \<Rightarrow> jsstr list" where
  "key_columns name indexes = map (trim \<circ> index_columnName) (filter (index_key_column name) indexes)"

lemma buckets_columns:
  "distinct (map fst (foldl bucket_step [] (enumerate n indexes))) \<and>
   bucket_names (foldl bucket_step [] (enumerate n indexes)) name = key_columns name indexes"
proof (induction indexes rule: rev_induct)
  case Nil
  then show ?case
    by (simp add: key_columns_def bucket_names_def)
next
  case (snoc index indexes)
  then show ?case
    by (simp add: enumerate_append_eq bucket_step_distinct bucket_step_names key_columns_def)
qed

lemma unique_key_group_complete:
  assumes "names \<in> set (resolveUniqueKeyGroupsFromIndexes indexes)"
  shows "\<exists>name. names \<noteq> [] \<and> distinct (map to_lower names) \<and>
           to_lower ` set names = to_lower ` set (key_columns name indexes)"
proof -
  obtain name b where b: "(name, b) \<in> set (foldl bucket_step [] (enumerate 0 indexes))"
    and names: "names = bucket_group b" "names \<noteq> []"
    using assms by (auto simp: resolveUniqueKeyGroupsFromIndexes_def)
  have "map_of (foldl bucket_step [] (enumerate 0 indexes)) name = Some b"
    using b buckets_columns by (metis map_of_eq_Some_iff)
  with buckets_columns [of 0 indexes name] have "map ic_columnName (bucket_columns b) = key_columns name indexes"
    by (simp add: bucket_names_def)
  then have "ic_columnName ` set (bucket_columns b) = set (key_columns name indexes)"
    by (metis set_map)
  with names show ?thesis
    by (intro exI [of _ name])
       (simp add: bucket_group_def dedup_by_distinct dedup_by_keys image_image)
qed

lemma unique_key_groups_nonempty: "names \<in> set (resolveUniqueKeyGroupsFromIndexes indexes) \<Longrightarrow> names \<noteq> []"
  by (simp add: resolveUniqueKeyGroupsFromIndexes_def)

subsection \<open>Which locator is chosen\<close>

lemma findColumn_found:
  assumes "hasColumn cols c" and "[] \<notin> set cols"
  shows "findColumn cols c \<in> set cols \<and> same_column c (findColumn cols c)"
proof -
  obtain x where "find (same_column c) cols = Some x"
    using assms(1) by (fastforce simp: hasColumn_def list_ex_iff find_None_iff dest: not_None_eq [THEN iffD1])
  moreover from this have "x \<in> set cols" "same_column c x"
    by (auto simp: find_Some_iff)
  ultimately show ?thesis
    using assms(2) by (auto simp: findColumn_def)
qed

definition result_columns :: "locator_params \<Rightarrow> jsstr list" where
  "result_columns p = filter (\<lambda>c. c \<noteq> []) (map trim (param_resultColumns p))"

definition primary_key_columns :: "locator_params \<Rightarrow> jsstr list" where
  "primary_key_columns p = filter (\<lambda>c. c \<noteq> []) (map trim (param_primaryKeys p))"

lemma result_columns_nonempty: "[] \<notin> set (result_columns p)"
  by (simp add: result_columns_def)

text \<open>The code tries a primary key, a unique key, a row id and counting, in this order.\<close>

inductive chosen :: "locator_params \<Rightarrow> row_locator \<Rightarrow> bool" for p where
  by_primary_key:
    "primary_key_columns p \<noteq> [] \<Longrightarrow> list_all (hasColumn (result_columns p)) (primary_key_columns p) \<Longrightarrow>
     chosen p (key_locator PrimaryKey (result_columns p) (primary_key_columns p))"
| primary_key_missing:
    "primary_key_columns p \<noteq> [] \<Longrightarrow>
     missing = filter (\<lambda>c. \<not> hasColumn (result_columns p) c) (primary_key_columns p) \<Longrightarrow> missing \<noteq> [] \<Longrightarrow>
     chosen p (buildReadOnlyLocator (PrimaryKeyColumnMissing missing))"
| by_unique_key:
    "primary_key_columns p = [] \<Longrightarrow> names \<in> set (resolveUniqueKeyGroupsFromIndexes (param_indexes p)) \<Longrightarrow>
     list_all (hasColumn (result_columns p)) names \<Longrightarrow>
     chosen p (key_locator UniqueKey (result_columns p) names)"
| by_oracle_rowid:
    "primary_key_columns p = [] \<Longrightarrow> isOracleLikeDialect (param_dbType p) \<Longrightarrow>
     hasColumn (result_columns p) ORACLE_ROWID_LOCATOR_COLUMN \<Longrightarrow>
     chosen p (rowid_locator OracleRowid (js ''ROWID'') (findColumn (result_columns p) ORACLE_ROWID_LOCATOR_COLUMN))"
| by_duckdb_rowid:
    "primary_key_columns p = [] \<Longrightarrow> to_lower (trim (param_dbType p)) = js ''duckdb'' \<Longrightarrow>
     hasColumn (result_columns p) DUCKDB_ROWID_LOCATOR_COLUMN \<Longrightarrow>
     chosen p (rowid_locator DuckdbRowid (js ''rowid'') (findColumn (result_columns p) DUCKDB_ROWID_LOCATOR_COLUMN))"
| by_counting:
    "primary_key_columns p = [] \<Longrightarrow> countFallbackEnabled p \<Longrightarrow>
     supportsCountFallbackLocate (to_lower (trim (param_dbType p))) \<Longrightarrow>
     chosen p ((buildReadOnlyLocator NoSafeLocator)\<lparr>locator_readOnly := False, countWhereFallback := True\<rparr>)"
| none_safe:
    "primary_key_columns p = [] \<Longrightarrow> reason \<in> {NoSafeLocator, OracleRowIDMissing, DuckDBRowIDMissing} \<Longrightarrow>
     chosen p (buildReadOnlyLocator reason)"

inductive_cases chosenE: "chosen p l"

lemma filter_none_iff: "filter (\<lambda>c. \<not> P c) xs = [] \<longleftrightarrow> list_all P xs"
  by (auto simp: filter_empty_conv list_all_iff)

lemma resolve_chosen: "chosen p (resolveEditRowLocator p)"
proof (cases "primary_key_columns p = []")
  case False
  then show ?thesis
    using chosen.intros(1) [of p] chosen.intros(2) [of p]
    by (auto simp: resolveEditRowLocator_def Let_def filter_none_iff simp flip: result_columns_def primary_key_columns_def)
next
  case True
  show ?thesis
  proof (cases "find (\<lambda>names. names \<noteq> [] \<and> list_all (hasColumn (result_columns p)) names)
                  (resolveUniqueKeyGroupsFromIndexes (param_indexes p))")
    case None
    with True show ?thesis
      unfolding resolveEditRowLocator_def Let_def result_columns_def [symmetric] primary_key_columns_def [symmetric]
      by (simp add: chosen.intros)
  next
    case (Some names)
    then have "names \<in> set (resolveUniqueKeyGroupsFromIndexes (param_indexes p))"
      "list_all (hasColumn (result_columns p)) names"
      by (auto simp: find_Some_iff)
    from by_unique_key [OF True this] True Some show ?thesis
      unfolding resolveEditRowLocator_def Let_def result_columns_def [symmetric] primary_key_columns_def [symmetric]
      by simp
  qed
qed

lemma unnamed_strategies:
  "strategy (buildReadOnlyLocator r) = NoStrategy"
  "strategy (key_locator s cols key) = s"
  "strategy (rowid_locator s name c) = s"
  by (simp_all add: buildReadOnlyLocator_def key_locator_def rowid_locator_def)

text \<open>A locator with a strategy: what it is made of.\<close>

definition key_of_table :: "locator_params \<Rightarrow> jsstr list \<Rightarrow> bool" where
  "key_of_table p key \<longleftrightarrow>
     (if primary_key_columns p \<noteq> [] then key = primary_key_columns p
      else \<exists>name. distinct (map to_lower key) \<and>
                  to_lower ` set key = to_lower ` set (key_columns name (param_indexes p)))"

lemma key_locator_columns:
  assumes "list_all (hasColumn (result_columns p)) key"
  shows "set (map (findColumn (result_columns p)) key) \<subseteq> set (result_columns p) \<and>
         list_all2 same_column key (map (findColumn (result_columns p)) key)"
  using assms findColumn_found [OF _ result_columns_nonempty]
  by (auto simp: list_all_iff list_all2_conv_all_nth)

text \<open>C20: when the code finds a key for the rows of a result, the key is the whole primary key of
  the table or, when there is none, all the columns of one unique index; or it is a row id, and then
  the column that carries it is hidden. Each key column is read from a column of the result with
  its name, and the locator is not read-only.\<close>

theorem resolveEditRowLocator_safe:
  assumes "l = resolveEditRowLocator p" and "strategy l \<noteq> NoStrategy"
  shows "\<not> locator_readOnly l \<and> columns l \<noteq> [] \<and> length (valueColumns l) = length (columns l) \<and>
         set (valueColumns l) \<subseteq> set (result_columns p) \<and>
         (if strategy l = PrimaryKey \<or> strategy l = UniqueKey
          then key_of_table p (columns l) \<and> list_all2 same_column (columns l) (valueColumns l)
          else hiddenColumns l = valueColumns l \<and> primary_key_columns p = [])"
  using resolve_chosen [of p] assms
proof (cases rule: chosen.cases)
  case by_primary_key
  with assms key_locator_columns [OF by_primary_key(3)] show ?thesis
    by (simp add: key_locator_def key_of_table_def)
next
  case (by_unique_key names)
  with assms key_locator_columns [OF by_unique_key(4)] unique_key_group_complete [OF by_unique_key(3)]
  show ?thesis
    by (auto simp: key_locator_def key_of_table_def)
next
  case by_oracle_rowid
  with assms findColumn_found [OF by_oracle_rowid(4) result_columns_nonempty] show ?thesis
    by (simp add: rowid_locator_def)
next
  case by_duckdb_rowid
  with assms findColumn_found [OF by_duckdb_rowid(4) result_columns_nonempty] show ?thesis
    by (simp add: rowid_locator_def)
qed (simp_all add: buildReadOnlyLocator_def)

subsection \<open>The values of a locator\<close>

definition first_empty :: "row_locator \<Rightarrow> (jsstr \<Rightarrow> cell option) \<Rightarrow> nat \<Rightarrow> nat option" where
  "first_empty l row i =
     find (\<lambda>k. row (value_column l k) \<in> {None, Some NullCell, Some (TextCell [])}) [i..<length (columns l)]"

lemma first_empty_cells:
  "first_empty l row i = find (\<lambda>k. empty_cell (row (value_column l k))) [i..<length (columns l)]"
  by (simp add: first_empty_def empty_cell_def)

definition cells :: "row_locator \<Rightarrow> (jsstr \<Rightarrow> cell option) \<Rightarrow> nat \<Rightarrow> (jsstr \<times> cell) list" where
  "cells l row i = map (\<lambda>k. (columns l ! k, the (row (value_column l k)))) [i..<length (columns l)]"

lemma map_of_update_add:
  "map_of (AList.update k v acc) ++ map_of (rev xs) = map_of acc ++ map_of (rev ((k, v) # xs))"
  by (rule ext) (simp add: update_conv' map_add_def split: option.splits)

lemma values_loop_correct:
  "case first_empty l row i of
     Some k \<Rightarrow> values_loop l row i acc = Inl (EmptyLocatorValue (columns l ! k))
   | None \<Rightarrow> \<exists>vals. values_loop l row i acc = Inr vals \<and> map_of vals = map_of acc ++ map_of (rev (cells l row i))"
proof (induction l row i acc rule: values_loop.induct)
  case (1 l row i acc)
  show ?case
  proof (cases "i < length (columns l)")
    case False
    then show ?thesis
      by (simp add: first_empty_cells cells_def values_loop.simps [of l row i acc])
  next
    case True
    then have upt: "[i..<length (columns l)] = i # [i + 1..<length (columns l)]"
      by (simp add: upt_conv_Cons)
    show ?thesis
    proof (cases "empty_cell (row (value_column l i))")
      case True
      with upt \<open>i < length (columns l)\<close> show ?thesis
        by (simp add: first_empty_cells values_loop.simps [of l row i acc])
    next
      case False
      from upt False have "first_empty l row i = first_empty l row (i + 1)"
        "cells l row i = (columns l ! i, the (row (value_column l i))) # cells l row (i + 1)"
        by (simp_all add: first_empty_cells cells_def)
      with "1.IH" [OF \<open>i < length (columns l)\<close> refl False] False \<open>i < length (columns l)\<close> show ?thesis
        by (simp only: values_loop.simps [of l row i acc] Let_def if_True if_False map_of_update_add)
    qed
  qed
qed

text \<open>C21: reading the key of a row stops at the first key column whose value is missing, null or
  empty and names that column; otherwise it gives each key column the value the row has for it.\<close>

theorem resolveRowLocatorValues_correct:
  assumes "\<not> locator_readOnly l" and "strategy l \<noteq> NoStrategy"
  shows "case first_empty l row 0 of
           Some k \<Rightarrow> resolveRowLocatorValues (Some l) row = Inl (EmptyLocatorValue (columns l ! k))
         | None \<Rightarrow> \<exists>vals. resolveRowLocatorValues (Some l) row = Inr vals \<and>
                          map_of vals = map_of (rev (cells l row 0))"
  using assms values_loop_correct [of l row 0 "[]"]
  by (simp add: resolveRowLocatorValues_def split: option.splits)

text \<open>A result of a table without a primary key and with a unique key of two columns.\<close>

definition example_params :: locator_params where
  "example_params =
     \<lparr>param_dbType = js ''mysql'', param_resultColumns = [js ''ID'', js '' name '', js ''TENANT''],
      param_primaryKeys = [],
      param_indexes =
        [\<lparr>index_name = js ''by_name'', index_columnName = js ''name'', index_nonUnique = Finite 1, index_seqInIndex = Finite 1\<rparr>,
         \<lparr>index_name = js ''u'', index_columnName = js ''id'', index_nonUnique = Finite 0, index_seqInIndex = Finite 2\<rparr>,
         \<lparr>index_name = js ''u'', index_columnName = js ''tenant'', index_nonUnique = Finite 0, index_seqInIndex = Finite 1\<rparr>],
      allowOracleRowID = False, allowDuckDBRowID = False, allowCountFallback = None, allowMysqlCountFallback = None\<rparr>"

definition example_row :: "jsstr \<Rightarrow> cell option" where
  "example_row c = (if c = js ''ID'' then Some (TextCell (js ''7'')) else if c = js ''TENANT'' then Some NullCell else None)"

lemma example_locator:
  "resolveEditRowLocator example_params =
   key_locator UniqueKey [js ''ID'', js ''name'', js ''TENANT''] [js ''tenant'', js ''id'']"
  by code_simp

theorem resolveEditRowLocator_safe_witness:
  "\<not> locator_readOnly (resolveEditRowLocator example_params) \<and>
   list_all2 same_column [js ''tenant'', js ''id''] [js ''TENANT'', js ''ID'']"
proof -
  have strat: "strategy (resolveEditRowLocator example_params) = UniqueKey"
    by (simp add: example_locator unnamed_strategies)
  have "valueColumns (resolveEditRowLocator example_params) = [js ''TENANT'', js ''ID'']"
    "columns (resolveEditRowLocator example_params) = [js ''tenant'', js ''id'']"
    unfolding example_locator by code_simp+
  with resolveEditRowLocator_safe [OF refl, of example_params] strat show ?thesis
    by simp
qed

lemma example_first_empty: "first_empty (resolveEditRowLocator example_params) example_row 0 = Some 0"
  by code_simp

theorem resolveRowLocatorValues_correct_witness:
  "resolveRowLocatorValues (Some (resolveEditRowLocator example_params)) example_row =
   Inl (EmptyLocatorValue (js ''tenant''))"
proof -
  have l: "\<not> locator_readOnly (resolveEditRowLocator example_params)"
    "strategy (resolveEditRowLocator example_params) \<noteq> NoStrategy"
    "columns (resolveEditRowLocator example_params) ! 0 = js ''tenant''"
    by (simp_all add: example_locator key_locator_def)
  from resolveRowLocatorValues_correct [OF l(1,2), of example_row] l(3) show ?thesis
    by (simp add: example_first_empty)
qed

end
