(* ===== verification/RedisTree.thy ===== *)
theory RedisTree
  imports JsString "HOL-Library.Multiset" "HOL-Library.Sublist" "HOL-Library.List_Lexorder"
begin

text \<open>
  The tree of Redis keys: \<open>frontend/src/components/redisViewerTree.ts\<close>. Keys are grouped by the
  segments between their colons. The groups of the source are mutable; here inserting a key gives the
  changed group. \<open>localeCompare\<close> compares by the collation of the locale, which is the argument
  \<open>collate\<close>: a string's sort key in a linear order.
\<close>

section \<open>Groups\<close>

record redis_key_info =
  key_name :: jsstr
  key_type :: jsstr
  key_ttl :: int

definition KEY_GROUP_DELIMITER :: jschar where
  "KEY_GROUP_DELIMITER = cu CHR '':''"

definition EMPTY_SEGMENT_LABEL :: jsstr where
  "EMPTY_SEGMENT_LABEL = js ''(empty)''"

type_synonym tree_leaf = "redis_key_info \<times> jsstr"

datatype tree_group =
  Group (group_name: jsstr) (group_path: jsstr) (group_children: "tree_group list") (group_leaves: "tree_leaf list")

definition normalizeKeySegment :: "jsstr \<Rightarrow> jsstr" where
  "normalizeKeySegment segment = (if segment = [] then EMPTY_SEGMENT_LABEL else segment)"

definition createTreeGroup :: "jsstr \<Rightarrow> jsstr \<Rightarrow> tree_group" where
  "createTreeGroup name path = Group name path [] []"

fun calculateGroupLeafCount :: "tree_group \<Rightarrow> nat" where
  "calculateGroupLeafCount (Group name path children leaves) =
     length leaves + sum_list (map calculateGroupLeafCount children)"

text \<open>The children are a \<open>Map\<close> from names: a list in the order of insertion.\<close>

definition get_child :: "jsstr \<Rightarrow> tree_group list \<Rightarrow> tree_group option" where
  "get_child name children = find (\<lambda>c. group_name c = name) children"

fun set_child :: "jsstr \<Rightarrow> tree_group \<Rightarrow> tree_group list \<Rightarrow> tree_group list" where
  "set_child name child [] = [child]"
| "set_child name child (c # cs) = (if group_name c = name then child # cs else c # set_child name child cs)"

fun insert_leaf :: "jsstr list \<Rightarrow> jsstr list \<Rightarrow> tree_leaf \<Rightarrow> tree_group \<Rightarrow> tree_group" where
  "insert_leaf [] pathParts leaf (Group name path children leaves) = Group name path children (leaves @ [leaf])"
| "insert_leaf (segment # segments) pathParts leaf (Group name path children leaves) =
     (let normalized = normalizeKeySegment segment;
          pathParts' = pathParts @ [normalized];
          child = (case get_child normalized children of
                     None \<Rightarrow> createTreeGroup normalized (join [KEY_GROUP_DELIMITER] pathParts')
                   | Some c \<Rightarrow> c)
      in Group name path (set_child normalized (insert_leaf segments pathParts' leaf child) children) leaves)"

definition add_key :: "tree_group \<Rightarrow> redis_key_info \<Rightarrow> tree_group" where
  "add_key root keyInfo =
     (let segments = split_on (\<lambda>c. c = KEY_GROUP_DELIMITER) (key_name keyInfo) in
      if length segments \<le> 1 then insert_leaf [] [] (keyInfo, key_name keyInfo) root
      else insert_leaf (butlast segments) [] (keyInfo, normalizeKeySegment (last segments)) root)"

definition root_group :: "redis_key_info list \<Rightarrow> tree_group" where
  "root_group keys = foldl add_key (createTreeGroup (js ''__root__'') (js ''__root__'')) keys"

section \<open>Nodes\<close>

datatype tree_node =
    GroupNode jsstr jsstr nat "jsstr list" "tree_node list"
  | LeafNode jsstr jsstr redis_key_info

fun node_key :: "tree_node \<Rightarrow> jsstr" where
  "node_key (GroupNode key title leafCount descendants children) = key"
| "node_key (LeafNode key title info) = key"

definition buildLeafNodeKey :: "jsstr \<Rightarrow> jsstr" where
  "buildLeafNodeKey rawKey = js ''key:'' @ rawKey"

definition parseRawKeyFromNodeKey :: "jsstr \<Rightarrow> jsstr option" where
  "parseRawKeyFromNodeKey nodeKey = (if starts_with nodeKey (js ''key:'') then Some (drop 4 nodeKey) else None)"

definition group_node_key :: "jsstr \<Rightarrow> jsstr" where
  "group_node_key path = js ''group:'' @ path"

fun node_raw_keys :: "tree_node \<Rightarrow> jsstr list" where
  "node_raw_keys (GroupNode key title leafCount descendants children) = descendants"
| "node_raw_keys (LeafNode key title info) = (if key_name info = [] then [] else [key_name info])"

definition leaf_node :: "tree_leaf \<Rightarrow> tree_node" where
  "leaf_node leaf = LeafNode (buildLeafNodeKey (key_name (fst leaf))) (snd leaf) (fst leaf)"

text \<open>The nodes of a group's content and the keys of the groups below it, each pushed after those
  inside it.\<close>

function toTreeNodes :: "(jsstr \<Rightarrow> 'k::linorder) \<Rightarrow> bool \<Rightarrow> tree_group \<Rightarrow> tree_node list \<times> jsstr list" where
  "toTreeNodes collate sortLeafNodes (Group name path children leaves) =
     (let childGroups = sort_key (\<lambda>c. collate (group_name c)) children;
          childLeaves = (if sortLeafNodes then sort_key (\<lambda>l. collate (key_name (fst l))) leaves else leaves);
          groupNodes = map (\<lambda>child.
            (let (nodes, keys) = toTreeNodes collate sortLeafNodes child;
                 groupNodeKey = group_node_key (group_path child)
             in (GroupNode groupNodeKey (group_name child) (calculateGroupLeafCount child)
                   (concat (map node_raw_keys nodes)) nodes, keys @ [groupNodeKey]))) childGroups
      in (map fst groupNodes @ map leaf_node childLeaves, concat (map snd groupNodes)))"
  by pat_completeness auto
termination
  by (relation "measure (\<lambda>(c, s, g). size g)") (auto simp: less_Suc_eq_le intro!: trans_le_add1 size_list_estimation')

declare toTreeNodes.simps [simp del]

record redis_tree =
  treeData :: "tree_node list"
  groupKeys :: "jsstr list"

definition buildRedisKeyTree :: "(jsstr \<Rightarrow> 'k::linorder) \<Rightarrow> redis_key_info list \<Rightarrow> bool \<Rightarrow> redis_tree" where
  "buildRedisKeyTree collate keys sortLeafNodes =
     (let (nodes, gkeys) = toTreeNodes collate sortLeafNodes (root_group keys)
      in \<lparr>treeData = nodes, groupKeys = gkeys\<rparr>)"

section \<open>Checked nodes\<close>

text \<open>\<open>Array.from(new Set(xs))\<close>: the first of equal elements stays.\<close>

definition unique :: "'a list \<Rightarrow> 'a list" where
  "unique xs = rev (remdups (rev xs))"

fun applyTreeNodeCheck :: "jsstr list \<Rightarrow> tree_node \<Rightarrow> bool \<Rightarrow> jsstr list" where
  "applyTreeNodeCheck selectedKeys (LeafNode key title info) checked =
     (if key_name info = [] then selectedKeys
      else if checked then unique (selectedKeys @ [key_name info])
      else filter (\<lambda>item. item \<noteq> key_name info) selectedKeys)"
| "applyTreeNodeCheck selectedKeys (GroupNode key title leafCount descendants children) checked =
     (if descendants = [] then selectedKeys
      else if checked then unique (selectedKeys @ descendants)
      else filter (\<lambda>item. item \<notin> set descendants) selectedKeys)"

record checked_state =
  checked :: "jsstr list"
  halfChecked :: "jsstr list"

fun walkGroupStates :: "tree_node list \<Rightarrow> jsstr set \<Rightarrow> checked_state \<Rightarrow> checked_state" where
  "walkGroupStates [] selected st = st"
| "walkGroupStates (LeafNode key title info # nodes) selected st =
     walkGroupStates nodes selected
       (if key_name info \<noteq> [] \<and> key_name info \<in> selected then st\<lparr>checked := RedisTree.checked st @ [key]\<rparr> else st)"
| "walkGroupStates (GroupNode key title leafCount descendants children # nodes) selected st =
     (let st' = walkGroupStates children selected st;
          selectedCount = length (filter (\<lambda>rawKey. rawKey \<in> selected) descendants)
      in walkGroupStates nodes selected
           (if descendants = [] then st'
            else if selectedCount = length descendants then st'\<lparr>checked := RedisTree.checked st' @ [key]\<rparr>
            else if 0 < selectedCount then st'\<lparr>halfChecked := halfChecked st' @ [key]\<rparr>
            else st'))"

definition buildCheckedTreeNodeState :: "jsstr list \<Rightarrow> redis_tree \<Rightarrow> checked_state" where
  "buildCheckedTreeNodeState selectedKeys keyTree =
     walkGroupStates (treeData keyTree) (set selectedKeys) \<lparr>checked = [], halfChecked = []\<rparr>"

fun isGroupFullyChecked :: "tree_node \<Rightarrow> jsstr list \<Rightarrow> bool" where
  "isGroupFullyChecked (LeafNode key title info) selectedKeys = False"
| "isGroupFullyChecked (GroupNode key title leafCount descendants children) selectedKeys =
     (descendants \<noteq> [] \<and> list_all (\<lambda>rawKey. rawKey \<in> set selectedKeys) descendants)"

record renamed_state =
  renamed_keys :: "redis_key_info list"
  selectedKey :: "jsstr option"
  selectedKeys :: "jsstr list"

definition applyRenamedRedisKeyState :: "renamed_state \<Rightarrow> jsstr \<Rightarrow> jsstr \<Rightarrow> renamed_state" where
  "applyRenamedRedisKeyState st oldKey newKey =
     \<lparr>renamed_keys = map (\<lambda>item. if key_name item = oldKey then item\<lparr>key_name := newKey\<rparr> else item) (renamed_keys st),
      selectedKey = (if selectedKey st = Some oldKey then Some newKey else selectedKey st),
      selectedKeys = map (\<lambda>item. if item = oldKey then newKey else item) (selectedKeys st)\<rparr>"

section \<open>Inserting keys\<close>

lemma get_child_name: "get_child name cs = Some c \<Longrightarrow> group_name c = name \<and> c \<in> set cs"
  by (auto simp: get_child_def find_Some_iff)

lemma set_child_names:
  "group_name child = name \<Longrightarrow>
   map group_name (set_child name child cs) =
   (if name \<in> set (map group_name cs) then map group_name cs else map group_name cs @ [name])"
  by (induction cs) auto

lemma get_set_child:
  "group_name child = name \<Longrightarrow> get_child n (set_child name child cs) = (if n = name then Some child else get_child n cs)"
  by (induction cs) (auto simp: get_child_def)

lemma set_set_child: "set (set_child name child cs) \<subseteq> insert child (set cs)"
  by (induction cs) auto

lemma group_name_insert_leaf [simp]: "group_name (insert_leaf segs parts leaf g) = group_name g"
  by (cases segs; cases g) (simp_all add: Let_def)

lemma group_path_insert_leaf [simp]: "group_path (insert_leaf segs parts leaf g) = group_path g"
  by (cases segs; cases g) (simp_all add: Let_def)

text \<open>The keys in a group, and what a set of keys under a path is.\<close>

fun group_infos :: "tree_group \<Rightarrow> redis_key_info multiset" where
  "group_infos (Group name path children leaves) =
     sum_list (map group_infos children) + mset (map fst leaves)"

fun find_group :: "jsstr list \<Rightarrow> tree_group \<Rightarrow> tree_group option" where
  "find_group [] g = Some g"
| "find_group (n # ns) g = (case get_child n (group_children g) of None \<Rightarrow> None | Some c \<Rightarrow> find_group ns c)"

definition under :: "jsstr list \<Rightarrow> tree_group \<Rightarrow> redis_key_info multiset" where
  "under path g = (case find_group path g of None \<Rightarrow> {#} | Some h \<Rightarrow> group_infos h)"

lemma infos_set_child:
  assumes "group_name child = name"
  shows "sum_list (map group_infos (set_child name child cs)) +
           (case get_child name cs of None \<Rightarrow> {#} | Some c \<Rightarrow> group_infos c) =
         sum_list (map group_infos cs) + group_infos child"
  using assms by (induction cs) (auto simp: get_child_def ac_simps)

lemma infos_createTreeGroup [simp]:
  "group_infos (createTreeGroup name path) = {#}" "group_name (createTreeGroup name path) = name"
  "group_path (createTreeGroup name path) = path" "group_children (createTreeGroup name path) = []"
  by (simp_all add: createTreeGroup_def)

lemma infos_insert_leaf: "group_infos (insert_leaf segs parts leaf g) = add_mset (fst leaf) (group_infos g)"
proof (induction segs parts leaf g rule: insert_leaf.induct)
  case (2 seg segs parts leaf name path children leaves)
  let ?n = "normalizeKeySegment seg"
  define child where "child = (case get_child ?n children of
      None \<Rightarrow> createTreeGroup ?n (join [KEY_GROUP_DELIMITER] (parts @ [?n])) | Some c \<Rightarrow> c)"
  have name: "group_name child = ?n"
    by (auto simp: child_def dest: get_child_name split: option.split)
  have infos: "group_infos child = (case get_child ?n children of None \<Rightarrow> {#} | Some c \<Rightarrow> group_infos c)"
    by (simp add: child_def split: option.split)
  have "group_infos (insert_leaf segs (parts @ [?n]) leaf child) = add_mset (fst leaf) (group_infos child)"
    using "2.IH" by (simp add: child_def Let_def)
  with infos_set_child [of "insert_leaf segs (parts @ [?n]) leaf child" ?n children] name
  show ?case
    by (simp add: Let_def child_def [symmetric] infos [symmetric])
qed simp

lemma under_Nil [simp]: "under [] g = group_infos g"
  by (simp add: under_def)

lemma under_createTreeGroup: "under path (createTreeGroup name p) = {#}"
  by (cases path) (simp_all add: under_def get_child_def)

lemma under_Cons: "under (n # ns) g = (case get_child n (group_children g) of None \<Rightarrow> {#} | Some c \<Rightarrow> under ns c)"
  by (simp add: under_def split: option.split)

lemma under_insert_leaf:
  "under path (insert_leaf segs parts leaf g) =
   under path g + (if prefix path (map normalizeKeySegment segs) then {#fst leaf#} else {#})"
proof (induction segs parts leaf g arbitrary: path rule: insert_leaf.induct)
  case (1 parts leaf name p children leaves)
  then show ?case
    by (cases path) (simp_all add: under_Cons)
next
  case (2 seg segs parts leaf name p children leaves)
  let ?n = "normalizeKeySegment seg"
  define child where "child = (case get_child ?n children of
      None \<Rightarrow> createTreeGroup ?n (join [KEY_GROUP_DELIMITER] (parts @ [?n])) | Some c \<Rightarrow> c)"
  have name: "group_name (insert_leaf segs (parts @ [?n]) leaf child) = ?n"
    by (auto simp: child_def dest: get_child_name split: option.split)
  show ?case
  proof (cases path)
    case Nil
    then show ?thesis
      by (simp add: infos_insert_leaf del: insert_leaf.simps)
  next
    case (Cons n ns)
    have "under ns child = (case get_child ?n children of None \<Rightarrow> {#} | Some c \<Rightarrow> under ns c)"
      by (simp add: child_def under_createTreeGroup split: option.split)
    moreover have "under ns (insert_leaf segs (parts @ [?n]) leaf child) =
        under ns child + (if prefix ns (map normalizeKeySegment segs) then {#fst leaf#} else {#})"
      using "2.IH" by (simp add: child_def Let_def)
    ultimately show ?thesis
      using name by (simp add: Cons under_Cons Let_def child_def [symmetric] get_set_child)
  qed
qed

definition key_segments :: "redis_key_info \<Rightarrow> jsstr list" where
  "key_segments k = map normalizeKeySegment (butlast (split_on (\<lambda>c. c = KEY_GROUP_DELIMITER) (key_name k)))"

lemma add_key_insert_leaf:
  "\<exists>label. add_key g k = insert_leaf (butlast (split_on (\<lambda>c. c = KEY_GROUP_DELIMITER) (key_name k))) [] (k, label) g"
  by (cases "split_on (\<lambda>c. c = KEY_GROUP_DELIMITER) (key_name k)" rule: remdups_adj.cases)
     (auto simp: add_key_def Let_def)

lemma under_root_group: "under path (root_group keys) = mset (filter (\<lambda>k. prefix path (key_segments k)) keys)"
proof (induction keys rule: rev_induct)
  case Nil
  then show ?case
    by (simp add: root_group_def under_createTreeGroup)
next
  case (snoc k keys)
  obtain label where
    "add_key (root_group keys) k =
     insert_leaf (butlast (split_on (\<lambda>c. c = KEY_GROUP_DELIMITER) (key_name k))) [] (k, label) (root_group keys)"
    using add_key_insert_leaf by blast
  with snoc show ?case
    by (simp add: root_group_def under_insert_leaf key_segments_def)
qed

text \<open>The children of a group have different names without a colon, and a group's path is the
  names above it.\<close>

fun wf_group :: "jsstr list \<Rightarrow> tree_group \<Rightarrow> bool" where
  "wf_group parts (Group name path children leaves) \<longleftrightarrow>
     distinct (map group_name children) \<and>
     (\<forall>c \<in> set children. KEY_GROUP_DELIMITER \<notin> set (group_name c) \<and>
        group_path c = join [KEY_GROUP_DELIMITER] (parts @ [group_name c]) \<and>
        wf_group (parts @ [group_name c]) c)"

lemma wf_createTreeGroup [simp]: "wf_group parts (createTreeGroup name path)"
  by (simp add: createTreeGroup_def)

lemma normalize_no_delimiter:
  "KEY_GROUP_DELIMITER \<notin> set s \<Longrightarrow> KEY_GROUP_DELIMITER \<notin> set (normalizeKeySegment s)"
  by (auto simp: normalizeKeySegment_def EMPTY_SEGMENT_LABEL_def KEY_GROUP_DELIMITER_def js_def cu_def)

lemma wf_insert_leaf:
  "wf_group parts g \<Longrightarrow> \<forall>s \<in> set segs. KEY_GROUP_DELIMITER \<notin> set s \<Longrightarrow> wf_group parts (insert_leaf segs parts leaf g)"
proof (induction segs parts leaf g rule: insert_leaf.induct)
  case (2 seg segs parts leaf name path children leaves)
  let ?n = "normalizeKeySegment seg"
  define child where "child = (case get_child ?n children of
      None \<Rightarrow> createTreeGroup ?n (join [KEY_GROUP_DELIMITER] (parts @ [?n])) | Some c \<Rightarrow> c)"
  have child: "group_name child = ?n" "group_path child = join [KEY_GROUP_DELIMITER] (parts @ [?n])"
    "wf_group (parts @ [?n]) child"
    using "2.prems"(1) by (auto simp: child_def dest!: get_child_name split: option.split)
  have "wf_group (parts @ [?n]) (insert_leaf segs (parts @ [?n]) leaf child)"
    using "2.IH" "2.prems"(2) child(3) by (simp add: child_def Let_def)
  with "2.prems" child show ?case
    using set_set_child [of ?n "insert_leaf segs (parts @ [?n]) leaf child" children]
    by (auto simp: Let_def child_def [symmetric] set_child_names normalize_no_delimiter)
qed simp

lemma split_on_no_delimiter: "s \<in> set (split_on (\<lambda>c. c = d) t) \<Longrightarrow> d \<notin> set s"
proof (induction t arbitrary: s)
  case (Cons c t)
  then show ?case
    by (cases "split_on (\<lambda>c. c = d) t") (auto split: if_splits)
qed simp

lemma wf_root_group: "wf_group [] (root_group keys)"
proof (induction keys rule: rev_induct)
  case Nil
  then show ?case
    by (simp add: root_group_def)
next
  case (snoc k keys)
  obtain label where
    "add_key (root_group keys) k =
     insert_leaf (butlast (split_on (\<lambda>c. c = KEY_GROUP_DELIMITER) (key_name k))) [] (k, label) (root_group keys)"
    using add_key_insert_leaf by blast
  moreover have "\<forall>s \<in> set (butlast (split_on (\<lambda>c. c = KEY_GROUP_DELIMITER) (key_name k))). KEY_GROUP_DELIMITER \<notin> set s"
    by (auto dest!: in_set_butlastD split_on_no_delimiter)
  ultimately show ?case
    using wf_insert_leaf [OF snoc] by (simp add: root_group_def)
qed

section \<open>The nodes of a tree\<close>

fun node_infos :: "tree_node \<Rightarrow> redis_key_info list" where
  "node_infos (GroupNode key title leafCount descendants children) = concat (map node_infos children)"
| "node_infos (LeafNode key title info) = [info]"

fun group_nodes :: "tree_node \<Rightarrow> tree_node list" where
  "group_nodes (GroupNode key title leafCount descendants children) =
     GroupNode key title leafCount descendants children # concat (map group_nodes children)"
| "group_nodes (LeafNode key title info) = []"

abbreviation raw_keys :: "redis_key_info multiset \<Rightarrow> jsstr multiset" where
  "raw_keys infos \<equiv> filter_mset (\<lambda>k. k \<noteq> []) (image_mset key_name infos)"

definition child_node :: "(jsstr \<Rightarrow> 'k::linorder) \<Rightarrow> bool \<Rightarrow> tree_group \<Rightarrow> tree_node" where
  "child_node collate sort_leaves child =
     (let nodes = fst (toTreeNodes collate sort_leaves child)
      in GroupNode (group_node_key (group_path child)) (group_name child) (calculateGroupLeafCount child)
           (concat (map node_raw_keys nodes)) nodes)"

lemma nodes_of_group:
  "fst (toTreeNodes collate sort_leaves (Group name path children leaves)) =
   map (child_node collate sort_leaves) (sort_key (\<lambda>c. collate (group_name c)) children) @
   map leaf_node (if sort_leaves then sort_key (\<lambda>l. collate (key_name (fst l))) leaves else leaves)"
  by (simp add: toTreeNodes.simps Let_def child_node_def split_beta comp_def)

lemma keys_of_group:
  "snd (toTreeNodes collate sort_leaves (Group name path children leaves)) =
   concat (map (\<lambda>c. snd (toTreeNodes collate sort_leaves c) @ [group_node_key (group_path c)])
     (sort_key (\<lambda>c. collate (group_name c)) children))"
  by (simp add: toTreeNodes.simps Let_def split_beta comp_def)

lemma mset_concat_sort:
  "mset (concat (map f (sort_key k xs))) = sum_list (map (\<lambda>x. mset (f x)) xs)"
proof -
  have m: "mset (concat (map f ys)) = sum_mset (image_mset (\<lambda>x. mset (f x)) (mset ys))"
    and l: "sum_list (map (\<lambda>x. mset (f x)) ys) = sum_mset (image_mset (\<lambda>x. mset (f x)) (mset ys))" for ys
    by (induction ys) simp_all
  show ?thesis
    by (simp add: m l)
qed

lemma node_infos_child_node:
  "node_infos (child_node collate sort_leaves c) = concat (map node_infos (fst (toTreeNodes collate sort_leaves c)))"
  by (simp add: child_node_def Let_def)

lemma mset_leaf_nodes:
  "mset (concat (map node_infos (map leaf_node (if sort_leaves then sort_key k leaves else leaves)))) =
   mset (map fst leaves)"
  by (simp add: comp_def leaf_node_def concat_map_singleton)

lemma infos_toTreeNodes:
  "mset (concat (map node_infos (fst (toTreeNodes collate sort_leaves g)))) = group_infos g"
proof (induction g)
  case (Group name path children leaves)
  then have "sum_list (map (\<lambda>c. mset (node_infos (child_node collate sort_leaves c))) children) =
      sum_list (map group_infos children)"
    by (intro arg_cong [where f = sum_list] map_cong refl) (simp add: node_infos_child_node)
  then show ?case
    unfolding nodes_of_group map_append concat_append mset_append mset_leaf_nodes
    by (simp add: comp_def mset_concat_sort)
qed

lemma node_raw_keys_child_node:
  "node_raw_keys (child_node collate sort_leaves c) = concat (map node_raw_keys (fst (toTreeNodes collate sort_leaves c)))"
  by (simp add: child_node_def Let_def)

lemma filter_sum_list: "filter_mset P (image_mset f (sum_list (map h xs))) = sum_list (map (\<lambda>x. filter_mset P (image_mset f (h x))) xs)"
  by (induction xs) simp_all

lemma raw_leaf_nodes:
  "mset (concat (map node_raw_keys (map leaf_node (if sort_leaves then sort_key k leaves else leaves)))) =
   raw_keys (mset (map fst leaves))"
proof -
  have "mset (concat (map (\<lambda>l. node_raw_keys (leaf_node l)) ls)) = raw_keys (mset (map fst ls))" for ls
    by (induction ls) (simp_all add: leaf_node_def)
  from this [of "if sort_leaves then sort_key k leaves else leaves"] show ?thesis
    by (simp add: comp_def split: if_splits)
qed

lemma raw_keys_toTreeNodes:
  "mset (concat (map node_raw_keys (fst (toTreeNodes collate sort_leaves g)))) = raw_keys (group_infos g)"
proof (induction g)
  case (Group name path children leaves)
  then have "sum_list (map (\<lambda>c. mset (node_raw_keys (child_node collate sort_leaves c))) children) =
      sum_list (map (\<lambda>c. raw_keys (group_infos c)) children)"
    by (intro arg_cong [where f = sum_list] map_cong refl) (simp add: node_raw_keys_child_node)
  then show ?case
    unfolding nodes_of_group map_append concat_append mset_append raw_leaf_nodes
    by (simp add: comp_def mset_concat_sort filter_sum_list)
qed

lemma calculateGroupLeafCount_size: "calculateGroupLeafCount g = size (group_infos g)"
proof (induction g)
  case (Group name path children leaves)
  then have "sum_list (map calculateGroupLeafCount children) = sum_list (map (\<lambda>c. size (group_infos c)) children)"
    by (intro arg_cong [where f = sum_list] map_cong refl) simp
  moreover have "size (sum_list (map group_infos cs)) = sum_list (map (\<lambda>c. size (group_infos c)) cs)" for cs
    by (induction cs) simp_all
  ultimately show ?case
    by simp
qed

text \<open>Every group of nodes stands for a group of keys.\<close>

definition group_node_at :: "(jsstr \<Rightarrow> 'k::linorder) \<Rightarrow> bool \<Rightarrow> jsstr list \<Rightarrow> tree_group \<Rightarrow> tree_node \<Rightarrow> jsstr list \<Rightarrow> bool" where
  "group_node_at collate sort_leaves parts g n path \<longleftrightarrow>
     (\<exists>h. path \<noteq> [] \<and> find_group path g = Some h \<and> n = child_node collate sort_leaves h \<and>
          group_path h = join [KEY_GROUP_DELIMITER] (parts @ path))"

lemma find_distinct:
  "distinct (map f xs) \<Longrightarrow> x \<in> set xs \<Longrightarrow> find (\<lambda>y. f y = f x) xs = Some x"
  by (induction xs) auto

lemma group_nodes_child_node:
  "group_nodes (child_node collate sort_leaves c) =
   child_node collate sort_leaves c # concat (map group_nodes (fst (toTreeNodes collate sort_leaves c)))"
  by (simp add: child_node_def Let_def)

lemma group_nodes_at:
  assumes "wf_group parts g" and "n \<in> set (concat (map group_nodes (fst (toTreeNodes collate sort_leaves g))))"
  shows "\<exists>path. group_node_at collate sort_leaves parts g n path"
  using assms
proof (induction g arbitrary: parts)
  case (Group name path children leaves)
  have "group_nodes (leaf_node l) = []" for l
    by (simp add: leaf_node_def)
  with Group.prems(2) obtain c where c: "c \<in> set children" and n: "n \<in> set (group_nodes (child_node collate sort_leaves c))"
    unfolding nodes_of_group by auto
  have find: "find_group (group_name c # p) (Group name path children leaves) = find_group p c" for p
    using find_distinct [OF _ c, of group_name] Group.prems(1) by (simp add: get_child_def)
  have wf: "wf_group (parts @ [group_name c]) c" "group_path c = join [KEY_GROUP_DELIMITER] (parts @ [group_name c])"
    using Group.prems(1) c by auto
  show ?case
  proof (cases "n = child_node collate sort_leaves c")
    case True
    with find [of "[]"] wf(2) show ?thesis
      unfolding group_node_at_def by (intro exI [of _ "[group_name c]"]) auto
  next
    case False
    with n have "n \<in> set (concat (map group_nodes (fst (toTreeNodes collate sort_leaves c))))"
      by (simp add: group_nodes_child_node)
    from Group.IH [OF c wf(1) this] obtain p h where
      "p \<noteq> []" "find_group p c = Some h" "n = child_node collate sort_leaves h"
      "group_path h = join [KEY_GROUP_DELIMITER] ((parts @ [group_name c]) @ p)"
      unfolding group_node_at_def by blast
    then show ?thesis
      unfolding group_node_at_def using find [of p] by (intro exI [of _ "group_name c # p"] exI [of _ h]) simp
  qed
qed

section \<open>Keys of nodes\<close>

fun all_nodes :: "tree_node \<Rightarrow> tree_node list" where
  "all_nodes (GroupNode key title leafCount descendants children) =
     GroupNode key title leafCount descendants children # concat (map all_nodes children)"
| "all_nodes (LeafNode key title info) = [LeafNode key title info]"

lemma find_group_names:
  "wf_group parts g \<Longrightarrow> find_group path g = Some h \<Longrightarrow> \<forall>s \<in> set path. KEY_GROUP_DELIMITER \<notin> set s"
proof (induction path arbitrary: parts g)
  case (Cons n ns)
  then obtain c where c: "get_child n (group_children g) = Some c" "find_group ns c = Some h"
    by (auto split: option.splits)
  with Cons.prems(1) get_child_name [OF c(1)] have "KEY_GROUP_DELIMITER \<notin> set n" "wf_group (parts @ [n]) c"
    by (cases g; auto)+
  with Cons.IH [OF _ c(2)] show ?case by auto
qed simp

definition key_path :: "jsstr \<Rightarrow> jsstr list" where
  "key_path k = split_on (\<lambda>c. c = KEY_GROUP_DELIMITER) (drop 6 k)"

lemma key_path_group:
  "path \<noteq> [] \<Longrightarrow> \<forall>s \<in> set path. KEY_GROUP_DELIMITER \<notin> set s \<Longrightarrow>
   key_path (group_node_key (join [KEY_GROUP_DELIMITER] path)) = path"
  by (simp add: key_path_def group_node_key_def js_def split_on_join)

lemma distinct_map_sort_key: "distinct (map f (sort_key k xs)) \<longleftrightarrow> distinct (map f xs)"
  by (simp add: distinct_map)

abbreviation group_keys_of :: "tree_node list \<Rightarrow> jsstr list" where
  "group_keys_of nodes \<equiv> map node_key (concat (map group_nodes nodes))"

lemma node_key_child_node [simp]: "node_key (child_node collate sort_leaves c) = group_node_key (group_path c)"
  by (simp add: child_node_def Let_def)

lemma group_keys_path:
  assumes "wf_group parts g" and "\<forall>s \<in> set parts. KEY_GROUP_DELIMITER \<notin> set s"
    and "k \<in> set (group_keys_of (fst (toTreeNodes collate sort_leaves g)))"
  shows "\<exists>path. path \<noteq> [] \<and> key_path k = parts @ path"
proof -
  obtain n where n: "n \<in> set (concat (map group_nodes (fst (toTreeNodes collate sort_leaves g))))" "k = node_key n"
    using assms(3) by auto
  obtain path h where h: "path \<noteq> []" "find_group path g = Some h" "n = child_node collate sort_leaves h"
    "group_path h = join [KEY_GROUP_DELIMITER] (parts @ path)"
    using group_nodes_at [OF assms(1) n(1)] unfolding group_node_at_def by blast
  have "key_path k = parts @ path"
    using n(2) h assms(2) find_group_names [OF assms(1) h(2)] key_path_group [of "parts @ path"] by auto
  with h(1) show ?thesis by blast
qed

lemma group_nodes_leaf_node [simp]: "group_nodes (leaf_node l) = []"
  by (simp add: leaf_node_def)

lemma concat_map_Nil: "concat (map (\<lambda>x. []) xs) = []"
  by simp

lemma group_keys_of_group:
  "group_keys_of (fst (toTreeNodes collate sort_leaves (Group name path children leaves))) =
   concat (map (\<lambda>c. group_node_key (group_path c) # group_keys_of (fst (toTreeNodes collate sort_leaves c)))
     (sort_key (\<lambda>c. collate (group_name c)) children))"
  unfolding nodes_of_group by (simp add: map_concat comp_def group_nodes_child_node)

lemma distinct_group_keys:
  "wf_group parts g \<Longrightarrow> \<forall>s \<in> set parts. KEY_GROUP_DELIMITER \<notin> set s \<Longrightarrow>
   distinct (group_keys_of (fst (toTreeNodes collate sort_leaves g)))"
proof (induction g arbitrary: parts)
  case (Group name path children leaves)
  let ?F = "\<lambda>c. group_node_key (group_path c) # group_keys_of (fst (toTreeNodes collate sort_leaves c))"
  have child: "wf_group (parts @ [group_name c]) c" "\<forall>s \<in> set (parts @ [group_name c]). KEY_GROUP_DELIMITER \<notin> set s"
    "key_path (group_node_key (group_path c)) = parts @ [group_name c]" if "c \<in> set children" for c
    using that Group.prems key_path_group [of "parts @ [group_name c]"] by auto
  have tags: "key_path k ! length parts = group_name c" if "c \<in> set children" "k \<in> set (?F c)" for c k
  proof (cases "k = group_node_key (group_path c)")
    case True
    with child(3) [OF that(1)] show ?thesis by simp
  next
    case False
    with that(2) have "k \<in> set (group_keys_of (fst (toTreeNodes collate sort_leaves c)))" by simp
    from group_keys_path [OF child(1,2) [OF that(1)] this] show ?thesis
      by (auto simp: nth_append)
  qed
  have "distinct (?F c)" if "c \<in> set children" for c
  proof -
    have "group_node_key (group_path c) \<notin> set (group_keys_of (fst (toTreeNodes collate sort_leaves c)))"
      using group_keys_path [OF child(1,2) [OF that]] child(3) [OF that] by fastforce
    with Group.IH [OF that child(1,2) [OF that]] show ?thesis by simp
  qed
  with tags show ?case
    unfolding group_keys_of_group
    using Group.prems(1)
    by (intro distinct_concat_tags [where tag = group_name and tag' = "\<lambda>k. key_path k ! length parts"])
       (simp_all add: distinct_map_sort_key del: set_map)
qed

lemma mset_group_keys:
  "mset (snd (toTreeNodes collate sort_leaves g)) = mset (group_keys_of (fst (toTreeNodes collate sort_leaves g)))"
proof (induction g)
  case (Group name path children leaves)
  then show ?case
    unfolding keys_of_group group_keys_of_group mset_concat_sort
    by (intro arg_cong [where f = sum_list] map_cong refl) simp
qed

lemma image_sum_list: "image_mset f (sum_list (map h xs)) = sum_list (map (\<lambda>x. image_mset f (h x)) xs)"
  by (induction xs) simp_all

lemma all_nodes_keys:
  "mset (map node_key (concat (map all_nodes (fst (toTreeNodes collate sort_leaves g))))) =
   mset (group_keys_of (fst (toTreeNodes collate sort_leaves g))) +
   image_mset (\<lambda>k. buildLeafNodeKey (key_name k)) (group_infos g)"
proof (induction g)
  case (Group name path children leaves)
  let ?K = "\<lambda>c. mset (map node_key (concat (map all_nodes (fst (toTreeNodes collate sort_leaves c)))))"
  have child: "mset (map node_key (all_nodes (child_node collate sort_leaves c))) =
      add_mset (group_node_key (group_path c)) (?K c)" for c
    by (simp add: child_node_def Let_def)
  have leaves: "mset (map node_key (concat (map all_nodes (map leaf_node ls)))) =
      image_mset (\<lambda>k. buildLeafNodeKey (key_name k)) (mset (map fst ls))" for ls
    by (induction ls) (simp_all add: leaf_node_def)
  have "mset (map node_key (concat (map all_nodes (fst (toTreeNodes collate sort_leaves (Group name path children leaves)))))) =
      sum_list (map (\<lambda>c. add_mset (group_node_key (group_path c)) (?K c)) children) +
      image_mset (\<lambda>k. buildLeafNodeKey (key_name k)) (mset (map fst leaves))"
    unfolding nodes_of_group map_append concat_append mset_append leaves
    using child by (simp add: map_concat comp_def mset_concat_sort)
  moreover have "sum_list (map (\<lambda>c. add_mset (group_node_key (group_path c)) (?K c)) children) =
      sum_list (map (\<lambda>c. add_mset (group_node_key (group_path c))
        (mset (group_keys_of (fst (toTreeNodes collate sort_leaves c))))) children) +
      sum_list (map (\<lambda>c. image_mset (\<lambda>k. buildLeafNodeKey (key_name k)) (group_infos c)) children)"
    using Group.IH by (subst sum_list_addf [symmetric]) (intro arg_cong [where f = sum_list] map_cong refl, simp)
  ultimately show ?case
    unfolding group_keys_of_group mset_concat_sort by (simp add: image_sum_list)
qed

section \<open>Correctness\<close>

lemma tree_of_group:
  "treeData (buildRedisKeyTree collate keys sort_leaves) = fst (toTreeNodes collate sort_leaves (root_group keys))"
  "groupKeys (buildRedisKeyTree collate keys sort_leaves) = snd (toTreeNodes collate sort_leaves (root_group keys))"
  by (simp_all add: buildRedisKeyTree_def split_beta)

fun leaf_count :: "tree_node \<Rightarrow> nat" where
  "leaf_count (GroupNode key title leafCount descendants children) = leafCount"
| "leaf_count (LeafNode key title info) = 1"

lemma prefix_key_nonempty: "path \<noteq> [] \<Longrightarrow> prefix path (key_segments k) \<Longrightarrow> key_name k \<noteq> []"
  by (auto simp: key_segments_def)

definition keys_under :: "jsstr list \<Rightarrow> redis_key_info list \<Rightarrow> redis_key_info list" where
  "keys_under path keys = filter (\<lambda>k. prefix path (key_segments k)) keys"

lemma raw_keys_under:
  "path \<noteq> [] \<Longrightarrow> raw_keys (mset (keys_under path keys)) = mset (map key_name (keys_under path keys))"
  using prefix_key_nonempty [of path]
  by (auto simp: keys_under_def filter_mset_eq_conv)

lemma group_node_descendants:
  assumes "n \<in> set (concat (map group_nodes (treeData (buildRedisKeyTree collate keys sort_leaves))))"
  shows "\<exists>path. path \<noteq> [] \<and> node_key n = group_node_key (join [KEY_GROUP_DELIMITER] path) \<and>
           mset (node_raw_keys n) = mset (map key_name (keys_under path keys)) \<and>
           leaf_count n = length (keys_under path keys)"
proof -
  obtain path h where h: "path \<noteq> []" "find_group path (root_group keys) = Some h"
    "n = child_node collate sort_leaves h" "group_path h = join [KEY_GROUP_DELIMITER] path"
    using group_nodes_at [OF wf_root_group assms [unfolded tree_of_group]] unfolding group_node_at_def by auto
  have infos: "group_infos h = mset (keys_under path keys)"
    using under_root_group [of path keys] h(2) by (simp add: under_def keys_under_def)
  have "mset (node_raw_keys n) = mset (map key_name (keys_under path keys))"
    using raw_keys_under [OF h(1), of keys] infos by (simp only: h(3) node_raw_keys_child_node raw_keys_toTreeNodes)
  moreover have "leaf_count n = length (keys_under path keys)"
    using infos by (simp add: h(3) child_node_def Let_def calculateGroupLeafCount_size)
  ultimately show ?thesis
    using h by auto
qed

text \<open>C22: the tree shows each key once; a group stands for a path of segments, what is selected with
  it are the keys whose segments start with this path, and the number it shows is the number of
  these keys.\<close>

theorem buildRedisKeyTree_correct:
  "mset (concat (map node_infos (treeData (buildRedisKeyTree collate keys sort_leaves)))) = mset keys \<and>
   (\<forall>n \<in> set (concat (map group_nodes (treeData (buildRedisKeyTree collate keys sort_leaves)))).
      \<exists>path. path \<noteq> [] \<and> node_key n = group_node_key (join [KEY_GROUP_DELIMITER] path) \<and>
        mset (node_raw_keys n) = mset (map key_name (filter (\<lambda>k. prefix path (key_segments k)) keys)) \<and>
        leaf_count n = length (filter (\<lambda>k. prefix path (key_segments k)) keys))"
proof (intro conjI ballI)
  show "mset (concat (map node_infos (treeData (buildRedisKeyTree collate keys sort_leaves)))) = mset keys"
    using infos_toTreeNodes [of collate sort_leaves "root_group keys"] under_root_group [of "[]" keys]
    by (simp add: tree_of_group)
qed (rule group_node_descendants [unfolded keys_under_def])

lemma tree_keys_distinct:
  assumes "distinct (map key_name keys)"
  shows "distinct (map node_key (concat (map all_nodes (treeData (buildRedisKeyTree collate keys sort_leaves)))))"
proof -
  let ?nodes = "fst (toTreeNodes collate sort_leaves (root_group keys))"
  let ?leaf = "\<lambda>k :: redis_key_info. buildLeafNodeKey (key_name k)"
  have infos: "group_infos (root_group keys) = mset keys"
    using under_root_group [of "[]" keys] by simp
  have leaves: "distinct (map ?leaf keys)"
    using assms by (induction keys) (auto simp: buildLeafNodeKey_def)
  have ne: "?leaf k \<noteq> group_node_key p" for k p
    by (simp add: buildLeafNodeKey_def group_node_key_def js_def cu_def)
  have gk: "\<exists>p. m = group_node_key p" if m: "m \<in> set (group_keys_of ?nodes)" for m
  proof -
    obtain n where "n \<in> set (concat (map group_nodes ?nodes))" "m = node_key n"
      using m by auto
    with group_nodes_at [OF wf_root_group this(1)] show ?thesis
      unfolding group_node_at_def by (metis node_key_child_node)
  qed
  have "set (group_keys_of ?nodes) \<inter> set (map ?leaf keys) = {}"
  proof (rule equals0I)
    fix m
    assume m: "m \<in> set (group_keys_of ?nodes) \<inter> set (map ?leaf keys)"
    obtain p where "m = group_node_key p"
      using gk [OF IntD1 [OF m]] by blast
    moreover obtain k where "m = ?leaf k"
      using IntD2 [OF m] by auto
    ultimately show False
      using ne [of k p] by simp
  qed
  moreover have "distinct (group_keys_of ?nodes)"
    by (rule distinct_group_keys [OF wf_root_group]) simp
  ultimately have "distinct (group_keys_of ?nodes @ map ?leaf keys)"
    using leaves by (simp only: distinct_append simp_thms)
  moreover have "mset (map node_key (concat (map all_nodes ?nodes))) = mset (group_keys_of ?nodes @ map ?leaf keys)"
    using all_nodes_keys [of collate sort_leaves "root_group keys"] by (simp add: infos)
  ultimately show ?thesis
    unfolding tree_of_group by (metis mset_eq_imp_distinct_iff)
qed

text \<open>With different keys, no two nodes of the tree have the same key, as the tree widget needs,
  and the group keys are those of the groups.\<close>

theorem redis_tree_keys_unique:
  assumes "distinct (map key_name keys)"
  shows "distinct (map node_key (concat (map all_nodes (treeData (buildRedisKeyTree collate keys sort_leaves))))) \<and>
         mset (groupKeys (buildRedisKeyTree collate keys sort_leaves)) =
           mset (map node_key (concat (map group_nodes (treeData (buildRedisKeyTree collate keys sort_leaves)))))"
  using tree_keys_distinct [OF assms] mset_group_keys [of collate sort_leaves "root_group keys"]
  by (simp add: tree_of_group)

section \<open>Selection\<close>

lemma set_unique [simp]: "set (unique xs) = set xs"
  by (simp add: unique_def)

lemma applyTreeNodeCheck_set:
  "set (applyTreeNodeCheck sel n c) =
   (if c then set sel \<union> set (node_raw_keys n) else set sel - set (node_raw_keys n))"
  by (cases n) auto

lemma length_filter_all: "length (filter P xs) = length xs \<longleftrightarrow> (\<forall>x \<in> set xs. P x)"
  by (metis filter_id_conv length_filter_less nat_less_le)

definition fully :: "jsstr set \<Rightarrow> tree_node \<Rightarrow> bool" where
  "fully S n \<longleftrightarrow> node_raw_keys n \<noteq> [] \<and> set (node_raw_keys n) \<subseteq> S"

definition partially :: "jsstr set \<Rightarrow> tree_node \<Rightarrow> bool" where
  "partially S n \<longleftrightarrow> set (node_raw_keys n) \<inter> S \<noteq> {} \<and> \<not> set (node_raw_keys n) \<subseteq> S"

lemma image_insert_filter:
  "f ` {n \<in> insert m A. P n} = (if P m then insert (f m) (f ` {n \<in> A. P n}) else f ` {n \<in> A. P n})"
  by auto

lemma leaf_fully_partially:
  "fully S (LeafNode key title info) \<longleftrightarrow> key_name info \<noteq> [] \<and> key_name info \<in> S"
  "\<not> partially S (LeafNode key title info)"
  by (auto simp: fully_def partially_def)

abbreviation keys_where :: "(tree_node \<Rightarrow> bool) \<Rightarrow> tree_node list \<Rightarrow> jsstr set" where
  "keys_where P nodes \<equiv> node_key ` {n \<in> set (concat (map all_nodes nodes)). P n}"

lemma keys_where_Leaf:
  "keys_where P (LeafNode key title info # nodes) =
   (if P (LeafNode key title info) then {key} else {}) \<union> keys_where P nodes"
  using image_insert_filter [of node_key "LeafNode key title info" "set (concat (map all_nodes nodes))" P] by simp

lemma keys_where_Group:
  "keys_where P (GroupNode key title leafCount descendants children # nodes) =
   (if P (GroupNode key title leafCount descendants children) then {key} else {}) \<union>
   keys_where P children \<union> keys_where P nodes"
proof -
  have "set (concat (map all_nodes (GroupNode key title leafCount descendants children # nodes))) =
      insert (GroupNode key title leafCount descendants children)
        (set (concat (map all_nodes children)) \<union> set (concat (map all_nodes nodes)))"
    by auto
  then show ?thesis
    by (simp only: image_insert_filter) auto
qed

lemma step_sets: "A = B \<union> K \<Longrightarrow> B = C \<union> N \<Longrightarrow> C = D \<union> L \<Longrightarrow> A = D \<union> (N \<union> L \<union> K)"
  by auto

lemma walkGroupStates_sets:
  "set (checked (walkGroupStates nodes S st)) = set (checked st) \<union> keys_where (fully S) nodes \<and>
   set (halfChecked (walkGroupStates nodes S st)) = set (halfChecked st) \<union> keys_where (partially S) nodes"
proof (induction nodes S st rule: walkGroupStates.induct)
  case (1 S st)
  then show ?case by simp
next
  case (2 key title info nodes S st)
  then show ?case
    unfolding keys_where_Leaf by (auto simp: leaf_fully_partially)
next
  case (3 key title leafCount descendants children nodes S st)
  let ?n = "GroupNode key title leafCount descendants children"
  let ?st = "walkGroupStates children S st"
  let ?st' = "(if descendants = [] then ?st
            else if length (filter (\<lambda>rawKey. rawKey \<in> S) descendants) = length descendants
              then ?st\<lparr>checked := checked ?st @ [key]\<rparr>
            else if 0 < length (filter (\<lambda>rawKey. rawKey \<in> S) descendants)
              then ?st\<lparr>halfChecked := halfChecked ?st @ [key]\<rparr> else ?st)"
  have own: "set (checked ?st') = set (checked ?st) \<union> (if fully S ?n then {key} else {})"
    "set (halfChecked ?st') = set (halfChecked ?st) \<union> (if partially S ?n then {key} else {})"
    by (auto simp: fully_def partially_def length_filter_all filter_empty_conv)
  have walk: "walkGroupStates (?n # nodes) S st = walkGroupStates nodes S ?st'"
    by (simp add: Let_def)
  note IH = "3.IH"(1) "3.IH"(2) [OF refl refl]
  show ?case
    unfolding walk keys_where_Group
    by (intro conjI step_sets [OF conjunct1 [OF IH(2)] own(1) conjunct1 [OF IH(1)]]
        step_sets [OF conjunct2 [OF IH(2)] own(2) conjunct2 [OF IH(1)]])
qed

text \<open>After a node is checked, the tree shows it checked; after it is unchecked, the tree shows it
  neither checked nor half checked. A node is shown checked exactly when all its keys are selected, and
  half checked when some are; checking touches no other key.\<close>

theorem applyTreeNodeCheck_correct:
  assumes "distinct (map key_name keys)" and "t = buildRedisKeyTree collate keys sort_leaves"
    and "n \<in> set (concat (map all_nodes (treeData t)))" and "node_raw_keys n \<noteq> []"
  shows "node_key n \<in> set (checked (buildCheckedTreeNodeState (applyTreeNodeCheck sel n True) t)) \<and>
         node_key n \<notin> set (checked (buildCheckedTreeNodeState (applyTreeNodeCheck sel n False) t)) \<and>
         node_key n \<notin> set (halfChecked (buildCheckedTreeNodeState (applyTreeNodeCheck sel n False) t)) \<and>
         set (applyTreeNodeCheck sel n True) = set sel \<union> set (node_raw_keys n) \<and>
         set (applyTreeNodeCheck sel n False) = set sel - set (node_raw_keys n) \<and>
         (node_key n \<in> set (checked (buildCheckedTreeNodeState sel t)) \<longleftrightarrow> set (node_raw_keys n) \<subseteq> set sel)"
proof -
  have inj: "node_key m = node_key n \<longleftrightarrow> m = n" if "m \<in> set (concat (map all_nodes (treeData t)))" for m
    using tree_keys_distinct [OF assms(1), of collate sort_leaves] that assms(2,3)
    by (metis distinct_map inj_onD)
  have shown: "node_key n \<in> set (checked (buildCheckedTreeNodeState s t)) \<longleftrightarrow> fully (set s) n"
    "node_key n \<in> set (halfChecked (buildCheckedTreeNodeState s t)) \<longleftrightarrow> partially (set s) n" for s
    unfolding buildCheckedTreeNodeState_def
    using walkGroupStates_sets [of "treeData t" "set s" "\<lparr>checked = [], halfChecked = []\<rparr>"] inj assms(3)
    by (force simp: image_iff)+
  obtain k where "k \<in> set (node_raw_keys n)"
    using assms(4) by (cases "node_raw_keys n") auto
  then show ?thesis
    using assms(4) by (auto simp: shown applyTreeNodeCheck_set fully_def partially_def)
qed

section \<open>An example\<close>

definition example_keys :: "redis_key_info list" where
  "example_keys = map (\<lambda>k. \<lparr>key_name = js k, key_type = js ''string'', key_ttl = -1\<rparr>)
     [''user:1:name'', ''user:2'', ''a::b'', ''user:1:age'', ''plain'']"

definition example_tree :: redis_tree where
  "example_tree = buildRedisKeyTree (\<lambda>s. s) example_keys True"

lemma example_groups:
  "map node_key (concat (map group_nodes (treeData example_tree))) =
   map js [''group:a'', ''group:a:(empty)'', ''group:user'', ''group:user:1'']"
  by code_simp

definition example_node :: tree_node where
  "example_node = concat (map group_nodes (treeData example_tree)) ! 3"

lemma example_node_facts:
  "node_key example_node = js ''group:user:1''" "node_raw_keys example_node = map js [''user:1:age'', ''user:1:name'']"
  by code_simp+

lemma example_distinct: "distinct (map key_name example_keys)"
  by code_simp

theorem buildRedisKeyTree_correct_witness:
  "\<exists>path. path \<noteq> [] \<and> node_key example_node = group_node_key (join [KEY_GROUP_DELIMITER] path) \<and>
     mset (node_raw_keys example_node) =
       mset (map key_name (filter (\<lambda>k. prefix path (key_segments k)) example_keys))"
proof -
  have "example_node \<in> set (concat (map group_nodes (treeData example_tree)))"
    by code_simp
  then show ?thesis
    using buildRedisKeyTree_correct [where collate = "\<lambda>s. s" and sort_leaves = True and keys = example_keys] unfolding example_tree_def by blast
qed

theorem redis_tree_keys_unique_witness:
  "distinct (map node_key (concat (map all_nodes (treeData example_tree))))"
  using redis_tree_keys_unique [OF example_distinct, where collate = "\<lambda>s. s" and sort_leaves = True] by (simp add: example_tree_def)

theorem applyTreeNodeCheck_correct_witness:
  "node_key example_node \<in>
     set (checked (buildCheckedTreeNodeState (applyTreeNodeCheck [js ''plain''] example_node True) example_tree))"
proof -
  have n: "example_node \<in> set (concat (map all_nodes (treeData example_tree)))" "node_raw_keys example_node \<noteq> []"
    by code_simp+
  from applyTreeNodeCheck_correct [OF example_distinct example_tree_def n] show ?thesis
    by blast
qed

text \<open>The empty key, which Redis allows, cannot be selected in the tree.\<close>

lemma empty_key_not_selectable:
  "applyTreeNodeCheck sel (leaf_node (\<lparr>key_name = [], key_type = t, key_ttl = n\<rparr>, l)) True = sel"
  by (simp add: leaf_node_def)

text \<open>Renaming a key in the tree's state is renaming it in the key list and in the selection.\<close>

lemma applyRenamed_names:
  "map key_name (renamed_keys (applyRenamedRedisKeyState st old new)) =
   map (\<lambda>k. if k = old then new else k) (map key_name (renamed_keys st))"
  by (simp add: applyRenamedRedisKeyState_def)

lemma applyRenamed_selected:
  assumes "set (selectedKeys st) \<subseteq> set (map key_name (renamed_keys st))"
  shows "set (selectedKeys (applyRenamedRedisKeyState st old new)) \<subseteq>
         set (map key_name (renamed_keys (applyRenamedRedisKeyState st old new)))"
proof -
  have "selectedKeys (applyRenamedRedisKeyState st old new) = map (\<lambda>k. if k = old then new else k) (selectedKeys st)"
    by (simp add: applyRenamedRedisKeyState_def)
  with image_mono [OF assms, of "\<lambda>k. if k = old then new else k"] show ?thesis
    unfolding applyRenamed_names by (simp only: set_map)
qed

lemma parse_buildLeafNodeKey: "parseRawKeyFromNodeKey (buildLeafNodeKey k) = Some k"
  by (simp add: parseRawKeyFromNodeKey_def buildLeafNodeKey_def starts_with_def starts_with_at_def js_def)

end
