(* ===== verification/GridFind.thy ===== *)
theory GridFind
  imports JsString
begin

text \<open>
  Finding text in the data grid: \<open>frontend/src/utils/dataGridFind.ts\<close>. The text of a cell is what
  \<open>getCellText\<close> gives for a row and a column name; rows are opaque. \<open>toLocaleLowerCase\<close> is the case
  folding of the library's strings. The render version attached to rows is not modelled.
\<close>

section \<open>Ranges in a text\<close>

record text_range =
  range_from :: nat
  range_to :: nat

definition normalizeDataGridFindQuery :: "jsstr \<Rightarrow> jsstr" where
  "normalizeDataGridFindQuery value = (if trim value = [] then [] else value)"

text \<open>A round of the loop; without a match the loop is left.\<close>

definition find_body ::
  "jsstr \<Rightarrow> jsstr \<Rightarrow> nat \<Rightarrow> nat \<Rightarrow> nat \<Rightarrow> text_range list \<Rightarrow> nat \<times> text_range list" where
  "find_body lowerSource lowerQuery sourceLength queryLength startIndex ranges =
     (case index_of lowerSource lowerQuery startIndex of
        None \<Rightarrow> (sourceLength, ranges)
      | Some matchIndex \<Rightarrow>
          (matchIndex + queryLength,
           ranges @ [\<lparr>range_from = matchIndex, range_to = matchIndex + queryLength\<rparr>]))"

definition findDataGridTextRanges :: "jsstr \<Rightarrow> jsstr \<Rightarrow> text_range list" where
  "findDataGridTextRanges source query =
     (let normalizedQuery = normalizeDataGridFindQuery query in
      if source = [] \<or> normalizedQuery = [] then []
      else snd (loop (length source)
             (find_body (to_lower source) (to_lower normalizedQuery) (length source) (length normalizedQuery)) 0 []))"

interpretation find_loop: advancing n "find_body ls lq n (Suc k)" "\<lambda>_. True"
  by unfold_locales (auto simp: find_body_def split: option.splits dest: index_of_Some(1))

section \<open>Matches in a grid\<close>

record find_match =
  match_from :: nat
  match_to :: nat
  rowIndex :: nat
  rowKey :: jsstr
  columnName :: jsstr
  columnIndex :: nat
  occurrenceIndex :: nat

record find_summary =
  matchedCellCount :: nat
  occurrenceCount :: nat

definition count_cell :: "('row \<Rightarrow> jsstr \<Rightarrow> jsstr) \<Rightarrow> jsstr \<Rightarrow> 'row \<Rightarrow> find_summary \<Rightarrow> jsstr \<Rightarrow> find_summary" where
  "count_cell getCellText query row summary column =
     (let ranges = findDataGridTextRanges (getCellText row column) query in
      if ranges \<noteq> []
      then \<lparr>matchedCellCount = matchedCellCount summary + 1, occurrenceCount = occurrenceCount summary + length ranges\<rparr>
      else summary)"

definition summarizeDataGridFindMatches ::
  "'row list \<Rightarrow> jsstr list \<Rightarrow> jsstr \<Rightarrow> ('row \<Rightarrow> jsstr \<Rightarrow> jsstr) \<Rightarrow> find_summary" where
  "summarizeDataGridFindMatches rows columnNames query getCellText =
     (let normalizedQuery = normalizeDataGridFindQuery query in
      if normalizedQuery = [] then \<lparr>matchedCellCount = 0, occurrenceCount = 0\<rparr>
      else foldl (\<lambda>summary row. foldl (count_cell getCellText normalizedQuery row) summary columnNames)
             \<lparr>matchedCellCount = 0, occurrenceCount = 0\<rparr> rows)"

definition cell_matches ::
  "('row \<Rightarrow> jsstr \<Rightarrow> jsstr) \<Rightarrow> jsstr \<Rightarrow> nat \<Rightarrow> 'row \<Rightarrow> jsstr \<Rightarrow> nat \<Rightarrow> jsstr \<Rightarrow> find_match list" where
  "cell_matches getCellText query i row key j column =
     map (\<lambda>(occurrence, r).
         \<lparr>match_from = range_from r, match_to = range_to r, rowIndex = i, rowKey = key,
          columnName = column, columnIndex = j, occurrenceIndex = occurrence\<rparr>)
       (enumerate 0 (findDataGridTextRanges (getCellText row column) query))"

definition collectDataGridFindMatches ::
  "'row list \<Rightarrow> jsstr list \<Rightarrow> jsstr \<Rightarrow> ('row \<Rightarrow> jsstr \<Rightarrow> jsstr) \<Rightarrow> ('row \<Rightarrow> nat \<Rightarrow> jsstr) \<Rightarrow> find_match list" where
  "collectDataGridFindMatches rows columnNames query getCellText getRowKey =
     (let normalizedQuery = normalizeDataGridFindQuery query in
      if normalizedQuery = [] then []
      else concat (map (\<lambda>(i, row).
             concat (map (\<lambda>(j, column). cell_matches getCellText normalizedQuery i row (getRowKey row i) j column)
               (enumerate 0 columnNames))) (enumerate 0 rows)))"

section \<open>Navigation\<close>

datatype find_direction = Previous | Next

definition resolveDataGridFindNavigationIndex :: "int \<Rightarrow> int \<Rightarrow> find_direction \<Rightarrow> int" where
  "resolveDataGridFindNavigationIndex currentIndex matchCount direction =
     (if matchCount \<le> 0 then -1
      else case direction of
        Previous \<Rightarrow> if currentIndex \<le> 0 then matchCount - 1 else currentIndex - 1
      | Next \<Rightarrow> if currentIndex < 0 \<or> matchCount - 1 \<le> currentIndex then 0 else currentIndex + 1)"

definition resolveDataGridColumnQuickFindTarget :: "jsstr list \<Rightarrow> jsstr \<Rightarrow> jsstr" where
  "resolveDataGridColumnQuickFindTarget columnNames query =
     (let normalizedQuery = normalizeDataGridFindQuery query in
      if normalizedQuery = [] then []
      else (case find (\<lambda>c. normalizeDataGridFindQuery c = normalizedQuery) columnNames of
              Some c \<Rightarrow> c
            | None \<Rightarrow> (case find (\<lambda>c. includes_str (normalizeDataGridFindQuery c) normalizedQuery) columnNames of
                         Some c \<Rightarrow> c | None \<Rightarrow> [])))"

section \<open>Correctness of the ranges\<close>

definition found :: "jsstr \<Rightarrow> jsstr \<Rightarrow> nat \<Rightarrow> text_range list \<Rightarrow> bool" where
  "found ls lq i rs \<longleftrightarrow>
     (\<forall>r \<in> set rs. starts_with_at ls lq (range_from r) \<and> range_to r = range_from r + length lq \<and> range_to r \<le> i) \<and>
     sorted_wrt (\<lambda>r r'. range_to r \<le> range_from r') rs \<and>
     (\<forall>j. starts_with_at ls lq j \<and> j < i \<longrightarrow> (\<exists>r \<in> set rs. range_from r \<le> j \<and> j < range_to r))"

lemma found_step:
  assumes "found ls lq i rs" and "i < length ls" and "lq \<noteq> []"
  shows "found ls lq (fst (find_body ls lq (length ls) (length lq) i rs)) (snd (find_body ls lq (length ls) (length lq) i rs))"
proof (cases "index_of ls lq i")
  case None
  then have "\<not> starts_with_at ls lq j" if "i \<le> j" for j
    using that starts_with_at_bound [of ls lq j] assms(3) by (auto simp: index_of_None)
  with assms None show ?thesis
    by (fastforce simp: found_def find_body_def not_less)
next
  case (Some m)
  note m = index_of_Some [OF Some]
  have "\<exists>r \<in> set (rs @ [\<lparr>range_from = m, range_to = m + length lq\<rparr>]). range_from r \<le> j \<and> j < range_to r"
    if j: "starts_with_at ls lq j" "j < m + length lq" for j
  proof (cases "j < i")
    case True
    with assms(1) j show ?thesis by (auto simp: found_def)
  next
    case False
    with index_of_least [OF Some, of j] j have "m \<le> j" by (meson not_less)
    with j show ?thesis by auto
  qed
  moreover have "\<forall>r \<in> set rs. range_to r \<le> m"
    using assms(1) m(1) by (fastforce simp: found_def)
  ultimately show ?thesis
    using assms(1) m Some unfolding found_def by (auto simp: find_body_def sorted_wrt_append)
qed

lemma findDataGridTextRanges_found:
  assumes "length (to_lower source) = length source" and "length (to_lower query) = length query"
    and "trim query \<noteq> []"
  shows "found (to_lower source) (to_lower query) (length source) (findDataGridTextRanges source query)"
proof (cases "source = []")
  case True
  have q: "query \<noteq> []" using assms(3) by (auto simp: trim_def trim_start_def trim_end_def)
  with assms(2) have "to_lower query \<noteq> []" by auto
  with True show ?thesis
    by (auto simp: found_def findDataGridTextRanges_def dest: starts_with_at_bound)
next
  case False
  have q: "query \<noteq> []" using assms(3) by (auto simp: trim_def trim_start_def trim_end_def)
  with assms(2) have lq: "to_lower query \<noteq> []" by auto
  let ?body = "find_body (to_lower source) (to_lower query) (length source) (length query)"
  let ?r = "loop (length source) ?body 0 []"
  obtain k where k: "length query = Suc k" using q by (cases query) auto
  have "found (to_lower source) (to_lower query) (fst ?r) (snd ?r) \<and> True \<and> length source \<le> fst ?r"
    unfolding k
  proof (rule find_loop.loop_induct)
    show "found (to_lower source) (to_lower query) 0 []" by (simp add: found_def)
  next
    fix i rs
    assume "i < length source" "found (to_lower source) (to_lower query) i rs"
    with found_step [of "to_lower source" "to_lower query" i rs] lq assms(1,2) k
    show "found (to_lower source) (to_lower query)
        (fst (find_body (to_lower source) (to_lower query) (length source) (Suc k) i rs))
        (snd (find_body (to_lower source) (to_lower query) (length source) (Suc k) i rs))"
      by simp
  qed simp
  then have f: "found (to_lower source) (to_lower query) (fst ?r) (snd ?r)" "length source \<le> fst ?r"
    by simp_all
  have "range_to r \<le> length source" if "r \<in> set (snd ?r)" for r
    using f(1) that starts_with_at_bound [OF _ lq, of "to_lower source" "range_from r"] assms(1)
    by (auto simp: found_def)
  moreover have "j < length source" if "starts_with_at (to_lower source) (to_lower query) j" for j
    using starts_with_at_bound [OF that lq] assms(1) lq by (cases "to_lower query") auto
  ultimately have "found (to_lower source) (to_lower query) (length source) (snd ?r)"
    using f unfolding found_def by (meson less_le_trans)
  with False q assms(3) show ?thesis
    by (simp add: findDataGridTextRanges_def normalizeDataGridFindQuery_def Let_def)
qed

text \<open>Without the capital dotted I, which has two units in lower case, folding keeps positions.\<close>

lemma to_lower_map: "304 \<notin> set s \<Longrightarrow> to_lower s = map (\<lambda>c. hd (lower_unit c)) s"
  by (induction s) (auto simp: to_lower_def lower_unit_def)

lemma starts_with_slice:
  assumes "304 \<notin> set source" and "304 \<notin> set query"
  shows "starts_with_at (to_lower source) (to_lower query) j \<longleftrightarrow>
         to_lower (slice source j (j + length query)) = to_lower query"
proof -
  have "304 \<notin> set (slice source j (j + length query))"
    using assms(1) by (auto simp: slice_def dest: in_set_takeD in_set_dropD)
  with assms show ?thesis
    by (simp add: starts_with_at_def to_lower_map slice_def take_map drop_map)
qed

text \<open>C23: the ranges found in a cell are occurrences of the query up to case, they are in the text, in
  order and do not overlap, and every occurrence starts inside one of them, for texts in which lower
  case does not move characters.\<close>

theorem findDataGridTextRanges_correct:
  assumes "304 \<notin> set source" and "304 \<notin> set query" and "trim query \<noteq> []"
  shows "(\<forall>r \<in> set (findDataGridTextRanges source query).
            range_to r = range_from r + length query \<and> range_to r \<le> length source \<and>
            to_lower (slice source (range_from r) (range_to r)) = to_lower query) \<and>
         sorted_wrt (\<lambda>r r'. range_to r \<le> range_from r') (findDataGridTextRanges source query) \<and>
         (\<forall>j < length source. to_lower (slice source j (j + length query)) = to_lower query \<longrightarrow>
            (\<exists>r \<in> set (findDataGridTextRanges source query). range_from r \<le> j \<and> j < range_to r))"
proof -
  have len: "length (to_lower source) = length source" "length (to_lower query) = length query"
    using assms by (simp_all add: to_lower_map)
  have "found (to_lower source) (to_lower query) (length source) (findDataGridTextRanges source query)"
    by (rule findDataGridTextRanges_found [OF len assms(3)])
  then show ?thesis
    unfolding found_def len using starts_with_slice [OF assms(1,2)] by auto
qed

text \<open>With it, they are shifted: the letter x is looked for behind the end of the text.\<close>

lemma dotted_I_shifts: "findDataGridTextRanges [304, 120] [120] = [\<lparr>range_from = 2, range_to = 3\<rparr>]"
  by code_simp

theorem findDataGridTextRanges_correct_witness:
  "range_from (findDataGridTextRanges (js ''aAbaaa'') (js ''Aa'') ! 0) = 0 \<and>
   (\<exists>r \<in> set (findDataGridTextRanges (js ''aAbaaa'') (js ''Aa'')). range_from r \<le> 4 \<and> 4 < range_to r)"
proof -
  have a: "304 \<notin> set (js ''aAbaaa'')" "304 \<notin> set (js ''Aa'')" "trim (js ''Aa'') \<noteq> []"
    "4 < length (js ''aAbaaa'')"
    "to_lower (slice (js ''aAbaaa'') 4 (4 + length (js ''Aa''))) = to_lower (js ''Aa'')"
    "range_from (findDataGridTextRanges (js ''aAbaaa'') (js ''Aa'') ! 0) = 0"
    by code_simp+
  from findDataGridTextRanges_correct [OF a(1-3)] a(4-6) show ?thesis by blast
qed

section \<open>Correctness of the matches\<close>

lemma normalize_twice [simp]: "normalizeDataGridFindQuery (normalizeDataGridFindQuery q) = normalizeDataGridFindQuery q"
  by (simp add: normalizeDataGridFindQuery_def trim_def trim_start_def trim_end_def)

definition ranges_at :: "'row list \<Rightarrow> jsstr list \<Rightarrow> jsstr \<Rightarrow> ('row \<Rightarrow> jsstr \<Rightarrow> jsstr) \<Rightarrow> nat \<Rightarrow> nat \<Rightarrow> text_range list" where
  "ranges_at rows cols query text_of i j = findDataGridTextRanges (text_of (rows ! i) (cols ! j)) query"

lemma enumerate_nth_map: "map f (enumerate 0 xs) = map (\<lambda>i. f (i, xs ! i)) [0..<length xs]"
  by (rule nth_equalityI) (simp_all add: nth_enumerate_eq)

lemma count_row:
  "matchedCellCount (foldl (count_cell text_of query row) s cols) =
     matchedCellCount s + length (filter (\<lambda>c. findDataGridTextRanges (text_of row c) query \<noteq> []) cols) \<and>
   occurrenceCount (foldl (count_cell text_of query row) s cols) =
     occurrenceCount s + sum_list (map (\<lambda>c. length (findDataGridTextRanges (text_of row c) query)) cols)"
  by (induction cols arbitrary: s) (auto simp: count_cell_def Let_def)

lemma count_rows:
  "matchedCellCount (foldl (\<lambda>s row. foldl (count_cell text_of query row) s cols) s rows) =
     matchedCellCount s +
     sum_list (map (\<lambda>row. length (filter (\<lambda>c. findDataGridTextRanges (text_of row c) query \<noteq> []) cols)) rows) \<and>
   occurrenceCount (foldl (\<lambda>s row. foldl (count_cell text_of query row) s cols) s rows) =
     occurrenceCount s +
     sum_list (map (\<lambda>row. sum_list (map (\<lambda>c. length (findDataGridTextRanges (text_of row c) query)) cols)) rows)"
  by (induction rows arbitrary: s) (simp_all add: count_row)

lemma length_cell_matches: "length (cell_matches text_of query i row key j c) = length (findDataGridTextRanges (text_of row c) query)"
  by (simp add: cell_matches_def)

lemma sum_list_nth_set: "sum_list (map f xs) = (\<Sum>i<length xs. f (xs ! i))"
  by (simp add: sum_list_sum_nth atLeast0LessThan)

lemma length_filter_sum: "length (filter P xs) = sum_list (map (\<lambda>x. if P x then 1 else 0) xs)"
  by (induction xs) simp_all

text \<open>The matches of a query, cell by cell.\<close>

definition match_at :: "'row list \<Rightarrow> jsstr list \<Rightarrow> ('row \<Rightarrow> nat \<Rightarrow> jsstr) \<Rightarrow> nat \<Rightarrow> nat \<Rightarrow> nat \<times> text_range \<Rightarrow> find_match" where
  "match_at rows cols key i j e =
     \<lparr>match_from = range_from (snd e), match_to = range_to (snd e), rowIndex = i, rowKey = key (rows ! i) i,
      columnName = cols ! j, columnIndex = j, occurrenceIndex = fst e\<rparr>"

lemma collect_cells:
  assumes "normalizeDataGridFindQuery query = query" and "query \<noteq> []"
  shows "collectDataGridFindMatches rows cols query text_of key =
    concat (map (\<lambda>i. concat (map (\<lambda>j. map (match_at rows cols key i j)
      (enumerate 0 (ranges_at rows cols query text_of i j))) [0..<length cols])) [0..<length rows])"
  using assms
  by (simp add: collectDataGridFindMatches_def enumerate_nth_map cell_matches_def ranges_at_def match_at_def
      split_beta)

lemma collect_set:
  assumes "normalizeDataGridFindQuery query = query" and "query \<noteq> []"
  shows "m \<in> set (collectDataGridFindMatches rows cols query text_of key) \<longleftrightarrow>
    (\<exists>i < length rows. \<exists>j < length cols. \<exists>k < length (ranges_at rows cols query text_of i j).
       m = match_at rows cols key i j (k, ranges_at rows cols query text_of i j ! k))"
  unfolding collect_cells [OF assms] by (force simp: in_set_enumerate_eq image_iff)

lemma collect_length:
  assumes "normalizeDataGridFindQuery query = query" and "query \<noteq> []"
  shows "length (collectDataGridFindMatches rows cols query text_of key) =
         occurrenceCount (summarizeDataGridFindMatches rows cols query text_of)"
  unfolding collect_cells [OF assms] summarizeDataGridFindMatches_def
  using assms
  by (simp add: length_concat comp_def count_rows sum_list_nth_set ranges_at_def atLeast0LessThan
      interv_sum_list_conv_sum_set_nat)

lemma cells_card:
  assumes "normalizeDataGridFindQuery query = query" and "query \<noteq> []"
  shows "matchedCellCount (summarizeDataGridFindMatches rows cols query text_of) =
         card ((\<lambda>m. (rowIndex m, columnIndex m)) ` set (collectDataGridFindMatches rows cols query text_of key))"
proof -
  let ?C = "\<lambda>i. {j. j < length cols \<and> ranges_at rows cols query text_of i j \<noteq> []}"
  have "(\<lambda>m. (rowIndex m, columnIndex m)) ` set (collectDataGridFindMatches rows cols query text_of key) =
      Sigma {..<length rows} ?C"
  proof (intro equalityI subsetI)
    fix p
    assume "p \<in> (\<lambda>m. (rowIndex m, columnIndex m)) ` set (collectDataGridFindMatches rows cols query text_of key)"
    then obtain m where "m \<in> set (collectDataGridFindMatches rows cols query text_of key)"
      and "p = (rowIndex m, columnIndex m)" by blast
    then show "p \<in> Sigma {..<length rows} ?C"
      unfolding collect_set [OF assms] by (auto simp: match_at_def)
  next
    fix p
    assume "p \<in> Sigma {..<length rows} ?C"
    then obtain i j where p: "p = (i, j)" "i < length rows" "j < length cols"
      "0 < length (ranges_at rows cols query text_of i j)" by auto
    let ?m = "match_at rows cols key i j (0, ranges_at rows cols query text_of i j ! 0)"
    have "?m \<in> set (collectDataGridFindMatches rows cols query text_of key)"
      unfolding collect_set [OF assms] using p by blast
    moreover have "p = (rowIndex ?m, columnIndex ?m)"
      by (simp add: p match_at_def)
    ultimately show "p \<in> (\<lambda>m. (rowIndex m, columnIndex m)) ` set (collectDataGridFindMatches rows cols query text_of key)"
      by blast
  qed
  then show ?thesis
    using assms
    by (simp add: summarizeDataGridFindMatches_def count_rows sum_list_nth_set length_filter_conv_card ranges_at_def)
qed

lemma distinct_enumerate_fst: "distinct (map (\<lambda>e. (i, j, fst e)) (enumerate n xs))"
proof -
  have "distinct (map (\<lambda>k. (i, j, k)) (map fst (enumerate n xs)))"
    by (simp only: map_fst_enumerate distinct_map) (auto simp: inj_on_def)
  moreover have "map (\<lambda>k. (i, j, k)) (map fst (enumerate n xs)) = map (\<lambda>e. (i, j, fst e)) (enumerate n xs)"
    unfolding map_map comp_def ..
  ultimately show ?thesis
    by (simp only:)
qed

lemma collect_distinct:
  assumes "normalizeDataGridFindQuery query = query" and "query \<noteq> []"
  shows "distinct (map (\<lambda>m. (rowIndex m, columnIndex m, occurrenceIndex m))
           (collectDataGridFindMatches rows cols query text_of key))"
proof -
  let ?K = "\<lambda>i j. map (\<lambda>e. (i, j, fst e)) (enumerate 0 (ranges_at rows cols query text_of i j))"
  have row: "distinct (concat (map (?K i) [0..<length cols]))" for i
    by (rule distinct_concat_tags [where tag = "\<lambda>j. j" and tag' = "\<lambda>t. fst (snd t)"])
       (auto intro: distinct_enumerate_fst)
  have "distinct (concat (map (\<lambda>i. concat (map (?K i) [0..<length cols])) [0..<length rows]))"
    by (rule distinct_concat_tags [where tag = "\<lambda>i. i" and tag' = fst]) (auto intro: row)
  then show ?thesis
    unfolding collect_cells [OF assms] by (simp add: map_concat comp_def match_at_def)
qed

lemma collect_normalized:
  "collectDataGridFindMatches rows cols query text_of key =
   collectDataGridFindMatches rows cols (normalizeDataGridFindQuery query) text_of key"
  "summarizeDataGridFindMatches rows cols query text_of =
   summarizeDataGridFindMatches rows cols (normalizeDataGridFindQuery query) text_of"
  by (simp_all add: collectDataGridFindMatches_def summarizeDataGridFindMatches_def)

text \<open>The list of matches and the summary agree: there are as many matches as the summary counts, in
  as many cells; no occurrence is listed twice, and each match has the row, the column and the range of
  an occurrence found in its cell.\<close>

theorem collect_summarize_agree:
  "length (collectDataGridFindMatches rows cols query text_of key) =
     occurrenceCount (summarizeDataGridFindMatches rows cols query text_of) \<and>
   card ((\<lambda>m. (rowIndex m, columnIndex m)) ` set (collectDataGridFindMatches rows cols query text_of key)) =
     matchedCellCount (summarizeDataGridFindMatches rows cols query text_of) \<and>
   distinct (map (\<lambda>m. (rowIndex m, columnIndex m, occurrenceIndex m))
     (collectDataGridFindMatches rows cols query text_of key)) \<and>
   (\<forall>m \<in> set (collectDataGridFindMatches rows cols query text_of key).
       rowIndex m < length rows \<and> columnIndex m < length cols \<and> columnName m = cols ! columnIndex m \<and>
       (let rs = findDataGridTextRanges (text_of (rows ! rowIndex m) (columnName m)) (normalizeDataGridFindQuery query)
        in occurrenceIndex m < length rs \<and>
           rs ! occurrenceIndex m = \<lparr>range_from = match_from m, range_to = match_to m\<rparr>))"
proof (cases "normalizeDataGridFindQuery query = []")
  case True
  then show ?thesis
    by (simp add: collectDataGridFindMatches_def summarizeDataGridFindMatches_def)
next
  case False
  then have q: "normalizeDataGridFindQuery query = query" "query \<noteq> []"
    by (auto simp: normalizeDataGridFindQuery_def split: if_splits)
  have all: "\<forall>m \<in> set (collectDataGridFindMatches rows cols query text_of key).
      rowIndex m < length rows \<and> columnIndex m < length cols \<and> columnName m = cols ! columnIndex m \<and>
      (let rs = findDataGridTextRanges (text_of (rows ! rowIndex m) (columnName m)) (normalizeDataGridFindQuery query)
       in occurrenceIndex m < length rs \<and>
          rs ! occurrenceIndex m = \<lparr>range_from = match_from m, range_to = match_to m\<rparr>)"
    unfolding collect_set [OF q] Ball_def by (auto simp: match_at_def ranges_at_def Let_def q(1))
  show ?thesis
    by (intro conjI collect_length [OF q] cells_card [OF q, symmetric] collect_distinct [OF q] all)
qed

theorem collect_summarize_agree_witness:
  "occurrenceCount (summarizeDataGridFindMatches [js ''aa'', js ''b''] [js ''c'', js ''d''] (js ''a'') (\<lambda>row c. row)) = 4 \<and>
   length (collectDataGridFindMatches [js ''aa'', js ''b''] [js ''c'', js ''d''] (js ''a'') (\<lambda>row c. row) (\<lambda>row i. row)) = 4"
proof -
  have "occurrenceCount (summarizeDataGridFindMatches [js ''aa'', js ''b''] [js ''c'', js ''d''] (js ''a'') (\<lambda>row c. row)) = 4"
    by code_simp
  with collect_summarize_agree [of "[js ''aa'', js ''b'']" "[js ''c'', js ''d'']" "js ''a''" "\<lambda>row c. row" "\<lambda>row i. row"]
  show ?thesis by metis
qed

section \<open>Moving between matches\<close>

lemma navigation_in_range:
  "0 < n \<Longrightarrow> 0 \<le> resolveDataGridFindNavigationIndex i n d \<and>
   (i \<le> n \<longrightarrow> resolveDataGridFindNavigationIndex i n d < n)"
  by (cases d) (simp_all add: resolveDataGridFindNavigationIndex_def)

lemma navigation_inverse:
  "0 \<le> i \<Longrightarrow> i < n \<Longrightarrow>
   resolveDataGridFindNavigationIndex (resolveDataGridFindNavigationIndex i n Next) n Previous = i \<and>
   resolveDataGridFindNavigationIndex (resolveDataGridFindNavigationIndex i n Previous) n Next = i"
  by (simp add: resolveDataGridFindNavigationIndex_def)

text \<open>\<open>presses\<close> is the index after a number of presses of one of the two buttons.\<close>

definition presses :: "int \<Rightarrow> find_direction \<Rightarrow> nat \<Rightarrow> int \<Rightarrow> int" where
  "presses n d k = (\<lambda>i. resolveDataGridFindNavigationIndex i n d) ^^ k"

lemma navigation_mod:
  assumes "0 < n" and "i < n"
  shows "resolveDataGridFindNavigationIndex i n Next = (max i (-1) + 1) mod n"
    and "resolveDataGridFindNavigationIndex i n Previous = (max i 0 - 1) mod n"
proof -
  have "(- 1) mod n = n - 1" using assms(1) by (simp add: zmod_minus1)
  then show "resolveDataGridFindNavigationIndex i n Previous = (max i 0 - 1) mod n"
    using assms by (auto simp: resolveDataGridFindNavigationIndex_def max_def)
  consider "i < 0" | "0 \<le> i" "i = n - 1" | "0 \<le> i" "i < n - 1" using assms by linarith
  then show "resolveDataGridFindNavigationIndex i n Next = (max i (-1) + 1) mod n"
  proof cases
    case 1 then have "max i (-1) = -1" by simp
    with 1 assms(1) show ?thesis by (simp add: resolveDataGridFindNavigationIndex_def)
  next
    case 2 then show ?thesis using assms(1) by (simp add: resolveDataGridFindNavigationIndex_def)
  next
    case 3 then have "(i + 1) mod n = i + 1" by simp
    with 3 show ?thesis by (simp add: resolveDataGridFindNavigationIndex_def)
  qed
qed

lemma presses_mod:
  assumes "0 < n" and "i < n"
  shows "presses n Next (Suc k) i = (max i (-1) + 1 + int k) mod n"
    and "presses n Previous (Suc k) i = (max i 0 - 1 - int k) mod n"
proof (induction k)
  case 0
  { case 1 show ?case using navigation_mod [OF assms] by (simp add: presses_def) }
  { case 2 show ?case using navigation_mod [OF assms] by (simp add: presses_def) }
next
  case (Suc k)
  have r: "x mod n < n" for x using assms(1) by simp
  have m: "max (x mod n) c = x mod n" if "c \<le> 0" for x c
    using that assms(1) by (intro max_absorb1) (meson order_trans pos_mod_sign)
  have s: "presses n d (Suc (Suc k)) i = resolveDataGridFindNavigationIndex (presses n d (Suc k) i) n d" for d
    by (simp add: presses_def)
  { case 1 show ?case unfolding s Suc.IH(1) navigation_mod(1) [OF assms(1) r]
      by (simp add: m mod_simps algebra_simps) }
  { case 2 show ?case unfolding s Suc.IH(2) navigation_mod(2) [OF assms(1) r]
      by (simp add: m mod_simps algebra_simps) }
qed

text \<open>C30: Every match is reached: from no match or from any match, pressing next, or pressing previous, again and
  again shows each of the matches after at most as many presses as there are matches.\<close>

theorem find_navigation_reaches_every_match:
  assumes "i < n" and "0 \<le> j" and "j < n"
  shows "\<exists>k. 0 < k \<and> k \<le> nat n \<and> presses n d k i = j"
proof -
  define far where "far = (case d of Next \<Rightarrow> j - (max i (-1) + 1) | Previous \<Rightarrow> max i 0 - 1 - j) mod n"
  have "0 \<le> far" "far < n" using assms by (simp_all add: far_def)
  moreover have "presses n d (Suc (nat far)) i = j"
    using presses_mod [of n i "nat far"] assms \<open>0 \<le> far\<close>
    by (cases d) (simp_all add: far_def mod_simps)
  ultimately show ?thesis by (intro exI [of _ "Suc (nat far)"]) auto
qed

theorem find_navigation_reaches_every_match_witness:
  "\<exists>k. 0 < k \<and> k \<le> nat 3 \<and> presses 3 Previous k (-1) = 1"
  using find_navigation_reaches_every_match [of "-1" 3 1 Previous] by simp
end
