(* ===== verification/CopySql.thy ===== *)
theory CopySql
  imports SqlBuilder
begin

text \<open>
  Copying grid rows as SQL: \<open>frontend/src/components/dataGridCopyInsert.ts\<close> (lines 1 to 423). A cell is
  null or undefined, a string, a date with its local parts, or another value with its text. A record
  lists its fields in order. The regular expressions of dates have one way to match, which is
  written out.
\<close>

section \<open>Dates in text\<close>

definition ch :: "jsstr \<Rightarrow> nat \<Rightarrow> char \<Rightarrow> bool" where
  "ch s i c \<longleftrightarrow> at s i = Some (cu c)"

definition looksLikeDateTimeText :: "jsstr \<Rightarrow> bool" where
  "looksLikeDateTimeText val \<longleftrightarrow>
     val \<noteq> [] \<and> \<not> (length val < 19 \<or> 64 < length val) \<and> ascii_digit (hd val) \<and>
     ch val 4 CHR ''-'' \<and> ch val 7 CHR ''-'' \<and> (ch val 10 CHR '' '' \<or> ch val 10 CHR ''T'') \<and>
     ch val 13 CHR '':'' \<and> ch val 16 CHR '':''"

definition split_fraction :: "jsstr \<Rightarrow> jsstr \<times> jsstr" where
  "split_fraction s =
     (case s of
        c # t \<Rightarrow> (let digits = takeWhile ascii_digit t in
                  if c = cu CHR ''.'' \<and> digits \<noteq> [] then (c # digits, drop (length digits) t) else ([], s))
      | [] \<Rightarrow> ([], s))"

definition zone_name_char :: "jschar \<Rightarrow> bool" where
  "zone_name_char c \<longleftrightarrow> ascii_letter c \<or> c \<in> set (js ''_/+-'')"

definition zone_tail :: "jsstr \<Rightarrow> bool" where
  "zone_tail s \<longleftrightarrow> s = [] \<or> (is_js_space (hd s) \<and> trim_start s \<noteq> [] \<and> list_all zone_name_char (trim_start s))"

text \<open>\<open>(?:\s*(Z|[+-]\d{2}:?\d{2})(?:\s+[A-Za-z_\/+-]+)?)?$\<close>: the captured zone, empty when absent.\<close>

definition parse_zone :: "jsstr \<Rightarrow> jsstr option" where
  "parse_zone s =
     (let z = trim_start s in
      if s = [] then Some []
      else if ch z 0 CHR ''Z'' \<and> zone_tail (drop 1 z) then Some (take 1 z)
      else if (has_shape ''+dd:dd'' (take 6 z) \<or> has_shape ''-dd:dd'' (take 6 z)) \<and> zone_tail (drop 6 z)
        then Some (take 6 z)
      else if (has_shape ''+dddd'' (take 5 z) \<or> has_shape ''-dddd'' (take 5 z)) \<and> zone_tail (drop 5 z)
        then Some (take 5 z)
      else None)"

definition datetime_match :: "jsstr \<Rightarrow> (jsstr \<times> jsstr \<times> jsstr \<times> jsstr) option" where
  "datetime_match val =
     (let date = take 10 val; time = slice val 11 19; (fraction, rest) = split_fraction (drop 19 val) in
      if has_shape ''dddd-dd-dd'' date \<and> (ch val 10 CHR ''T'' \<or> ch val 10 CHR '' '') \<and> has_shape ''dd:dd:dd'' time
      then map_option (\<lambda>zone. (date, time, fraction, zone)) (parse_zone rest)
      else None)"

definition zero_date :: jsstr where
  "zero_date = js ''0000-00-00''"

definition normalizeDateTimeString :: "jsstr \<Rightarrow> jsstr" where
  "normalizeDateTimeString val =
     (if \<not> looksLikeDateTimeText val then val
      else if starts_with val zero_date then val
      else (case datetime_match val of
              None \<Rightarrow> val
            | Some (date, time, fraction, zone) \<Rightarrow> date @ js '' '' @ time @ fraction))"

definition normalizeTimezoneAwareDateTimeString :: "jsstr \<Rightarrow> jsstr" where
  "normalizeTimezoneAwareDateTimeString val =
     (if \<not> looksLikeDateTimeText val then val
      else if starts_with val zero_date then val
      else (case datetime_match val of
              None \<Rightarrow> val
            | Some (date, time, fraction, zone) \<Rightarrow> date @ js '' '' @ time @ fraction @ zone))"

definition isTemporalColumnType :: "jsstr \<Rightarrow> bool" where
  "isTemporalColumnType columnType =
     (let raw = to_lower (trim columnType) in
      if raw = [] then False
      else if includes_str raw (js ''datetime'') \<or> includes_str raw (js ''timestamp'') \<or> includes_str raw (js ''timestamptz'')
        then True
      else hd (split_on (\<lambda>c. c \<in> set (js '' ('')) raw) \<in> set (map js [''date'', ''time'', ''timetz'', ''year'']))"

definition isTimezoneAwareColumnType :: "jsstr \<Rightarrow> bool" where
  "isTimezoneAwareColumnType columnType =
     (let raw = to_lower (trim columnType) in
      raw \<noteq> [] \<and> list_ex (includes_str raw)
        (map js [''with time zone'', ''with timezone'', ''datetimeoffset'', ''timestamptz'', ''timetz'']))"

text \<open>A missing column type is the empty text.\<close>

definition normalizeTemporalLiteralText :: "jsstr \<Rightarrow> jsstr \<Rightarrow> bool \<Rightarrow> jsstr" where
  "normalizeTemporalLiteralText value columnType normalizeWhenTypeMissing =
     (let rawType = trim columnType in
      if rawType = [] then (if normalizeWhenTypeMissing then normalizeDateTimeString value else value)
      else if \<not> isTemporalColumnType rawType then value
      else if isTimezoneAwareColumnType rawType then normalizeTimezoneAwareDateTimeString value
      else normalizeDateTimeString value)"

section \<open>Values\<close>

record local_date =
  fullYear :: nat
  month :: nat
  day :: nat
  hours :: nat
  minutes :: nat
  seconds :: nat

datatype cell_value = NullValue | TextValue jsstr | DateValue local_date | OtherValue jsstr

text \<open>\<open>padStart(2, '0')\<close>; months count from zero.\<close>

definition pad2 :: "nat \<Rightarrow> jsstr" where
  "pad2 n = replicate (2 - length (nat_str n)) (cu CHR ''0'') @ nat_str n"

definition formatLocalDateTimeLiteral :: "local_date \<Rightarrow> jsstr" where
  "formatLocalDateTimeLiteral d =
     nat_str (fullYear d) @ js ''-'' @ pad2 (month d + 1) @ js ''-'' @ pad2 (day d) @ js '' '' @
     pad2 (hours d) @ js '':'' @ pad2 (minutes d) @ js '':'' @ pad2 (seconds d)"

type_synonym grid_record = "(jsstr \<times> cell_value) list"

definition getColumnType :: "(jsstr \<Rightarrow> jsstr option) \<Rightarrow> jsstr \<Rightarrow> jsstr" where
  "getColumnType columnTypesByLowerName column =
     (case columnTypesByLowerName (to_lower column) of None \<Rightarrow> [] | Some t \<Rightarrow> t)"

text \<open>\<open>None\<close> when the field does not exist; an undefined value is \<open>NullValue\<close>.\<close>

definition getRecordValue :: "grid_record \<Rightarrow> jsstr \<Rightarrow> cell_value option" where
  "getRecordValue rec column =
     (case map_of rec column of
        Some v \<Rightarrow> Some v
      | None \<Rightarrow> (case find (\<lambda>e. to_lower (fst e) = to_lower column) rec of
                   None \<Rightarrow> None
                 | Some e \<Rightarrow> if fst e = [] then None else Some (snd e)))"

definition normalizeColumnList :: "jsstr list \<Rightarrow> jsstr list" where
  "normalizeColumnList cols = dedup_by to_lower {} (filter (\<lambda>c. c \<noteq> []) (map trim cols))"

fun toNormalizedLiteralText :: "cell_value \<Rightarrow> jsstr \<Rightarrow> jsstr" where
  "toNormalizedLiteralText (TextValue s) columnType = normalizeTemporalLiteralText s columnType True"
| "toNormalizedLiteralText (DateValue d) columnType = formatLocalDateTimeLiteral d"
| "toNormalizedLiteralText (OtherValue s) columnType = s"
| "toNormalizedLiteralText NullValue columnType = js ''null''"

text \<open>The first \<open>\d{2}:\d{2}:\d{2}\.\d\<close> in a text.\<close>

definition fractional_at :: "jsstr \<Rightarrow> nat option" where
  "fractional_at value = find (\<lambda>i. has_shape ''dd:dd:dd.d'' (slice value i (i + 10))) [0..<length value]"

definition hasFractionalSeconds :: "jsstr \<Rightarrow> bool" where
  "hasFractionalSeconds value \<longleftrightarrow> fractional_at value \<noteq> None"

definition stripFractionalSeconds :: "jsstr \<Rightarrow> jsstr" where
  "stripFractionalSeconds value =
     (case fractional_at value of
        None \<Rightarrow> value
      | Some i \<Rightarrow> take (i + 8) value @ dropWhile ascii_digit (drop (i + 9) value))"

text \<open>\<open>/[+-]\d{2}:?\d{2}$/\<close>.\<close>

definition ends_with_offset :: "jsstr \<Rightarrow> bool" where
  "ends_with_offset s \<longleftrightarrow>
     has_shape ''+dddd'' (drop (length s - 5) s) \<or> has_shape ''-dddd'' (drop (length s - 5) s) \<or>
     has_shape ''+dd:dd'' (drop (length s - 6) s) \<or> has_shape ''-dd:dd'' (drop (length s - 6) s)"

definition quoted :: "jsstr \<Rightarrow> jsstr" where
  "quoted s = [squote] @ escapeLiteral s @ [squote]"

definition oracle_call :: "jsstr \<Rightarrow> jsstr \<Rightarrow> jsstr \<Rightarrow> jsstr" where
  "oracle_call f value format = f @ js ''('' @ quoted value @ js '', '' @ [squote] @ format @ [squote] @ js '')''"

text \<open>The replacement that gives \<open>compactOffset\<close> puts the colon back, so it changes nothing.\<close>

definition formatOracleTemporalLiteral :: "cell_value \<Rightarrow> jsstr \<Rightarrow> jsstr option" where
  "formatOracleTemporalLiteral value columnType =
     (if \<not> isTemporalColumnType columnType then None
      else
        (let normalized = toNormalizedLiteralText value columnType;
             isTimestamp = includes_str (to_lower columnType) (js ''timestamp'');
             oracleValue = (if isTimestamp then normalized else stripFractionalSeconds normalized)
         in Some (
           if has_shape ''dddd-dd-dd'' oracleValue then oracle_call (js ''TO_DATE'') oracleValue (js ''YYYY-MM-DD'')
           else if isTimezoneAwareColumnType columnType \<and> ends_with_offset oracleValue
             then oracle_call (js ''TO_TIMESTAMP_TZ'') oracleValue
                    (if hasFractionalSeconds oracleValue then js ''YYYY-MM-DD HH24:MI:SS.FFTZH:TZM''
                     else js ''YYYY-MM-DD HH24:MI:SSTZH:TZM'')
           else if isTimestamp
             then oracle_call (js ''TO_TIMESTAMP'') oracleValue
                    (if hasFractionalSeconds oracleValue then js ''YYYY-MM-DD HH24:MI:SS.FF''
                     else js ''YYYY-MM-DD HH24:MI:SS'')
           else oracle_call (js ''TO_DATE'') oracleValue (js ''YYYY-MM-DD HH24:MI:SS''))))"

definition formatCopySqlLiteral :: "cell_value \<Rightarrow> jsstr \<Rightarrow> jsstr \<Rightarrow> jsstr" where
  "formatCopySqlLiteral value columnType dbType =
     (if value = NullValue then js ''NULL''
      else (case (if isOracleLikeDialect dbType then formatOracleTemporalLiteral value columnType else None) of
              Some l \<Rightarrow> l
            | None \<Rightarrow> quoted (toNormalizedLiteralText value columnType)))"

section \<open>Statements\<close>

datatype copy_mode = Update | Delete

datatype where_strategy = PrimaryKeyWhere | UniqueKeyWhere | AllColumnsWhere

datatype copy_error = MissingSafeWhere | MissingTableName copy_mode | NoCopyableFields

record copy_params =
  copy_dbType :: jsstr
  tableName :: jsstr
  orderedCols :: "jsstr list"
  row_record :: grid_record
  columnTypes :: "jsstr \<Rightarrow> jsstr option"
  pkColumns :: "jsstr list"
  uniqueKeyGroups :: "jsstr list list"
  allTableColumns :: "jsstr list"

definition doesResultCoverAllTableColumns :: "jsstr list \<Rightarrow> jsstr list \<Rightarrow> bool" where
  "doesResultCoverAllTableColumns ordered allColumns =
     (let normalizedOrdered = normalizeColumnList ordered; normalizedAll = normalizeColumnList allColumns in
      if normalizedOrdered = [] \<or> length normalizedOrdered \<noteq> length normalizedAll then False
      else list_all (\<lambda>c. to_lower c \<in> to_lower ` set normalizedOrdered) normalizedAll)"

definition column_literal :: "copy_params \<Rightarrow> jsstr \<Rightarrow> cell_value \<Rightarrow> jsstr" where
  "column_literal p column value = formatCopySqlLiteral value (getColumnType (columnTypes p) column) (copy_dbType p)"

fun predicates_loop :: "copy_params \<Rightarrow> bool \<Rightarrow> jsstr list \<Rightarrow> jsstr list \<Rightarrow> jsstr list option" where
  "predicates_loop p requireNonNullValues [] predicates = Some predicates"
| "predicates_loop p requireNonNullValues (column # cols) predicates =
     (case getRecordValue (row_record p) column of
        None \<Rightarrow> None
      | Some value \<Rightarrow>
          (let quotedColumn = quoteIdentPart (copy_dbType p) column in
           if value = NullValue then
             (if requireNonNullValues then None
              else predicates_loop p requireNonNullValues cols (predicates @ [quotedColumn @ js '' IS NULL'']))
           else predicates_loop p requireNonNullValues cols
                  (predicates @ [quotedColumn @ js '' = '' @ column_literal p column value])))"

definition buildWhereClauseForColumns :: "copy_params \<Rightarrow> jsstr list \<Rightarrow> bool \<Rightarrow> jsstr option" where
  "buildWhereClauseForColumns p cols requireNonNullValues =
     (case predicates_loop p requireNonNullValues cols [] of
        None \<Rightarrow> None
      | Some predicates \<Rightarrow>
          if predicates = [] then None else Some (js ''('' @ join (js '' AND '') predicates @ js '')''))"

fun first_unique_clause :: "copy_params \<Rightarrow> jsstr list list \<Rightarrow> jsstr option" where
  "first_unique_clause p [] = None"
| "first_unique_clause p (names # groups) =
     (case buildWhereClauseForColumns p names True of
        Some clause \<Rightarrow> Some clause | None \<Rightarrow> first_unique_clause p groups)"

definition unique_groups :: "copy_params \<Rightarrow> jsstr list list" where
  "unique_groups p = filter (\<lambda>g. g \<noteq> []) (map normalizeColumnList (uniqueKeyGroups p))"

definition resolveMutationWhereClause :: "copy_params \<Rightarrow> copy_error + jsstr \<times> where_strategy" where
  "resolveMutationWhereClause p =
     (case buildWhereClauseForColumns p (normalizeColumnList (pkColumns p)) True of
        Some clause \<Rightarrow> Inr (clause, PrimaryKeyWhere)
      | None \<Rightarrow>
          (case first_unique_clause p (unique_groups p) of
             Some clause \<Rightarrow> Inr (clause, UniqueKeyWhere)
           | None \<Rightarrow>
               (case (if doesResultCoverAllTableColumns (orderedCols p) (allTableColumns p)
                      then buildWhereClauseForColumns p (orderedCols p) False else None) of
                  Some clause \<Rightarrow> Inr (clause, AllColumnsWhere)
                | None \<Rightarrow> Inl MissingSafeWhere)))"

definition value_or_null :: "cell_value option \<Rightarrow> cell_value" where
  "value_or_null v = (case v of None \<Rightarrow> NullValue | Some x \<Rightarrow> x)"

definition buildCopyInsertSQL :: "copy_params \<Rightarrow> jsstr" where
  "buildCopyInsertSQL p =
     (let targetTable = quoteQualifiedIdent (copy_dbType p) (if tableName p = [] then js ''table'' else tableName p);
          quotedCols = map (quoteIdentPart (copy_dbType p)) (orderedCols p);
          values = map (\<lambda>c. column_literal p c (value_or_null (getRecordValue (row_record p) c))) (orderedCols p)
      in js ''INSERT INTO '' @ targetTable @ js '' ('' @ join (js '', '') quotedCols @ js '') VALUES ('' @
         join (js '', '') values @ js '');'')"

definition assignment :: "copy_params \<Rightarrow> jsstr \<Rightarrow> jsstr" where
  "assignment p column =
     quoteIdentPart (copy_dbType p) column @ js '' = '' @
     column_literal p column (value_or_null (getRecordValue (row_record p) column))"

definition buildCopyMutationSQL :: "copy_mode \<Rightarrow> copy_params \<Rightarrow> copy_error + jsstr \<times> where_strategy" where
  "buildCopyMutationSQL mode p =
     (let normalizedTableName = trim (tableName p); cols = normalizeColumnList (orderedCols p) in
      if normalizedTableName = [] then Inl (MissingTableName mode)
      else if cols = [] then Inl NoCopyableFields
      else (case resolveMutationWhereClause (p\<lparr>orderedCols := cols\<rparr>) of
              Inl e \<Rightarrow> Inl e
            | Inr (clause, strategy) \<Rightarrow>
                (let targetTable = quoteQualifiedIdent (copy_dbType p) normalizedTableName in
                 case mode of
                   Delete \<Rightarrow> Inr (js ''DELETE FROM '' @ targetTable @ js '' WHERE '' @ clause @ js '';'', strategy)
                 | Update \<Rightarrow> Inr (js ''UPDATE '' @ targetTable @ js '' SET '' @
                     join (js '', '') (map (assignment p) cols) @ js '' WHERE '' @ clause @ js '';'', strategy))))"

definition buildCopyUpdateSQL :: "copy_params \<Rightarrow> copy_error + jsstr \<times> where_strategy" where
  "buildCopyUpdateSQL p = buildCopyMutationSQL Update p"

definition buildCopyDeleteSQL :: "copy_params \<Rightarrow> copy_error + jsstr \<times> where_strategy" where
  "buildCopyDeleteSQL p = buildCopyMutationSQL Delete p"

section \<open>Normal dates\<close>

lemma has_shape_length: "has_shape shape s \<Longrightarrow> length s = length shape"
  by (simp add: has_shape_def list_all2_lengthD)

lemma shape_nth: "has_shape shape s \<Longrightarrow> i < length shape \<Longrightarrow>
    (if shape ! i = CHR ''d'' then ascii_digit (s ! i) else s ! i = cu (shape ! i))"
  unfolding has_shape_def by (drule list_all2_nthD, assumption) simp

text \<open>A text put together from a date, a time, a fraction and a zone.\<close>

definition fraction_ok :: "jsstr \<Rightarrow> bool" where
  "fraction_ok f \<longleftrightarrow> f = [] \<or> (hd f = cu CHR ''.'' \<and> tl f \<noteq> [] \<and> list_all ascii_digit (tl f))"

definition zone_ok :: "jsstr \<Rightarrow> bool" where
  "zone_ok z \<longleftrightarrow> z \<in> {[], js ''Z''} \<or> has_shape ''+dd:dd'' z \<or> has_shape ''-dd:dd'' z \<or>
     has_shape ''+dddd'' z \<or> has_shape ''-dddd'' z"

lemma split_fraction_ok: "split_fraction s = (f, r) \<Longrightarrow> fraction_ok f \<and> s = f @ r"
proof (cases s)
  case (Cons c t)
  let ?ds = "takeWhile ascii_digit t"
  assume sf: "split_fraction s = (f, r)"
  show ?thesis
  proof (cases "c = cu CHR ''.'' \<and> ?ds \<noteq> []")
    case True
    with sf Cons have fr: "f = c # ?ds" "r = drop (length ?ds) t"
      by (simp_all add: split_fraction_def Let_def)
    have "?ds @ r = t"
      unfolding fr(2) by (simp flip: dropWhile_eq_drop)
    with True Cons fr(1) show ?thesis
      by (auto simp: fraction_ok_def list_all_iff dest: set_takeWhileD)
  next
    case False
    with sf Cons have "f = [] \<and> r = s"
      by (auto simp: split_fraction_def Let_def split: if_splits)
    then show ?thesis
      by (simp add: fraction_ok_def)
  qed
qed (simp add: split_fraction_def fraction_ok_def)

lemma parse_zone_ok: "parse_zone s = Some z \<Longrightarrow> zone_ok z \<and> length z \<le> length s"
proof -
  have len: "length (take n (trim_start s)) \<le> length s" for n
    using length_dropWhile_le [of is_js_space s] by (simp add: trim_start_def)
  have "ch t 0 CHR ''Z'' \<Longrightarrow> take 1 t = js ''Z''" for t
    by (cases t) (auto simp: ch_def js_def)
  then show "parse_zone s = Some z \<Longrightarrow> zone_ok z \<and> length z \<le> length s"
    using len by (auto simp: parse_zone_def zone_ok_def Let_def Suc_le_eq split: if_splits)
qed

lemma datetime_match_ok:
  assumes "datetime_match val = Some (d, t, f, z)"
  shows "has_shape ''dddd-dd-dd'' d \<and> has_shape ''dd:dd:dd'' t \<and> fraction_ok f \<and> zone_ok z \<and>
         d = take 10 val \<and> length d + 1 + length t + length f + length z \<le> length val"
proof -
  obtain f' r where f: "split_fraction (drop 19 val) = (f', r)"
    by fastforce
  with assms have s: "has_shape ''dddd-dd-dd'' d" "has_shape ''dd:dd:dd'' t" "f' = f" "parse_zone r = Some z"
    "d = take 10 val" "t = slice val 11 19"
    by (auto simp: datetime_match_def Let_def split: if_splits)
  have l: "length d = 10" "length t = 8"
    using has_shape_length [OF s(1)] has_shape_length [OF s(2)] by simp_all
  with s(6) have "19 \<le> length val"
    by (simp add: min_def split: if_splits)
  moreover have "drop 19 val = f @ r" "fraction_ok f"
    using split_fraction_ok [OF f] s(3) by simp_all
  then have "length val - 19 = length f + length r"
    by (metis length_append length_drop)
  ultimately have "length d + 1 + length t + length f + length z \<le> length val"
    using l parse_zone_ok [OF s(4)] by linarith
  then show ?thesis
    using s parse_zone_ok [OF s(4)] \<open>fraction_ok f\<close> by simp
qed

lemma digit_not_space: "ascii_digit c \<Longrightarrow> \<not> is_js_space c"
  by (auto simp: ascii_digit_def is_js_space_def)

lemma shape_first: "has_shape (k # ks) s \<Longrightarrow> k \<noteq> CHR ''d'' \<Longrightarrow> s \<noteq> [] \<and> hd s = cu k"
  by (cases s) (auto simp: has_shape_def)

lemma zone_first:
  assumes "zone_ok z" and "z \<noteq> []"
  shows "hd z \<in> set (js ''Z+-'')"
  using assms by (auto simp: zone_ok_def js_def dest!: shape_first)

lemma zone_chars: "c \<in> set (js ''Z+-'') \<Longrightarrow> \<not> ascii_digit c \<and> \<not> is_js_space c \<and> c \<noteq> cu CHR ''.''"
  by (auto simp: js_def cu_def ascii_digit_def is_js_space_def)

lemma parse_zone_long:
  assumes "trim_start z = z" and "has_shape ''+dd:dd'' z \<or> has_shape ''-dd:dd'' z" and "\<not> ch z 0 CHR ''Z''"
  shows "parse_zone z = Some z"
proof -
  have "length z = 6"
    using assms(2) has_shape_length [of "''+dd:dd''" z] has_shape_length [of "''-dd:dd''" z] by auto
  then have "take 6 z = z" "drop 6 z = []" "z \<noteq> []"
    by auto
  with assms show ?thesis
    by (simp add: parse_zone_def Let_def zone_tail_def)
qed

lemma parse_zone_short:
  assumes "trim_start z = z" and "has_shape ''+dddd'' z \<or> has_shape ''-dddd'' z" and "\<not> ch z 0 CHR ''Z''"
  shows "parse_zone z = Some z"
proof -
  have l: "length z = 5"
    using assms(2) has_shape_length [of "''+dddd''" z] has_shape_length [of "''-dddd''" z] by auto
  then have t: "take 6 z = z" "take 5 z = z" "drop 5 z = []" "z \<noteq> []"
    by auto
  have "\<not> has_shape ''+dd:dd'' z" "\<not> has_shape ''-dd:dd'' z"
    using l has_shape_length [of "''+dd:dd''" z] has_shape_length [of "''-dd:dd''" z] by auto
  with assms t show ?thesis
    by (simp add: parse_zone_def Let_def zone_tail_def)
qed

lemma parse_zone_id:
  assumes "zone_ok z"
  shows "parse_zone z = Some z"
proof (cases "z = [] \<or> z = js ''Z''")
  case True
  have "parse_zone (js ''Z'') = Some (js ''Z'')"
    by code_simp
  with True show ?thesis
    by (auto simp: parse_zone_def)
next
  case False
  with assms have shapes: "(has_shape ''+dd:dd'' z \<or> has_shape ''-dd:dd'' z) \<or> (has_shape ''+dddd'' z \<or> has_shape ''-dddd'' z)"
    by (simp add: zone_ok_def)
  then have "z \<noteq> [] \<and> (hd z = cu CHR ''+'' \<or> hd z = cu CHR ''-'')"
    by (auto dest!: shape_first)
  then have "trim_start z = z" "\<not> ch z 0 CHR ''Z''"
    by (cases z; auto simp: trim_start_def ch_def cu_def is_js_space_def)+
  with shapes show ?thesis
    using parse_zone_long parse_zone_short by blast
qed

lemma split_fraction_append:
  assumes "fraction_ok f" and "zone_ok z"
  shows "split_fraction (f @ z) = (f, z)"
proof -
  have z: "z = [] \<or> (\<not> ascii_digit (hd z) \<and> hd z \<noteq> cu CHR ''.'')"
    using zone_first [OF assms(2)] zone_chars by blast
  show ?thesis
  proof (cases f)
    case Nil
    with z show ?thesis
      by (cases z) (auto simp: split_fraction_def Let_def)
  next
    case (Cons c ds)
    with assms(1) have ds: "c = cu CHR ''.''" "ds \<noteq> []" "list_all ascii_digit ds"
      by (auto simp: fraction_ok_def)
    then have "takeWhile ascii_digit (ds @ z) = ds"
      using z by (cases z) (auto simp: list_all_iff takeWhile_append2)
    with ds Cons show ?thesis
      by (simp add: split_fraction_def Let_def)
  qed
qed

lemma datetime_match_normal:
  assumes "has_shape ''dddd-dd-dd'' d" and "has_shape ''dd:dd:dd'' t" and "fraction_ok f" and "zone_ok z"
  shows "datetime_match (d @ js '' '' @ t @ f @ z) = Some (d, t, f, z)"
proof -
  have l: "length d = 10" "length t = 8"
    using has_shape_length [OF assms(1)] has_shape_length [OF assms(2)] by simp_all
  have "ch (d @ js '' '' @ t @ f @ z) 10 CHR '' ''"
    using l by (simp add: ch_def at_def nth_append js_def)
  then show ?thesis
    using assms l split_fraction_append [OF assms(3,4)] parse_zone_id [OF assms(4)]
    by (simp add: datetime_match_def slice_def js_def)
qed

lemma looksLike_normal:
  assumes "has_shape ''dddd-dd-dd'' d" and "has_shape ''dd:dd:dd'' t" and "length (d @ js '' '' @ t @ r) \<le> 64"
  shows "looksLikeDateTimeText (d @ js '' '' @ t @ r)"
proof -
  have l: "length d = 10" "length t = 8"
    using has_shape_length [OF assms(1)] has_shape_length [OF assms(2)] by simp_all
  have d: "ascii_digit (d ! 0)" "d ! 4 = cu CHR ''-''" "d ! 7 = cu CHR ''-''"
    using shape_nth [OF assms(1), of 0] shape_nth [OF assms(1), of 4] shape_nth [OF assms(1), of 7] by simp_all
  have t: "t ! 2 = cu CHR '':''" "t ! 5 = cu CHR '':''"
    using shape_nth [OF assms(2), of 2] shape_nth [OF assms(2), of 5] by simp_all
  have "hd (d @ js '' '' @ t @ r) = d ! 0"
    using l by (cases d) auto
  then show ?thesis
    using l d t assms(3) by (simp add: looksLikeDateTimeText_def ch_def at_def nth_append js_def)
qed

lemma zero_date_prefix:
  assumes "length d = 10"
  shows "starts_with (d @ r) zero_date \<longleftrightarrow> d = zero_date"
  using assms by (simp add: starts_with_def starts_with_at_def zero_date_def js_def)

lemma normal_fixed:
  assumes "datetime_match val = Some (d, t, f, z)" and "looksLikeDateTimeText val" and "\<not> starts_with val zero_date"
    and "z' \<in> {[], z}"
  shows "looksLikeDateTimeText (d @ js '' '' @ t @ f @ z')" and "\<not> starts_with (d @ js '' '' @ t @ f @ z') zero_date"
    and "datetime_match (d @ js '' '' @ t @ f @ z') = Some (d, t, f, z')"
proof -
  have m: "has_shape ''dddd-dd-dd'' d" "has_shape ''dd:dd:dd'' t" "fraction_ok f" "zone_ok z" "d = take 10 val"
    "length d + 1 + length t + length f + length z \<le> length val"
    using datetime_match_ok [OF assms(1)] by blast+
  have "zone_ok z'"
    using assms(4) m(4) by (auto simp: zone_ok_def)
  then show "datetime_match (d @ js '' '' @ t @ f @ z') = Some (d, t, f, z')"
    by (rule datetime_match_normal [OF m(1-3)])
  have "length (d @ js '' '' @ t @ f @ z') \<le> 64"
    using m(6) assms(2,4) by (auto simp: looksLikeDateTimeText_def js_def)
  then show "looksLikeDateTimeText (d @ js '' '' @ t @ f @ z')"
    using looksLike_normal [OF m(1,2), of "f @ z'"] by simp
  have "length d = 10"
    using has_shape_length [OF m(1)] by simp
  moreover have "d @ drop 10 val = val"
    by (simp add: m(5))
  then have "d \<noteq> zero_date"
    using assms(3) zero_date_prefix [OF \<open>length d = 10\<close>, of "drop 10 val"] by simp
  ultimately show "\<not> starts_with (d @ js '' '' @ t @ f @ z') zero_date"
    using zero_date_prefix by blast
qed

lemma normalizeDateTimeString_idem:
  "normalizeDateTimeString (normalizeDateTimeString val) = normalizeDateTimeString val"
proof (cases "looksLikeDateTimeText val \<and> \<not> starts_with val zero_date \<and> datetime_match val \<noteq> None")
  case True
  then obtain d t f z where m: "datetime_match val = Some (d, t, f, z)"
    by auto
  with True normal_fixed [OF m _ _ insertI1] show ?thesis
    by (simp add: normalizeDateTimeString_def)
next
  case False
  then have "normalizeDateTimeString val = val"
    by (auto simp: normalizeDateTimeString_def split: option.split)
  then show ?thesis by simp
qed

lemma normalizeTimezoneAware_idem:
  "normalizeTimezoneAwareDateTimeString (normalizeTimezoneAwareDateTimeString val) = normalizeTimezoneAwareDateTimeString val"
proof (cases "looksLikeDateTimeText val \<and> \<not> starts_with val zero_date \<and> datetime_match val \<noteq> None")
  case True
  then obtain d t f z where m: "datetime_match val = Some (d, t, f, z)"
    by auto
  with True normal_fixed [OF m _ _ insertI2 [OF singletonI]] show ?thesis
    by (simp add: normalizeTimezoneAwareDateTimeString_def)
next
  case False
  then have "normalizeTimezoneAwareDateTimeString val = val"
    by (auto simp: normalizeTimezoneAwareDateTimeString_def split: option.split)
  then show ?thesis by simp
qed

lemma normal_forms:
  "normalizeTemporalLiteralText val ty m \<in> {val, normalizeDateTimeString val, normalizeTimezoneAwareDateTimeString val}"
  by (simp add: normalizeTemporalLiteralText_def Let_def)

lemma take_normal:
  assumes "datetime_match val = Some (d, t, f, z)"
  shows "take 10 (d @ r) = take 10 val"
proof -
  have "has_shape ''dddd-dd-dd'' d" "d = take 10 val"
    using datetime_match_ok [OF assms] by blast+
  then have "length d = 10" "d = take 10 val"
    by (simp_all only: has_shape_length) simp
  then show ?thesis
    by (metis append_eq_conv_conj)
qed

text \<open>The text of a date in a statement is normal: normalising it again changes nothing, its date is
  that of the cell, and a text that is not a date is left as it is.\<close>

theorem normalizeTemporalLiteralText_normal:
  "normalizeTemporalLiteralText (normalizeTemporalLiteralText val ty m) ty m = normalizeTemporalLiteralText val ty m \<and>
   take 10 (normalizeTemporalLiteralText val ty m) = take 10 val \<and>
   (datetime_match val = None \<longrightarrow> normalizeTemporalLiteralText val ty m = val)"
proof (intro conjI impI)
  show "normalizeTemporalLiteralText (normalizeTemporalLiteralText val ty m) ty m = normalizeTemporalLiteralText val ty m"
    by (simp add: normalizeTemporalLiteralText_def Let_def normalizeDateTimeString_idem normalizeTimezoneAware_idem)
  have "take 10 (normalizeDateTimeString val) = take 10 val"
    "take 10 (normalizeTimezoneAwareDateTimeString val) = take 10 val"
    by (auto simp: normalizeDateTimeString_def normalizeTimezoneAwareDateTimeString_def take_normal
        simp del: take_append split: option.split)
  with normal_forms [of val ty m] show "take 10 (normalizeTemporalLiteralText val ty m) = take 10 val"
    by auto
  assume "datetime_match val = None"
  with normal_forms [of val ty m] show "normalizeTemporalLiteralText val ty m = val"
    by (auto simp: normalizeDateTimeString_def normalizeTimezoneAwareDateTimeString_def split: if_splits)
qed

theorem normalizeTemporalLiteralText_normal_witness:
  "normalizeTemporalLiteralText (js ''not a date'') (js ''datetime'') True = js ''not a date'' \<and>
   normalizeTemporalLiteralText (js ''2024-05-06T07:08:09.5+08:00'') (js ''datetime'') True = js ''2024-05-06 07:08:09.5''"
proof -
  have "datetime_match (js ''not a date'') = None"
    "normalizeTemporalLiteralText (js ''2024-05-06T07:08:09.5+08:00'') (js ''datetime'') True = js ''2024-05-06 07:08:09.5''"
    by code_simp+
  with normalizeTemporalLiteralText_normal [of "js ''not a date''" "js ''datetime''" True] show ?thesis
    by blast
qed

section \<open>Literals\<close>

lemma quoted_reads_back:
  assumes "rest = [] \<or> hd rest \<noteq> squote"
  shows "\<exists>body. quoted v @ rest = squote # body \<and> read_quoted squote body = Some (v, rest)"
  using read_quoted_escape [OF assms, of v] by (simp add: quoted_def escapeLiteral_def)

text \<open>What an Oracle function is applied to.\<close>

definition oracle_value :: "cell_value \<Rightarrow> jsstr \<Rightarrow> jsstr" where
  "oracle_value value columnType =
     (let normalized = toNormalizedLiteralText value columnType in
      if includes_str (to_lower columnType) (js ''timestamp'') then normalized else stripFractionalSeconds normalized)"

definition oracle_functions :: "jsstr set" where
  "oracle_functions = js ` {''TO_DATE'', ''TO_TIMESTAMP'', ''TO_TIMESTAMP_TZ''}"

lemma oracle_literal_call:
  assumes "formatOracleTemporalLiteral value ty = Some l"
  shows "\<exists>f \<in> oracle_functions. \<exists>fmt. squote \<notin> set fmt \<and> l = oracle_call f (oracle_value value ty) fmt"
proof -
  let ?v = "oracle_value value ty"
  let ?date = "has_shape ''dddd-dd-dd'' ?v" and ?zone = "isTimezoneAwareColumnType ty \<and> ends_with_offset ?v"
    and ?stamp = "includes_str (to_lower ty) (js ''timestamp'')" and ?frac = "hasFractionalSeconds ?v"
  have P: "\<exists>f \<in> oracle_functions. \<exists>fmt'. squote \<notin> set fmt' \<and> oracle_call (js g) ?v (js fmt) = oracle_call f ?v fmt'"
    if "g \<in> {''TO_DATE'', ''TO_TIMESTAMP'', ''TO_TIMESTAMP_TZ''}" and "squote \<notin> set (js fmt)" for g fmt
    using that unfolding oracle_functions_def by blast
  have l: "l = (if ?date then oracle_call (js ''TO_DATE'') ?v (js ''YYYY-MM-DD'')
      else if ?zone then oracle_call (js ''TO_TIMESTAMP_TZ'') ?v
        (if ?frac then js ''YYYY-MM-DD HH24:MI:SS.FFTZH:TZM'' else js ''YYYY-MM-DD HH24:MI:SSTZH:TZM'')
      else if ?stamp then oracle_call (js ''TO_TIMESTAMP'') ?v
        (if ?frac then js ''YYYY-MM-DD HH24:MI:SS.FF'' else js ''YYYY-MM-DD HH24:MI:SS'')
      else oracle_call (js ''TO_DATE'') ?v (js ''YYYY-MM-DD HH24:MI:SS''))"
    using assms unfolding formatOracleTemporalLiteral_def oracle_value_def Let_def
    by (cases "isTemporalColumnType ty") (simp_all only: if_True if_False simp_thms option.inject option.distinct)
  have fmts: "squote \<notin> set (js ''YYYY-MM-DD'')" "squote \<notin> set (js ''YYYY-MM-DD HH24:MI:SS'')"
    "squote \<notin> set (js ''YYYY-MM-DD HH24:MI:SS.FF'')" "squote \<notin> set (js ''YYYY-MM-DD HH24:MI:SSTZH:TZM'')"
    "squote \<notin> set (js ''YYYY-MM-DD HH24:MI:SS.FFTZH:TZM'')"
    by code_simp+
  show ?thesis
    unfolding l by (cases ?date; cases ?zone; cases ?stamp; cases ?frac;
        simp only: if_True if_False simp_thms; rule P; (rule fmts)?; simp)
qed



section \<open>The row a statement addresses\<close>

text \<open>What a predicate for a column says of the record: its value, or that it is null.\<close>

definition column_predicate :: "copy_params \<Rightarrow> jsstr \<Rightarrow> jsstr" where
  "column_predicate p column =
     (let value = value_or_null (getRecordValue (row_record p) column); name = quoteIdentPart (copy_dbType p) column in
      if value = NullValue then name @ js '' IS NULL'' else name @ js '' = '' @ column_literal p column value)"

definition addressed :: "copy_params \<Rightarrow> bool \<Rightarrow> jsstr list \<Rightarrow> bool" where
  "addressed p requireNonNull cols \<longleftrightarrow>
     list_all (\<lambda>c. case getRecordValue (row_record p) c of
         None \<Rightarrow> False | Some v \<Rightarrow> requireNonNull \<longrightarrow> v \<noteq> NullValue) cols"

lemma predicates_loop_correct:
  "predicates_loop p nn cols acc =
   (if addressed p nn cols then Some (acc @ map (column_predicate p) cols) else None)"
proof (induction cols arbitrary: acc nn)
  case (Cons c cols)
  show ?case
  proof (cases "getRecordValue (row_record p) c")
    case None
    then show ?thesis by (simp add: addressed_def)
  next
    case (Some v)
    then have "addressed p nn (c # cols) \<longleftrightarrow> (nn \<longrightarrow> v \<noteq> NullValue) \<and> addressed p nn cols"
      "column_predicate p c = (if v = NullValue then quoteIdentPart (copy_dbType p) c @ js '' IS NULL''
         else quoteIdentPart (copy_dbType p) c @ js '' = '' @ column_literal p c v)"
      by (simp_all add: addressed_def column_predicate_def value_or_null_def)
    with Some show ?thesis
      by (simp add: Cons.IH Let_def)
  qed
qed (simp add: addressed_def)

definition where_clause :: "copy_params \<Rightarrow> jsstr list \<Rightarrow> jsstr" where
  "where_clause p cols = js ''('' @ join (js '' AND '') (map (column_predicate p) cols) @ js '')''"

lemma buildWhereClauseForColumns_correct:
  "buildWhereClauseForColumns p cols nn =
   (if cols \<noteq> [] \<and> addressed p nn cols then Some (where_clause p cols) else None)"
  by (simp add: buildWhereClauseForColumns_def predicates_loop_correct where_clause_def)

lemma first_unique_clause_correct:
  "first_unique_clause p groups =
   map_option (where_clause p) (find (\<lambda>g. g \<noteq> [] \<and> addressed p True g) groups)"
  by (induction groups) (simp_all add: buildWhereClauseForColumns_correct)

lemma normalizeColumnList_distinct: "distinct (map to_lower (normalizeColumnList cols))"
  by (simp add: normalizeColumnList_def dedup_by_distinct)

lemma covers_all:
  assumes "doesResultCoverAllTableColumns ordered allCols"
  shows "to_lower ` set (normalizeColumnList ordered) = to_lower ` set (normalizeColumnList allCols)"
proof (rule sym, rule card_subset_eq)
  show "to_lower ` set (normalizeColumnList allCols) \<subseteq> to_lower ` set (normalizeColumnList ordered)"
    using assms by (auto simp: doesResultCoverAllTableColumns_def Let_def list_all_iff split: if_splits)
  have "card (to_lower ` set (normalizeColumnList cols)) = length (normalizeColumnList cols)" for cols
    using distinct_card [OF normalizeColumnList_distinct [of cols]] by simp
  then show "card (to_lower ` set (normalizeColumnList allCols)) = card (to_lower ` set (normalizeColumnList ordered))"
    using assms by (simp add: doesResultCoverAllTableColumns_def Let_def split: if_splits)
qed simp

lemma normalizeColumnList_idem: "normalizeColumnList (normalizeColumnList cols) = normalizeColumnList cols"
proof -
  have "trim c = c \<and> c \<noteq> []" if "c \<in> set (normalizeColumnList cols)" for c
    using that dedup_by_subset by (fastforce simp: normalizeColumnList_def)
  then have "map trim (normalizeColumnList cols) = normalizeColumnList cols"
    "filter (\<lambda>c. c \<noteq> []) (normalizeColumnList cols) = normalizeColumnList cols"
    by (simp_all add: map_idI)
  then have "filter (\<lambda>c. c \<noteq> []) (map trim (normalizeColumnList cols)) = normalizeColumnList cols"
    by simp
  then show ?thesis
    using normalizeColumnList_distinct [of cols]
    by (metis dedup_by_id inf_bot_right normalizeColumnList_def)
qed

text \<open>Which columns a strategy uses.\<close>

definition strategy_columns :: "copy_params \<Rightarrow> where_strategy \<Rightarrow> jsstr list \<Rightarrow> bool" where
  "strategy_columns p strat cols \<longleftrightarrow>
     (case strat of
        PrimaryKeyWhere \<Rightarrow> cols = normalizeColumnList (pkColumns p)
      | UniqueKeyWhere \<Rightarrow> \<exists>g \<in> set (uniqueKeyGroups p). cols = normalizeColumnList g
      | AllColumnsWhere \<Rightarrow> cols = normalizeColumnList (orderedCols p) \<and>
          to_lower ` set cols = to_lower ` set (normalizeColumnList (allTableColumns p)))"

lemma resolveMutationWhereClause_correct:
  assumes "resolveMutationWhereClause (p\<lparr>orderedCols := normalizeColumnList (orderedCols p)\<rparr>) = Inr (clause, strat)"
  shows "\<exists>cols. cols \<noteq> [] \<and> strategy_columns p strat cols \<and> addressed p (strat \<noteq> AllColumnsWhere) cols \<and>
           clause = where_clause p cols"
proof -
  let ?p = "p\<lparr>orderedCols := normalizeColumnList (orderedCols p)\<rparr>"
  have "column_predicate ?p = column_predicate p"
    by (rule ext) (simp add: column_predicate_def column_literal_def Let_def)
  then have same: "addressed ?p = addressed p" "where_clause ?p = where_clause p" "unique_groups ?p = unique_groups p"
    by ((intro ext)?; simp add: addressed_def where_clause_def unique_groups_def)+
  consider (pk) "strat = PrimaryKeyWhere" "buildWhereClauseForColumns ?p (normalizeColumnList (pkColumns p)) True = Some clause"
    | (uk) "strat = UniqueKeyWhere" "first_unique_clause ?p (unique_groups p) = Some clause"
    | (all) "strat = AllColumnsWhere" "doesResultCoverAllTableColumns (normalizeColumnList (orderedCols p)) (allTableColumns p)"
        "buildWhereClauseForColumns ?p (normalizeColumnList (orderedCols p)) False = Some clause"
    using assms by (auto simp: resolveMutationWhereClause_def same split: option.splits if_splits)
  then show ?thesis
  proof cases
    case pk
    then show ?thesis
      by (auto simp: buildWhereClauseForColumns_correct same strategy_columns_def split: if_splits)
  next
    case uk
    then obtain g where "find (\<lambda>g. g \<noteq> [] \<and> addressed p True g) (unique_groups p) = Some g" "clause = where_clause p g"
      by (auto simp: first_unique_clause_correct same)
    then have "g \<in> set (unique_groups p)" "g \<noteq> []" "addressed p True g" "clause = where_clause p g"
      by (auto simp: find_Some_iff)
    with uk(1) show ?thesis
      by (intro exI [of _ g]) (auto simp: unique_groups_def strategy_columns_def)
  next
    case all
    with covers_all [OF all(2)] show ?thesis
      by (auto simp: buildWhereClauseForColumns_correct same strategy_columns_def normalizeColumnList_idem split: if_splits)
  qed
qed

text \<open>C25: a copied update or delete addresses a row by the whole primary key, by a whole unique key, or by
  all columns of the table; the first two only when no value of the key is null. Its condition is the
  conjunction of one comparison per column with the value in the record.\<close>

theorem buildCopyMutationSQL_addresses:
  assumes "buildCopyMutationSQL mode p = Inr (sql, strat)"
  shows "\<exists>cols start. cols \<noteq> [] \<and> strategy_columns p strat cols \<and> addressed p (strat \<noteq> AllColumnsWhere) cols \<and>
           sql = start @ js '' WHERE ('' @ join (js '' AND '') (map (column_predicate p) cols) @ js '');''"
proof -
  have "resolveMutationWhereClause (p\<lparr>orderedCols := normalizeColumnList (orderedCols p)\<rparr>) \<noteq> Inl e" for e
    using assms by (auto simp: buildCopyMutationSQL_def Let_def split: if_splits)
  then obtain clause strat' where
    r: "resolveMutationWhereClause (p\<lparr>orderedCols := normalizeColumnList (orderedCols p)\<rparr>) = Inr (clause, strat')"
    by (metis obj_sumE surj_pair)
  with assms obtain start where "strat' = strat" "sql = start @ js '' WHERE '' @ clause @ js '';''"
    by (cases mode) (auto simp: buildCopyMutationSQL_def Let_def split: if_splits)
  moreover from r obtain cols where "cols \<noteq> []" "strategy_columns p strat' cols"
    "addressed p (strat' \<noteq> AllColumnsWhere) cols" "clause = where_clause p cols"
    using resolveMutationWhereClause_correct by blast
  ultimately show ?thesis
    by (intro exI [of _ cols] exI [of _ start]) (simp add: where_clause_def js_def)
qed

definition example_copy :: copy_params where
  "example_copy =
     \<lparr>copy_dbType = js ''mysql'', tableName = js ''users'', orderedCols = [js ''id'', js ''name''],
      row_record = [(js ''ID'', OtherValue (js ''7'')), (js ''name'', TextValue [97, squote])],
      columnTypes = (\<lambda>_. None), pkColumns = [js ''id''], uniqueKeyGroups = [], allTableColumns = []\<rparr>"

definition example_delete :: jsstr where
  "example_delete = js ''DELETE FROM `users` WHERE (`id` = '' @ [squote] @ js ''7'' @ [squote] @ js '');''"

theorem buildCopyMutationSQL_addresses_witness:
  "buildCopyMutationSQL Delete example_copy = Inr (example_delete, PrimaryKeyWhere) \<and>
   (\<exists>cols start. strategy_columns example_copy PrimaryKeyWhere cols \<and>
      example_delete = start @ js '' WHERE ('' @ join (js '' AND '') (map (column_predicate example_copy) cols) @ js '');'')"
proof
  show e: "buildCopyMutationSQL Delete example_copy = Inr (example_delete, PrimaryKeyWhere)"
    by code_simp
  from buildCopyMutationSQL_addresses [OF e]
  show "\<exists>cols start. strategy_columns example_copy PrimaryKeyWhere cols \<and>
      example_delete = start @ js '' WHERE ('' @ join (js '' AND '') (map (column_predicate example_copy) cols) @ js '');''"
    by blast
qed

text \<open>Without a whole key the statement is refused: a key value that is null is not compared.\<close>

lemma null_key_refused:
  "buildCopyMutationSQL Delete (example_copy\<lparr>row_record := [(js ''id'', NullValue), (js ''name'', NullValue)]\<rparr>) =
   Inl MissingSafeWhere"
  by code_simp

end
