(* ===== verification/ResultPagination.thy ===== *)
theory ResultPagination
  imports QueryAutoLimit SqlBuilder
begin

text \<open>
  Paging through the result of a query: \<open>frontend/src/utils/queryResultPagination.ts\<close>, and the
  texts and totals under a grid: \<open>frontend/src/utils/dataGridPagination.ts\<close>. A number of the
  parameters is a \<open>js_number\<close>; \<open>NonFinite\<close> stands for the value that is not a number, or is not
  there (infinite pages, totals and page sizes, and fractions, are not modelled). A number the code
  computes is a natural number or an integer.
\<close>

section \<open>Numbers\<close>

fun normalizePositiveInteger :: "js_number \<Rightarrow> nat" where
  "normalizePositiveInteger NonFinite = 0"
| "normalizePositiveInteger (Finite n) = (if 0 < n then nat n else 0)"

text \<open>\<open>Math.max(1, Math.floor(Number(x) || 1))\<close> and \<open>Math.max(0, Math.floor(Number(x) || 0))\<close>.\<close>

fun page_number :: "js_number \<Rightarrow> nat" where
  "page_number NonFinite = 1"
| "page_number (Finite n) = (if n = 0 then 1 else nat (max 1 n))"

fun row_number :: "js_number \<Rightarrow> nat" where
  "row_number NonFinite = 0"
| "row_number (Finite n) = nat (max 0 n)"

section \<open>The limit of a statement\<close>

record limit_info =
  limit_baseSql :: jsstr
  limit_count :: nat
  limit_offset :: nat

text \<open>\<open>^limit\s+\<close> with the rest of the text, \<open>(\d+)\<close>, and \<open>\s+offset\s+\<close>.\<close>

definition after_word :: "jsstr \<Rightarrow> jsstr \<Rightarrow> jsstr option" where
  "after_word word s =
     (let rest = drop (length word) s in
      if match_ci_at s word 0 \<and> trim_start rest \<noteq> rest then Some (trim_start rest) else None)"

definition read_digits :: "jsstr \<Rightarrow> (jsstr \<times> jsstr) option" where
  "read_digits s =
     (case takeWhile ascii_digit s of [] \<Rightarrow> None | ds \<Rightarrow> Some (ds, dropWhile ascii_digit s))"

definition offset_word :: "jsstr \<Rightarrow> jsstr option" where
  "offset_word s = (if trim_start s \<noteq> s then after_word (js ''offset'') (trim_start s) else None)"

definition comma_word :: "jsstr \<Rightarrow> jsstr option" where
  "comma_word s =
     (case trim_start s of
        c # rest \<Rightarrow> if c = cu CHR '','' then Some (trim_start rest) else None
      | [] \<Rightarrow> None)"

text \<open>A clause of two numbers with \<open>sep\<close> between them, up to the end of the text.\<close>

definition limit_pair :: "(jsstr \<Rightarrow> jsstr option) \<Rightarrow> jsstr \<Rightarrow> (jsstr \<times> jsstr) option" where
  "limit_pair sep clause =
     (case after_word (js ''limit'') clause of
        None \<Rightarrow> None
      | Some args \<Rightarrow>
          (case read_digits args of
             None \<Rightarrow> None
           | Some (a, rest) \<Rightarrow>
               (case sep rest of
                  None \<Rightarrow> None
                | Some rest' \<Rightarrow>
                    (case read_digits rest' of
                       Some (b, []) \<Rightarrow> Some (a, b)
                     | _ \<Rightarrow> None))))"

definition mysqlOffsetLimit :: "jsstr \<Rightarrow> (jsstr \<times> jsstr) option" where
  "mysqlOffsetLimit = limit_pair comma_word"

definition limitOffset :: "jsstr \<Rightarrow> (jsstr \<times> jsstr) option" where
  "limitOffset = limit_pair offset_word"

definition simpleLimit :: "jsstr \<Rightarrow> jsstr option" where
  "simpleLimit clause =
     (case after_word (js ''limit'') clause of
        None \<Rightarrow> None
      | Some args \<Rightarrow> (case read_digits args of Some (a, []) \<Rightarrow> Some a | _ \<Rightarrow> None))"

definition limit_found :: "jsstr \<Rightarrow> nat \<Rightarrow> nat \<Rightarrow> limit_info option" where
  "limit_found base n off =
     (if 0 < n then Some \<lparr>limit_baseSql = base, limit_count = n, limit_offset = off\<rparr> else None)"

definition parse_limit_clause :: "jsstr \<Rightarrow> jsstr \<Rightarrow> limit_info option" where
  "parse_limit_clause base clause =
     (case mysqlOffsetLimit clause of
        Some (a, b) \<Rightarrow> limit_found base (digits_value b) (digits_value a)
      | None \<Rightarrow>
          (case limitOffset clause of
             Some (a, b) \<Rightarrow> limit_found base (digits_value a) (digits_value b)
           | None \<Rightarrow>
               (case simpleLimit clause of
                  Some a \<Rightarrow> limit_found base (digits_value a) 0
                | None \<Rightarrow> None)))"

definition parseTopLevelLimit :: "jsstr \<Rightarrow> limit_info option" where
  "parseTopLevelLimit sql =
     (let main = fst (splitSqlTail sql) in
      case findTopLevelKeyword main (js ''limit'') of
        None \<Rightarrow> None
      | Some limitPos \<Rightarrow>
          (case findTopLevelKeyword main (js ''from'') of
             Some fromPos \<Rightarrow>
               if limitPos < fromPos then None
               else parse_limit_clause (trim_end (take limitPos main)) (trim (drop limitPos main))
           | None \<Rightarrow> parse_limit_clause (trim_end (take limitPos main)) (trim (drop limitPos main))))"

definition stripExplicitLimitForExport :: "jsstr \<Rightarrow> jsstr" where
  "stripExplicitLimitForExport sql =
     (case parseTopLevelLimit sql of
        Some parsed \<Rightarrow>
          if limit_baseSql parsed \<noteq> [] then limit_baseSql parsed else trim (fst (splitSqlTail sql))
      | None \<Rightarrow> trim (fst (splitSqlTail sql)))"

section \<open>The statement of a page\<close>

definition resolveWrappedBaseSql :: "jsstr \<Rightarrow> jsstr \<Rightarrow> jsstr" where
  "resolveWrappedBaseSql dbType baseSql =
     (let normalizedType = to_lower (trim dbType); base = trim baseSql in
      if normalizedType \<in> set (map js [''oracle'', ''dameng''])
      then js ''SELECT * FROM ('' @ base @ js '') \"__gonavi_query_page__\"''
      else js ''SELECT * FROM ('' @ base @ js '') AS __gonavi_query_page__'')"

record page_params =
  page_baseSql :: jsstr
  page_dbType :: jsstr
  page_driver :: jsstr
  page_page :: js_number
  page_pageSize :: js_number
  page_lookahead :: bool

definition buildQueryResultPageSql :: "page_params \<Rightarrow> jsstr" where
  "buildQueryResultPageSql params =
     (let pageSize = normalizePositiveInteger (page_pageSize params) in
      if pageSize = 0 then trim (page_baseSql params)
      else
        (let page = page_number (page_page params);
             limit = (if page_lookahead params then pageSize + 1 else pageSize);
             offset = (page - 1) * pageSize;
             dialect = resolveSqlDialect
               (if page_dbType params = [] then js ''mysql'' else page_dbType params) (page_driver params) []
         in buildPaginatedSelectSQL dialect (resolveWrappedBaseSql dialect (page_baseSql params)) []
              (int limit) (int offset)))"

section \<open>The state of the pages\<close>

text \<open>\<open>hasNext\<close> is \<open>None\<close> when it is not known. The result is the total and whether it is known.\<close>

definition resolveQueryResultPaginationTotal ::
  "js_number \<Rightarrow> js_number \<Rightarrow> js_number \<Rightarrow> bool option \<Rightarrow> nat \<times> bool" where
  "resolveQueryResultPaginationTotal current pageSize rowCount hasNext =
     (let c = page_number current; size = normalizePositiveInteger pageSize; rows = row_number rowCount in
      if size = 0 then (rows, True)
      else if hasNext = Some True then ((c + 1) * size, False)
      else if hasNext = Some False then ((c - 1) * size + rows, True)
      else if size \<le> rows then ((c + 1) * size, False)
      else ((c - 1) * size + rows, True))"

record pagination_state =
  pg_current :: nat
  pg_pageSize :: nat
  pg_total :: nat
  pg_totalKnown :: bool
  pg_baseSql :: jsstr
  pg_exportAllSql :: jsstr

record initial_params =
  init_executedSql :: jsstr
  init_exportSql :: jsstr
  init_returnedRowCount :: js_number
  init_fallbackPageSize :: js_number

definition initial_page_size :: "limit_info option \<Rightarrow> js_number \<Rightarrow> nat \<Rightarrow> nat" where
  "initial_page_size explicitLimit fallback rows =
     (case explicitLimit of
        Some l \<Rightarrow> if limit_count l \<noteq> 0 then limit_count l
                  else if normalizePositiveInteger fallback \<noteq> 0 then normalizePositiveInteger fallback else rows
      | None \<Rightarrow> if normalizePositiveInteger fallback \<noteq> 0 then normalizePositiveInteger fallback else rows)"

definition initial_page :: "limit_info option \<Rightarrow> nat \<Rightarrow> nat" where
  "initial_page explicitLimit pageSize =
     (case explicitLimit of Some l \<Rightarrow> max 1 (limit_offset l div pageSize + 1) | None \<Rightarrow> 1)"

definition createInitialQueryResultPagination :: "initial_params \<Rightarrow> pagination_state option" where
  "createInitialQueryResultPagination params =
     (let executedSql = trim (init_executedSql params) in
      if executedSql = [] \<or> getLeadingKeyword executedSql \<noteq> js ''select'' then None
      else
        (let explicitLimit = parseTopLevelLimit executedSql;
             mainSql = trim (fst (splitSqlTail executedSql));
             rows = row_number (init_returnedRowCount params);
             pageSize = initial_page_size explicitLimit (init_fallbackPageSize params) rows;
             current = initial_page explicitLimit pageSize
         in if pageSize = 0 then None
            else if current \<le> 1 \<and> rows < pageSize then None
            else
              (let baseSql = (case explicitLimit of
                     Some l \<Rightarrow> if limit_baseSql l \<noteq> [] then limit_baseSql l else mainSql
                   | None \<Rightarrow> mainSql);
                   exportSql = trim (init_exportSql params);
                   (total, known) = resolveQueryResultPaginationTotal (Finite (int current))
                     (Finite (int pageSize)) (Finite (int rows)) None
               in if baseSql = [] then None
                  else Some \<lparr>pg_current = current, pg_pageSize = pageSize, pg_total = total,
                    pg_totalKnown = known, pg_baseSql = baseSql,
                    pg_exportAllSql =
                      (if exportSql \<noteq> [] \<and> getLeadingKeyword exportSql = js ''select''
                       then stripExplicitLimitForExport exportSql
                       else stripExplicitLimitForExport executedSql)\<rparr>)))"

section \<open>Texts and totals of the grid\<close>

text \<open>\<open>totalKnown\<close> is \<open>None\<close> when it is not set, which counts as known.\<close>

record grid_pagination =
  grid_current :: int
  grid_pageSize :: int
  grid_total :: js_number
  grid_totalKnown :: "bool option"
  grid_totalApprox :: bool
  grid_approximateTotal :: js_number
  grid_totalCountLoading :: bool
  grid_totalCountCancelled :: bool

fun toFiniteNonNegativeNumber :: "js_number \<Rightarrow> int option" where
  "toFiniteNonNegativeNumber NonFinite = None"
| "toFiniteNonNegativeNumber (Finite n) = (if 0 \<le> n then Some n else None)"

definition grid_exact_total :: "grid_pagination \<Rightarrow> int" where
  "grid_exact_total p = (case toFiniteNonNegativeNumber (grid_total p) of Some n \<Rightarrow> n | None \<Rightarrow> 0)"

definition resolveApproximateTotal :: "grid_pagination \<Rightarrow> int option" where
  "resolveApproximateTotal p =
     (if \<not> grid_totalApprox p then None
      else (case toFiniteNonNegativeNumber (grid_approximateTotal p) of
              Some n \<Rightarrow> if 0 < n then Some n else None
            | None \<Rightarrow> None))"

definition resolveCurrentCount :: "grid_pagination \<Rightarrow> int" where
  "resolveCurrentCount p =
     (let total = grid_exact_total p;
          rangeStart = max 0 ((grid_current p - 1) * grid_pageSize p + (if 0 < total then 1 else 0))
      in if \<not> (0 < total \<and> 0 < rangeStart) then 0
         else (let rangeEnd = min total (rangeStart + grid_pageSize p - 1)
               in max 0 (rangeEnd - rangeStart + 1)))"

text \<open>A message is its key and its parameters; the translation of the interface is an argument.\<close>

type_synonym translation = "jsstr \<Rightarrow> (jsstr \<times> int) list \<Rightarrow> jsstr"

definition resolvePaginationSummaryText ::
  "grid_pagination \<Rightarrow> bool \<Rightarrow> bool \<Rightarrow> translation \<Rightarrow> jsstr" where
  "resolvePaginationSummaryText p prefersManualTotalCount supportsApproximateTableCount translate =
     (let currentCount = resolveCurrentCount p; total = grid_exact_total p;
          msg = (\<lambda>key. translate (js ''data_grid.pagination.summary.'' @ js key) [(js ''current'', currentCount)])
      in if grid_totalKnown p = Some False then
           (if grid_totalCountLoading p
            then (if prefersManualTotalCount then msg ''counting_exact'' else msg ''counting'')
            else (case (supportsApproximateTableCount, resolveApproximateTotal p) of
                    (True, Some approximateTotal) \<Rightarrow>
                      translate (js ''data_grid.pagination.summary.approximate'')
                        [(js ''current'', currentCount), (js ''total'', approximateTotal)]
                  | _ \<Rightarrow> if grid_totalCountCancelled p then msg ''cancelled'' else msg ''not_counted''))
         else if total \<le> 0
           then translate (js ''data_grid.pagination.summary.empty'') [(js ''current'', 0), (js ''total'', 0)]
         else translate (js ''data_grid.pagination.summary.known'')
                [(js ''current'', currentCount), (js ''total'', total)])"

definition effective_total :: "grid_pagination \<Rightarrow> bool \<Rightarrow> int" where
  "effective_total p supportsApproximateTotalPages =
     (if grid_totalKnown p \<noteq> Some False then grid_exact_total p
      else (case (supportsApproximateTotalPages, resolveApproximateTotal p) of
              (True, Some n) \<Rightarrow> n
            | _ \<Rightarrow> 0))"

text \<open>\<open>Math.ceil(a / b)\<close> for positive \<open>b\<close>.\<close>

definition ceil_div :: "int \<Rightarrow> int \<Rightarrow> int" where
  "ceil_div a b = - ((- a) div b)"

definition total_pages :: "int \<Rightarrow> int \<Rightarrow> int" where
  "total_pages effectiveTotal pageSize = max 1 (ceil_div effectiveTotal (max 1 pageSize))"

definition resolvePaginationPageText :: "grid_pagination \<Rightarrow> bool \<Rightarrow> translation \<Rightarrow> jsstr" where
  "resolvePaginationPageText p supportsApproximateTotalPages translate =
     (let effectiveTotal = effective_total p supportsApproximateTotalPages;
          only_current = translate (js ''data_grid.pagination.page.current'') [(js ''current'', grid_current p)]
      in if effectiveTotal \<le> 0 then only_current
         else if grid_totalKnown p = Some False \<and>
                 \<not> (supportsApproximateTotalPages \<and> resolveApproximateTotal p \<noteq> None)
           then only_current
         else translate (js ''data_grid.pagination.page.known'')
                [(js ''current'', grid_current p),
                 (js ''totalPages'', total_pages effectiveTotal (grid_pageSize p))])"

definition resolvePaginationTotalForControl :: "grid_pagination \<Rightarrow> bool \<Rightarrow> int" where
  "resolvePaginationTotalForControl p supportsApproximateTotalPages =
     (if grid_totalKnown p \<noteq> Some False then grid_exact_total p
      else (case (supportsApproximateTotalPages, resolveApproximateTotal p) of
              (True, Some n) \<Rightarrow> n
            | _ \<Rightarrow> grid_exact_total p))"

section \<open>Scanning a statement with a nested query\<close>

text \<open>
  \<open>quiet_run c d w s\<close> reads code at depth \<open>d\<close> of parentheses and gives the depth after it; \<open>w\<close>
  says that a word goes on. It fails on a quote, a comment or a dollar sign, and on a word at
  depth 0 whose first letter is \<open>c\<close>.
\<close>

fun quiet_run :: "jschar \<Rightarrow> nat \<Rightarrow> bool \<Rightarrow> jsstr \<Rightarrow> nat option" where
  "quiet_run c d w [] = Some d"
| "quiet_run c d w (x # xs) =
     (if x = cu CHR ''('' then quiet_run c (d + 1) False xs
      else if x = cu CHR '')'' then quiet_run c (d - 1) False xs
      else if plain_code x \<and> (d \<noteq> 0 \<or> w \<or> hd (lower_unit x) \<noteq> c) then quiet_run c d (isWord x) xs
      else None)"

abbreviation quiet_char :: "jschar \<Rightarrow> bool" where
  "quiet_char x \<equiv> plain_code x \<or> x = cu CHR ''('' \<or> x = cu CHR '')''"

abbreviation depth_state :: "nat \<Rightarrow> keyword_state" where
  "depth_state d \<equiv> init_keyword_state\<lparr>keyword_depth := d\<rparr>"

lemma auto_lex_quiet:
  assumes "quiet_char (text ! i)"
  shows "auto_lex text i (depth_state d) = None"
proof -
  have "match_dollar_tag text i = None"
    using assms by (auto simp: match_dollar_tag_def Let_def plain_code_def at_Some_iff)
  with assms show ?thesis
    by (auto simp: auto_lex_def in_quotes_def auto_comment_def Let_def spaced_dash_comment_def
        toggle_quote_def plain_code_def init_keyword_state_def init_lex_state_def lex_state.defs)
qed

lemma keyword_at_first:
  assumes "keyword_at text kw i" and "kw \<noteq> []" and "i < length text"
  shows "hd (lower_unit (text ! i)) = hd kw"
proof -
  have "slice text i (i + length kw) \<noteq> []" using assms by (auto simp flip: length_greater_0_conv)
  then obtain xs where s: "slice text i (i + length kw) = (text ! i) # xs"
    using nth_slice [of 0 "text" i "i + length kw"] by (cases "slice text i (i + length kw)") auto
  have "lower_unit x \<noteq> []" for x by (simp add: lower_unit_def)
  then have "hd (to_lower (slice text i (i + length kw))) = hd (lower_unit (text ! i))"
    by (simp add: s to_lower_def)
  with assms(1) show ?thesis by (simp add: keyword_at_def)
qed

lemma quiet_run_step:
  assumes t: "text = pre @ x # post" and q: "quiet_char x"
    and n: "d \<noteq> 0 \<or> x = cu CHR ''('' \<or> x = cu CHR '')'' \<or> \<not> keyword_at text kw (length pre)"
  shows "loop_ret (length text) (keyword_body text kw) (length pre) (depth_state d) =
    loop_ret (length text) (keyword_body text kw) (length (pre @ [x]))
      (depth_state (if x = cu CHR ''('' then d + 1 else if x = cu CHR '')'' then d - 1 else d))"
proof -
  have x: "text ! length pre = x" by (simp add: t)
  have "auto_lex text (length pre) (depth_state d) = None"
    using q by (intro auto_lex_quiet) (simp add: x)
  then have "keyword_body text kw (length pre) (depth_state d) = Inr (Suc (length pre),
      depth_state (if x = cu CHR ''('' then d + 1 else if x = cu CHR '')'' then d - 1 else d))"
    using n by (auto simp: keyword_body_def x)
  then show ?thesis by (subst loop_ret.simps) (simp add: t)
qed

lemma quiet_run_scan:
  assumes "quiet_run (hd kw) d w s = Some d'" and "kw \<noteq> []" and "text = pre @ s @ post"
    and "w \<longrightarrow> pre \<noteq> [] \<and> isWord (last pre)"
  shows "loop_ret (length text) (keyword_body text kw) (length pre) (depth_state d) =
    loop_ret (length text) (keyword_body text kw) (length (pre @ s)) (depth_state d')"
  using assms
proof (induction s arbitrary: d w pre)
  case Nil
  then show ?case by simp
next
  case (Cons x xs)
  have q: "quiet_char x" using Cons.prems(1) by (auto split: if_splits)
  have n: "d \<noteq> 0 \<or> x = cu CHR ''('' \<or> x = cu CHR '')'' \<or> \<not> keyword_at text kw (length pre)"
  proof (rule ccontr)
    assume "\<not> ?thesis"
    then have d: "d = 0" "x \<noteq> cu CHR ''(''" "x \<noteq> cu CHR '')''" and k: "keyword_at text kw (length pre)" by auto
    with Cons.prems(1) have "w \<or> hd (lower_unit x) \<noteq> hd kw" by (auto split: if_splits)
    moreover have "\<not> w"
      using k Cons.prems(3,4) by (auto simp: keyword_at_def nth_append last_conv_nth)
    moreover have "hd (lower_unit x) = hd kw"
      using keyword_at_first [OF k Cons.prems(2)] Cons.prems(3) by simp
    ultimately show False by simp
  qed
  let ?d = "if x = cu CHR ''('' then d + 1 else if x = cu CHR '')'' then d - 1 else d"
  have "quiet_run (hd kw) ?d (if x = cu CHR ''('' \<or> x = cu CHR '')'' then False else isWord x) xs = Some d'"
    using Cons.prems(1) by (simp split: if_splits)
  then have s2: "loop_ret (length text) (keyword_body text kw) (length (pre @ [x])) (depth_state ?d) =
      loop_ret (length text) (keyword_body text kw) (length ((pre @ [x]) @ xs)) (depth_state d')"
    by (rule Cons.IH [OF _ Cons.prems(2)]) (use Cons.prems(3) in auto)
  have "text = pre @ x # (xs @ post)" using Cons.prems(3) by simp
  from trans [OF quiet_run_step [OF this q n] s2] show ?case by simp
qed

text \<open>A nested query: quiet characters, and parentheses that never close the one around it.\<close>

fun nested :: "nat \<Rightarrow> jsstr \<Rightarrow> bool" where
  "nested d [] \<longleftrightarrow> d = 1"
| "nested d (x # xs) \<longleftrightarrow>
     (if x = cu CHR ''('' then nested (d + 1) xs
      else if x = cu CHR '')'' then 1 < d \<and> nested (d - 1) xs
      else plain_code x \<and> nested d xs)"

lemma quiet_run_nested: "nested d s \<Longrightarrow> 0 < d \<Longrightarrow> quiet_run c d w s = Some 1"
  by (induction s arbitrary: d w) auto

lemma isWord_parens [simp]: "\<not> isWord (cu CHR ''('')" "\<not> isWord (cu CHR '')'')"
  by code_simp+

lemma quiet_run_append:
  "quiet_run c d w s = Some d' \<Longrightarrow>
   quiet_run c d w (s @ t) = quiet_run c d' (if s = [] then w else isWord (last s)) t"
  by (induction s arbitrary: d w) (auto split: if_splits)

lemma keyword_hit:
  assumes "text = pre @ post" and "post \<noteq> []" and "quiet_run (hd kw) 0 False pre = Some 0" and "kw \<noteq> []"
    and "plain_code (hd post)" and "keyword_at text kw (length pre)" and "to_lower kw = kw"
  shows "findTopLevelKeyword text kw = Some (length pre)"
proof -
  obtain x xs where p: "post = x # xs" using assms(2) by (cases post) auto
  have "depth_state 0 = init_keyword_state" by (simp add: init_keyword_state_def lex_state.defs)
  with quiet_run_scan [OF assms(3,4), of "text" "[]" post] assms(1)
  have s: "loop_ret (length text) (keyword_body text kw) 0 init_keyword_state =
      loop_ret (length text) (keyword_body text kw) (length pre) init_keyword_state" by simp
  have x: "text ! length pre = x" by (simp add: assms(1) p)
  have "auto_lex text (length pre) init_keyword_state = None"
    using assms(5) by (intro auto_lex_plain) (simp add: x p)
  moreover have "keyword_depth init_keyword_state = 0" by (simp add: init_keyword_state_def lex_state.defs)
  ultimately have "keyword_body text kw (length pre) init_keyword_state = Inl (length pre)"
    using assms(5,6) by (simp add: keyword_body_def x p plain_code_def)
  then have "loop_ret (length text) (keyword_body text kw) (length pre) init_keyword_state = Inl (length pre)"
    by (subst loop_ret.simps) (simp add: assms(1) p)
  with s show ?thesis by (simp add: findTopLevelKeyword_def assms(7))
qed

lemma tail_body_quiet:
  assumes "quiet_char (text ! i)"
  shows "tail_body text i (init_tail_state\<lparr>lastMeaningful := m\<rparr>) =
    (i + 1, init_tail_state\<lparr>lastMeaningful := if isWS (text ! i) then m else Some i\<rparr>)"
proof -
  have "match_dollar_tag text i = None"
    using assms by (auto simp: match_dollar_tag_def Let_def plain_code_def at_Some_iff)
  with assms show ?thesis
    by (auto simp: tail_body_def tail_lex_def tail_quotes_def in_quotes_def auto_comment_def Let_def
        spaced_dash_comment_def toggle_quote_def plain_code_def init_tail_state_def init_lex_state_def
        lex_state.defs)
qed

lemma splitSqlTail_quiet:
  assumes q: "\<forall>x \<in> set s. quiet_char x" and cr: "13 \<notin> set s" and l: "s \<noteq> []" "\<not> tail_char (last s)"
  shows "splitSqlTail s = (s, [])"
proof -
  let ?I = "\<lambda>i st. \<exists>m. st = init_tail_state\<lparr>lastMeaningful := m\<rparr> \<and> (i = length s \<longrightarrow> m = Some (length s - 1))"
  let ?r = "loop (length s) (tail_body s) 0 init_tail_state"
  have w: "\<not> isWS (s ! (length s - 1))" using l by (simp add: last_conv_nth tail_char_def)
  have "?I (length s) (snd ?r) \<and> fst ?r = length s"
  proof (rule loop_invariant [where I = ?I])
    show "?I 0 init_tail_state"
      using l by (intro exI [of _ None]) (simp add: init_tail_state_def lex_state.defs)
    fix i st assume i: "i < length s" and "?I i st"
    then obtain m where m: "st = init_tail_state\<lparr>lastMeaningful := m\<rparr>" by blast
    have "tail_body s i st = (i + 1, init_tail_state\<lparr>lastMeaningful := if isWS (s ! i) then m else Some i\<rparr>)"
      unfolding m using q i by (intro tail_body_quiet) auto
    moreover have "i = length s - 1" if "i + 1 = length s" using that by simp
    ultimately show "?I (max (Suc i) (fst (tail_body s i st))) (snd (tail_body s i st)) \<and>
        fst (tail_body s i st) \<le> length s"
      using i w by auto
  qed simp
  then have "lastMeaningful (snd ?r) = Some (length s - 1)" by auto
  moreover have "retreat (\<lambda>j. tail_char (s ! j)) 0 (length s) = length s"
    using l by (cases "length s") (auto simp: last_conv_nth)
  ultimately show ?thesis
    using l by (simp add: splitSqlTail_def normalize_newlines_id [OF cr])
qed

lemma keyword_at_append:
  assumes "pre = [] \<or> \<not> isWord (last pre)" and "rest = [] \<or> \<not> isWord (hd rest)"
    and "w \<noteq> []" and "isWord (hd w)" and "to_lower w = kw" and "length w = length kw"
  shows "keyword_at (pre @ w @ rest) kw (length pre)"
proof -
  have "slice (pre @ w @ rest) (length pre) (length pre + length kw) = w"
    using assms(6) by (simp add: slice_def)
  moreover have "(pre @ w @ rest) ! length pre = hd w"
    using assms(3) by (simp add: nth_append hd_conv_nth)
  moreover have "0 < length pre \<Longrightarrow> (pre @ w @ rest) ! (length pre - 1) = last pre"
    by (simp add: nth_append last_conv_nth)
  moreover have "length w < length w + length rest \<Longrightarrow> (pre @ w @ rest) ! (length pre + length w) = hd rest"
    by (simp add: nth_append hd_conv_nth)
  ultimately show ?thesis using assms by (auto simp: keyword_at_def)
qed

lemma read_digits_nat_str:
  assumes "rest = [] \<or> \<not> ascii_digit (hd rest)"
  shows "read_digits (nat_str n @ rest) = Some (nat_str n, rest)"
proof -
  have "takeWhile ascii_digit (nat_str n @ rest) = nat_str n" "dropWhile ascii_digit (nat_str n @ rest) = rest"
    using assms nat_str_digits [of n] by (cases rest; auto simp: takeWhile_append dropWhile_append)+
  moreover obtain c cs where "nat_str n = c # cs" using nat_str_nonempty [of n] by (cases "nat_str n") auto
  ultimately show ?thesis by (simp add: read_digits_def)
qed

lemma nat_str_hd_digit: "ascii_digit (hd (nat_str n))" and nat_str_last_digit: "ascii_digit (last (nat_str n))"
  using nat_str_digits [of n] by auto

lemma digit_facts:
  "ascii_digit c \<Longrightarrow> \<not> is_js_space c \<and> quiet_char c \<and> \<not> tail_char c \<and> c \<noteq> 13 \<and> isWord c"
  by (auto simp: ascii_digit_def is_js_space_def plain_code_def tail_char_def isWS_def newline_def
      fullwidth_semicolon_def isWord_def word_char_def cu_def)

lemma after_word_append:
  assumes "map ascii_fold w = word" and "rest \<noteq> []" and "\<not> is_js_space (hd rest)"
  shows "after_word word (w @ cu CHR '' '' # rest) = Some rest"
proof -
  have l: "length word = length w" using assms(1) by auto
  have "trim_start (cu CHR '' '' # rest) = rest"
    using assms(2,3) by (cases rest) (auto simp: trim_start_def is_js_space_def cu_def)
  moreover have "match_ci_at (w @ cu CHR '' '' # rest) word 0"
    using assms(1) by (simp add: match_ci_at_def slice_def l)
  moreover have "drop (length word) (w @ cu CHR '' '' # rest) = cu CHR '' '' # rest" by (simp add: l)
  ultimately show ?thesis by (simp add: after_word_def Let_def)
qed

lemma parse_limit_offset:
  "parse_limit_clause base (js ''LIMIT '' @ nat_str n @ js '' OFFSET '' @ nat_str m) = limit_found base n m"
proof -
  have sp: "\<not> is_js_space (hd (nat_str k @ t))" "nat_str k @ t \<noteq> []" for k t
    using digit_facts [OF nat_str_hd_digit [of k]] by simp_all
  have L: "js ''LIMIT '' @ t = js ''LIMIT'' @ cu CHR '' '' # t" for t by (simp add: js_def)
  have F: "map ascii_fold (js ''LIMIT'') = js ''limit''" "map ascii_fold (js ''OFFSET'') = js ''offset''"
    by code_simp+
  have 1: "after_word (js ''limit'') (js ''LIMIT '' @ nat_str k @ t) = Some (nat_str k @ t)" for k t
    unfolding L by (rule after_word_append [OF F(1)]) (use sp in simp_all)
  have O: "js '' OFFSET '' @ t = cu CHR '' '' # js ''OFFSET'' @ cu CHR '' '' # t" for t by (simp add: js_def)
  have T: "trim_start (js '' OFFSET '' @ t) = js ''OFFSET '' @ t" for t
    by (simp add: trim_start_def js_def is_js_space_def cu_def)
  have "after_word (js ''offset'') (js ''OFFSET'' @ cu CHR '' '' # nat_str m @ []) = Some (nat_str m @ [])"
    by (rule after_word_append [OF F(2)]) (use sp in simp_all)
  then have 2: "offset_word (js '' OFFSET '' @ nat_str m) = Some (nat_str m)"
    unfolding offset_word_def T by (simp add: js_def)
  have 3: "comma_word (js '' OFFSET '' @ nat_str m) = None"
    unfolding comma_word_def T by (simp add: js_def)
  have 4: "read_digits (nat_str n @ js '' OFFSET '' @ nat_str m) = Some (nat_str n, js '' OFFSET '' @ nat_str m)"
    by (rule read_digits_nat_str) (simp add: js_def ascii_digit_def cu_def)
  have 5: "read_digits (nat_str m) = Some (nat_str m, [])"
    using read_digits_nat_str [of "[]" m] by simp
  show ?thesis
    by (simp add: parse_limit_clause_def mysqlOffsetLimit_def limitOffset_def limit_pair_def 1 2 3 4 5)
qed

lemma nested_quiet: "nested d s \<Longrightarrow> \<forall>c \<in> set s. quiet_char c"
  by (induction s arbitrary: d) (auto split: if_splits)

text \<open>A statement that ends in a limit is read back.\<close>

lemma parseTopLevelLimit_read:
  assumes w: "w = js ''SELECT * FROM ('' @ base @ js '') AS __gonavi_query_page__''"
    and b: "nested 1 base" "13 \<notin> set base"
  shows "parseTopLevelLimit (w @ js '' LIMIT '' @ nat_str n @ js '' OFFSET '' @ nat_str m) = limit_found w n m"
proof -
  let ?post = "js ''LIMIT '' @ nat_str n @ js '' OFFSET '' @ nat_str m"
  let ?sql = "(w @ js '' '') @ ?post"
  have eq: "w @ js '' LIMIT '' @ nat_str n @ js '' OFFSET '' @ nat_str m = ?sql" by (simp add: js_def)
  have dig: "\<forall>c \<in> set (nat_str k). quiet_char c \<and> c \<noteq> 13" for k using nat_str_digits digit_facts by blast
  have bq: "\<forall>c \<in> set base. quiet_char c"
    using b(1) by (rule nested_quiet)
  have hd: "\<forall>c \<in> set (js ''SELECT * FROM ('') \<union> set (js '') AS __gonavi_query_page__'') \<union> set (js '' '')
      \<union> set (js ''LIMIT '') \<union> set (js '' OFFSET ''). quiet_char c \<and> c \<noteq> 13" by code_simp
  have "last ?sql = last (nat_str m)" by simp
  then have split: "splitSqlTail ?sql = (?sql, [])"
    using hd dig bq b(2) digit_facts [OF nat_str_last_digit [of m]]
    by (intro splitSqlTail_quiet) (auto simp: w)
  have run: "quiet_run (cu CHR ''l'') 0 False (w @ js '' '') = Some 0"
  proof -
    have "quiet_run (cu CHR ''l'') 0 False (js ''SELECT * FROM ('') = Some 1" by code_simp
    from quiet_run_append [OF this] quiet_run_append [OF quiet_run_nested [OF b(1)]]
    have "quiet_run (cu CHR ''l'') 0 False (w @ js '' '') =
        quiet_run (cu CHR ''l'') 1 (if base = [] then False else isWord (last base))
          (js '') AS __gonavi_query_page__'' @ js '' '')"
      by (simp add: w) (simp add: js_def)
    also have "\<dots> = quiet_run (cu CHR ''l'') 1 False (js '') AS __gonavi_query_page__'' @ js '' '')"
      by (simp add: js_def)
    also have "\<dots> = Some 0" by code_simp
    finally show ?thesis .
  qed
  have "keyword_at ((w @ js '' '') @ js ''LIMIT'' @ cu CHR '' '' # nat_str n @ js '' OFFSET '' @ nat_str m)
      (js ''limit'') (length (w @ js '' ''))"
    by (rule keyword_at_append) (code_simp | simp add: js_def isWord_def word_char_def ascii_letter_def ascii_digit_def cu_def)+
  then have k: "keyword_at ?sql (js ''limit'') (length (w @ js '' ''))" by (simp add: js_def)
  have lim: "findTopLevelKeyword ?sql (js ''limit'') = Some (length (w @ js '' ''))"
    by (rule keyword_hit [OF refl _ _ _ _ k])
      (use run in \<open>simp_all add: js_def, simp_all add: plain_code_def cu_def to_lower_def lower_unit_def\<close>)
  have "keyword_at (js ''SELECT * '' @ js ''FROM'' @ js '' ('' @ base @ js '') AS __gonavi_query_page__ '' @ ?post)
      (js ''from'') (length (js ''SELECT * ''))"
    by (rule keyword_at_append) (code_simp | simp add: js_def isWord_def word_char_def ascii_letter_def ascii_digit_def cu_def)+
  then have k2: "keyword_at ?sql (js ''from'') (length (js ''SELECT * ''))" by (simp add: w js_def)
  have frm: "findTopLevelKeyword ?sql (js ''from'') = Some (length (js ''SELECT * ''))"
  proof (rule keyword_hit [OF _ _ _ _ _ k2])
    show "?sql = js ''SELECT * '' @ js ''FROM ('' @ base @ js '') AS __gonavi_query_page__ '' @ ?post"
      by (simp add: w js_def)
    show "quiet_run (hd (js ''from'')) 0 False (js ''SELECT * '') = Some 0" "to_lower (js ''from'') = js ''from''"
      by code_simp+
  qed (simp_all add: js_def plain_code_def cu_def)
  have last_w: "trim_end (w @ js '' '') = w"
    by (simp add: w trim_end_def js_def is_js_space_def cu_def)
  have lw: "length (js ''SELECT * '') \<le> length w" by (simp add: w)
  have tr: "trim ?post = ?post"
    using digit_facts [OF nat_str_last_digit [of m]]
    by (intro trim_id) (auto simp: js_def is_js_space_def cu_def)
  show ?thesis
    unfolding eq parseTopLevelLimit_def split Let_def fst_conv lim frm option.case
    using parse_limit_offset [of w n m] lw by (simp add: last_w tr)
qed

section \<open>The pages cover the total\<close>

lemma current_count_at:
  assumes "grid_total p = Finite n" and "0 \<le> n" and "1 \<le> grid_pageSize p" and "1 \<le> k"
  shows "resolveCurrentCount (p\<lparr>grid_current := k\<rparr>) =
    max 0 (min n (k * grid_pageSize p) - (k - 1) * grid_pageSize p)"
proof -
  have "0 \<le> (k - 1) * grid_pageSize p" using assms by simp
  moreover have "k * grid_pageSize p = (k - 1) * grid_pageSize p + grid_pageSize p" by (simp add: algebra_simps)
  ultimately show ?thesis
    using assms by (auto simp: resolveCurrentCount_def Let_def grid_exact_total_def)
qed

lemma current_counts_upto:
  assumes "grid_total p = Finite n" and "0 \<le> n" and "1 \<le> grid_pageSize p" and "0 \<le> j"
  shows "(\<Sum>k \<in> {1..j}. resolveCurrentCount (p\<lparr>grid_current := k\<rparr>)) = min n (j * grid_pageSize p)"
  using assms(4)
proof (induction j rule: int_ge_induct)
  case base
  then show ?case using assms(2) by simp
next
  case (step j)
  have "{1..j + 1} = insert (j + 1) {1..j}" using step.hyps by auto
  then have "(\<Sum>k \<in> {1..j + 1}. resolveCurrentCount (p\<lparr>grid_current := k\<rparr>)) =
      max 0 (min n ((j + 1) * grid_pageSize p) - j * grid_pageSize p) + min n (j * grid_pageSize p)"
    using step current_count_at [OF assms(1-3), of "j + 1"] by simp
  also have "\<dots> = min n ((j + 1) * grid_pageSize p)"
    using assms(3) by (auto simp: algebra_simps)
  finally show ?case .
qed

lemma ceil_div_covers:
  assumes "1 \<le> s" shows "n \<le> ceil_div n s * s"
proof -
  have "(- n) div s * s \<le> - n"
    using assms div_mult_mod_eq [of "- n" s] pos_mod_sign [of s "- n"] by linarith
  then show ?thesis by (simp add: ceil_div_def)
qed

lemma ceil_div_multiple: "1 \<le> s \<Longrightarrow> ceil_div (m * s) s = m"
  unfolding ceil_div_def minus_mult_left using nonzero_mult_div_cancel_right [of s "- m"] by simp

lemma total_of_page:
  assumes "1 \<le> page" and "1 \<le> sz"
  shows "resolveQueryResultPaginationTotal (Finite (int page)) (Finite (int sz)) (Finite (int rows)) None =
    (if sz \<le> rows then ((page + 1) * sz, False) else ((page - 1) * sz + rows, True))"
  using assms by (simp add: resolveQueryResultPaginationTotal_def Let_def)

lemma pages_of_total:
  assumes "1 \<le> sz" shows "total_pages (int ((page + 1) * sz)) (int sz) = int page + 1"
  using assms ceil_div_multiple [of "int sz" "int (page + 1)"]
  by (simp only: of_nat_mult total_pages_def) simp

section \<open>Properties\<close>

text \<open>C26: The pages of a grid cover its rows: when the total and the page size are known, the
  counts shown on the pages from the first to the last page of the control add up to the total,
  and no page shows more rows than its size or than there are.\<close>

theorem page_counts_cover_total:
  assumes "grid_total p = Finite n" and "0 \<le> n" and "1 \<le> grid_pageSize p"
  shows "(\<Sum>k \<in> {1..total_pages n (grid_pageSize p)}. resolveCurrentCount (p\<lparr>grid_current := k\<rparr>)) = n \<and>
    0 \<le> resolveCurrentCount p \<and> resolveCurrentCount p \<le> grid_pageSize p \<and> resolveCurrentCount p \<le> n"
proof -
  have P: "1 \<le> total_pages n (grid_pageSize p)" by (simp add: total_pages_def)
  have "n \<le> ceil_div n (grid_pageSize p) * grid_pageSize p" using ceil_div_covers [OF assms(3)] .
  also have "\<dots> \<le> total_pages n (grid_pageSize p) * grid_pageSize p"
    using assms(3) by (intro mult_right_mono) (auto simp: total_pages_def max_def)
  finally have "min n (total_pages n (grid_pageSize p) * grid_pageSize p) = n" by simp
  moreover have "0 \<le> resolveCurrentCount p \<and> resolveCurrentCount p \<le> grid_pageSize p \<and> resolveCurrentCount p \<le> n"
    using assms by (auto simp: resolveCurrentCount_def Let_def grid_exact_total_def)
  ultimately show ?thesis
    using current_counts_upto [OF assms, of "total_pages n (grid_pageSize p)"] P by simp
qed

definition sample_grid :: grid_pagination where
  "sample_grid = \<lparr>grid_current = 3, grid_pageSize = 10, grid_total = Finite 25, grid_totalKnown = None,
     grid_totalApprox = False, grid_approximateTotal = NonFinite, grid_totalCountLoading = False,
     grid_totalCountCancelled = False\<rparr>"

theorem page_counts_cover_total_witness:
  "total_pages 25 10 = 3 \<and>
   (\<Sum>k \<in> {1..total_pages 25 (grid_pageSize sample_grid)}. resolveCurrentCount (sample_grid\<lparr>grid_current := k\<rparr>)) = 25 \<and>
   resolveCurrentCount sample_grid = 5"
proof -
  have "total_pages 25 10 = 3" "resolveCurrentCount sample_grid = 5" by code_simp+
  then show ?thesis using page_counts_cover_total [of sample_grid 25] by (simp add: sample_grid_def)
qed

text \<open>The first state of the pages is within bounds. Pages are offered only for a \<open>SELECT\<close>;
  the page and its size are positive and the statement is not empty. A known total is the rows
  before the page plus the rows on it, which do not fill it; otherwise the page is full and the
  total leaves room for exactly one more page.\<close>

theorem initial_pagination_bounds:
  assumes "createInitialQueryResultPagination params = Some st"
  shows "getLeadingKeyword (trim (init_executedSql params)) = js ''select'' \<and>
    1 \<le> pg_current st \<and> 1 \<le> pg_pageSize st \<and> pg_baseSql st \<noteq> [] \<and>
    (if pg_totalKnown st
     then row_number (init_returnedRowCount params) < pg_pageSize st \<and> 1 < pg_current st \<and>
       pg_total st = (pg_current st - 1) * pg_pageSize st + row_number (init_returnedRowCount params)
     else pg_pageSize st \<le> row_number (init_returnedRowCount params) \<and>
       total_pages (int (pg_total st)) (int (pg_pageSize st)) = int (pg_current st) + 1)"
proof -
  let ?sql = "trim (init_executedSql params)"
  define rows where "rows = row_number (init_returnedRowCount params)"
  define sz where "sz = initial_page_size (parseTopLevelLimit ?sql) (init_fallbackPageSize params) rows"
  define page where "page = initial_page (parseTopLevelLimit ?sql) sz"
  let ?t = "resolveQueryResultPaginationTotal (Finite (int page)) (Finite (int sz)) (Finite (int rows)) None"
  have g: "getLeadingKeyword ?sql = js ''select''" "1 \<le> sz" "\<not> (page \<le> 1 \<and> rows < sz)"
    and st: "pg_current st = page" "pg_pageSize st = sz" "pg_baseSql st \<noteq> []"
      "pg_total st = fst ?t" "pg_totalKnown st = snd ?t"
    using assms unfolding page_def sz_def rows_def
    by (auto simp: createInitialQueryResultPagination_def Let_def split: if_splits prod.splits)
  have p: "1 \<le> page" by (auto simp: page_def initial_page_def split: option.splits)
  show ?thesis
    using g p unfolding st rows_def [symmetric] total_of_page [OF p g(2)]
    using pages_of_total [OF g(2), of page] st(3) by (simp only: fst_conv snd_conv split: if_split) auto
qed

theorem initial_pagination_bounds_witness:
  "(case createInitialQueryResultPagination \<lparr>init_executedSql = js ''select * from t limit 10 offset 20'',
      init_exportSql = [], init_returnedRowCount = Finite 4, init_fallbackPageSize = NonFinite\<rparr> of
      Some st \<Rightarrow> pg_current st = 3 \<and> pg_total st = (pg_current st - 1) * pg_pageSize st + 4
    | None \<Rightarrow> False)"
proof -
  let ?p = "\<lparr>init_executedSql = js ''select * from t limit 10 offset 20'',
      init_exportSql = [], init_returnedRowCount = Finite 4, init_fallbackPageSize = NonFinite\<rparr>"
  have e: "createInitialQueryResultPagination ?p = Some \<lparr>pg_current = 3, pg_pageSize = 10, pg_total = 24,
      pg_totalKnown = True, pg_baseSql = js ''select * from t'', pg_exportAllSql = js ''select * from t''\<rparr>"
    by code_simp
  from initial_pagination_bounds [OF e] show ?thesis by (simp add: e)
qed

text \<open>C27: A page statement is read back: for the dialects that write \<open>LIMIT\<close> and \<open>OFFSET\<close>, when the
  query is code without quotes and comments whose parentheses match, the limit the code reads in the
  statement it built for a page is the size of the page (and one row more to look ahead), at the
  offset of the page, of the wrapped query; the page read from it is the page asked for.\<close>

theorem page_statement_read_back:
  fixes params
  defines "dialect \<equiv> resolveSqlDialect (if page_dbType params = [] then js ''mysql'' else page_dbType params)
    (page_driver params) []"
  assumes d: "to_lower (trim dialect) \<notin> set (map js [''oracle'', ''dameng'', ''sqlserver'', ''mssql''])"
    and size: "page_pageSize params = Finite (int s)" "0 < s"
    and base: "nested 1 (trim (page_baseSql params))" "13 \<notin> set (page_baseSql params)"
  shows "parseTopLevelLimit (buildQueryResultPageSql params) =
      Some \<lparr>limit_baseSql = resolveWrappedBaseSql dialect (page_baseSql params),
        limit_count = (if page_lookahead params then s + 1 else s),
        limit_offset = (page_number (page_page params) - 1) * s\<rparr> \<and>
    initial_page (parseTopLevelLimit (buildQueryResultPageSql params)) s = page_number (page_page params)"
proof -
  let ?b = "trim (page_baseSql params)" and ?n = "if page_lookahead params then s + 1 else s"
  let ?o = "(page_number (page_page params) - 1) * s"
  let ?w = "js ''SELECT * FROM ('' @ ?b @ js '') AS __gonavi_query_page__''"
  have w: "resolveWrappedBaseSql dialect (page_baseSql params) = ?w"
    using d by (simp add: resolveWrappedBaseSql_def Let_def)
  have t: "trim ?w = ?w" by (rule trim_id) (simp add: js_def is_js_space_def cu_def)
  have "buildQueryResultPageSql params = buildPaginatedSelectSQL dialect ?w [] (int ?n) (int ?o)"
    using size by (simp add: buildQueryResultPageSql_def Let_def w dialect_def [symmetric])
  also have "\<dots> = ?w @ js '' LIMIT '' @ nat_str ?n @ js '' OFFSET '' @ nat_str ?o"
    using d size(2) unfolding buildPaginatedSelectSQL_def Let_def t nat_int by (simp add: js_def)
  finally have q: "buildQueryResultPageSql params = ?w @ js '' LIMIT '' @ nat_str ?n @ js '' OFFSET '' @ nat_str ?o" .
  have "13 \<notin> set ?b" using base(2) set_trim_subset by blast
  from parseTopLevelLimit_read [OF refl base(1) this, of ?n ?o]
  have r: "parseTopLevelLimit (buildQueryResultPageSql params) =
      Some \<lparr>limit_baseSql = ?w, limit_count = ?n, limit_offset = ?o\<rparr>"
    using size(2) unfolding q by (simp add: limit_found_def)
  have "1 \<le> page_number (page_page params)" by (cases "page_page params") auto
  then show ?thesis using size(2) by (simp add: r w initial_page_def)
qed

theorem page_statement_read_back_witness:
  "let params = \<lparr>page_baseSql = js ''select id, f(x) from t where a = 1'', page_dbType = js ''postgres'',
      page_driver = [], page_page = Finite 3, page_pageSize = Finite 50, page_lookahead = True\<rparr>
   in buildQueryResultPageSql params =
        js ''SELECT * FROM (select id, f(x) from t where a = 1) AS __gonavi_query_page__ LIMIT 51 OFFSET 100'' \<and>
      initial_page (parseTopLevelLimit (buildQueryResultPageSql params)) 50 = 3"
proof -
  let ?p = "\<lparr>page_baseSql = js ''select id, f(x) from t where a = 1'', page_dbType = js ''postgres'',
      page_driver = [], page_page = Finite 3, page_pageSize = Finite 50, page_lookahead = True\<rparr>"
  have s: "page_pageSize ?p = Finite (int 50)" "(0::nat) < 50" by simp_all
  have d: "to_lower (trim (resolveSqlDialect (if page_dbType ?p = [] then js ''mysql'' else page_dbType ?p)
      (page_driver ?p) [])) \<notin> set (map js [''oracle'', ''dameng'', ''sqlserver'', ''mssql''])" by code_simp
  have b: "nested 1 (trim (page_baseSql ?p))" "13 \<notin> set (page_baseSql ?p)" by code_simp+
  have "buildQueryResultPageSql ?p =
      js ''SELECT * FROM (select id, f(x) from t where a = 1) AS __gonavi_query_page__ LIMIT 51 OFFSET 100''"
    by code_simp
  moreover have "initial_page (parseTopLevelLimit (buildQueryResultPageSql ?p)) 50 = page_number (page_page ?p)"
    by (rule conjunct2 [OF page_statement_read_back [OF d s b]])
  moreover have "page_number (page_page ?p) = 3" by simp
  ultimately show ?thesis unfolding Let_def by (metis (no_types))
qed

text \<open>An offset that is not a multiple of the limit is lost: the pages start again at a row before
  the ones shown, and rows the user saw are shown again.\<close>

theorem offset_inside_page_lost:
  "(case createInitialQueryResultPagination \<lparr>init_executedSql = js ''select * from t limit 10 offset 15'',
      init_exportSql = [], init_returnedRowCount = Finite 10, init_fallbackPageSize = NonFinite\<rparr> of
      Some st \<Rightarrow> buildQueryResultPageSql \<lparr>page_baseSql = pg_baseSql st, page_dbType = js ''mysql'', page_driver = [],
          page_page = Finite (int (pg_current st)), page_pageSize = Finite (int (pg_pageSize st)),
          page_lookahead = False\<rparr> =
        js ''SELECT * FROM (select * from t) AS __gonavi_query_page__ LIMIT 10 OFFSET 10''
    | None \<Rightarrow> False)"
  by code_simp

end
