(* ===== verification/MemoryPolicy.thy ===== *)
theory MemoryPolicy
  imports QueryMaxRows Complex_Main
begin

text \<open>
  The memory settings and what they decide: \<open>frontend/src/utils/memoryPolicy.ts\<close>, and the two
  values of \<open>frontend/src/utils/appearance.ts\<close> it passes on. A stored value is read as a number
  (\<open>NonFinite\<close> when it is missing or is none) or as a boolean (\<open>None\<close> when it is not one);
  fractions of the settings, which the code truncates, are not modelled. Opacity and blur are
  rational numbers. The environment variable is an argument.
\<close>

section \<open>Settings\<close>

record advanced_settings =
  destroyInactiveTabs :: bool
  sidebarDbCacheLimit :: int
  runtimeSqlLogLimit :: int
  aiMessageMemoryLimit :: int
  sidebarIdleReleaseMinutes :: int
  goGCPercent :: int

record memory_settings =
  lowMemoryMode :: bool
  aiAssistantEnabled :: bool
  advanced :: advanced_settings
  queryMaxRowsStash :: "max_rows_state option"

definition NORMAL_SIDEBAR_DB_CACHE_LIMIT :: int where "NORMAL_SIDEBAR_DB_CACHE_LIMIT = 12"
definition NORMAL_RUNTIME_SQL_LOG_LIMIT :: int where "NORMAL_RUNTIME_SQL_LOG_LIMIT = 120"
definition NORMAL_GO_GC_PERCENT :: int where "NORMAL_GO_GC_PERCENT = 50"

definition DEFAULT_MEMORY_SETTINGS :: memory_settings where
  "DEFAULT_MEMORY_SETTINGS =
     \<lparr>lowMemoryMode = False, aiAssistantEnabled = False,
      advanced = \<lparr>destroyInactiveTabs = True, sidebarDbCacheLimit = 6, runtimeSqlLogLimit = 60,
        aiMessageMemoryLimit = 50, sidebarIdleReleaseMinutes = 30, goGCPercent = 40\<rparr>,
      queryMaxRowsStash = None\<rparr>"

section \<open>Reading stored settings\<close>

definition clampInt :: "int \<Rightarrow> int \<Rightarrow> int \<Rightarrow> int" where
  "clampInt v lo hi = min hi (max lo v)"

fun sanitizeBoundedInt :: "js_number \<Rightarrow> int \<Rightarrow> int \<Rightarrow> int \<Rightarrow> int" where
  "sanitizeBoundedInt NonFinite lo hi fallback = fallback"
| "sanitizeBoundedInt (Finite n) lo hi fallback = clampInt n lo hi"

fun sanitizeSidebarDbCacheLimit :: "js_number \<Rightarrow> int" where
  "sanitizeSidebarDbCacheLimit NonFinite = sidebarDbCacheLimit (advanced DEFAULT_MEMORY_SETTINGS)"
| "sanitizeSidebarDbCacheLimit (Finite n) =
     (let clamped = clampInt n 6 24 in if clamped mod 2 = 0 then clamped else clamped - 1)"

definition sanitizeRuntimeSqlLogLimit :: "js_number \<Rightarrow> int" where
  "sanitizeRuntimeSqlLogLimit v =
     sanitizeBoundedInt v 30 120 (runtimeSqlLogLimit (advanced DEFAULT_MEMORY_SETTINGS))"

definition sanitizeAiMessageMemoryLimit :: "js_number \<Rightarrow> int" where
  "sanitizeAiMessageMemoryLimit v =
     sanitizeBoundedInt v 20 200 (aiMessageMemoryLimit (advanced DEFAULT_MEMORY_SETTINGS))"

fun sanitizeSidebarIdleReleaseMinutes :: "js_number \<Rightarrow> int" where
  "sanitizeSidebarIdleReleaseMinutes NonFinite =
     sidebarIdleReleaseMinutes (advanced DEFAULT_MEMORY_SETTINGS)"
| "sanitizeSidebarIdleReleaseMinutes (Finite n) =
     (if n \<le> 0 then 0
      else if n \<in> {15, 30, 60} then n
      else sidebarIdleReleaseMinutes (advanced DEFAULT_MEMORY_SETTINGS))"

definition sanitizeGoGCPercent :: "js_number \<Rightarrow> int" where
  "sanitizeGoGCPercent v = sanitizeBoundedInt v 40 100 (goGCPercent (advanced DEFAULT_MEMORY_SETTINGS))"

text \<open>The stash is \<open>None\<close> when it is missing, null or no object.\<close>

definition sanitizeQueryMaxRowsStash :: "raw_max_rows option \<Rightarrow> max_rows_state option" where
  "sanitizeQueryMaxRowsStash v =
     (case v of
        None \<Rightarrow> None
      | Some raw \<Rightarrow> if raw_maxRows raw = None then None else Some (migrateQueryMaxRows raw))"

record raw_advanced =
  raw_destroyInactiveTabs :: "bool option"
  raw_sidebarDbCacheLimit :: js_number
  raw_runtimeSqlLogLimit :: js_number
  raw_aiMessageMemoryLimit :: js_number
  raw_sidebarIdleReleaseMinutes :: js_number
  raw_goGCPercent :: js_number

record raw_memory =
  raw_lowMemoryMode :: "bool option"
  raw_aiAssistantEnabled :: "bool option"
  raw_advanced_settings :: "raw_advanced option"
  raw_queryMaxRowsStash :: "raw_max_rows option"

definition empty_raw_advanced :: raw_advanced where
  "empty_raw_advanced = \<lparr>raw_destroyInactiveTabs = None, raw_sidebarDbCacheLimit = NonFinite,
     raw_runtimeSqlLogLimit = NonFinite, raw_aiMessageMemoryLimit = NonFinite,
     raw_sidebarIdleReleaseMinutes = NonFinite, raw_goGCPercent = NonFinite\<rparr>"

definition sanitize_advanced :: "raw_advanced \<Rightarrow> advanced_settings" where
  "sanitize_advanced raw =
     \<lparr>destroyInactiveTabs = (raw_destroyInactiveTabs raw \<noteq> Some False),
      sidebarDbCacheLimit = sanitizeSidebarDbCacheLimit (raw_sidebarDbCacheLimit raw),
      runtimeSqlLogLimit = sanitizeRuntimeSqlLogLimit (raw_runtimeSqlLogLimit raw),
      aiMessageMemoryLimit = sanitizeAiMessageMemoryLimit (raw_aiMessageMemoryLimit raw),
      sidebarIdleReleaseMinutes = sanitizeSidebarIdleReleaseMinutes (raw_sidebarIdleReleaseMinutes raw),
      goGCPercent = sanitizeGoGCPercent (raw_goGCPercent raw)\<rparr>"

definition sanitizeMemorySettings :: "raw_memory option \<Rightarrow> memory_settings" where
  "sanitizeMemorySettings v =
     (case v of
        None \<Rightarrow> DEFAULT_MEMORY_SETTINGS
      | Some raw \<Rightarrow>
          \<lparr>lowMemoryMode = (raw_lowMemoryMode raw = Some True),
           aiAssistantEnabled = (case raw_aiAssistantEnabled raw of Some b \<Rightarrow> b | None \<Rightarrow> True),
           advanced = sanitize_advanced
             (case raw_advanced_settings raw of Some a \<Rightarrow> a | None \<Rightarrow> empty_raw_advanced),
           queryMaxRowsStash = sanitizeQueryMaxRowsStash (raw_queryMaxRowsStash raw)\<rparr>)"

text \<open>Settings of the store passed where stored ones are expected.\<close>

definition raw_of_max_rows :: "'a max_rows_state_scheme \<Rightarrow> raw_max_rows" where
  "raw_of_max_rows s =
     \<lparr>raw_maxRows = Some (Finite (maxRows s)), raw_presets = map Finite (maxRowsCustomPresets s)\<rparr>"

definition raw_of_advanced :: "advanced_settings \<Rightarrow> raw_advanced" where
  "raw_of_advanced a =
     \<lparr>raw_destroyInactiveTabs = Some (destroyInactiveTabs a),
      raw_sidebarDbCacheLimit = Finite (sidebarDbCacheLimit a),
      raw_runtimeSqlLogLimit = Finite (runtimeSqlLogLimit a),
      raw_aiMessageMemoryLimit = Finite (aiMessageMemoryLimit a),
      raw_sidebarIdleReleaseMinutes = Finite (sidebarIdleReleaseMinutes a),
      raw_goGCPercent = Finite (goGCPercent a)\<rparr>"

definition raw_of_memory :: "memory_settings \<Rightarrow> raw_memory" where
  "raw_of_memory m =
     \<lparr>raw_lowMemoryMode = Some (lowMemoryMode m), raw_aiAssistantEnabled = Some (aiAssistantEnabled m),
      raw_advanced_settings = Some (raw_of_advanced (advanced m)),
      raw_queryMaxRowsStash = map_option raw_of_max_rows (queryMaxRowsStash m)\<rparr>"

abbreviation resanitize :: "memory_settings \<Rightarrow> memory_settings" where
  "resanitize m \<equiv> sanitizeMemorySettings (Some (raw_of_memory m))"

section \<open>The policy\<close>

definition LOW_MEMORY_ENV_VALUES :: "jsstr list" where
  "LOW_MEMORY_ENV_VALUES = map js [''1'', ''true'', ''yes'', ''on'']"

text \<open>The variable as the build knows it, and as the process does.\<close>

record environment =
  meta_env :: "jsstr option"
  process_env :: "jsstr option"

definition readLowMemoryEnvValue :: "environment \<Rightarrow> jsstr" where
  "readLowMemoryEnvValue env =
     (case meta_env env of
        Some v \<Rightarrow> if v \<noteq> [] then v else (case process_env env of Some p \<Rightarrow> p | None \<Rightarrow> [])
      | None \<Rightarrow> (case process_env env of Some p \<Rightarrow> p | None \<Rightarrow> []))"

definition effectiveLowMemoryModeFromEnv :: "environment \<Rightarrow> bool" where
  "effectiveLowMemoryModeFromEnv env =
     (let raw = to_lower (trim (readLowMemoryEnvValue env)) in raw \<noteq> [] \<and> raw \<in> set LOW_MEMORY_ENV_VALUES)"

record appearance_like =
  look_enabled :: "bool option"
  look_opacity :: "rat option"
  look_blur :: "rat option"

record policy_appearance =
  policy_enabled :: bool
  policy_opacity :: rat
  policy_blur :: rat

record memory_policy =
  effectiveLowMemoryMode :: bool
  envForced :: bool
  policy_memory :: memory_settings
  policy_look :: policy_appearance

definition resolveMemoryPolicy :: "environment \<Rightarrow> memory_settings \<Rightarrow> appearance_like \<Rightarrow> memory_policy" where
  "resolveMemoryPolicy env memory look =
     (let sanitized = resanitize memory; forced = effectiveLowMemoryModeFromEnv env in
      \<lparr>effectiveLowMemoryMode = (forced \<or> lowMemoryMode sanitized), envForced = forced,
       policy_memory = sanitized,
       policy_look = \<lparr>policy_enabled = (look_enabled look \<noteq> Some False),
         policy_opacity = (case look_opacity look of Some x \<Rightarrow> x | None \<Rightarrow> 1),
         policy_blur = (case look_blur look of Some x \<Rightarrow> x | None \<Rightarrow> 0)\<rparr>\<rparr>)"

definition shouldDestroyInactiveTabs :: "memory_policy \<Rightarrow> bool" where
  "shouldDestroyInactiveTabs policy =
     (if \<not> effectiveLowMemoryMode policy then False
      else destroyInactiveTabs (advanced (policy_memory policy)))"

definition resolveSidebarDbCacheLimit :: "memory_policy \<Rightarrow> int" where
  "resolveSidebarDbCacheLimit policy =
     (if \<not> effectiveLowMemoryMode policy then NORMAL_SIDEBAR_DB_CACHE_LIMIT
      else sidebarDbCacheLimit (advanced (policy_memory policy)))"

definition resolveRuntimeSqlLogLimit :: "memory_policy \<Rightarrow> int" where
  "resolveRuntimeSqlLogLimit policy =
     (if \<not> effectiveLowMemoryMode policy then NORMAL_RUNTIME_SQL_LOG_LIMIT
      else runtimeSqlLogLimit (advanced (policy_memory policy)))"

definition resolveAiMessageMemoryLimit :: "memory_policy \<Rightarrow> int option" where
  "resolveAiMessageMemoryLimit policy =
     (if \<not> effectiveLowMemoryMode policy then None
      else Some (aiMessageMemoryLimit (advanced (policy_memory policy))))"

definition shouldLazyLoadHeavyModules :: "memory_policy \<Rightarrow> bool" where
  "shouldLazyLoadHeavyModules policy = effectiveLowMemoryMode policy"

definition shouldLoadAIAssistant :: "memory_policy \<Rightarrow> bool" where
  "shouldLoadAIAssistant policy = aiAssistantEnabled (policy_memory policy)"

definition resolveGoGCPercent :: "memory_policy \<Rightarrow> int" where
  "resolveGoGCPercent policy =
     (if \<not> effectiveLowMemoryMode policy then NORMAL_GO_GC_PERCENT
      else goGCPercent (advanced (policy_memory policy)))"

definition buildMemoryPolicyPayload :: "memory_policy \<Rightarrow> bool \<times> int" where
  "buildMemoryPolicyPayload policy = (effectiveLowMemoryMode policy, resolveGoGCPercent policy)"

text \<open>Opacity and blur of the interface, \<open>None\<close> when no appearance is stored.\<close>

definition resolveAppearanceValues :: "appearance_like option \<Rightarrow> rat \<times> rat" where
  "resolveAppearanceValues look =
     (case look of
        None \<Rightarrow> (1, 0)
      | Some a \<Rightarrow>
          if look_enabled a \<noteq> Some False
          then (case look_opacity a of Some x \<Rightarrow> x | None \<Rightarrow> 1, case look_blur a of Some x \<Rightarrow> x | None \<Rightarrow> 0)
          else (1, 0))"

definition resolveEffectiveAppearanceValues ::
  "environment \<Rightarrow> memory_settings \<Rightarrow> appearance_like option \<Rightarrow> rat \<times> rat" where
  "resolveEffectiveAppearanceValues env memory look =
     (let policy = resolveMemoryPolicy env memory
            (case look of Some a \<Rightarrow> a | None \<Rightarrow> \<lparr>look_enabled = None, look_opacity = None, look_blur = None\<rparr>)
      in if effectiveLowMemoryMode policy then (1, 0) else resolveAppearanceValues look)"

section \<open>Settings in range\<close>

definition advanced_ok :: "advanced_settings \<Rightarrow> bool" where
  "advanced_ok a \<longleftrightarrow>
     6 \<le> sidebarDbCacheLimit a \<and> sidebarDbCacheLimit a \<le> 24 \<and> even (sidebarDbCacheLimit a) \<and>
     30 \<le> runtimeSqlLogLimit a \<and> runtimeSqlLogLimit a \<le> 120 \<and>
     20 \<le> aiMessageMemoryLimit a \<and> aiMessageMemoryLimit a \<le> 200 \<and>
     sidebarIdleReleaseMinutes a \<in> {0, 15, 30, 60} \<and>
     40 \<le> goGCPercent a \<and> goGCPercent a \<le> 100"

text \<open>A row limit that migration leaves as it is.\<close>

definition migrated :: "max_rows_state \<Rightarrow> bool" where
  "migrated s \<longleftrightarrow> max_rows_ok s \<and> migrateQueryMaxRows (raw_of_max_rows s) = s"

definition memory_ok :: "memory_settings \<Rightarrow> bool" where
  "memory_ok m \<longleftrightarrow> advanced_ok (advanced m) \<and> pred_option migrated (queryMaxRowsStash m)"

lemma sanitizeSidebarDbCacheLimit_range:
  "6 \<le> sanitizeSidebarDbCacheLimit v \<and> sanitizeSidebarDbCacheLimit v \<le> 24 \<and> even (sanitizeSidebarDbCacheLimit v)"
proof (cases v)
  case (Finite n)
  let ?c = "clampInt n 6 24"
  have c: "6 \<le> ?c" "?c \<le> 24" by (auto simp: clampInt_def)
  show ?thesis
  proof (cases "?c mod 2 = 0")
    case True
    with c Finite show ?thesis by (auto simp: Let_def)
  next
    case False
    then have m: "?c mod 2 = 1" by presburger
    then have "even (?c - 1)" "7 \<le> ?c" using c(1) by presburger+
    then show ?thesis using c(2) by (simp add: Finite m)
  qed
qed (simp add: DEFAULT_MEMORY_SETTINGS_def)

lemma sanitize_advanced_ok: "advanced_ok (sanitize_advanced raw)"
proof -
  have b: "lo \<le> sanitizeBoundedInt v lo hi d \<and> sanitizeBoundedInt v lo hi d \<le> hi"
    if "lo \<le> d" "d \<le> hi" for v lo hi d
    using that by (cases v) (auto simp: clampInt_def)
  have i: "sanitizeSidebarIdleReleaseMinutes v \<in> {0, 15, 30, 60}" for v
    by (cases v) (auto simp: DEFAULT_MEMORY_SETTINGS_def)
  show ?thesis
    using sanitizeSidebarDbCacheLimit_range b i
    by (simp add: advanced_ok_def sanitize_advanced_def sanitizeRuntimeSqlLogLimit_def
        sanitizeAiMessageMemoryLimit_def sanitizeGoGCPercent_def DEFAULT_MEMORY_SETTINGS_def)
qed

lemma clampInt_id: "lo \<le> n \<Longrightarrow> n \<le> hi \<Longrightarrow> clampInt n lo hi = n"
  by (simp add: clampInt_def)

lemma sanitize_advanced_id: "advanced_ok a \<Longrightarrow> sanitize_advanced (raw_of_advanced a) = a"
  by (cases a) (auto simp: advanced_ok_def sanitize_advanced_def raw_of_advanced_def clampInt_id even_iff_mod_2_eq_zero
      sanitizeRuntimeSqlLogLimit_def sanitizeAiMessageMemoryLimit_def sanitizeGoGCPercent_def)

section \<open>Migration is idempotent\<close>

lemma sanitize_full:
  assumes ps: "presets_ok ps" and v: "preset_ok v" "v \<notin> set ps"
    and lost: "v \<notin> set (sanitizeMaxRowsCustomPresets (map Finite ps @ [Finite v]))"
  shows "sanitizeMaxRowsCustomPresets (map Finite ps @ [Finite v]) = ps"
proof -
  let ?t = "sanitizeMaxRowsCustomPresets (map Finite ps @ [Finite v])"
  have len: "length ps = MAX_CUSTOM_PRESETS"
    using sanitize_insert [OF ps v] lost ps by (fastforce simp: presets_ok_def)
  have d: "distinct (ps @ [v])" using ps v by (simp add: presets_ok_def)
  have "map Finite ps @ [Finite v] = map Finite (ps @ [v])" by simp
  moreover have "filter preset_ok (ps @ [v]) = ps @ [v]"
    using ps v by (simp add: presets_ok_def filter_id_conv)
  ultimately have t: "?t = take MAX_CUSTOM_PRESETS (sort (ps @ [v]))"
    by (simp only: sanitize_eq map_filter_Finite distinct_remdups_id [OF d])
  then have "length ?t = MAX_CUSTOM_PRESETS" using len by simp
  moreover have "distinct ?t" using t d by simp
  moreover have "set ?t \<subseteq> set ps" using t lost set_take_subset [of MAX_CUSTOM_PRESETS "sort (ps @ [v])"] by auto
  ultimately have "set ?t = set ps"
    using len ps by (metis List.finite_set card_subset_eq distinct_card presets_ok_def)
  moreover have "sorted ?t" "sorted ps" "distinct ps"
    using sanitize_presets_ok ps by (auto simp: presets_ok_def)
  ultimately show ?thesis using \<open>distinct ?t\<close> by (metis sorted_distinct_set_unique)
qed

lemma migrate_raw_of:
  assumes "max_rows_ok s"
  shows "migrateQueryMaxRows (raw_of_max_rows s) = s\<lparr>maxRowsCustomPresets :=
    (if maxRows s \<noteq> DEFAULT_MAX_ROWS \<and> maxRows s \<notin> set (maxRowsCustomPresets s)
     then sanitizeMaxRowsCustomPresets (map Finite (maxRowsCustomPresets s) @ [Finite (maxRows s)])
     else maxRowsCustomPresets s)\<rparr>"
  using assms
  by (cases s) (simp add: raw_of_max_rows_def max_rows_ok_def migrateQueryMaxRows_def Let_def sanitize_fixed
      clampMaxRows_id limit_presets_id sanitize_presets_ok)

lemma migrate_migrated: "migrated (migrateQueryMaxRows raw)"
proof -
  let ?s = "migrateQueryMaxRows raw"
  have ok: "max_rows_ok ?s" by (rule migrate_ok)
  have "migrateQueryMaxRows (raw_of_max_rows ?s) = ?s"
  proof (cases "maxRows ?s \<noteq> DEFAULT_MAX_ROWS \<and> maxRows ?s \<notin> set (maxRowsCustomPresets ?s)")
    case False
    then show ?thesis unfolding migrate_raw_of [OF ok] by auto
  next
    case True
    let ?p0 = "sanitizeMaxRowsCustomPresets (raw_presets raw)"
    let ?p1 = "sanitizeMaxRowsCustomPresets (map Finite ?p0 @ [Finite (maxRows ?s)])"
    have v: "preset_ok (maxRows ?s)" using True ok by (simp add: preset_ok_def max_rows_ok_def)
    have "maxRowsCustomPresets ?s = (if maxRows ?s \<notin> set ?p0 then ?p1 else ?p0)"
      using True by (auto simp: migrateQueryMaxRows_def Let_def limit_presets_id sanitize_presets_ok split: if_splits)
    with True have p: "maxRowsCustomPresets ?s = ?p1" "maxRows ?s \<notin> set ?p0" by (auto split: if_splits)
    then have "?p1 = ?p0" using True v by (intro sanitize_full) (simp_all add: sanitize_presets_ok)
    with p True show ?thesis unfolding migrate_raw_of [OF ok] by simp
  qed
  with ok show ?thesis by (simp add: migrated_def)
qed

lemma sanitizeMemorySettings_ok: "memory_ok (sanitizeMemorySettings v)"
  using sanitize_advanced_ok migrate_migrated
  by (auto simp: memory_ok_def sanitizeMemorySettings_def sanitizeQueryMaxRowsStash_def
      DEFAULT_MEMORY_SETTINGS_def advanced_ok_def split: option.splits)

lemma resanitize_id: "memory_ok m \<Longrightarrow> resanitize m = m"
  by (cases "queryMaxRowsStash m")
    (simp_all add: sanitizeMemorySettings_def memory_ok_def raw_of_memory_def sanitize_advanced_id
      sanitizeQueryMaxRowsStash_def raw_of_max_rows_def migrated_def)

lemma policy_facts:
  assumes "memory_ok m"
  shows "policy_memory (resolveMemoryPolicy env m look) = m"
    and "effectiveLowMemoryMode (resolveMemoryPolicy env m look) \<longleftrightarrow>
      effectiveLowMemoryModeFromEnv env \<or> lowMemoryMode m"
  using resanitize_id [OF assms] by (simp_all add: resolveMemoryPolicy_def Let_def)

section \<open>Properties\<close>

text \<open>C28: Whatever object is stored, the memory settings read from it are of the right type: every
  limit is in its range, the cache limit is even, the idle time is one of those offered, and a
  stashed row limit is well-formed. Settings that are already read are read as they are.\<close>

theorem sanitizeMemorySettings_typed:
  fixes v
  defines "m \<equiv> sanitizeMemorySettings v"
  shows "sidebarDbCacheLimit (advanced m) \<in> {6..24} \<and> even (sidebarDbCacheLimit (advanced m)) \<and>
    runtimeSqlLogLimit (advanced m) \<in> {30..120} \<and> aiMessageMemoryLimit (advanced m) \<in> {20..200} \<and>
    sidebarIdleReleaseMinutes (advanced m) \<in> {0, 15, 30, 60} \<and> goGCPercent (advanced m) \<in> {40..100} \<and>
    pred_option max_rows_ok (queryMaxRowsStash m) \<and>
    sanitizeMemorySettings (Some (raw_of_memory m)) = m"
  using sanitizeMemorySettings_ok [of v] resanitize_id [OF sanitizeMemorySettings_ok, of v]
  by (cases "queryMaxRowsStash m") (auto simp: m_def memory_ok_def advanced_ok_def migrated_def)

text \<open>C0: What the policy decides stays within bounds: the log keeps at most as many entries as
  without low memory mode, chats are cut only in low memory mode, to between 20 and 200 messages,
  and a look with transparency is only shown outside of it.\<close>

theorem resolveMemoryPolicy_bounds:
  fixes env m look
  defines "policy \<equiv> resolveMemoryPolicy env m look"
  shows "30 \<le> resolveRuntimeSqlLogLimit policy \<and> resolveRuntimeSqlLogLimit policy \<le> NORMAL_RUNTIME_SQL_LOG_LIMIT \<and>
    (case resolveAiMessageMemoryLimit policy of
       None \<Rightarrow> \<not> effectiveLowMemoryMode policy
     | Some n \<Rightarrow> effectiveLowMemoryMode policy \<and> 20 \<le> n \<and> n \<le> 200) \<and>
    6 \<le> resolveSidebarDbCacheLimit policy \<and> resolveSidebarDbCacheLimit policy \<le> 24 \<and>
    (shouldDestroyInactiveTabs policy \<longrightarrow> effectiveLowMemoryMode policy) \<and>
    (effectiveLowMemoryMode policy \<longrightarrow> resolveEffectiveAppearanceValues env m (Some look) = (1, 0))"
proof -
  have "advanced_ok (advanced (policy_memory policy))"
    using sanitizeMemorySettings_ok by (simp add: policy_def resolveMemoryPolicy_def Let_def memory_ok_def)
  then show ?thesis
    by (auto simp: advanced_ok_def resolveRuntimeSqlLogLimit_def NORMAL_RUNTIME_SQL_LOG_LIMIT_def
        resolveAiMessageMemoryLimit_def resolveSidebarDbCacheLimit_def NORMAL_SIDEBAR_DB_CACHE_LIMIT_def
        shouldDestroyInactiveTabs_def resolveEffectiveAppearanceValues_def policy_def)
qed

text \<open>In low memory mode the cache of the sidebar may be twice as large as without it.\<close>

lemma low_memory_cache_larger:
  "resolveSidebarDbCacheLimit (resolveMemoryPolicy \<lparr>meta_env = None, process_env = None\<rparr>
     (DEFAULT_MEMORY_SETTINGS\<lparr>lowMemoryMode := True,
        advanced := (advanced DEFAULT_MEMORY_SETTINGS)\<lparr>sidebarDbCacheLimit := 24\<rparr>\<rparr>)
     \<lparr>look_enabled = None, look_opacity = None, look_blur = None\<rparr>) = 2 * NORMAL_SIDEBAR_DB_CACHE_LIMIT"
  by code_simp

end
