(* ===== verification/SettingsStore.thy ===== *)
theory SettingsStore
  imports MemoryPolicy TabStore
begin

text \<open>
  Settings, logs and chats of the store: \<open>frontend/src/store.ts\<close>, the reducers of the query
  options, the memory settings, the SQL log, the AI panel, chats, sessions and contexts, pending
  transactions and JVM drafts, and the limits applied when a stored state is loaded. The state has
  the fields these reducers use. The time, the environment and the default title are arguments;
  writing sessions to disk after a change is left out. \<open>None\<close> stands for a missing key.
\<close>

section \<open>State\<close>

record query_options = max_rows_state +
  qo_showColumnComment :: bool
  qo_showColumnType :: bool
  qo_showQueryResultsPanel :: bool
  qo_askWhatToExecute :: bool

record sql_log =
  log_id :: jsstr
  log_timestamp :: int
  log_sql :: jsstr
  log_error :: bool
  log_duration :: int
  log_message :: "jsstr option"
  log_dbName :: "jsstr option"
  log_affectedRows :: "int option"

record chat_message =
  msg_id :: jsstr
  msg_role :: jsstr
  msg_content :: jsstr
  msg_other :: "(jsstr \<times> jsstr) list"

record chat_session =
  session_id :: jsstr
  session_title :: jsstr
  session_updatedAt :: int

record ai_context =
  aictx_dbName :: jsstr
  aictx_tableName :: jsstr
  aictx_ddl :: jsstr

record jvm_draft =
  draft_command :: jsstr
  draft_sessionId :: "jsstr option"
  draft_source :: "jsstr option"
  draft_reason :: "jsstr option"

record pending_transaction =
  ptx_tabId :: jsstr
  ptx_other :: "(jsstr \<times> jsstr) list"

record settings_state =
  memorySettings :: memory_settings
  look :: appearance_like
  queryOptions :: query_options
  settings_tabs :: "tab_data list"
  sqlLogs :: "sql_log list"
  aiPanelVisible :: bool
  aiChatHistory :: "jsstr \<rightharpoonup> chat_message list"
  aiChatSessions :: "chat_session list"
  aiActiveSessionId :: "jsstr option"
  aiContexts :: "jsstr \<rightharpoonup> ai_context list"
  jvmDiagnosticDrafts :: "jsstr \<rightharpoonup> jvm_draft"
  jvmDiagnosticOutputs :: "jsstr \<rightharpoonup> jsstr list"
  sqlEditorPendingTransactions :: "jsstr \<rightharpoonup> pending_transaction"

definition state_policy :: "environment \<Rightarrow> settings_state \<Rightarrow> memory_policy" where
  "state_policy env s = resolveMemoryPolicy env (memorySettings s) (look s)"

section \<open>The SQL log\<close>

definition MAX_RUNTIME_SQL_LOGS :: nat where "MAX_RUNTIME_SQL_LOGS = 120"

record log_sanitize_options =
  opt_limit :: nat
  opt_sqlLength :: nat
  opt_messageLength :: nat

definition RUNTIME_SQL_LOG_SANITIZE_OPTIONS :: log_sanitize_options where
  "RUNTIME_SQL_LOG_SANITIZE_OPTIONS =
     \<lparr>opt_limit = MAX_RUNTIME_SQL_LOGS, opt_sqlLength = 12 * 1024, opt_messageLength = 1024\<rparr>"

definition PERSISTED_SQL_LOG_SANITIZE_OPTIONS :: log_sanitize_options where
  "PERSISTED_SQL_LOG_SANITIZE_OPTIONS =
     \<lparr>opt_limit = 200, opt_sqlLength = 24 * 1024, opt_messageLength = 2 * 1024\<rparr>"

text \<open>A stored entry. A text that is missing, or is no string, is \<open>None\<close>.\<close>

record raw_log =
  rawlog_id :: "jsstr option"
  rawlog_timestamp :: js_number
  rawlog_sql :: "jsstr option"
  rawlog_status :: jsstr
  rawlog_duration :: js_number
  rawlog_message :: "jsstr option"
  rawlog_dbName :: "jsstr option"
  rawlog_affectedRows :: js_number

definition indexed_log_id :: "nat \<Rightarrow> jsstr" where
  "indexed_log_id index = js ''log-'' @ nat_str (index + 1)"

definition nonempty_text :: "jsstr \<Rightarrow> jsstr option" where
  "nonempty_text s = (if s = [] then None else Some s)"

definition sanitizeSqlLogEntry ::
  "raw_log option \<Rightarrow> nat \<Rightarrow> log_sanitize_options \<Rightarrow> int \<Rightarrow> sql_log option" where
  "sanitizeSqlLogEntry entry index options now =
     (case entry of
        None \<Rightarrow> None
      | Some raw \<Rightarrow>
          (let sql = (case rawlog_sql raw of Some t \<Rightarrow> take (opt_sqlLength options) t | None \<Rightarrow> []);
               i = (case rawlog_id raw of Some t \<Rightarrow> trim t | None \<Rightarrow> indexed_log_id index)
           in if trim sql = [] then None
              else Some
                \<lparr>log_id = (if i = [] then indexed_log_id index else i),
                 log_timestamp = (case rawlog_timestamp raw of
                     Finite t \<Rightarrow> if 0 < t then t else now | NonFinite \<Rightarrow> now),
                 log_sql = sql,
                 log_error = (rawlog_status raw = js ''error''),
                 log_duration = (case rawlog_duration raw of
                     Finite d \<Rightarrow> if 0 \<le> d then d else 0 | NonFinite \<Rightarrow> 0),
                 log_message = (case rawlog_message raw of
                     Some t \<Rightarrow> nonempty_text (take (opt_messageLength options) t) | None \<Rightarrow> None),
                 log_dbName = (case rawlog_dbName raw of Some t \<Rightarrow> nonempty_text (trim t) | None \<Rightarrow> None),
                 log_affectedRows = (case rawlog_affectedRows raw of
                     Finite n \<Rightarrow> Some n | NonFinite \<Rightarrow> None)\<rparr>))"

text \<open>One entry: an id that was seen gets its place as a suffix.\<close>

definition log_step ::
  "log_sanitize_options \<Rightarrow> int \<Rightarrow> sql_log list \<times> jsstr list \<Rightarrow> nat \<times> raw_log option \<Rightarrow>
   sql_log list \<times> jsstr list" where
  "log_step options now acc e =
     (case sanitizeSqlLogEntry (snd e) (fst e) options now of
        None \<Rightarrow> acc
      | Some entry \<Rightarrow>
          (let i = (if log_id entry \<in> set (snd acc) then log_id entry @ js ''-'' @ nat_str (fst e + 1)
                    else log_id entry)
           in (fst acc @ [entry\<lparr>log_id := i\<rparr>], i # snd acc)))"

definition sanitizeSqlLogs :: "raw_log option list \<Rightarrow> log_sanitize_options \<Rightarrow> int \<Rightarrow> sql_log list" where
  "sanitizeSqlLogs entries options now =
     take (opt_limit options) (fst (foldl (log_step options now) ([], []) (enumerate 0 entries)))"

definition raw_of_log :: "sql_log \<Rightarrow> raw_log" where
  "raw_of_log l =
     \<lparr>rawlog_id = Some (log_id l), rawlog_timestamp = Finite (log_timestamp l), rawlog_sql = Some (log_sql l),
      rawlog_status = (if log_error l then js ''error'' else js ''success''),
      rawlog_duration = Finite (log_duration l), rawlog_message = log_message l, rawlog_dbName = log_dbName l,
      rawlog_affectedRows = (case log_affectedRows l of Some n \<Rightarrow> Finite n | None \<Rightarrow> NonFinite)\<rparr>"

definition sanitizeRuntimeSqlLogs :: "sql_log list \<Rightarrow> int \<Rightarrow> sql_log list" where
  "sanitizeRuntimeSqlLogs logs now =
     sanitizeSqlLogs (map (\<lambda>l. Some (raw_of_log l)) logs) RUNTIME_SQL_LOG_SANITIZE_OPTIONS now"

definition sanitizePersistedSqlLogs :: "sql_log list \<Rightarrow> int \<Rightarrow> sql_log list" where
  "sanitizePersistedSqlLogs logs now =
     sanitizeSqlLogs (map (\<lambda>l. Some (raw_of_log l)) logs) PERSISTED_SQL_LOG_SANITIZE_OPTIONS now"

definition appendRuntimeSqlLog :: "sql_log list \<Rightarrow> raw_log \<Rightarrow> int \<Rightarrow> int \<Rightarrow> sql_log list" where
  "appendRuntimeSqlLog existing entry limit now =
     (case sanitizeSqlLogEntry (Some entry) 0 RUNTIME_SQL_LOG_SANITIZE_OPTIONS now of
        None \<Rightarrow> existing
      | Some nextEntry \<Rightarrow>
          (let safeLimit = (if 0 < limit then nat limit else MAX_RUNTIME_SQL_LOGS);
               nextLogs = nextEntry # take (safeLimit - 1) existing
           in if \<exists>item \<in> set existing. log_id item = log_id nextEntry
              then sanitizeRuntimeSqlLogs nextLogs now else nextLogs))"

definition addSqlLog :: "environment \<Rightarrow> raw_log \<Rightarrow> int \<Rightarrow> settings_state \<Rightarrow> settings_state" where
  "addSqlLog env entry now s =
     s\<lparr>sqlLogs := appendRuntimeSqlLog (sqlLogs s) entry (resolveRuntimeSqlLogLimit (state_policy env s)) now\<rparr>"

definition clearSqlLogs :: "settings_state \<Rightarrow> settings_state" where
  "clearSqlLogs s = s\<lparr>sqlLogs := []\<rparr>"

section \<open>Query options\<close>

definition max_rows_of :: "query_options \<Rightarrow> max_rows_state" where
  "max_rows_of o' = \<lparr>maxRows = maxRows o', maxRowsCustomPresets = maxRowsCustomPresets o'\<rparr>"

definition with_max_rows :: "query_options \<Rightarrow> max_rows_state \<Rightarrow> query_options" where
  "with_max_rows o' m = o'\<lparr>maxRows := maxRows m, maxRowsCustomPresets := maxRowsCustomPresets m\<rparr>"

record options_update =
  up_maxRows :: "int option"
  up_presets :: "int list option"
  up_showColumnComment :: "bool option"
  up_showColumnType :: "bool option"
  up_showQueryResultsPanel :: "bool option"
  up_askWhatToExecute :: "bool option"

definition given :: "'a option \<Rightarrow> 'a \<Rightarrow> 'a" where
  "given new old = (case new of Some v \<Rightarrow> v | None \<Rightarrow> old)"

definition merge_options :: "query_options \<Rightarrow> options_update \<Rightarrow> query_options" where
  "merge_options o' u =
     \<lparr>maxRows = given (up_maxRows u) (maxRows o'),
      maxRowsCustomPresets = given (up_presets u) (maxRowsCustomPresets o'),
      qo_showColumnComment = given (up_showColumnComment u) (qo_showColumnComment o'),
      qo_showColumnType = given (up_showColumnType u) (qo_showColumnType o'),
      qo_showQueryResultsPanel = given (up_showQueryResultsPanel u) (qo_showQueryResultsPanel o'),
      qo_askWhatToExecute = given (up_askWhatToExecute u) (qo_askWhatToExecute o')\<rparr>"

definition setQueryOptions :: "environment \<Rightarrow> options_update \<Rightarrow> settings_state \<Rightarrow> settings_state" where
  "setQueryOptions env u s =
     (let merged = merge_options (queryOptions s) u;
          next_options = (if \<not> effectiveLowMemoryMode (state_policy env s) then merged
                          else with_max_rows merged (capQueryMaxRowsForLowMemory (max_rows_of merged)));
          globalMaxRowsChanged = (up_maxRows u \<noteq> None \<and> up_maxRows u \<noteq> Some (maxRows (queryOptions s)))
      in s\<lparr>queryOptions := next_options,
           settings_tabs := (if globalMaxRowsChanged
             then snapshotUnsetQueryTabMaxRows (settings_tabs s) (maxRows (queryOptions s)) else settings_tabs s)\<rparr>)"

text \<open>Options as they are stored; a flag that is no boolean is \<open>None\<close>.\<close>

record raw_options = raw_max_rows +
  rawopt_showColumnComment :: "bool option"
  rawopt_showColumnType :: "bool option"
  rawopt_showQueryResultsPanel :: "bool option"
  rawopt_askWhatToExecute :: "bool option"

definition sanitizeQueryOptions :: "raw_options option \<Rightarrow> query_options" where
  "sanitizeQueryOptions v =
     (let raw = (case v of Some r \<Rightarrow> r | None \<Rightarrow> \<lparr>raw_maxRows = None, raw_presets = [],
            rawopt_showColumnComment = None, rawopt_showColumnType = None,
            rawopt_showQueryResultsPanel = None, rawopt_askWhatToExecute = None\<rparr>);
          m = migrateQueryMaxRows (raw_max_rows.truncate raw)
      in \<lparr>maxRows = maxRows m, maxRowsCustomPresets = maxRowsCustomPresets m,
          qo_showColumnComment = given (rawopt_showColumnComment raw) True,
          qo_showColumnType = given (rawopt_showColumnType raw) True,
          qo_showQueryResultsPanel = given (rawopt_showQueryResultsPanel raw) False,
          qo_askWhatToExecute = given (rawopt_askWhatToExecute raw) True\<rparr>)"

definition applyHydrationLowMemoryCaps ::
  "environment \<Rightarrow> memory_settings \<Rightarrow> query_options \<Rightarrow> sql_log list \<Rightarrow> appearance_like \<Rightarrow> int \<Rightarrow>
   query_options \<times> sql_log list" where
  "applyHydrationLowMemoryCaps env memory o' logs app now =
     (let policy = resolveMemoryPolicy env memory app in
      if \<not> effectiveLowMemoryMode policy then (o', logs)
      else (if queryMaxRowsNeedsLowMemoryCap (max_rows_of o')
            then with_max_rows o' (capQueryMaxRowsForLowMemory (max_rows_of o')) else o',
            sanitizeRuntimeSqlLogs (take (nat (resolveRuntimeSqlLogLimit policy)) logs) now))"

section \<open>Chats\<close>

definition trimAiChatMessagesForRuntime ::
  "chat_message list \<Rightarrow> memory_policy \<Rightarrow> chat_message list" where
  "trimAiChatMessagesForRuntime messages policy =
     (case resolveAiMessageMemoryLimit policy of
        None \<Rightarrow> messages
      | Some limit \<Rightarrow>
          if int (length messages) \<le> limit then messages
          else drop (length messages - nat limit) messages)"

definition toggleAIPanel :: "environment \<Rightarrow> settings_state \<Rightarrow> settings_state" where
  "toggleAIPanel env s =
     (if \<not> shouldLoadAIAssistant (state_policy env s) then s
      else s\<lparr>aiPanelVisible := \<not> aiPanelVisible s\<rparr>)"

definition setAIPanelVisible :: "environment \<Rightarrow> bool \<Rightarrow> settings_state \<Rightarrow> settings_state" where
  "setAIPanelVisible env visible s =
     (if visible \<and> \<not> shouldLoadAIAssistant (state_policy env s) then s
      else s\<lparr>aiPanelVisible := visible\<rparr>)"

definition session_title_for :: "chat_message \<Rightarrow> jsstr \<Rightarrow> jsstr" where
  "session_title_for message default_title =
     (let title = (if msg_role message = js ''user'' then msg_content message else default_title)
      in if 20 < length title then take 20 title @ js ''...'' else title)"

text \<open>The session moves to the front with a new time.\<close>

definition touch_session :: "jsstr \<Rightarrow> int \<Rightarrow> chat_session list \<Rightarrow> chat_session list" where
  "touch_session sessionId now sessions =
     (case find (\<lambda>s. session_id s = sessionId) sessions of
        Some existing \<Rightarrow>
          existing\<lparr>session_updatedAt := now\<rparr> # filter (\<lambda>s. session_id s \<noteq> sessionId) sessions
      | None \<Rightarrow> sessions)"

definition addAIChatMessage ::
  "environment \<Rightarrow> jsstr \<Rightarrow> chat_message \<Rightarrow> jsstr \<Rightarrow> int \<Rightarrow> settings_state \<Rightarrow> settings_state" where
  "addAIChatMessage env sessionId message default_title now s =
     (let messages = given (aiChatHistory s sessionId) [];
          sessions = aiChatSessions s
      in s\<lparr>aiChatHistory := (aiChatHistory s)(sessionId \<mapsto>
             trimAiChatMessagesForRuntime (messages @ [message]) (state_policy env s)),
           aiChatSessions :=
             (if find (\<lambda>t. session_id t = sessionId) sessions = None
              then \<lparr>session_id = sessionId, session_title = session_title_for message default_title,
                    session_updatedAt = now\<rparr> # sessions
              else touch_session sessionId now sessions)\<rparr>)"

record message_update =
  upd_id :: "jsstr option"
  upd_role :: "jsstr option"
  upd_content :: "jsstr option"
  upd_other :: "(jsstr \<times> jsstr) list"

definition apply_message_update :: "chat_message \<Rightarrow> message_update \<Rightarrow> chat_message" where
  "apply_message_update m u =
     \<lparr>msg_id = given (upd_id u) (msg_id m), msg_role = given (upd_role u) (msg_role m),
      msg_content = given (upd_content u) (msg_content m),
      msg_other = upd_other u @ filter (\<lambda>p. fst p \<notin> fst ` set (upd_other u)) (msg_other m)\<rparr>"

definition content_only :: "message_update \<Rightarrow> bool" where
  "content_only u \<longleftrightarrow> upd_content u \<noteq> None \<and> upd_id u = None \<and> upd_role u = None \<and> upd_other u = []"

definition updateAIChatMessage ::
  "environment \<Rightarrow> jsstr \<Rightarrow> jsstr \<Rightarrow> message_update \<Rightarrow> int \<Rightarrow> settings_state \<Rightarrow> settings_state" where
  "updateAIChatMessage env sessionId messageId u now s =
     (case aiChatHistory s sessionId of
        None \<Rightarrow> s
      | Some messages \<Rightarrow>
          (case find_index (\<lambda>m. msg_id m = messageId) messages of
             None \<Rightarrow> s
           | Some idx \<Rightarrow>
               s\<lparr>aiChatHistory := (aiChatHistory s)(sessionId \<mapsto>
                   trimAiChatMessagesForRuntime
                     (messages[idx := apply_message_update (messages ! idx) u]) (state_policy env s)),
                 aiChatSessions := (if content_only u then aiChatSessions s
                   else touch_session sessionId now (aiChatSessions s))\<rparr>))"

definition deleteAIChatMessage :: "jsstr \<Rightarrow> jsstr \<Rightarrow> settings_state \<Rightarrow> settings_state" where
  "deleteAIChatMessage sessionId messageId s =
     (case aiChatHistory s sessionId of
        None \<Rightarrow> s
      | Some messages \<Rightarrow>
          s\<lparr>aiChatHistory := (aiChatHistory s)(sessionId \<mapsto> filter (\<lambda>m. msg_id m \<noteq> messageId) messages)\<rparr>)"

definition truncateAIChatMessages :: "jsstr \<Rightarrow> jsstr \<Rightarrow> settings_state \<Rightarrow> settings_state" where
  "truncateAIChatMessages sessionId upToMessageId s =
     (case aiChatHistory s sessionId of
        None \<Rightarrow> s
      | Some messages \<Rightarrow>
          (case find_index (\<lambda>m. msg_id m = upToMessageId) messages of
             None \<Rightarrow> s
           | Some idx \<Rightarrow> s\<lparr>aiChatHistory := (aiChatHistory s)(sessionId \<mapsto> take (idx + 1) messages)\<rparr>))"

definition clearAIChatHistory :: "jsstr \<Rightarrow> settings_state \<Rightarrow> settings_state" where
  "clearAIChatHistory sessionId s = s\<lparr>aiChatHistory := (aiChatHistory s)(sessionId := None)\<rparr>"

definition replaceAIChatHistory ::
  "environment \<Rightarrow> jsstr \<Rightarrow> chat_message list \<Rightarrow> settings_state \<Rightarrow> settings_state" where
  "replaceAIChatHistory env sessionId messages s =
     s\<lparr>aiChatHistory := (aiChatHistory s)(sessionId \<mapsto>
         trimAiChatMessagesForRuntime messages (state_policy env s))\<rparr>"

definition deleteAISession :: "jsstr \<Rightarrow> settings_state \<Rightarrow> settings_state" where
  "deleteAISession sessionId s =
     s\<lparr>aiChatHistory := (aiChatHistory s)(sessionId := None),
       aiChatSessions := filter (\<lambda>t. session_id t \<noteq> sessionId) (aiChatSessions s),
       aiActiveSessionId := (if aiActiveSessionId s = Some sessionId then None else aiActiveSessionId s)\<rparr>"

definition createNewAISession :: "nat \<Rightarrow> settings_state \<Rightarrow> settings_state" where
  "createNewAISession now s = s\<lparr>aiActiveSessionId := Some (js ''session-'' @ nat_str now)\<rparr>"

definition setAIActiveSessionId :: "jsstr option \<Rightarrow> settings_state \<Rightarrow> settings_state" where
  "setAIActiveSessionId sessionId s = s\<lparr>aiActiveSessionId := sessionId\<rparr>"

definition updateAISessionTitle :: "jsstr \<Rightarrow> jsstr \<Rightarrow> settings_state \<Rightarrow> settings_state" where
  "updateAISessionTitle sessionId title s =
     (case find_index (\<lambda>t. session_id t = sessionId) (aiChatSessions s) of
        None \<Rightarrow> s
      | Some i \<Rightarrow> s\<lparr>aiChatSessions := (aiChatSessions s)[i := (aiChatSessions s ! i)\<lparr>session_title := title\<rparr>]\<rparr>)"

section \<open>Contexts, drafts and pending transactions\<close>

definition same_context :: "jsstr \<Rightarrow> jsstr \<Rightarrow> ai_context \<Rightarrow> bool" where
  "same_context dbName tableName c \<longleftrightarrow> aictx_dbName c = dbName \<and> aictx_tableName c = tableName"

definition addAIContext :: "jsstr \<Rightarrow> ai_context \<Rightarrow> settings_state \<Rightarrow> settings_state" where
  "addAIContext connectionKey c s =
     (let contexts = given (aiContexts s connectionKey) [] in
      if \<exists>d \<in> set contexts. same_context (aictx_dbName c) (aictx_tableName c) d then s
      else s\<lparr>aiContexts := (aiContexts s)(connectionKey \<mapsto> contexts @ [c])\<rparr>)"

definition removeAIContext :: "jsstr \<Rightarrow> jsstr \<Rightarrow> jsstr \<Rightarrow> settings_state \<Rightarrow> settings_state" where
  "removeAIContext connectionKey dbName tableName s =
     s\<lparr>aiContexts := (aiContexts s)(connectionKey \<mapsto>
         filter (\<lambda>c. \<not> same_context dbName tableName c) (given (aiContexts s connectionKey) []))\<rparr>"

definition clearAIContexts :: "jsstr \<Rightarrow> settings_state \<Rightarrow> settings_state" where
  "clearAIContexts connectionKey s = s\<lparr>aiContexts := (aiContexts s)(connectionKey := None)\<rparr>"

record draft_update =
  dup_command :: "jsstr option"
  dup_sessionId :: "jsstr option"
  dup_source :: "jsstr option"
  dup_reason :: "jsstr option"

definition setJVMDiagnosticDraft :: "jsstr \<Rightarrow> draft_update \<Rightarrow> settings_state \<Rightarrow> settings_state" where
  "setJVMDiagnosticDraft tabId u s =
     (let old = jvmDiagnosticDrafts s tabId in
      s\<lparr>jvmDiagnosticDrafts := (jvmDiagnosticDrafts s)(tabId \<mapsto>
          \<lparr>draft_command = given (dup_command u) (case old of Some d \<Rightarrow> draft_command d | None \<Rightarrow> []),
           draft_sessionId = or_else (dup_sessionId u) (Option.bind old draft_sessionId),
           draft_source = or_else (dup_source u) (Option.bind old draft_source),
           draft_reason = or_else (dup_reason u) (Option.bind old draft_reason)\<rparr>)\<rparr>)"

definition appendJVMDiagnosticOutput :: "jsstr \<Rightarrow> jsstr list \<Rightarrow> settings_state \<Rightarrow> settings_state" where
  "appendJVMDiagnosticOutput tabId chunks s =
     s\<lparr>jvmDiagnosticOutputs := (jvmDiagnosticOutputs s)(tabId \<mapsto>
         given (jvmDiagnosticOutputs s tabId) [] @ chunks)\<rparr>"

definition clearJVMDiagnosticOutput :: "jsstr \<Rightarrow> settings_state \<Rightarrow> settings_state" where
  "clearJVMDiagnosticOutput tabId s =
     s\<lparr>jvmDiagnosticOutputs := (jvmDiagnosticOutputs s)(tabId \<mapsto> [])\<rparr>"

definition setSqlEditorPendingTransaction ::
  "jsstr \<Rightarrow> pending_transaction option \<Rightarrow> settings_state \<Rightarrow> settings_state" where
  "setSqlEditorPendingTransaction tabId transaction s =
     (let safeTabId = trim tabId in
      if safeTabId = [] then s
      else s\<lparr>sqlEditorPendingTransactions := (sqlEditorPendingTransactions s)(safeTabId :=
             map_option (\<lambda>t. t\<lparr>ptx_tabId := safeTabId\<rparr>) transaction)\<rparr>)"

section \<open>Memory settings\<close>

datatype advanced_option =
    DestroyInactiveTabs bool
  | SidebarDbCacheLimit js_number
  | RuntimeSqlLogLimit js_number
  | AiMessageMemoryLimit js_number
  | SidebarIdleReleaseMinutes js_number
  | GoGCPercent js_number

text \<open>One entry of \<open>{...advanced, [key]: value}\<close>.\<close>

fun put_advanced :: "advanced_option \<Rightarrow> raw_advanced \<Rightarrow> raw_advanced" where
  "put_advanced (DestroyInactiveTabs b) a = a\<lparr>raw_destroyInactiveTabs := Some b\<rparr>"
| "put_advanced (SidebarDbCacheLimit v) a = a\<lparr>raw_sidebarDbCacheLimit := v\<rparr>"
| "put_advanced (RuntimeSqlLogLimit v) a = a\<lparr>raw_runtimeSqlLogLimit := v\<rparr>"
| "put_advanced (AiMessageMemoryLimit v) a = a\<lparr>raw_aiMessageMemoryLimit := v\<rparr>"
| "put_advanced (SidebarIdleReleaseMinutes v) a = a\<lparr>raw_sidebarIdleReleaseMinutes := v\<rparr>"
| "put_advanced (GoGCPercent v) a = a\<lparr>raw_goGCPercent := v\<rparr>"

record memory_update =
  mup_lowMemoryMode :: "bool option"
  mup_aiAssistantEnabled :: "bool option"
  mup_advanced :: "advanced_option list option"
  mup_stash :: "max_rows_state option option"

definition merge_memory :: "memory_settings \<Rightarrow> memory_update \<Rightarrow> memory_settings" where
  "merge_memory m u =
     sanitizeMemorySettings (Some
       \<lparr>raw_lowMemoryMode = Some (given (mup_lowMemoryMode u) (lowMemoryMode m)),
        raw_aiAssistantEnabled = Some (given (mup_aiAssistantEnabled u) (aiAssistantEnabled m)),
        raw_advanced_settings = Some (fold put_advanced (given (mup_advanced u) []) (raw_of_advanced (advanced m))),
        raw_queryMaxRowsStash = map_option raw_of_max_rows (given (mup_stash u) (queryMaxRowsStash m))\<rparr>)"

text \<open>The branch that turns low memory mode on.\<close>

definition enter_low_memory ::
  "environment \<Rightarrow> memory_settings \<Rightarrow> int \<Rightarrow> settings_state \<Rightarrow> settings_state" where
  "enter_low_memory env m now s =
     (let current = max_rows_of (queryOptions s);
          cap = queryMaxRowsNeedsLowMemoryCap current;
          m' = (if cap \<and> queryMaxRowsStash m = None
                then resanitize (m\<lparr>queryMaxRowsStash := Some current\<rparr>) else m);
          logLimit = resolveRuntimeSqlLogLimit (resolveMemoryPolicy env m (look s))
      in s\<lparr>memorySettings := m',
           queryOptions := (if cap then with_max_rows (queryOptions s) (capQueryMaxRowsForLowMemory current)
                            else queryOptions s),
           sqlLogs := sanitizeRuntimeSqlLogs (take (nat logLimit) (sqlLogs s)) now,
           aiChatHistory := (\<lambda>k. map_option (\<lambda>messages.
             trimAiChatMessagesForRuntime messages (resolveMemoryPolicy env m' (look s))) (aiChatHistory s k))\<rparr>)"

text \<open>The branch that turns it off.\<close>

definition leave_low_memory :: "memory_settings \<Rightarrow> settings_state \<Rightarrow> settings_state" where
  "leave_low_memory m s =
     s\<lparr>memorySettings := resanitize (m\<lparr>queryMaxRowsStash := None\<rparr>),
       queryOptions := (case queryMaxRowsStash m of
           Some stash \<Rightarrow> with_max_rows (queryOptions s) (migrateQueryMaxRows (raw_of_max_rows stash))
         | None \<Rightarrow> queryOptions s)\<rparr>"

definition setMemorySettings ::
  "environment \<Rightarrow> memory_update \<Rightarrow> int \<Rightarrow> settings_state \<Rightarrow> settings_state" where
  "setMemorySettings env u now s =
     (let prevPolicy = state_policy env s;
          m = merge_memory (memorySettings s) u;
          nextPolicy = resolveMemoryPolicy env m (look s);
          prevEffective = effectiveLowMemoryMode prevPolicy;
          nextEffective = effectiveLowMemoryMode nextPolicy
      in if \<not> prevEffective \<and> nextEffective then enter_low_memory env m now s
         else if prevEffective \<and> \<not> nextEffective then leave_low_memory m s
         else if shouldLoadAIAssistant prevPolicy \<and> \<not> shouldLoadAIAssistant nextPolicy
           then s\<lparr>memorySettings := m, aiPanelVisible := False\<rparr>
         else s\<lparr>memorySettings := m\<rparr>)"

definition put_memory_option :: "advanced_option \<Rightarrow> memory_settings \<Rightarrow> memory_settings" where
  "put_memory_option opt m =
     sanitizeMemorySettings (Some ((raw_of_memory m)\<lparr>raw_advanced_settings :=
       Some (put_advanced opt (raw_of_advanced (advanced m)))\<rparr>))"

definition setMemoryAdvancedOption :: "advanced_option \<Rightarrow> settings_state \<Rightarrow> settings_state" where
  "setMemoryAdvancedOption opt s = s\<lparr>memorySettings := put_memory_option opt (memorySettings s)\<rparr>"

text \<open>The default for the key of an option.\<close>

fun default_option :: "advanced_option \<Rightarrow> advanced_option" where
  "default_option (DestroyInactiveTabs _) =
     DestroyInactiveTabs (destroyInactiveTabs (advanced DEFAULT_MEMORY_SETTINGS))"
| "default_option (SidebarDbCacheLimit _) =
     SidebarDbCacheLimit (Finite (sidebarDbCacheLimit (advanced DEFAULT_MEMORY_SETTINGS)))"
| "default_option (RuntimeSqlLogLimit _) =
     RuntimeSqlLogLimit (Finite (runtimeSqlLogLimit (advanced DEFAULT_MEMORY_SETTINGS)))"
| "default_option (AiMessageMemoryLimit _) =
     AiMessageMemoryLimit (Finite (aiMessageMemoryLimit (advanced DEFAULT_MEMORY_SETTINGS)))"
| "default_option (SidebarIdleReleaseMinutes _) =
     SidebarIdleReleaseMinutes (Finite (sidebarIdleReleaseMinutes (advanced DEFAULT_MEMORY_SETTINGS)))"
| "default_option (GoGCPercent _) =
     GoGCPercent (Finite (goGCPercent (advanced DEFAULT_MEMORY_SETTINGS)))"

definition resetMemoryAdvancedOption :: "advanced_option \<Rightarrow> settings_state \<Rightarrow> settings_state" where
  "resetMemoryAdvancedOption key s = setMemoryAdvancedOption (default_option key) s"

section \<open>The state machine\<close>

datatype settings_op =
    SetQueryOptions options_update
  | SetMemorySettings memory_update int
  | SetMemoryAdvancedOption advanced_option
  | ResetMemoryAdvancedOption advanced_option
  | AddSqlLog raw_log int
  | ClearSqlLogs
  | ToggleAIPanel
  | SetAIPanelVisible bool
  | AddAIChatMessage jsstr chat_message jsstr int
  | UpdateAIChatMessage jsstr jsstr message_update int
  | DeleteAIChatMessage jsstr jsstr
  | TruncateAIChatMessages jsstr jsstr
  | ClearAIChatHistory jsstr
  | ReplaceAIChatHistory jsstr "chat_message list"
  | DeleteAISession jsstr
  | CreateNewAISession nat
  | SetAIActiveSessionId "jsstr option"
  | UpdateAISessionTitle jsstr jsstr
  | AddAIContext jsstr ai_context
  | RemoveAIContext jsstr jsstr jsstr
  | ClearAIContexts jsstr
  | SetJVMDiagnosticDraft jsstr draft_update
  | AppendJVMDiagnosticOutput jsstr "jsstr list"
  | ClearJVMDiagnosticOutput jsstr
  | SetSqlEditorPendingTransaction jsstr "pending_transaction option"

fun run_settings_op :: "environment \<Rightarrow> settings_op \<Rightarrow> settings_state \<Rightarrow> settings_state" where
  "run_settings_op env (SetQueryOptions u) = setQueryOptions env u"
| "run_settings_op env (SetMemorySettings u now) = setMemorySettings env u now"
| "run_settings_op env (SetMemoryAdvancedOption v) = setMemoryAdvancedOption v"
| "run_settings_op env (ResetMemoryAdvancedOption v) = resetMemoryAdvancedOption v"
| "run_settings_op env (AddSqlLog entry now) = addSqlLog env entry now"
| "run_settings_op env ClearSqlLogs = clearSqlLogs"
| "run_settings_op env ToggleAIPanel = toggleAIPanel env"
| "run_settings_op env (SetAIPanelVisible v) = setAIPanelVisible env v"
| "run_settings_op env (AddAIChatMessage i m title now) = addAIChatMessage env i m title now"
| "run_settings_op env (UpdateAIChatMessage i m u now) = updateAIChatMessage env i m u now"
| "run_settings_op env (DeleteAIChatMessage i m) = deleteAIChatMessage i m"
| "run_settings_op env (TruncateAIChatMessages i m) = truncateAIChatMessages i m"
| "run_settings_op env (ClearAIChatHistory i) = clearAIChatHistory i"
| "run_settings_op env (ReplaceAIChatHistory i ms) = replaceAIChatHistory env i ms"
| "run_settings_op env (DeleteAISession i) = deleteAISession i"
| "run_settings_op env (CreateNewAISession now) = createNewAISession now"
| "run_settings_op env (SetAIActiveSessionId i) = setAIActiveSessionId i"
| "run_settings_op env (UpdateAISessionTitle i title) = updateAISessionTitle i title"
| "run_settings_op env (AddAIContext k c) = addAIContext k c"
| "run_settings_op env (RemoveAIContext k d t) = removeAIContext k d t"
| "run_settings_op env (ClearAIContexts k) = clearAIContexts k"
| "run_settings_op env (SetJVMDiagnosticDraft i u) = setJVMDiagnosticDraft i u"
| "run_settings_op env (AppendJVMDiagnosticOutput i cs) = appendJVMDiagnosticOutput i cs"
| "run_settings_op env (ClearJVMDiagnosticOutput i) = clearJVMDiagnosticOutput i"
| "run_settings_op env (SetSqlEditorPendingTransaction i t) = setSqlEditorPendingTransaction i t"

definition initial_settings :: "appearance_like \<Rightarrow> settings_state" where
  "initial_settings app =
     \<lparr>memorySettings = DEFAULT_MEMORY_SETTINGS, look = app,
      queryOptions = \<lparr>maxRows = 100, maxRowsCustomPresets = [], qo_showColumnComment = True,
        qo_showColumnType = True, qo_showQueryResultsPanel = False, qo_askWhatToExecute = True\<rparr>,
      settings_tabs = [], sqlLogs = [], aiPanelVisible = False, aiChatHistory = Map.empty,
      aiChatSessions = [], aiActiveSessionId = None, aiContexts = Map.empty, jvmDiagnosticDrafts = Map.empty,
      jvmDiagnosticOutputs = Map.empty, sqlEditorPendingTransactions = Map.empty\<rparr>"

section \<open>Logs are bounded\<close>

lemma sanitizeRuntimeSqlLogs_length: "length (sanitizeRuntimeSqlLogs logs now) \<le> MAX_RUNTIME_SQL_LOGS"
  by (simp add: sanitizeRuntimeSqlLogs_def sanitizeSqlLogs_def RUNTIME_SQL_LOG_SANITIZE_OPTIONS_def)

lemma log_step_length: "length (fst (log_step opts now acc e)) \<le> Suc (length (fst acc))"
  by (simp add: log_step_def Let_def split: option.splits)

lemma log_fold_length:
  "length (fst (foldl (log_step opts now) acc es)) \<le> length (fst acc) + length es"
proof (induction es arbitrary: acc)
  case (Cons e es)
  show ?case using Cons [of "log_step opts now acc e"] log_step_length [of opts now acc e] by simp
qed simp

lemma sanitizeRuntimeSqlLogs_le: "length (sanitizeRuntimeSqlLogs logs now) \<le> length logs"
  using log_fold_length [of RUNTIME_SQL_LOG_SANITIZE_OPTIONS now "([], [])" "enumerate 0 (map (\<lambda>l. Some (raw_of_log l)) logs)"]
  by (simp add: sanitizeRuntimeSqlLogs_def sanitizeSqlLogs_def)

text \<open>A log that is added is at the front, and the log then fits the limit.\<close>

lemma appendRuntimeSqlLog_added:
  assumes "1 \<le> limit" and "sanitizeSqlLogEntry (Some entry) 0 RUNTIME_SQL_LOG_SANITIZE_OPTIONS now = Some l"
  shows "length (appendRuntimeSqlLog existing entry limit now) \<le> nat limit"
proof -
  have b: "length (l # take (nat limit - 1) existing) \<le> nat limit" using assms(1) by simp
  have "length (sanitizeRuntimeSqlLogs (l # take (nat limit - 1) existing) now) \<le> nat limit"
    by (rule le_trans [OF sanitizeRuntimeSqlLogs_le b])
  with b assms show ?thesis by (simp add: appendRuntimeSqlLog_def Let_def)
qed

lemma appendRuntimeSqlLog_length:
  assumes "1 \<le> limit"
  shows "length (appendRuntimeSqlLog existing entry limit now) \<le> max (length existing) (nat limit)"
proof (cases "sanitizeSqlLogEntry (Some entry) 0 RUNTIME_SQL_LOG_SANITIZE_OPTIONS now")
  case None
  then show ?thesis by (simp add: appendRuntimeSqlLog_def)
next
  case (Some l)
  from appendRuntimeSqlLog_added [OF assms Some] show ?thesis by (rule max.coboundedI2)
qed

section \<open>Chats are bounded\<close>

lemma trim_chat_length:
  assumes "resolveAiMessageMemoryLimit policy = Some n" and "0 \<le> n"
  shows "int (length (trimAiChatMessagesForRuntime messages policy)) \<le> n"
  using assms by (simp add: trimAiChatMessagesForRuntime_def)

lemma trim_chat_suffix:
  "\<exists>old. messages = old @ trimAiChatMessagesForRuntime messages policy"
proof -
  have "\<exists>k. trimAiChatMessagesForRuntime messages policy = drop k messages"
    by (auto simp: trimAiChatMessagesForRuntime_def intro: exI [of _ 0] split: option.split)
  then show ?thesis by (metis append_take_drop_id)
qed

section \<open>The invariant\<close>

definition options_capped :: "query_options \<Rightarrow> bool" where
  "options_capped o' \<longleftrightarrow> \<not> queryMaxRowsNeedsLowMemoryCap (max_rows_of o')"

definition settings_inv :: "environment \<Rightarrow> settings_state \<Rightarrow> bool" where
  "settings_inv env s \<longleftrightarrow>
     memory_ok (memorySettings s) \<and> length (sqlLogs s) \<le> MAX_RUNTIME_SQL_LOGS \<and>
     distinct (map session_id (aiChatSessions s)) \<and>
     (effectiveLowMemoryMode (state_policy env s) \<longrightarrow>
        options_capped (queryOptions s) \<and>
        (\<forall>messages \<in> ran (aiChatHistory s). length messages \<le> 200))"

lemma capped_with_max_rows: "options_capped (with_max_rows o' (capQueryMaxRowsForLowMemory m))"
proof -
  have "set (sanitizeMaxRowsCustomPresets (map Finite vs)) \<subseteq> set vs" for vs
    by (auto simp: sanitize_eq map_filter_Finite dest!: in_set_takeD)
  then show ?thesis
    by (fastforce simp: options_capped_def queryMaxRowsNeedsLowMemoryCap_def with_max_rows_def max_rows_of_def
        capQueryMaxRowsForLowMemory_def)
qed

lemma log_limit_range:
  "30 \<le> resolveRuntimeSqlLogLimit (resolveMemoryPolicy env m app) \<and>
   resolveRuntimeSqlLogLimit (resolveMemoryPolicy env m app) \<le> 120"
  using sanitizeMemorySettings_ok
  by (simp add: resolveRuntimeSqlLogLimit_def NORMAL_RUNTIME_SQL_LOG_LIMIT_def resolveMemoryPolicy_def
      Let_def memory_ok_def advanced_ok_def)

lemma chat_limit_range:
  assumes "effectiveLowMemoryMode (resolveMemoryPolicy env m app)"
  obtains n where "resolveAiMessageMemoryLimit (resolveMemoryPolicy env m app) = Some n" and "0 \<le> n" and "n \<le> 200"
proof
  show "resolveAiMessageMemoryLimit (resolveMemoryPolicy env m app) = Some (aiMessageMemoryLimit (advanced (resanitize m)))"
    using assms by (auto simp: resolveAiMessageMemoryLimit_def resolveMemoryPolicy_def Let_def)
  show "0 \<le> aiMessageMemoryLimit (advanced (resanitize m))" "aiMessageMemoryLimit (advanced (resanitize m)) \<le> 200"
    using sanitizeMemorySettings_ok [of "Some (raw_of_memory m)"] by (simp_all add: memory_ok_def advanced_ok_def)
qed

lemma trim_chat_200:
  assumes "effectiveLowMemoryMode (resolveMemoryPolicy env m app)"
  shows "length (trimAiChatMessagesForRuntime messages (resolveMemoryPolicy env m app)) \<le> 200"
proof -
  from chat_limit_range [OF assms] obtain n
    where "resolveAiMessageMemoryLimit (resolveMemoryPolicy env m app) = Some n" "0 \<le> n" "n \<le> 200" .
  with trim_chat_length [OF this(1,2), of messages] show ?thesis by simp
qed

lemma merge_memory_ok: "memory_ok (merge_memory m u)"
  by (simp add: merge_memory_def sanitizeMemorySettings_ok)

lemma put_memory_option_facts:
  "memory_ok (put_memory_option opt m)" "lowMemoryMode (put_memory_option opt m) = lowMemoryMode m"
  by (simp_all add: put_memory_option_def sanitizeMemorySettings_ok)
    (simp add: sanitizeMemorySettings_def raw_of_memory_def)

lemma effective_iff:
  assumes "memory_ok (memorySettings s)"
  shows "effectiveLowMemoryMode (state_policy env s) \<longleftrightarrow>
    effectiveLowMemoryModeFromEnv env \<or> lowMemoryMode (memorySettings s)"
  using policy_facts(2) [OF assms] by (simp add: state_policy_def)

lemma touch_session_distinct:
  "distinct (map session_id ss) \<Longrightarrow> distinct (map session_id (touch_session i now ss))"
  by (auto simp: touch_session_def find_Some_iff distinct_map_filter split: option.splits)

lemma enter_low_memory_inv:
  assumes s: "settings_inv env s" and m: "memory_ok m" and e: "effectiveLowMemoryMode (resolveMemoryPolicy env m (look s))"
  shows "settings_inv env (enter_low_memory env m now s)"
proof -
  let ?cap = "queryMaxRowsNeedsLowMemoryCap (max_rows_of (queryOptions s))"
  let ?m = "if ?cap \<and> queryMaxRowsStash m = None
    then resanitize (m\<lparr>queryMaxRowsStash := Some (max_rows_of (queryOptions s))\<rparr>) else m"
  have ok: "memory_ok ?m" using m sanitizeMemorySettings_ok by simp
  have "lowMemoryMode ?m = lowMemoryMode m"
    by (simp add: sanitizeMemorySettings_def raw_of_memory_def)
  then have e': "effectiveLowMemoryMode (resolveMemoryPolicy env ?m (look s))"
    using e policy_facts(2) [OF m] policy_facts(2) [OF ok] by simp
  have "options_capped (if ?cap then with_max_rows (queryOptions s)
      (capQueryMaxRowsForLowMemory (max_rows_of (queryOptions s))) else queryOptions s)"
    using capped_with_max_rows by (simp add: options_capped_def)
  with s ok trim_chat_200 [OF e'] sanitizeRuntimeSqlLogs_length show ?thesis
    by (auto simp: settings_inv_def enter_low_memory_def Let_def ran_def)
qed

lemma leave_low_memory_inv:
  assumes s: "settings_inv env s" and m: "memory_ok m" and e: "\<not> effectiveLowMemoryMode (resolveMemoryPolicy env m (look s))"
  shows "settings_inv env (leave_low_memory m s)"
proof -
  let ?m = "resanitize (m\<lparr>queryMaxRowsStash := None\<rparr>)"
  have ok: "memory_ok ?m" by (rule sanitizeMemorySettings_ok)
  have "lowMemoryMode ?m = lowMemoryMode m"
    by (simp add: sanitizeMemorySettings_def raw_of_memory_def)
  then have "\<not> effectiveLowMemoryMode (resolveMemoryPolicy env ?m (look s))"
    using e policy_facts(2) [OF m] policy_facts(2) [OF ok] by simp
  with s ok show ?thesis by (simp add: settings_inv_def leave_low_memory_def state_policy_def)
qed

lemma setMemorySettings_inv:
  assumes s: "settings_inv env s"
  shows "settings_inv env (setMemorySettings env u now s)"
proof -
  let ?m = "merge_memory (memorySettings s) u"
  have m: "memory_ok ?m" by (rule merge_memory_ok)
  have "settings_inv env (s\<lparr>memorySettings := ?m, aiPanelVisible := v\<rparr>)"
    if "effectiveLowMemoryMode (resolveMemoryPolicy env ?m (look s)) \<longrightarrow> effectiveLowMemoryMode (state_policy env s)" for v
    using s m that by (auto simp: settings_inv_def state_policy_def)
  from this [of False] this [of "aiPanelVisible s"] enter_low_memory_inv [OF s m] leave_low_memory_inv [OF s m]
  show ?thesis by (simp add: setMemorySettings_def Let_def)
qed

lemma memory_option_inv: "settings_inv env s \<Longrightarrow> settings_inv env (setMemoryAdvancedOption opt s)"
  using put_memory_option_facts effective_iff [of s] effective_iff [of "setMemoryAdvancedOption opt s"]
  by (simp add: settings_inv_def setMemoryAdvancedOption_def)

lemma setQueryOptions_inv: "settings_inv env s \<Longrightarrow> settings_inv env (setQueryOptions env u s)"
  using capped_with_max_rows by (simp add: settings_inv_def setQueryOptions_def Let_def state_policy_def)

lemma addSqlLog_inv:
  assumes "settings_inv env s" shows "settings_inv env (addSqlLog env entry now s)"
proof -
  have l: "30 \<le> resolveRuntimeSqlLogLimit (state_policy env s)" "resolveRuntimeSqlLogLimit (state_policy env s) \<le> 120"
    using log_limit_range by (simp_all add: state_policy_def)
  have "length (appendRuntimeSqlLog (sqlLogs s) entry (resolveRuntimeSqlLogLimit (state_policy env s)) now)
      \<le> max (length (sqlLogs s)) (nat (resolveRuntimeSqlLogLimit (state_policy env s)))"
    by (rule appendRuntimeSqlLog_length) (use l in simp_all)
  also have "\<dots> \<le> 120" using assms l by (simp add: settings_inv_def MAX_RUNTIME_SQL_LOGS_def nat_le_iff)
  finally show ?thesis
    using assms by (simp add: settings_inv_def addSqlLog_def state_policy_def MAX_RUNTIME_SQL_LOGS_def)
qed

text \<open>A change of one chat keeps the invariant when the chat stays short in low memory mode.\<close>

lemma chat_update_inv:
  assumes "settings_inv env s" and "distinct (map session_id sessions)"
    and "effectiveLowMemoryMode (state_policy env s) \<longrightarrow> pred_option (\<lambda>ms. length ms \<le> 200) chat"
  shows "settings_inv env (s\<lparr>aiChatHistory := (aiChatHistory s)(i := chat), aiChatSessions := sessions\<rparr>)"
  using assms by (cases chat) (auto simp: settings_inv_def state_policy_def ran_def split: if_splits)

lemma chat_update_inv':
  assumes "settings_inv env s"
    and "effectiveLowMemoryMode (state_policy env s) \<longrightarrow> pred_option (\<lambda>ms. length ms \<le> 200) chat"
  shows "settings_inv env (s\<lparr>aiChatHistory := (aiChatHistory s)(i := chat)\<rparr>)"
  using assms by (cases chat) (auto simp: settings_inv_def state_policy_def ran_def split: if_splits)

lemma chat_short:
  "settings_inv env s \<Longrightarrow> aiChatHistory s i = Some ms \<Longrightarrow> effectiveLowMemoryMode (state_policy env s) \<Longrightarrow>
   length ms \<le> 200"
  by (auto simp: settings_inv_def ran_def)

lemma chat_op_inv:
  assumes s: "settings_inv env s"
  shows "settings_inv env (addAIChatMessage env i msg title now s)"
    and "settings_inv env (updateAIChatMessage env i mid u now s)"
    and "settings_inv env (replaceAIChatHistory env i ms s)"
    and "settings_inv env (deleteAIChatMessage i mid s)"
    and "settings_inv env (truncateAIChatMessages i mid s)"
proof -
  have d: "distinct (map session_id (aiChatSessions s))" using s by (simp add: settings_inv_def)
  have t: "effectiveLowMemoryMode (state_policy env s) \<longrightarrow>
      pred_option (\<lambda>ms. length ms \<le> 200) (Some (trimAiChatMessagesForRuntime ms (state_policy env s)))" for ms
    using trim_chat_200 by (simp add: state_policy_def)
  show "settings_inv env (addAIChatMessage env i msg title now s)"
    unfolding addAIChatMessage_def Let_def
    by (rule chat_update_inv [OF s _ t]) (auto simp: touch_session_distinct d find_None_iff)
  show "settings_inv env (updateAIChatMessage env i mid u now s)"
    using chat_update_inv [OF s touch_session_distinct [OF d] t] chat_update_inv [OF s d t]
    by (auto simp: updateAIChatMessage_def s split: option.split)
  show "settings_inv env (replaceAIChatHistory env i ms s)"
    unfolding replaceAIChatHistory_def by (rule chat_update_inv' [OF s t])
  show "settings_inv env (deleteAIChatMessage i mid s)"
    using chat_short [OF s, of i] s
    by (auto simp: deleteAIChatMessage_def intro!: chat_update_inv' intro: le_trans [OF length_filter_le] split: option.split)
  show "settings_inv env (truncateAIChatMessages i mid s)"
    using chat_short [OF s, of i] s
    by (auto simp: truncateAIChatMessages_def intro!: chat_update_inv' split: option.split)
qed

lemma session_op_inv:
  assumes s: "settings_inv env s"
  shows "settings_inv env (clearAIChatHistory i s)" and "settings_inv env (deleteAISession i s)"
    and "settings_inv env (updateAISessionTitle i t s)"
proof -
  have d: "distinct (map session_id (aiChatSessions s))" using s by (simp add: settings_inv_def)
  show "settings_inv env (clearAIChatHistory i s)"
    unfolding clearAIChatHistory_def by (rule chat_update_inv' [OF s]) simp
  show "settings_inv env (deleteAISession i s)"
    using chat_update_inv [OF s, of "filter (\<lambda>t. session_id t \<noteq> i) (aiChatSessions s)" None i] d
    by (simp add: deleteAISession_def distinct_map_filter settings_inv_def state_policy_def)
  have "map session_id ((aiChatSessions s)[k := (aiChatSessions s ! k)\<lparr>session_title := t\<rparr>]) =
      map session_id (aiChatSessions s)" for k
    by (cases "k < length (aiChatSessions s)") (simp_all add: map_update list_update_same_conv list_update_beyond)
  with s show "settings_inv env (updateAISessionTitle i t s)"
    by (auto simp: updateAISessionTitle_def settings_inv_def state_policy_def split: option.split)
qed

lemma other_op_inv:
  assumes "settings_inv env s"
    and "memorySettings s' = memorySettings s" "look s' = look s" "queryOptions s' = queryOptions s"
      "length (sqlLogs s') \<le> length (sqlLogs s)" "aiChatHistory s' = aiChatHistory s" "aiChatSessions s' = aiChatSessions s"
  shows "settings_inv env s'"
  using assms by (auto simp: settings_inv_def state_policy_def)

lemma run_settings_op_inv: "settings_inv env s \<Longrightarrow> settings_inv env (run_settings_op env op s)"
  by (cases op)
    (simp_all add: setQueryOptions_inv setMemorySettings_inv memory_option_inv resetMemoryAdvancedOption_def
      addSqlLog_inv chat_op_inv session_op_inv,
     (erule other_op_inv; simp add: clearSqlLogs_def toggleAIPanel_def setAIPanelVisible_def createNewAISession_def
       setAIActiveSessionId_def addAIContext_def removeAIContext_def clearAIContexts_def setJVMDiagnosticDraft_def
       appendJVMDiagnosticOutput_def clearJVMDiagnosticOutput_def setSqlEditorPendingTransaction_def Let_def)+)

interpretation settings: op_invariant "run_settings_op env" "\<lambda>_ _. True" "settings_inv env" for env
  by unfold_locales (rule run_settings_op_inv)

section \<open>Loading a stored state\<close>

record stored_settings =
  stored_memory :: "raw_memory option"
  stored_options :: "raw_options option"
  stored_logs :: "raw_log option list"
  stored_tabs :: "tab_data list"

text \<open>The fields of this model when the stored state is merged into the current one. The tabs are
  those the sanitizer of \<open>TabStore\<close> kept.\<close>

definition merge_stored ::
  "environment \<Rightarrow> stored_settings \<Rightarrow> appearance_like \<Rightarrow> int \<Rightarrow> settings_state \<Rightarrow> settings_state" where
  "merge_stored env stored app now s =
     (let memory = sanitizeMemorySettings (stored_memory stored);
          (o', logs) = applyHydrationLowMemoryCaps env memory (sanitizeQueryOptions (stored_options stored))
            (sanitizeSqlLogs (stored_logs stored) RUNTIME_SQL_LOG_SANITIZE_OPTIONS now) app now
      in s\<lparr>memorySettings := memory, look := app, queryOptions := o', sqlLogs := logs,
           settings_tabs := snapshotUnsetQueryTabMaxRows (stored_tabs stored) (maxRows o'),
           aiChatHistory := Map.empty, aiChatSessions := []\<rparr>)"

lemma merge_stored_inv: "settings_inv env (merge_stored env stored app now s)"
proof -
  let ?logs = "sanitizeSqlLogs (stored_logs stored) RUNTIME_SQL_LOG_SANITIZE_OPTIONS now"
  have "length ?logs \<le> MAX_RUNTIME_SQL_LOGS"
    by (simp add: sanitizeSqlLogs_def RUNTIME_SQL_LOG_SANITIZE_OPTIONS_def)
  then show ?thesis
    using sanitizeMemorySettings_ok sanitizeRuntimeSqlLogs_length capped_with_max_rows
    by (simp add: settings_inv_def merge_stored_def Let_def applyHydrationLowMemoryCaps_def state_policy_def
        options_capped_def split: prod.splits)
qed

lemma initial_settings_inv: "settings_inv env (initial_settings app)"
  using sanitizeMemorySettings_ok [of None]
  by (simp add: settings_inv_def initial_settings_def sanitizeMemorySettings_def options_capped_def
      queryMaxRowsNeedsLowMemoryCap_def max_rows_of_def LOW_MEMORY_MAX_ROWS_CAP_def DEFAULT_MAX_ROWS_def)

section \<open>Properties\<close>


definition no_environment :: environment where
  "no_environment = \<lparr>meta_env = None, process_env = None\<rparr>"

definition plain_look :: appearance_like where
  "plain_look = \<lparr>look_enabled = None, look_opacity = None, look_blur = None\<rparr>"

definition turn_low_memory :: "bool \<Rightarrow> memory_update" where
  "turn_low_memory b = \<lparr>mup_lowMemoryMode = Some b, mup_aiAssistantEnabled = None, mup_advanced = None, mup_stash = None\<rparr>"

definition ask_rows :: "int \<Rightarrow> options_update" where
  "ask_rows n = \<lparr>up_maxRows = Some n, up_presets = None, up_showColumnComment = None,
     up_showColumnType = None, up_showQueryResultsPanel = None, up_askWhatToExecute = None\<rparr>"


lemma setMemorySettings_enter:
  assumes "\<not> effectiveLowMemoryMode (state_policy env s)"
    and "effectiveLowMemoryMode (resolveMemoryPolicy env (merge_memory (memorySettings s) u) (look s))"
  shows "setMemorySettings env u now s = enter_low_memory env (merge_memory (memorySettings s) u) now s"
  by (simp add: setMemorySettings_def Let_def assms)

lemma setMemorySettings_leave:
  assumes "effectiveLowMemoryMode (state_policy env s)"
    and "\<not> effectiveLowMemoryMode (resolveMemoryPolicy env (merge_memory (memorySettings s) u) (look s))"
  shows "setMemorySettings env u now s = leave_low_memory (merge_memory (memorySettings s) u) s"
  by (simp add: setMemorySettings_def Let_def assms)

text \<open>Low memory mode leaves no trace in the row limit: turning it on and off again, in a state
  whose row limit is one that migration keeps and where no limit is stashed, gives back the query
  options and the memory settings, however large the limit was.\<close>

theorem low_memory_round_trip:
  fixes env s now now'
  defines "s' \<equiv> setMemorySettings env (turn_low_memory False) now' (setMemorySettings env (turn_low_memory True) now s)"
  assumes "\<not> effectiveLowMemoryMode (state_policy env s)" and "memory_ok (memorySettings s)"
    and "queryMaxRowsStash (memorySettings s) = None" and "migrated (max_rows_of (queryOptions s))"
  shows "queryOptions s' = queryOptions s \<and> memorySettings s' = memorySettings s"
proof -
  let ?m = "memorySettings s" and ?cur = "max_rows_of (queryOptions s)"
  let ?cap = "queryMaxRowsNeedsLowMemoryCap ?cur"
  have env: "\<not> effectiveLowMemoryModeFromEnv env" and low: "lowMemoryMode ?m = False"
    using assms(2) effective_iff [OF assms(3)] by auto
  have mm: "merge_memory m (turn_low_memory b) = m\<lparr>lowMemoryMode := b\<rparr>" if "memory_ok m" for m b
  proof -
    have "merge_memory m (turn_low_memory b) = resanitize (m\<lparr>lowMemoryMode := b\<rparr>)"
      by (simp add: merge_memory_def turn_low_memory_def given_def raw_of_memory_def)
    then show ?thesis using that resanitize_id [of "m\<lparr>lowMemoryMode := b\<rparr>"] by (simp add: memory_ok_def)
  qed
  define m1 where "m1 = ?m\<lparr>lowMemoryMode := True, queryMaxRowsStash := (if ?cap then Some ?cur else None)\<rparr>"
  have m1: "memory_ok m1" using assms(3,5) by (simp add: m1_def memory_ok_def)
  have on: "memory_ok (?m\<lparr>lowMemoryMode := True\<rparr>)" using assms(3) by (simp add: memory_ok_def)
  have id1: "resanitize (?m\<lparr>lowMemoryMode := True, queryMaxRowsStash := Some ?cur\<rparr>) =
      ?m\<lparr>lowMemoryMode := True, queryMaxRowsStash := Some ?cur\<rparr>"
    using assms(3,5) by (intro resanitize_id) (simp add: memory_ok_def)
  define s1 where "s1 = setMemorySettings env (turn_low_memory True) now s"
  have e: "s1 = enter_low_memory env (?m\<lparr>lowMemoryMode := True\<rparr>) now s"
    unfolding s1_def mm [OF assms(3), symmetric]
    by (rule setMemorySettings_enter [OF assms(2)]) (simp add: mm [OF assms(3)] policy_facts(2) [OF on])
  have s1: "memorySettings s1 = m1" "queryOptions s1 =
      (if ?cap then with_max_rows (queryOptions s) (capQueryMaxRowsForLowMemory ?cur) else queryOptions s)"
    using assms(4) id1 unfolding e by (simp_all add: enter_low_memory_def Let_def m1_def)
  have off: "memory_ok (m1\<lparr>lowMemoryMode := False\<rparr>)" using m1 by (simp add: memory_ok_def)
  have "effectiveLowMemoryMode (state_policy env s1)" using effective_iff [of s1] s1 m1 by (simp add: m1_def)
  moreover have mm1: "merge_memory (memorySettings s1) (turn_low_memory False) = m1\<lparr>lowMemoryMode := False\<rparr>"
    unfolding s1(1) by (rule mm [OF m1])
  moreover have "\<not> effectiveLowMemoryMode (resolveMemoryPolicy env (m1\<lparr>lowMemoryMode := False\<rparr>) (look s1))"
    using policy_facts(2) [OF off] env by simp
  ultimately have "setMemorySettings env (turn_low_memory False) now' s1 = leave_low_memory (m1\<lparr>lowMemoryMode := False\<rparr>) s1"
    using setMemorySettings_leave [of env s1 "turn_low_memory False" now'] by (simp only: simp_thms)
  then have l: "s' = leave_low_memory (m1\<lparr>lowMemoryMode := False\<rparr>) s1"
    unfolding s'_def s1_def .
  have "resanitize (m1\<lparr>lowMemoryMode := False, queryMaxRowsStash := None\<rparr>) =
      m1\<lparr>lowMemoryMode := False, queryMaxRowsStash := None\<rparr>"
    using m1 by (intro resanitize_id) (simp add: memory_ok_def)
  moreover have "m1\<lparr>lowMemoryMode := False, queryMaxRowsStash := None\<rparr> = ?m"
    using low assms(4) by (cases "?m") (simp add: m1_def)
  ultimately have "memorySettings s' = ?m" unfolding l by (simp add: leave_low_memory_def)
  moreover have "queryOptions s' = queryOptions s"
  proof (cases ?cap)
    case True
    then have "queryOptions s' = with_max_rows (queryOptions s1) (migrateQueryMaxRows (raw_of_max_rows ?cur))"
      unfolding l by (simp add: leave_low_memory_def m1_def)
    also have "\<dots> = with_max_rows (queryOptions s1) ?cur" using assms(5) by (simp add: migrated_def)
    also have "\<dots> = queryOptions s"
      by (cases "queryOptions s") (simp add: s1 with_max_rows_def max_rows_of_def)
    finally show ?thesis .
  next
    case False
    then show ?thesis unfolding l by (simp add: leave_low_memory_def m1_def s1)
  qed
  ultimately show ?thesis by simp
qed

theorem low_memory_round_trip_witness:
  "let s = setQueryOptions no_environment ((ask_rows 5000)\<lparr>up_presets := Some [50, 5000]\<rparr>) (initial_settings plain_look);
       s1 = setMemorySettings no_environment (turn_low_memory True) 1 s
   in maxRows (queryOptions s) = 5000 \<and> maxRows (queryOptions s1) = 100 \<and>
      queryOptions (setMemorySettings no_environment (turn_low_memory False) 2 s1) = queryOptions s"
proof -
  let ?s = "setQueryOptions no_environment ((ask_rows 5000)\<lparr>up_presets := Some [50, 5000]\<rparr>) (initial_settings plain_look)"
  have m: "memorySettings ?s = DEFAULT_MEMORY_SETTINGS" "look ?s = plain_look"
    by (simp_all add: setQueryOptions_def Let_def initial_settings_def)
  have ok: "memory_ok (memorySettings ?s)"
    using sanitizeMemorySettings_ok [of None] unfolding m(1) by (simp add: sanitizeMemorySettings_def)
  have e: "\<not> effectiveLowMemoryMode (state_policy no_environment ?s)" by code_simp
  have g: "queryMaxRowsStash (memorySettings ?s) = None" "migrated (max_rows_of (queryOptions ?s))"
    by code_simp+
  have "maxRows (queryOptions ?s) = 5000"
    "maxRows (queryOptions (setMemorySettings no_environment (turn_low_memory True) 1 ?s)) = 100"
    by code_simp+
  with low_memory_round_trip [OF e ok g, of 2 1] show ?thesis unfolding Let_def by blast
qed

text \<open>Changing the row limit of the settings does not change what an open query tab asks for:
  a tab without a limit of its own is given the former limit.\<close>

theorem setQueryOptions_keeps_tab_limits:
  assumes "settings_inv env s" and "i < length (settings_tabs s)" and "tab_kind (settings_tabs s ! i) = Query"
    and "tab_maxRows (settings_tabs s ! i) = None \<or> (\<exists>n > 0. tab_maxRows (settings_tabs s ! i) = Some (Finite n))"
  shows "resolveEffectiveTabMaxRows (tab_maxRows (settings_tabs (setQueryOptions env u s) ! i))
      (maxRows (queryOptions (setQueryOptions env u s))) =
    resolveEffectiveTabMaxRows (tab_maxRows (settings_tabs s ! i)) (maxRows (queryOptions s))"
proof (cases "up_maxRows u \<noteq> None \<and> up_maxRows u \<noteq> Some (maxRows (queryOptions s))")
  case True
  then have t: "settings_tabs (setQueryOptions env u s) =
      snapshotUnsetQueryTabMaxRows (settings_tabs s) (maxRows (queryOptions s))"
    by (simp add: setQueryOptions_def Let_def)
  have c: "0 < clampMaxRows n" "clampMaxRows (clampMaxRows n) = clampMaxRows n" for n
    using clampMaxRows_range [of n] clampMaxRows_id [of "clampMaxRows n"] by auto
  show ?thesis
    using assms(2-4) c unfolding t by (auto simp: snapshotUnsetQueryTabMaxRows_def resolveEffectiveTabMaxRows_def)
next
  case False
  then have t: "settings_tabs (setQueryOptions env u s) = settings_tabs s" by (auto simp: setQueryOptions_def Let_def)
  have g: "given (up_maxRows u) (maxRows (queryOptions s)) = maxRows (queryOptions s)"
    using False by (auto simp: given_def split: option.splits)
  have "clampMaxRows (maxRows (queryOptions (setQueryOptions env u s))) = clampMaxRows (maxRows (queryOptions s))"
  proof (cases "effectiveLowMemoryMode (state_policy env s)")
    case True
    with assms(1) have "maxRows (queryOptions s) \<le> 100"
      by (simp add: settings_inv_def options_capped_def queryMaxRowsNeedsLowMemoryCap_def max_rows_of_def
          LOW_MEMORY_MAX_ROWS_CAP_def DEFAULT_MAX_ROWS_def)
    with True show ?thesis
      by (simp add: setQueryOptions_def Let_def g merge_options_def with_max_rows_def max_rows_of_def
          capQueryMaxRowsForLowMemory_def clampMaxRows_def LOW_MEMORY_MAX_ROWS_CAP_def DEFAULT_MAX_ROWS_def
          MAX_MAX_ROWS_def)
  next
    case False
    then show ?thesis by (simp add: setQueryOptions_def Let_def g merge_options_def)
  qed
  then show ?thesis unfolding t by (simp add: resolveEffectiveTabMaxRows_def split: option.split js_number.split)
qed

definition blank_query_tab :: tab_data where
  "blank_query_tab = \<lparr>tab_id = js ''q'', tab_title = [], tab_kind = Query, tab_connectionId = [],
     tab_dbName = None, tab_tableName = None, tab_query = None, tab_filePath = None, tab_savedQueryId = None,
     resultPanelVisible = None, formatRestoreSnapshot = None, resultsCleared = None, tab_maxRows = None,
     other_fields = Map.empty\<rparr>"

theorem setQueryOptions_keeps_tab_limits_witness:
  "let s = (initial_settings plain_look)\<lparr>settings_tabs := [blank_query_tab]\<rparr>;
       s' = setQueryOptions no_environment (ask_rows 5000) s
   in maxRows (queryOptions s') = 5000 \<and>
      resolveEffectiveTabMaxRows (tab_maxRows (settings_tabs s' ! 0)) (maxRows (queryOptions s')) =
        resolveEffectiveTabMaxRows None 100"
proof -
  let ?s = "(initial_settings plain_look)\<lparr>settings_tabs := [blank_query_tab]\<rparr>"
  have i: "settings_inv no_environment ?s"
    by (rule other_op_inv [OF initial_settings_inv]) simp_all
  have t: "0 < length (settings_tabs ?s)" "tab_kind (settings_tabs ?s ! 0) = Query"
    "tab_maxRows (settings_tabs ?s ! 0) = None \<or> (\<exists>n > 0. tab_maxRows (settings_tabs ?s ! 0) = Some (Finite n))"
    by (simp_all add: blank_query_tab_def)
  have "maxRows (queryOptions (setQueryOptions no_environment (ask_rows 5000) ?s)) = 5000" by code_simp
  moreover have "maxRows (queryOptions ?s) = 100" "tab_maxRows (settings_tabs ?s ! 0) = None"
    by (simp_all add: initial_settings_def blank_query_tab_def)
  ultimately show ?thesis
    using setQueryOptions_keeps_tab_limits [OF i t, of "ask_rows 5000"] unfolding Let_def by simp
qed

text \<open>Switching the assistant off together with turning low memory mode on leaves its panel open.\<close>

theorem ai_panel_stays_visible:
  "let s = setAIPanelVisible no_environment True
             (setMemorySettings no_environment \<lparr>mup_lowMemoryMode = None, mup_aiAssistantEnabled = Some True,
                mup_advanced = None, mup_stash = None\<rparr> 0 (initial_settings plain_look));
       s' = setMemorySettings no_environment \<lparr>mup_lowMemoryMode = Some True, mup_aiAssistantEnabled = Some False,
              mup_advanced = None, mup_stash = None\<rparr> 1 s
   in aiPanelVisible s' \<and> \<not> aiAssistantEnabled (memorySettings s')"
  by code_simp

text \<open>An id made of a repeated id and its place can be one that was there before.\<close>

theorem sanitizeSqlLogs_repeats_ids:
  "let entry = (\<lambda>i. Some \<lparr>rawlog_id = Some (js i), rawlog_timestamp = Finite 1, rawlog_sql = Some (js ''select 1''),
         rawlog_status = js ''success'', rawlog_duration = Finite 0, rawlog_message = None, rawlog_dbName = None,
         rawlog_affectedRows = NonFinite\<rparr>)
   in map log_id (sanitizeSqlLogs [entry ''a-3'', entry ''a'', entry ''a'']
          \<lparr>opt_limit = 9, opt_sqlLength = 20, opt_messageLength = 9\<rparr> 0) =
        [js ''a-3'', js ''a'', js ''a-3'']"
  by code_simp

text \<open>The newest messages are kept: a message that is added is the last of its chat, and what is left
  of the chat is its end.\<close>

theorem addAIChatMessage_keeps_newest:
  fixes env i m title now s
  defines "s' \<equiv> addAIChatMessage env i m title now s"
  shows "\<exists>old kept. given (aiChatHistory s i) [] = old @ kept \<and> aiChatHistory s' i = Some (kept @ [m]) \<and>
    (\<exists>t rest. aiChatSessions s' = t # rest \<and> session_id t = i \<and> session_updatedAt t = now)"
proof -
  let ?ms = "given (aiChatHistory s i) []"
  have "trimAiChatMessagesForRuntime (?ms @ [m]) (state_policy env s) \<noteq> []"
  proof (cases "effectiveLowMemoryMode (state_policy env s)")
    case True
    have "20 \<le> aiMessageMemoryLimit (advanced (policy_memory (state_policy env s)))"
      using sanitizeMemorySettings_ok
      by (simp add: state_policy_def resolveMemoryPolicy_def Let_def memory_ok_def advanced_ok_def)
    with True show ?thesis
      by (auto simp: trimAiChatMessagesForRuntime_def resolveAiMessageMemoryLimit_def)
  qed (simp add: trimAiChatMessagesForRuntime_def resolveAiMessageMemoryLimit_def)
  moreover obtain old where o': "?ms @ [m] = old @ trimAiChatMessagesForRuntime (?ms @ [m]) (state_policy env s)"
    using trim_chat_suffix by blast
  ultimately obtain kept where k: "trimAiChatMessagesForRuntime (?ms @ [m]) (state_policy env s) = kept @ [m]"
      "?ms = old @ kept"
    by (metis append_assoc butlast_append butlast_snoc last_appendR last_snoc append_butlast_last_id)
  have "aiChatHistory s' i = Some (kept @ [m])" by (simp add: s'_def addAIChatMessage_def Let_def k(1))
  moreover have "\<exists>t rest. aiChatSessions s' = t # rest \<and> session_id t = i \<and> session_updatedAt t = now"
  proof (cases "find (\<lambda>t. session_id t = i) (aiChatSessions s)")
    case (Some x)
    then have "session_id x = i" by (auto simp: find_Some_iff)
    with Some show ?thesis by (simp add: s'_def addAIChatMessage_def Let_def touch_session_def)
  qed (simp add: s'_def addAIChatMessage_def Let_def)
  ultimately show ?thesis using k(2) by blast
qed

end
