(* ===== verification/MongoLimit.thy ===== *)
theory MongoLimit
  imports MongoCalls "HOL-Library.Multiset"
begin

text \<open>
  The limit that the query editor puts on MongoDB commands without one (\<open>applyMongoQueryAutoLimit\<close> of
  \<open>utils/mongodb.ts\<close>).
\<close>

section \<open>Automatic limit\<close>

record limited_command =
  limited_text :: jsstr
  applied :: bool

definition applyMongoQueryAutoLimit :: "jsstr \<Rightarrow> number \<Rightarrow> limited_command" where
  "applyMongoQueryAutoLimit command maxRows =
     (let unchanged = \<lparr>limited_text = command, applied = False\<rparr> in
      case maxRows of
        Dec d \<Rightarrow>
          if fst d \<le> 0 then unchanged
          else
            (case parse_json (trim command) of
               Some (JObj parsed) \<Rightarrow>
                 if has_own parsed (js ''find'') then
                   (if has_own parsed (js ''limit'') then unchanged
                    else \<lparr>limited_text = stringify (JObj (obj_put (js ''limit'') (num (dec_floor d)) parsed)), applied = True\<rparr>)
                 else if has_own parsed (js ''aggregate'') then
                   (case map_of parsed (js ''pipeline'') of
                      Some (JArr pipeline) \<Rightarrow>
                        (let has = (\<lambda>k v. case v of JObj s \<Rightarrow> has_own s (js k) | _ \<Rightarrow> False) in
                         if list_ex (has ''$limit'') pipeline \<or> list_ex (\<lambda>v. has ''$out'' v \<or> has ''$merge'' v) pipeline
                         then unchanged
                         else \<lparr>limited_text = stringify (JObj (obj_put (js ''pipeline'')
                                  (JArr (pipeline @ [stage ''$limit'' (num (dec_floor d))])) parsed)), applied = True\<rparr>)
                    | _ \<Rightarrow> unchanged)
                 else unchanged
             | _ \<Rightarrow> unchanged)
      | _ \<Rightarrow> unchanged)"

section \<open>The automatic limit\<close>

definition stage_with :: "string \<Rightarrow> json \<Rightarrow> bool" where
  "stage_with k v = (case v of JObj s \<Rightarrow> has_own s (js k) | _ \<Rightarrow> False)"

text \<open>The commands whose result has no bound of its own.\<close>

definition unlimited :: "members \<Rightarrow> bool" where
  "unlimited ms \<longleftrightarrow>
     (if has_own ms (js ''find'') then \<not> has_own ms (js ''limit'')
      else has_own ms (js ''aggregate'') \<and>
        (\<exists>vs. map_of ms (js ''pipeline'') = Some (JArr vs) \<and>
          (\<forall>v \<in> set vs. \<not> stage_with ''$limit'' v \<and> \<not> stage_with ''$out'' v \<and> \<not> stage_with ''$merge'' v)))"

text \<open>The same command with the limit.\<close>

definition limited :: "members \<Rightarrow> int \<Rightarrow> members" where
  "limited ms n =
     (if has_own ms (js ''find'') then ms @ [(js ''limit'', num n)]
      else map (\<lambda>p. if fst p = js ''pipeline'' then
          (fst p, case snd p of JArr vs \<Rightarrow> JArr (vs @ [stage ''$limit'' (num n)]) | v \<Rightarrow> v) else p) ms)"

lemma num_ok: "json_ok (num n)" and dec_floor_int: "dec_floor (n, 0) = n"
  by (simp_all add: num_def decimal_ok_def dec_floor_def)

lemma obj_put_new: "k \<notin> fst ` set ms \<Longrightarrow> \<not> is_index_key k \<Longrightarrow> obj_put k v ms = ms @ [(k, v)]"
  by (simp add: obj_put_def)

lemma obj_of_append: "obj_of (ms @ [p]) = obj_put (fst p) (snd p) (obj_of ms)"
  by (simp add: obj_of_def)

text \<open>Objects built by assignments have distinct keys, and keep their shape when the values change.\<close>

lemma obj_put_keys:
  "mset (map fst (obj_put k v ms)) = (if k \<in> set (map fst ms) then mset (map fst ms) else add_mset k (mset (map fst ms)))"
proof (cases "k \<in> fst ` set ms")
  case True
  have "map fst (map (\<lambda>p. if fst p = k then (k, v) else p) ms) = map fst ms" by (induction ms) auto
  with True show ?thesis by (simp only: obj_put_def if_True set_map)
next
  case False
  have "mset (map fst (takeWhile P ms @ (k, v) # dropWhile P ms)) = add_mset k (mset (map fst ms))" for P
  proof -
    have "mset ms = mset (takeWhile P ms) + mset (dropWhile P ms)" by (metis mset_append takeWhile_dropWhile_id)
    then show ?thesis by simp
  qed
  with False show ?thesis by (simp add: obj_put_def Let_def)
qed

lemma obj_put_distinct: "distinct (map fst ms) \<Longrightarrow> distinct (map fst (obj_put k v ms))"
proof (cases "k \<in> set (map fst ms)")
  case True
  moreover assume "distinct (map fst ms)"
  ultimately show ?thesis using obj_put_keys [of k v ms] by (metis mset_eq_imp_distinct_iff)
next
  case False
  moreover assume "distinct (map fst ms)"
  ultimately have "distinct (k # map fst ms)" by simp
  then show ?thesis using obj_put_keys [of k v ms] False by (metis mset.simps(2) mset_eq_imp_distinct_iff)
qed

lemma obj_of_distinct: "distinct (map fst (obj_of ms))"
  by (induction ms rule: rev_induct) (simp_all add: obj_of_append obj_put_distinct, simp add: obj_of_def)

lemma distinct_map_snd:
  assumes "obj_of ms = ms"
  shows "obj_of (map (\<lambda>p. (fst p, f p)) ms) = map (\<lambda>p. (fst p, f p)) ms"
proof -
  let ?g = "\<lambda>p. (fst p, f p)"
  have put: "obj_put k (f (k, v)) (map ?g xs) = map ?g (obj_put k v xs)" if "k \<notin> fst ` set xs" for k v xs
  proof -
    have "fst ` set (map ?g xs) = fst ` set xs" by force
    with that show ?thesis by (simp add: obj_put_def Let_def takeWhile_map dropWhile_map comp_def)
  qed
  have "obj_of (map ?g xs) = map ?g (obj_of xs)" if "distinct (map fst xs)" for xs
    using that
  proof (induction xs rule: rev_induct)
    case (snoc p xs)
    have "fst p \<notin> set (map fst (obj_of xs))" using snoc.prems by (simp add: obj_of_names)
    then have "fst p \<notin> fst ` set (obj_of xs)" by simp
    from put [OF this, of "snd p"] snoc show ?case by (simp add: obj_of_append)
  qed (simp add: obj_of_def)
  with obj_of_distinct [of ms] show ?thesis by (simp add: assms)
qed

lemma limited_ok:
  assumes "json_ok (JObj ms)" and "unlimited ms"
  shows "json_ok (JObj (limited ms n))"
proof (cases "has_own ms (js ''find'')")
  case True
  then have l: "js ''limit'' \<notin> fst ` set ms" using assms(2) by (simp add: unlimited_def has_own_def)
  have i: "\<not> is_index_key (js ''limit'')" "\<forall>c \<in> set (js ''limit''). 0 \<le> c"
    by (simp_all add: is_index_key_def js_def ascii_digit_def cu_def)
  have "obj_of (ms @ [(js ''limit'', num n)]) = ms @ [(js ''limit'', num n)]"
    using assms(1) obj_put_new [OF l i(1)] by (simp add: obj_of_append)
  with True assms(1) i(2) num_ok [of n] show ?thesis by (auto simp: limited_def)
next
  case False
  define f where "f = (\<lambda>p :: jsstr \<times> json. if fst p = js ''pipeline'' then
      (case snd p of JArr vs \<Rightarrow> JArr (vs @ [stage ''$limit'' (num n)]) | v \<Rightarrow> v) else snd p)"
  have l: "limited ms n = map (\<lambda>p. (fst p, f p)) ms" using False by (auto simp: limited_def f_def)
  have s: "json_ok (stage ''$limit'' (num n))"
    using num_ok [of n] by (simp add: stage_def obj_of_def obj_put_def is_index_key_def js_def ascii_digit_def cu_def)
  have "json_ok (f p)" if "p \<in> set ms" for p
  proof -
    have "json_ok (snd p)" using assms(1) that by simp
    with s show ?thesis by (cases "snd p") (auto simp: f_def)
  qed
  moreover have "obj_of (map (\<lambda>p. (fst p, f p)) ms) = map (\<lambda>p. (fst p, f p)) ms"
    using assms(1) by (intro distinct_map_snd) simp
  ultimately show ?thesis using assms(1) unfolding l by auto
qed

lemma apply_to_object:
  assumes "json_ok (JObj ms)" and "0 < n"
  shows "applyMongoQueryAutoLimit (stringify (JObj ms)) (Dec (n, 0)) =
    (if unlimited ms then \<lparr>limited_text = stringify (JObj (limited ms n)), applied = True\<rparr>
     else \<lparr>limited_text = stringify (JObj ms), applied = False\<rparr>)"
proof -
  let ?t = "stringify (JObj ms)"
  have p: "parse_json (trim ?t) = Some (JObj ms)" unfolding trim_stringify by (rule parse_stringify [OF assms(1)])
  have pipe: "obj_put (js ''pipeline'') (JArr (vs @ [stage ''$limit'' (num n)])) ms =
      limited ms n" if "map_of ms (js ''pipeline'') = Some (JArr vs)" "\<not> has_own ms (js ''find'')" for vs
  proof -
    have d: "distinct (map fst ms)" using obj_of_distinct [of ms] assms(1) by simp
    have "(js ''pipeline'', JArr vs) \<in> set ms" using that(1) by (rule map_of_SomeD)
    then have "js ''pipeline'' \<in> fst ` set ms" by force
    moreover have "snd p = JArr vs" if "p \<in> set ms" "fst p = js ''pipeline''" for p
      using that \<open>map_of ms (js ''pipeline'') = Some (JArr vs)\<close> d by (metis map_of_eq_Some_iff option.inject prod.collapse)
    ultimately show ?thesis using that(2) by (auto simp: obj_put_def limited_def)
  qed
  have limit: "obj_put (js ''limit'') (num n) ms = limited ms n" if "has_own ms (js ''find'')" "\<not> has_own ms (js ''limit'')"
    using that obj_put_new [of "js ''limit''" ms "num n"]
    by (simp add: has_own_def limited_def is_index_key_def js_def ascii_digit_def cu_def)
  show ?thesis
    using assms(2) pipe limit
    unfolding applyMongoQueryAutoLimit_def Let_def p unlimited_def stage_with_def list_ex_iff
    by (auto simp: dec_floor_int split: option.split json.split)
qed



end
