(* ===== verification/MongoFilter.thy ===== *)
theory MongoFilter
  imports MongoLimit SqlBuilder
begin

text \<open>
  The filters and the order of the data viewer for MongoDB (\<open>utils/mongodb.ts\<close>): one expression for each
  condition of the filter bar, combined from left to right, and the document that sorts a query.
  A condition is the record of the SQL filters; the reader of custom expressions is an argument.
\<close>

section \<open>Conditions\<close>

definition regex_special :: "jschar \<Rightarrow> bool" where
  "regex_special c \<longleftrightarrow> c \<in> set (js ''.*+?^${}()|[]'') \<or> c = backslash"

definition escapeRegex :: "jsstr \<Rightarrow> jsstr" where
  "escapeRegex raw = concat (map (\<lambda>c. if regex_special c then [backslash, c] else [c]) raw)"

definition normalizeMongoConditionLogic :: "jsstr \<Rightarrow> bool" where
  "normalizeMongoConditionLogic logic \<longleftrightarrow> to_upper (trim logic) = js ''OR''"

definition field :: "jsstr \<Rightarrow> json \<Rightarrow> members" where
  "field column v = [(column, v)]"

definition op_value :: "string \<Rightarrow> json \<Rightarrow> json" where
  "op_value op v = JObj [(js op, v)]"

definition comparisons :: "(jsstr \<times> string) list" where
  "comparisons = [(js ''!='', ''$ne''), (js ''<'', ''$lt''), (js ''<='', ''$lte''), (js ''>'', ''$gt''), (js ''>='', ''$gte'')]"

text \<open>Operators on texts: whether they are negated, and what stands before and after the text.\<close>

definition patterns :: "(jsstr \<times> bool \<times> string \<times> string) list" where
  "patterns = [(js ''CONTAINS'', False, '''', ''''), (js ''NOT_CONTAINS'', True, '''', ''''),
     (js ''STARTS_WITH'', False, ''^'', ''''), (js ''NOT_STARTS_WITH'', True, ''^'', ''''),
     (js ''ENDS_WITH'', False, '''', ''$''), (js ''NOT_ENDS_WITH'', True, '''', ''$'')]"

definition pattern_value :: "bool \<times> string \<times> string \<Rightarrow> jsstr \<Rightarrow> json" where
  "pattern_value p v =
     (let (negated, pre, post) = p; r = op_value ''$regex'' (JStr (js pre @ escapeRegex v @ js post)) in
      if negated then op_value ''$not'' r else r)"

definition list_condition :: "string \<Rightarrow> jsstr \<Rightarrow> jsstr \<Rightarrow> members option" where
  "list_condition op column value =
     (let items = map (parseMongoScalar column) (parseListValues value) in
      if items = [] then None else Some (field column (op_value op (JArr items))))"

definition two_parts :: "string \<Rightarrow> members \<Rightarrow> members \<Rightarrow> members" where
  "two_parts op l r = [(js op, JArr [JObj l, JObj r])]"

text \<open>The expression of a condition on a column; \<open>None\<close> where it adds nothing.\<close>

definition column_condition :: "jsstr \<Rightarrow> jsstr \<Rightarrow> jsstr \<Rightarrow> jsstr \<Rightarrow> members option" where
  "column_condition op column value value2 =
     (let scalar = parseMongoScalar column value; scalar2 = parseMongoScalar column value2;
          v = trim value; both = (v \<noteq> [] \<and> trim value2 \<noteq> []) in
      if op = js ''IS_NULL'' then Some (field column JNull)
      else if op = js ''IS_NOT_NULL'' then Some (field column (op_value ''$ne'' JNull))
      else if op = js ''IS_EMPTY'' then Some (two_parts ''$or'' (field column JNull) (field column (JStr [])))
      else if op = js ''IS_NOT_EMPTY'' then
        Some (two_parts ''$and'' (field column (op_value ''$ne'' JNull)) (field column (op_value ''$ne'' (JStr []))))
      else if op = js ''BETWEEN'' then
        (if both then Some (field column (JObj [(js ''$gte'', scalar), (js ''$lte'', scalar2)])) else None)
      else if op = js ''NOT_BETWEEN'' then
        (if both then Some (two_parts ''$or'' (field column (op_value ''$lt'' scalar)) (field column (op_value ''$gt'' scalar2)))
         else None)
      else if op = js ''IN'' then list_condition ''$in'' column value
      else if op = js ''NOT_IN'' then list_condition ''$nin'' column value
      else
        (case map_of patterns op of
           Some p \<Rightarrow> if v = [] then None else Some (field column (pattern_value p v))
         | None \<Rightarrow>
             if op = js ''='' then (if v = [] then None else Some (field column scalar))
             else (case map_of comparisons op of
                     Some cmp \<Rightarrow> if v = [] then None else Some (field column (op_value cmp scalar))
                   | None \<Rightarrow> None)))"

definition condition_expr :: "value_reader \<Rightarrow> filter_condition \<Rightarrow> jsstr + members option" where
  "condition_expr parse c =
     (let op = trim (cond_op c); column = trim (cond_column c) in
      if cond_enabled c = Some False \<or> op = [] then Inr None
      else if op = js ''CUSTOM'' then
        (let expr = trim (cond_value c) in
         if expr = [] then Inr None
         else attempt (parse expr) (\<lambda>v. case v of
                JObj ms \<Rightarrow> Inr (Some ms)
              | _ \<Rightarrow> Inl (js ''Mongo custom filter must be a JSON object'')))
      else if column = [] then Inr None
      else Inr (column_condition op column (cond_value c) (cond_value2 c)))"

fun filter_parts :: "value_reader \<Rightarrow> filter_condition list \<Rightarrow> jsstr + (members \<times> bool) list" where
  "filter_parts parse [] = Inr []"
| "filter_parts parse (c # cs) =
     attempt (condition_expr parse c) (\<lambda>e. attempt (filter_parts parse cs) (\<lambda>parts.
       Inr (case e of Some expr \<Rightarrow> (expr, normalizeMongoConditionLogic (cond_logic c)) # parts | None \<Rightarrow> parts)))"

definition combineMongoParts :: "members \<Rightarrow> members \<Rightarrow> bool \<Rightarrow> members" where
  "combineMongoParts left right isOr = two_parts (if isOr then ''$or'' else ''$and'') left right"

definition merge_parts :: "(members \<times> bool) list \<Rightarrow> members" where
  "merge_parts parts =
     (case parts of
        [] \<Rightarrow> []
      | p # ps \<Rightarrow> foldl (\<lambda>merged q. combineMongoParts merged (fst q) (snd q)) (fst p) ps)"

definition buildMongoFilter :: "value_reader \<Rightarrow> filter_condition list \<Rightarrow> jsstr + members" where
  "buildMongoFilter parse conditions = attempt (filter_parts parse conditions) (\<lambda>parts. Inr (merge_parts parts))"

section \<open>Order\<close>

record mongo_sort_item =
  columnKey :: jsstr
  order :: jsstr
  sort_enabled :: "bool option"

definition sort_step :: "members \<times> jsstr set \<Rightarrow> mongo_sort_item \<Rightarrow> members \<times> jsstr set" where
  "sort_step st item =
     (let (sort, seen) = st; col = trim (columnKey item); key = to_lower col in
      if sort_enabled item = Some False then st
      else if col \<noteq> [] \<and> (order item = js ''ascend'' \<or> order item = js ''descend'') \<and> key \<notin> seen
      then (obj_assign col (num (if order item = js ''ascend'' then 1 else -1)) sort, insert key seen)
      else st)"

definition buildMongoSort :: "mongo_sort_item list \<Rightarrow> jsstr list \<Rightarrow> members option" where
  "buildMongoSort items fallbackColumns =
     (let (sort, seen) = foldl sort_step ([], {}) items in
      if sort \<noteq> [] then Some sort
      else
        (let uniqueColumns = dedup_by to_lower seen (filter (\<lambda>k. k \<noteq> []) (map trim fallbackColumns)) in
         if uniqueColumns = [] then None
         else Some (foldl (\<lambda>ms col. obj_assign col (num 1) ms) sort uniqueColumns)))"

lemma filter_examples:
  fixes parse :: value_reader
  shows "buildMongoFilter parse
      [\<lparr>cond_enabled = None, cond_logic = js ''AND'', cond_column = js ''age'', cond_op = js ''>='', cond_value = js ''18'', cond_value2 = []\<rparr>,
       \<lparr>cond_enabled = None, cond_logic = js ''or'', cond_column = js ''name'', cond_op = js ''STARTS_WITH'', cond_value = js ''a.b'', cond_value2 = []\<rparr>] =
    Inr [(js ''$or'', JArr [JObj [(js ''age'', JObj [(js ''$gte'', num 18)])],
      JObj [(js ''name'', JObj [(js ''$regex'', JStr (js ''^a'' @ backslash # js ''.b''))])]])]"
  "buildMongoSort [] [js ''Id'', js ''id '', js ''n''] = Some [(js ''Id'', num 1), (js ''n'', num 1)]"
  by code_simp+

section \<open>Conditions from left to right\<close>

text \<open>What the conditions say of a document, read from left to right: each condition that has an expression
  joins the verdict so far with its own connective; without any, every document passes.\<close>

fun verdict :: "(members \<Rightarrow> bool) \<Rightarrow> value_reader \<Rightarrow> filter_condition list \<Rightarrow> bool option \<Rightarrow> bool" where
  "verdict m parse [] acc = (acc \<noteq> Some False)"
| "verdict m parse (c # cs) acc =
     (case condition_expr parse c of
        Inr (Some e) \<Rightarrow>
          verdict m parse cs (Some (case acc of
              None \<Rightarrow> m e
            | Some b \<Rightarrow> if normalizeMongoConditionLogic (cond_logic c) then b \<or> m e else b \<and> m e))
      | _ \<Rightarrow> verdict m parse cs acc)"

definition joins :: "(members \<Rightarrow> bool) \<Rightarrow> bool" where
  "joins m \<longleftrightarrow> m [] \<and> (\<forall>l r. (m (two_parts ''$and'' l r) \<longleftrightarrow> m l \<and> m r) \<and> (m (two_parts ''$or'' l r) \<longleftrightarrow> m l \<or> m r))"

lemma verdict_parts:
  "joins m \<Longrightarrow> filter_parts parse cs = Inr parts \<Longrightarrow>
   verdict m parse cs (Some (m e)) = m (foldl (\<lambda>merged q. combineMongoParts merged (fst q) (snd q)) e parts)"
proof (induction cs arbitrary: parts e)
  case (Cons c cs)
  then obtain x ps where x: "condition_expr parse c = Inr x" and ps: "filter_parts parse cs = Inr ps"
    by (auto simp: attempt_Inr)
  show ?case
  proof (cases x)
    case None
    with Cons x ps show ?thesis by simp
  next
    case (Some e')
    let ?o = "normalizeMongoConditionLogic (cond_logic c)"
    have "(if ?o then m e \<or> m e' else m e \<and> m e') = m (combineMongoParts e e' ?o)"
      using Cons.prems(1) by (simp add: joins_def combineMongoParts_def)
    moreover have "parts = (e', ?o) # ps" using Cons.prems(2) x ps Some by simp
    ultimately show ?thesis using x Some Cons.IH [OF Cons.prems(1) ps, of "combineMongoParts e e' ?o"] by simp
  qed
qed simp

text \<open>C36: The filter of the data viewer says what its conditions say from left to right: whatever the database
  takes an expression to mean, as long as \<open>$and\<close> and \<open>$or\<close> join their parts and the empty filter passes
  everything, a document passes the filter built exactly when the conditions that are enabled and complete, each
  joined to the verdict before it by its own connective, let it pass.\<close>

theorem filter_means_conditions:
  assumes "\<And>l r. matches (two_parts ''$and'' l r) \<longleftrightarrow> matches l \<and> matches r"
    and "\<And>l r. matches (two_parts ''$or'' l r) \<longleftrightarrow> matches l \<or> matches r" and "matches []"
    and "buildMongoFilter parse conditions = Inr f"
  shows "matches f \<longleftrightarrow> verdict matches parse conditions None"
proof -
  have j: "joins matches" using assms(1-3) by (simp add: joins_def)
  obtain parts where parts: "filter_parts parse conditions = Inr parts" and f: "f = merge_parts parts"
    using assms(4) by (auto simp: buildMongoFilter_def attempt_Inr)
  have "verdict matches parse cs None = matches (merge_parts ps)" if "filter_parts parse cs = Inr ps" for cs ps
    using that
  proof (induction cs arbitrary: ps)
    case Nil
    then show ?case using assms(3) by (simp add: merge_parts_def)
  next
    case (Cons c cs)
    then obtain x qs where x: "condition_expr parse c = Inr x" and qs: "filter_parts parse cs = Inr qs"
      by (auto simp: attempt_Inr)
    show ?case
    proof (cases x)
      case None
      with Cons x qs show ?thesis by simp
    next
      case (Some e)
      with Cons.prems x qs verdict_parts [OF j qs, of e] show ?thesis by (auto simp: merge_parts_def)
    qed
  qed
  from this [OF parts] f show ?thesis by simp
qed

text \<open>A reading of filters in which only \<open>$and\<close>, \<open>$or\<close> and the test for null of one field are known.\<close>

fun null_matches :: "json \<Rightarrow> bool" where
  "null_matches (JObj [(k, JArr [l, r])]) =
     (if k = js ''$and'' then null_matches l \<and> null_matches r
      else if k = js ''$or'' then null_matches l \<or> null_matches r else False)"
| "null_matches (JObj ms) = (ms = [] \<or> ms = [(js ''name'', JNull)])"
| "null_matches v = False"

theorem filter_means_conditions_witness:
  "null_matches (JObj [(js ''$or'', JArr [JObj [(js ''age'', JNull)], JObj [(js ''name'', JNull)]])])"
proof -
  let ?c = "\<lambda>column. \<lparr>cond_enabled = None, cond_logic = js ''or'', cond_column = column, cond_op = js ''IS_NULL'',
    cond_value = [], cond_value2 = []\<rparr>"
  let ?f = "[(js ''$or'', JArr [JObj [(js ''age'', JNull)], JObj [(js ''name'', JNull)]])]"
  have "buildMongoFilter Inl [?c (js ''age''), ?c (js ''name'')] = Inr ?f" by code_simp
  moreover have "verdict (\<lambda>ms. null_matches (JObj ms)) Inl [?c (js ''age''), ?c (js ''name'')] None" by code_simp
  ultimately show ?thesis
    using filter_means_conditions [of "\<lambda>ms. null_matches (JObj ms)" Inl "[?c (js ''age''), ?c (js ''name'')]" ?f]
    by (simp add: two_parts_def)
qed

section \<open>Texts in patterns\<close>

text \<open>A regular expression made of a literal text with escapes, and of anchors at its ends.\<close>

fun regex_body :: "jsstr \<Rightarrow> (jsstr \<times> bool) option" where
  "regex_body [] = Some ([], False)"
| "regex_body [c] = (if c = cu CHR ''$'' then Some ([], True) else if regex_special c then None else Some ([c], False))"
| "regex_body (c # d # s) =
     (if c = backslash then map_option (apfst (Cons d)) (regex_body s)
      else if regex_special c then None
      else map_option (apfst (Cons c)) (regex_body (d # s)))"

definition regex_accepts :: "jsstr \<Rightarrow> jsstr \<Rightarrow> bool" where
  "regex_accepts r s \<longleftrightarrow>
     (let start = (r \<noteq> [] \<and> hd r = cu CHR ''^''); body = (if start then tl r else r) in
      case regex_body body of
        None \<Rightarrow> False
      | Some (lit, end_anchor) \<Rightarrow>
          \<exists>u \<in> set (map (\<lambda>n. take n s) [0..<Suc (length s)]).
            (start \<longrightarrow> u = []) \<and> (let rest = drop (length u) s in
              if end_anchor then rest = lit else take (length lit) rest = lit))"

lemma special_chars: "regex_special backslash" "regex_special (cu CHR ''^'')" "regex_special (cu CHR ''$'')"
  by (simp_all add: regex_special_def js_def)

lemma escapeRegex_Cons:
  "escapeRegex (c # s) = (if regex_special c then backslash # c # escapeRegex s else c # escapeRegex s)"
  by (simp add: escapeRegex_def)

lemma regex_body_escape: "regex_body (escapeRegex v @ js post) = Some (v, post = ''$'')" if "post = '''' \<or> post = ''$''"
proof (induction v)
  case Nil
  then show ?case using that by (auto simp: escapeRegex_def js_def)
next
  case (Cons c v)
  show ?case
  proof (cases "regex_special c")
    case True
    with Cons show ?thesis by (simp add: escapeRegex_Cons)
  next
    case False
    then have c: "c \<noteq> backslash" "c \<noteq> cu CHR ''$''" using special_chars by auto
    show ?thesis
    proof (cases "escapeRegex v @ js post")
      case Nil
      with Cons have "v = []" "post \<noteq> ''$''" by simp_all
      with that c False show ?thesis by (simp add: escapeRegex_Cons escapeRegex_def)
    next
      case (Cons d s)
      with c False \<open>regex_body (escapeRegex v @ js post) = _\<close> show ?thesis by (simp add: escapeRegex_Cons)
    qed
  qed
qed

lemma ex_prefix:
  "(\<exists>u \<in> set (map (\<lambda>n. take n s) [0..<Suc (length s)]). P u) \<longleftrightarrow> (\<exists>n \<le> length s. P (take n s))"
proof -
  have "set (map (\<lambda>n. take n s) [0..<Suc (length s)]) = (\<lambda>n. take n s) ` {..length s}"
    by (simp only: set_map set_upt atLeast0LessThan lessThan_Suc_atMost)
  then show ?thesis by auto
qed

text \<open>Taking off a prefix, which must be empty when the left end is anchored, and comparing the rest.\<close>

lemma anchored_split:
  "(\<exists>n \<le> length s. (l \<longrightarrow> take n s = []) \<and> (if r then drop n s = v else take (length v) (drop n s) = v)) \<longleftrightarrow>
   (\<exists>u w. s = u @ v @ w \<and> (l \<longrightarrow> u = []) \<and> (r \<longrightarrow> w = []))"
proof
  assume "\<exists>n \<le> length s. (l \<longrightarrow> take n s = []) \<and>
    (if r then drop n s = v else take (length v) (drop n s) = v)"
  then obtain n where n: "n \<le> length s" "l \<longrightarrow> take n s = []"
    "if r then drop n s = v else take (length v) (drop n s) = v" by blast
  let ?w = "if r then [] else drop (length v) (drop n s)"
  have "drop n s = v @ ?w"
  proof (cases "r")
    case True
    with n(3) show ?thesis by simp
  next
    case False
    have "drop n s = take (length v) (drop n s) @ drop (length v) (drop n s)" by (rule append_take_drop_id [symmetric])
    with False n(3) show ?thesis by (simp only: if_False)
  qed
  then have "s = take n s @ v @ ?w" using append_take_drop_id [of n s] by (simp only:)
  with n(2) show "\<exists>u w. s = u @ v @ w \<and> (l \<longrightarrow> u = []) \<and> (r \<longrightarrow> w = [])"
    by (intro exI [of _ "take n s"] exI [of _ ?w] conjI) simp_all
next
  assume "\<exists>u w. s = u @ v @ w \<and> (l \<longrightarrow> u = []) \<and> (r \<longrightarrow> w = [])"
  then obtain u w where "s = u @ v @ w" "l \<longrightarrow> u = []" "r \<longrightarrow> w = []" by blast
  then show "\<exists>n \<le> length s. (l \<longrightarrow> take n s = []) \<and>
      (if r then drop n s = v else take (length v) (drop n s) = v)"
    by (intro exI [of _ "length u"]) auto
qed

lemma regex_accepts_anchored:
  assumes "pre = '''' \<or> pre = ''^''" and "post = '''' \<or> post = ''$''"
  shows "regex_accepts (js pre @ escapeRegex v @ js post) s \<longleftrightarrow>
    (\<exists>u w. s = u @ v @ w \<and> (pre = ''^'' \<longrightarrow> u = []) \<and> (post = ''$'' \<longrightarrow> w = []))"
proof -
  have hd: "\<not> (escapeRegex v @ js post \<noteq> [] \<and> hd (escapeRegex v @ js post) = cu CHR ''^'')"
    using assms(2) special_chars by (cases v) (auto simp: escapeRegex_Cons escapeRegex_def js_def)
  have body: "regex_body (escapeRegex v @ js post) = Some (v, post = ''$'')" using assms(2) by (rule regex_body_escape)
  have start: "(js pre @ escapeRegex v @ js post \<noteq> [] \<and> hd (js pre @ escapeRegex v @ js post) = cu CHR ''^'') = (pre = ''^'')"
  proof (cases "pre = ''^''")
    case True
    then show ?thesis by (simp add: js_def [of "''^''"])
  next
    case False
    then have "pre = ''''" using assms(1) by blast
    with hd False show ?thesis by simp
  qed
  have tl: "(if pre = ''^'' then tl (js pre @ escapeRegex v @ js post) else js pre @ escapeRegex v @ js post) =
      escapeRegex v @ js post"
  proof (cases "pre = ''^''")
    case True
    then show ?thesis by (simp add: js_def [of "''^''"])
  next
    case False
    then have "pre = ''''" using assms(1) by blast
    then show ?thesis by simp
  qed
  show ?thesis unfolding regex_accepts_def Let_def start tl body option.case prod.case ex_prefix anchored_split [symmetric]
    by (simp cong: conj_cong add: min_absorb2)
qed

text \<open>The six operators on texts: which of them negate, and the end of the text each is tied to.\<close>

definition text_operators :: "(jsstr \<times> bool \<times> bool \<times> bool) list" where
  "text_operators = [(js ''CONTAINS'', False, False, False), (js ''NOT_CONTAINS'', True, False, False),
     (js ''STARTS_WITH'', False, True, False), (js ''NOT_STARTS_WITH'', True, True, False),
     (js ''ENDS_WITH'', False, False, True), (js ''NOT_ENDS_WITH'', True, False, True)]"

lemma text_operator_condition:
  assumes "(op, negated, at_start, at_end) \<in> set text_operators"
  shows "column_condition op column value value2 =
    (if trim value = [] then None
     else Some (field column
       (pattern_value (negated, if at_start then ''^'' else '''', if at_end then ''$'' else '''') (trim value))))"
proof -
  have "\<forall>(op, negated, at_start, at_end) \<in> set text_operators. column_condition op column value value2 =
      (if trim value = [] then None
       else Some (field column
         (pattern_value (negated, if at_start then ''^'' else '''', if at_end then ''$'' else '''') (trim value))))"
    by (simp add: text_operators_def column_condition_def patterns_def)
  with assms show ?thesis by blast
qed

text \<open>C37: The filters on texts look for the text that was typed and for nothing else: each of the six operators
  sends for its column a regular expression, negated or not as its name says, which, read with its escapes and
  anchors, accepts exactly the texts that contain, begin with or end with the value, whatever punctuation it
  holds.\<close>

theorem text_filters_literal:
  assumes "(op, negated, at_start, at_end) \<in> set text_operators"
    and "column_condition op column value value2 = Some expr"
  shows "\<exists>r. expr = field column (if negated then op_value ''$not'' (op_value ''$regex'' (JStr r))
        else op_value ''$regex'' (JStr r)) \<and>
      (\<forall>s. regex_accepts r s \<longleftrightarrow> (\<exists>u w. s = u @ trim value @ w \<and> (at_start \<longrightarrow> u = []) \<and> (at_end \<longrightarrow> w = [])))"
proof -
  let ?pre = "if at_start then ''^'' else ''''" and ?post = "if at_end then ''$'' else ''''"
  have "expr = field column (pattern_value (negated, ?pre, ?post) (trim value))"
    using assms(2) unfolding text_operator_condition [OF assms(1)] by (simp split: if_split_asm)
  moreover have "regex_accepts (js ?pre @ escapeRegex (trim value) @ js ?post) s \<longleftrightarrow>
      (\<exists>u w. s = u @ trim value @ w \<and> (at_start \<longrightarrow> u = []) \<and> (at_end \<longrightarrow> w = []))" for s
    using regex_accepts_anchored [of ?pre ?post "trim value" s] by simp
  ultimately show ?thesis
    by (intro exI [of _ "js ?pre @ escapeRegex (trim value) @ js ?post"]) (simp add: pattern_value_def)
qed

theorem text_filters_literal_witness:
  "\<exists>r. field (js ''c'') (op_value ''$regex'' (JStr (js ''^a'' @ backslash # js ''.b''))) =
      field (js ''c'') (op_value ''$regex'' (JStr r)) \<and>
    regex_accepts r (js ''a.bc'') \<and> \<not> regex_accepts r (js ''aXbc'')"
proof -
  have op: "(js ''STARTS_WITH'', False, True, False) \<in> set text_operators" by (simp add: text_operators_def)
  have "column_condition (js ''STARTS_WITH'') (js ''c'') (js '' a.b'') [] =
      Some (field (js ''c'') (op_value ''$regex'' (JStr (js ''^a'' @ backslash # js ''.b''))))" by code_simp
  from text_filters_literal [OF op this] have "\<exists>r. field (js ''c'') (op_value ''$regex'' (JStr (js ''^a'' @ backslash # js ''.b''))) =
      field (js ''c'') (op_value ''$regex'' (JStr r)) \<and>
      (\<forall>s. regex_accepts r s \<longleftrightarrow> (\<exists>w. s = trim (js '' a.b'') @ w))" by simp
  moreover have "trim (js '' a.b'') = js ''a.b''" by code_simp
  moreover have "js ''a.bc'' = js ''a.b'' @ js ''c''" "\<not> (\<exists>w. js ''aXbc'' = js ''a.b'' @ w)" by (simp_all add: js_def)
  ultimately show ?thesis by metis
qed

section \<open>The order of a query\<close>

definition sort_column :: "mongo_sort_item \<Rightarrow> jsstr" where
  "sort_column item = trim (columnKey item)"

definition sorts :: "mongo_sort_item \<Rightarrow> bool" where
  "sorts item \<longleftrightarrow> sort_enabled item \<noteq> Some False \<and> sort_column item \<noteq> [] \<and>
     (order item = js ''ascend'' \<or> order item = js ''descend'')"

definition sort_member :: "mongo_sort_item \<Rightarrow> jsstr \<times> json" where
  "sort_member item = (sort_column item, num (if order item = js ''ascend'' then 1 else -1))"

text \<open>Names that an object keeps in the order they are assigned in.\<close>

definition plain_key :: "jsstr \<Rightarrow> bool" where
  "plain_key k \<longleftrightarrow> \<not> is_index_key k \<and> k \<noteq> js ''__proto__''"

lemma obj_assign_new: "plain_key k \<Longrightarrow> k \<notin> fst ` set ms \<Longrightarrow> obj_assign k v ms = ms @ [(k, v)]"
  by (simp add: obj_assign_def plain_key_def obj_put_new)

lemma sort_steps:
  assumes "\<forall>item \<in> set items. sorts item \<longrightarrow> plain_key (sort_column item)" and "to_lower ` fst ` set ms \<subseteq> seen"
  shows "foldl sort_step (ms, seen) items =
    (ms @ map sort_member (dedup_by (to_lower \<circ> sort_column) seen (filter sorts items)),
     seen \<union> (to_lower \<circ> sort_column) ` set (filter sorts items))"
  using assms
proof (induction items arbitrary: ms seen)
  case (Cons item items)
  let ?col = "sort_column item"
  show ?case
  proof (cases "sorts item \<and> to_lower ?col \<notin> seen")
    case True
    then have "?col \<notin> fst ` set ms" using Cons.prems(2) by auto
    moreover have "plain_key ?col" using True Cons.prems(1) by simp
    ultimately have "sort_step (ms, seen) item = (ms @ [sort_member item], insert (to_lower ?col) seen)"
      using True obj_assign_new [of ?col ms]
      by (simp add: sort_step_def sorts_def sort_column_def [symmetric] sort_member_def Let_def)
    moreover have "to_lower ` fst ` set (ms @ [sort_member item]) \<subseteq> insert (to_lower ?col) seen"
      using Cons.prems(2) by (auto simp: sort_member_def)
    ultimately show ?thesis using True Cons by simp
  next
    case False
    then have "sort_step (ms, seen) item = (ms, seen)"
      by (auto simp: sort_step_def sorts_def sort_column_def [symmetric] Let_def)
    with False Cons show ?thesis by (auto simp: insert_absorb)
  qed
qed simp

lemma fallback_steps:
  "\<forall>c \<in> set cols. plain_key c \<Longrightarrow> distinct cols \<Longrightarrow> set cols \<inter> fst ` set ms = {} \<Longrightarrow>
   foldl (\<lambda>ms col. obj_assign col (num 1) ms) ms cols = ms @ map (\<lambda>c. (c, num 1)) cols"
  by (induction cols arbitrary: ms) (auto simp: obj_assign_new)

text \<open>C0: The order of a query lists the columns the user sorts by, in their order, each once whatever its case,
  with 1 for ascending and -1 for descending, the first mention of a column deciding; columns without a
  direction, switched off or unnamed are left out. Without any the columns of the key are listed, each once,
  ascending. This needs names that an object does not reorder, which all but decimal numbers are.\<close>

theorem buildMongoSort_correct:
  assumes "\<forall>item \<in> set items. plain_key (sort_column item)" and "\<forall>c \<in> set fallback. plain_key (trim c)"
  shows "buildMongoSort items fallback =
    (let chosen = dedup_by (to_lower \<circ> sort_column) {} (filter sorts items);
         keys = dedup_by to_lower {} (filter (\<lambda>k. k \<noteq> []) (map trim fallback)) in
     if chosen \<noteq> [] then Some (map sort_member chosen)
     else if keys \<noteq> [] then Some (map (\<lambda>c. (c, num 1)) keys) else None)"
proof -
  let ?chosen = "dedup_by (to_lower \<circ> sort_column) {} (filter sorts items)"
  let ?keys = "dedup_by to_lower {} (filter (\<lambda>k. k \<noteq> []) (map trim fallback))"
  have steps: "foldl sort_step ([], {}) items =
      (map sort_member ?chosen, (to_lower \<circ> sort_column) ` set (filter sorts items))"
    using sort_steps [of items "[]" "{}"] assms(1) by simp
  have empty: "?chosen = [] \<longleftrightarrow> filter sorts items = []" by (cases "filter sorts items") simp_all
  have keys: "foldl (\<lambda>ms col. obj_assign col (num 1) ms) [] ?keys = map (\<lambda>c. (c, num 1)) ?keys"
  proof (rule trans [OF fallback_steps])
    have "set ?keys \<subseteq> trim ` set fallback" using dedup_by_subset [of to_lower "{}" "filter (\<lambda>k. k \<noteq> []) (map trim fallback)"] by auto
    then show "\<forall>c \<in> set ?keys. plain_key c" using assms(2) by blast
    show "distinct ?keys"
      using dedup_by_distinct [of to_lower "{}" "filter (\<lambda>k. k \<noteq> []) (map trim fallback)"] by (simp add: distinct_map)
  qed simp_all
  show ?thesis
  proof (cases "filter sorts items")
    case Nil
    with keys show ?thesis by (simp add: buildMongoSort_def steps Let_def)
  next
    case (Cons a as)
    then show ?thesis by (simp add: buildMongoSort_def steps Let_def)
  qed
qed

theorem buildMongoSort_correct_witness:
  "buildMongoSort [\<lparr>columnKey = js ''name'', order = js ''descend'', sort_enabled = None\<rparr>,
      \<lparr>columnKey = js ''NAME'', order = js ''ascend'', sort_enabled = None\<rparr>] [js ''_id''] = Some [(js ''name'', num (-1))]"
proof -
  let ?items = "[\<lparr>columnKey = js ''name'', order = js ''descend'', sort_enabled = None\<rparr>,
      \<lparr>columnKey = js ''NAME'', order = js ''ascend'', sort_enabled = None\<rparr>]"
  have "\<forall>item \<in> set ?items. plain_key (sort_column item)" by code_simp
  moreover have "\<forall>c \<in> set [js ''_id'']. plain_key (trim c)" by code_simp
  ultimately have "buildMongoSort ?items [js ''_id''] =
    (let chosen = dedup_by (to_lower \<circ> sort_column) {} (filter sorts ?items);
         keys = dedup_by to_lower {} (filter (\<lambda>k. k \<noteq> []) (map trim [js ''_id''])) in
     if chosen \<noteq> [] then Some (map sort_member chosen)
     else if keys \<noteq> [] then Some (map (\<lambda>c. (c, num 1)) keys) else None)"
    by (rule buildMongoSort_correct)
  also have "\<dots> = Some [(js ''name'', num (-1))]" by code_simp
  finally show ?thesis .
qed

text \<open>Columns named by numbers are moved to the front, so the first column of the order is not the one the user
  chose first.\<close>

lemma numeric_columns_reordered:
  "buildMongoSort [\<lparr>columnKey = js ''name'', order = js ''ascend'', sort_enabled = None\<rparr>,
      \<lparr>columnKey = js ''2024'', order = js ''ascend'', sort_enabled = None\<rparr>] [] =
    Some [(js ''2024'', num 1), (js ''name'', num 1)]"
  by code_simp

end
