(* ===== verification/ColumnSql.thy ===== *)
theory ColumnSql
  imports SqlBuilder
begin

text \<open>
  The column definitions of the table designer: the first part of
  \<open>components/tableDesignerSchemaSql.ts\<close>. Optional texts of a column that the code reads with
  \<open>|| ''\<close> or compares with a constant are empty when they are missing. The function \<open>tr\<close>, the
  translation of the message catalogue, is an argument: it takes the key and the parameters.
\<close>

section \<open>Columns\<close>

record column_snapshot =
  column_key :: jsstr
  column_name :: jsstr
  column_type :: jsstr
  nullable :: jsstr
  column_default :: jsstr
  column_extra :: jsstr
  column_comment :: jsstr
  key_role :: jsstr
  isAutoIncrement :: bool

type_synonym translator = "jsstr \<Rightarrow> (jsstr \<times> jsstr) list \<Rightarrow> jsstr"

definition is_primary :: "column_snapshot \<Rightarrow> bool" where
  "is_primary col \<longleftrightarrow> key_role col = js ''PRI''"

definition collectPrimaryKeyColumnKeys :: "column_snapshot list \<Rightarrow> jsstr list" where
  "collectPrimaryKeyColumnKeys columns = map column_key (filter is_primary columns)"

definition escapeSqlString :: "jsstr \<Rightarrow> jsstr" where
  "escapeSqlString v = replace_char squote [squote, squote] v"

definition sql_string :: "jsstr \<Rightarrow> jsstr" where
  "sql_string v = squote # escapeSqlString v @ [squote]"

definition translateSchemaSqlComment :: "translator \<Rightarrow> string \<Rightarrow> (jsstr \<times> jsstr) list \<Rightarrow> jsstr" where
  "translateSchemaSqlComment tr key params =
     (let resolved = tr (js key) params in if resolved \<noteq> [] \<and> resolved \<noteq> js key then resolved else js key)"

section \<open>Defaults\<close>

definition normalizeDefaultText :: "jsstr \<Rightarrow> jsstr" where
  "normalizeDefaultText v = trim v"

text \<open>The patterns that make a default an expression: \<open>.\<close> is every character but a line end.\<close>

definition line_terminator :: "jschar \<Rightarrow> bool" where
  "line_terminator c \<longleftrightarrow> c = 10 \<or> c = 13 \<or> c = 8232 \<or> c = 8233"

definition quoted_default :: "jsstr \<Rightarrow> bool" where
  "quoted_default s =
     (let t = (if s \<noteq> [] \<and> ascii_fold (hd s) = cu CHR ''n'' then tl s else s) in
      2 \<le> length t \<and> hd t = squote \<and> last t = squote \<and> (\<forall>c \<in> set (butlast (tl t)). \<not> line_terminator c))"

definition number_default :: "jsstr \<Rightarrow> bool" where
  "number_default s =
     (let t = (if s \<noteq> [] \<and> hd s = cu CHR ''-'' then tl s else s);
          i = takeWhile ascii_digit t; f = dropWhile ascii_digit t
      in i \<noteq> [] \<and> (f = [] \<or> hd f = cu CHR ''.'' \<and> tl f \<noteq> [] \<and> (\<forall>c \<in> set (tl f). ascii_digit c)))"

definition constant_words :: "jsstr list" where
  "constant_words = map js [''true'', ''false'', ''null'']"

definition time_words :: "jsstr list" where
  "time_words = map js [''current_timestamp'', ''current_date'', ''current_time'', ''localtimestamp'', ''sysdate'',
     ''systimestamp'']"

definition function_words :: "jsstr list" where
  "function_words = map js [''now'', ''uuid'', ''newid'', ''sysdatetime'']"

definition one_of_ci :: "jsstr \<Rightarrow> jsstr list \<Rightarrow> bool" where
  "one_of_ci s ws \<longleftrightarrow> map ascii_fold s \<in> set ws"

definition skip_spaces :: "jsstr \<Rightarrow> jsstr" where
  "skip_spaces s = dropWhile is_js_space s"

definition empty_call :: "jsstr \<Rightarrow> bool" where
  "empty_call s =
     (case skip_spaces s of
        [] \<Rightarrow> False
      | c # t \<Rightarrow> c = cu CHR ''('' \<and> skip_spaces t = [cu CHR '')''])"

definition isKnownDefaultExpression :: "jsstr \<Rightarrow> bool" where
  "isKnownDefaultExpression trimmed =
     (if trimmed = [] then False
      else if quoted_default trimmed then True
      else if number_default trimmed then True
      else if one_of_ci trimmed constant_words then True
      else if one_of_ci trimmed time_words then True
      else if \<exists>w \<in> set function_words. match_ci_at trimmed w 0 \<and> empty_call (drop (length w) trimmed) then True
      else if match_ci_at trimmed (js ''nextval'') 0 \<and> starts_with (skip_spaces (drop 7 trimmed)) (js ''('') \<or>
              includes_str trimmed (js ''::'') then True
      else False)"

definition formatDefaultExpression :: "jsstr \<Rightarrow> jsstr \<Rightarrow> jsstr" where
  "formatDefaultExpression v dbType =
     (let trimmed = normalizeDefaultText v in
      if trimmed = [] then []
      else if isKnownDefaultExpression trimmed then
        (if one_of_ci trimmed constant_words then to_upper trimmed
         else if one_of_ci trimmed time_words then to_upper trimmed
         else trimmed)
      else (if isSqlServerDialect dbType then js ''N'' else []) @ sql_string trimmed)"

definition buildDefaultSql :: "jsstr \<Rightarrow> jsstr \<Rightarrow> jsstr" where
  "buildDefaultSql v dbType =
     (let defaultValue = normalizeDefaultText v in
      if defaultValue = [] then [] else js ''DEFAULT '' @ formatDefaultExpression defaultValue dbType)"

section \<open>What changed\<close>

definition physicalDefinitionChanged :: "column_snapshot \<Rightarrow> column_snapshot \<Rightarrow> bool" where
  "physicalDefinitionChanged cur orig \<longleftrightarrow>
     column_type cur \<noteq> column_type orig \<or>
     nullable cur \<noteq> nullable orig \<or>
     normalizeDefaultText (column_default cur) \<noteq> normalizeDefaultText (column_default orig) \<or>
     isAutoIncrement cur \<noteq> isAutoIncrement orig"

definition definitionChanged :: "column_snapshot \<Rightarrow> column_snapshot \<Rightarrow> bool" where
  "definitionChanged cur orig \<longleftrightarrow>
     column_type cur \<noteq> column_type orig \<or>
     nullable cur \<noteq> nullable orig \<or>
     normalizeDefaultText (column_default cur) \<noteq> normalizeDefaultText (column_default orig) \<or>
     column_comment cur \<noteq> column_comment orig \<or>
     isAutoIncrement cur \<noteq> isAutoIncrement orig"

section \<open>Column definitions\<close>

definition space :: jsstr where
  "space = js '' ''"

text \<open>\<open>[...].filter(Boolean).join(' ').replace(/\s+/g, ' ').trim()\<close>.\<close>

definition one_line :: "jsstr list \<Rightarrow> jsstr" where
  "one_line parts = trim (collapse_spaces (join space (filter (\<lambda>p. p \<noteq> []) parts)))"

definition null_sql :: "column_snapshot \<Rightarrow> jsstr" where
  "null_sql column = (if nullable column = js ''NO'' then js ''NOT NULL'' else js ''NULL'')"

definition comment_sql :: "column_snapshot \<Rightarrow> jsstr" where
  "comment_sql column = js ''COMMENT '' @ sql_string (column_comment column)"

definition remove_auto_increment :: "jsstr \<Rightarrow> jsstr" where
  "remove_auto_increment s =
     replace_matches (\<lambda>t. if match_ci_at t (js ''auto_increment'') 0 then Some (14, []) else None) s"

definition buildMySqlColumnDefinition :: "column_snapshot \<Rightarrow> jsstr \<Rightarrow> jsstr" where
  "buildMySqlColumnDefinition column dbType =
     (let extra0 = trim (column_extra column);
          extra = (if isAutoIncrement column
                   then (if \<not> includes_str (to_lower extra0) (js ''auto_increment'') then trim (extra0 @ js '' AUTO_INCREMENT'')
                         else extra0)
                   else trim (remove_auto_increment extra0))
      in one_line [quoteSqlIdentifierPart dbType (column_name column), trim (column_type column), null_sql column,
           buildDefaultSql (column_default column) dbType, extra, comment_sql column])"

definition DORIS_AGG_TYPES :: "jsstr list" where
  "DORIS_AGG_TYPES = map js [''SUM'', ''MIN'', ''MAX'', ''REPLACE'', ''REPLACE_IF_NOT_NULL'', ''HLL_UNION'', ''BITMAP_UNION'',
     ''QUANTILE_UNION'', ''GENERIC'']"

definition buildDorisColumnDefinition :: "column_snapshot \<Rightarrow> jsstr \<Rightarrow> jsstr" where
  "buildDorisColumnDefinition column dbType =
     (let keyText = to_upper (trim (key_role column));
          extraText = to_upper (trim (column_extra column));
          keyOrAggSql = (if keyText \<in> set (map js [''PRI'', ''KEY'', ''TRUE'']) then js ''KEY''
                         else if extraText \<in> set DORIS_AGG_TYPES then extraText else [])
      in one_line [quoteSqlIdentifierPart dbType (column_name column), trim (column_type column), keyOrAggSql, null_sql column,
           buildDefaultSql (column_default column) dbType, if isAutoIncrement column then js ''AUTO_INCREMENT'' else [],
           comment_sql column])"

definition buildStarRocksColumnDefinition :: "column_snapshot \<Rightarrow> jsstr" where
  "buildStarRocksColumnDefinition column =
     (let extraText = to_upper (trim (column_extra column));
          aggregateSql = (if extraText \<in> set DORIS_AGG_TYPES then extraText else [])
      in one_line [quoteSqlIdentifierPart (js ''starrocks'') (column_name column), trim (column_type column), aggregateSql,
           null_sql column, buildDefaultSql (column_default column) (js ''starrocks''), comment_sql column])"

definition buildStandardColumnDefinition :: "column_snapshot \<Rightarrow> jsstr \<Rightarrow> bool \<Rightarrow> bool \<Rightarrow> jsstr" where
  "buildStandardColumnDefinition column dbType includeNull includeIdentity =
     (let defaultSql = buildDefaultSql (column_default column) dbType;
          parts = [quoteSqlIdentifierPart dbType (column_name column), trim (column_type column)] @
            (if includeIdentity \<and> isAutoIncrement column then
               (if isSqlServerDialect dbType then [js ''IDENTITY(1,1)'']
                else if isOracleLikeDialect dbType then [js ''GENERATED BY DEFAULT AS IDENTITY''] else [])
             else []) @
            (if defaultSql \<noteq> [] then [defaultSql] else []) @
            (if nullable column = js ''NO'' then [js ''NOT NULL''] else if includeNull then [js ''NULL''] else [])
      in trim (join space (filter (\<lambda>p. p \<noteq> []) parts)))"

definition buildPgLikeColumnDefinition :: "column_snapshot \<Rightarrow> jsstr \<Rightarrow> jsstr" where
  "buildPgLikeColumnDefinition column dbType =
     (let defaultSql = buildDefaultSql (column_default column) dbType
      in trim (join space ([quoteSqlIdentifierPart dbType (column_name column), trim (column_type column)] @
           (if defaultSql \<noteq> [] then [defaultSql] else []) @
           (if nullable column = js ''NO'' then [js ''NOT NULL''] else []))))"

section \<open>Comments\<close>

definition buildColumnCommentSql :: "jsstr \<Rightarrow> jsstr \<Rightarrow> jsstr \<Rightarrow> jsstr \<Rightarrow> jsstr" where
  "buildColumnCommentSql tableRef columnName comment dbType =
     (let columnRef = tableRef @ js ''.'' @ quoteSqlIdentifierPart dbType columnName; trimmed = trim comment in
      if trimmed = [] \<and> isPgLikeDialect dbType then js ''COMMENT ON COLUMN '' @ columnRef @ js '' IS NULL;''
      else js ''COMMENT ON COLUMN '' @ columnRef @ js '' IS '' @ sql_string trimmed @ js '';'')"

definition or_text :: "jsstr \<Rightarrow> jsstr \<Rightarrow> jsstr" where
  "or_text a b = (if a \<noteq> [] then a else b)"

text \<open>The Unicode literals of SQL Server, and its procedures for the description of a column.\<close>

definition n_string :: "jsstr \<Rightarrow> jsstr" where
  "n_string v = js ''N'' @ sql_string v"

definition description_call :: "string \<Rightarrow> jsstr \<Rightarrow> jsstr \<Rightarrow> jsstr \<Rightarrow> jsstr \<Rightarrow> jsstr" where
  "description_call procedure schema table column value =
     js ''EXEC '' @ js procedure @ js '' @name = N'' @ sql_string (js ''MS_Description'') @ js '', @value = '' @ n_string value @
     js '', @level0type = N'' @ sql_string (js ''SCHEMA'') @ js '', @level0name = '' @ n_string schema @
     js '', @level1type = N'' @ sql_string (js ''TABLE'') @ js '', @level1name = '' @ n_string table @
     js '', @level2type = N'' @ sql_string (js ''COLUMN'') @ js '', @level2name = '' @ n_string column"

definition buildSqlServerColumnCommentSql :: "jsstr \<Rightarrow> jsstr \<Rightarrow> jsstr \<Rightarrow> jsstr" where
  "buildSqlServerColumnCommentSql tableName columnName comment =
     (let parts = splitQualifiedName tableName;
          schema = or_text (parentPath parts) (js ''dbo'');
          table = or_text (objectName parts) tableName
      in js ''IF EXISTS (SELECT 1 FROM sys.extended_properties ep JOIN sys.tables t ON ep.major_id = t.object_id JOIN sys.schemas s ON t.schema_id = s.schema_id JOIN sys.columns c ON ep.major_id = c.object_id AND ep.minor_id = c.column_id WHERE ep.name = N'' @
         sql_string (js ''MS_Description'') @ js '' AND s.name = '' @ n_string schema @ js '' AND t.name = '' @ n_string table @
         js '' AND c.name = '' @ n_string columnName @ js '') BEGIN '' @
         description_call ''sp_updateextendedproperty'' schema table columnName comment @ js '' END ELSE BEGIN '' @
         description_call ''sp_addextendedproperty'' schema table columnName comment @ js '' END;'')"

lemma column_examples:
  "formatDefaultExpression (js ''it''@[squote]@js ''s'') (js ''mssql'') = js ''N'' @ [squote] @ js ''it'' @ [squote, squote] @ js ''s'' @ [squote]"
  "formatDefaultExpression (js '' Now ( ) '') (js ''mysql'') = js ''Now ( )''"
  "formatDefaultExpression (js ''-1.50'') (js ''mysql'') = js ''-1.50''"
  "formatDefaultExpression (js ''Null'') (js ''mysql'') = js ''NULL''"
  "buildMySqlColumnDefinition \<lparr>column_key = js ''1'', column_name = js ''id'', column_type = js ''int'', nullable = js ''NO'',
     column_default = [], column_extra = [], column_comment = js ''a  b'', key_role = [], isAutoIncrement = True\<rparr> (js ''mysql'') =
   backtick # js ''id'' @ backtick # js '' int NOT NULL AUTO_INCREMENT COMMENT '' @ [squote] @ js ''a b'' @ [squote]"
  by code_simp+

end
