(* ===== verification/AlterTable.thy ===== *)
theory AlterTable
  imports ColumnSql
begin

text \<open>
  Altering a table: the second part of \<open>components/tableDesignerSchemaSql.ts\<close>. The designer keeps the columns as
  they are in the database and as the user drafts them; columns with the same \<open>_key\<close> are the same column. Each
  dialect has a function that prints the statements from one to the other.
\<close>

section \<open>The draft\<close>

record alter_input =
  alter_dbType :: jsstr
  alter_table :: jsstr
  originalColumns :: "column_snapshot list"
  drafted :: "column_snapshot list"
  translate :: translator

definition original_of :: "alter_input \<Rightarrow> column_snapshot \<Rightarrow> column_snapshot option" where
  "original_of input cur = find (\<lambda>col. column_key col = column_key cur) (originalColumns input)"

definition dropped_columns :: "alter_input \<Rightarrow> column_snapshot list" where
  "dropped_columns input =
     filter (\<lambda>orig. find (\<lambda>col. column_key col = column_key orig) (drafted input) = None) (originalColumns input)"

definition origPKKeys :: "alter_input \<Rightarrow> jsstr list" where
  "origPKKeys input = collectPrimaryKeyColumnKeys (originalColumns input)"

definition newPKKeys :: "alter_input \<Rightarrow> jsstr list" where
  "newPKKeys input = collectPrimaryKeyColumnKeys (drafted input)"

definition keysChanged :: "alter_input \<Rightarrow> bool" where
  "keysChanged input \<longleftrightarrow>
     length (origPKKeys input) \<noteq> length (newPKKeys input) \<or> \<not> (\<forall>key \<in> set (origPKKeys input). key \<in> set (newPKKeys input))"

definition pk_names :: "jsstr \<Rightarrow> column_snapshot list \<Rightarrow> jsstr" where
  "pk_names dbType columns = join (js '', '') (map (quoteSqlIdentifierPart dbType \<circ> column_name) (filter is_primary columns))"

section \<open>Statements\<close>

definition alter_statement :: "jsstr \<Rightarrow> jsstr \<Rightarrow> jsstr" where
  "alter_statement tableRef action = js ''ALTER TABLE '' @ tableRef @ newline # action @ js '';''"

definition lines :: "jsstr list \<Rightarrow> jsstr" where
  "lines statements = join [newline] statements"

definition drop_column_sql :: "jsstr \<Rightarrow> column_snapshot \<Rightarrow> jsstr" where
  "drop_column_sql dbType orig = js ''DROP COLUMN '' @ quoteSqlIdentifierPart dbType (column_name orig)"

definition drop_statements :: "alter_input \<Rightarrow> jsstr \<Rightarrow> jsstr \<Rightarrow> jsstr list" where
  "drop_statements input tableRef dbType = map (\<lambda>orig. alter_statement tableRef (drop_column_sql dbType orig)) (dropped_columns input)"

definition rename_sql :: "string \<Rightarrow> jsstr \<Rightarrow> column_snapshot \<Rightarrow> column_snapshot \<Rightarrow> jsstr" where
  "rename_sql sep dbType orig cur =
     js ''RENAME COLUMN '' @ quoteSqlIdentifierPart dbType (column_name orig) @ js sep @ quoteSqlIdentifierPart dbType (column_name cur)"

definition rename_statements :: "string \<Rightarrow> jsstr \<Rightarrow> jsstr \<Rightarrow> column_snapshot \<Rightarrow> column_snapshot \<Rightarrow> jsstr list" where
  "rename_statements sep tableRef dbType orig cur =
     (if column_name cur \<noteq> column_name orig then [alter_statement tableRef (rename_sql sep dbType orig cur)] else [])"

definition alter_column_sql :: "jsstr \<Rightarrow> column_snapshot \<Rightarrow> jsstr \<Rightarrow> jsstr" where
  "alter_column_sql dbType cur change = js ''ALTER COLUMN '' @ quoteSqlIdentifierPart dbType (column_name cur) @ change"

definition default_statements :: "jsstr \<Rightarrow> jsstr \<Rightarrow> column_snapshot \<Rightarrow> column_snapshot \<Rightarrow> jsstr list" where
  "default_statements tableRef dbType orig cur =
     (let curDefault = normalizeDefaultText (column_default cur) in
      if curDefault \<noteq> normalizeDefaultText (column_default orig) then
        [alter_statement tableRef (alter_column_sql dbType cur
           (if curDefault \<noteq> [] then js '' SET DEFAULT '' @ formatDefaultExpression curDefault dbType else js '' DROP DEFAULT''))]
      else [])"

definition null_statements :: "jsstr \<Rightarrow> jsstr \<Rightarrow> column_snapshot \<Rightarrow> column_snapshot \<Rightarrow> jsstr list" where
  "null_statements tableRef dbType orig cur =
     (if nullable cur \<noteq> nullable orig then
        [alter_statement tableRef (alter_column_sql dbType cur
           (if nullable cur = js ''NO'' then js '' SET NOT NULL'' else js '' DROP NOT NULL''))]
      else [])"

section \<open>MySQL and Doris\<close>

definition mysql_column_alters :: "alter_input \<Rightarrow> jsstr \<Rightarrow> column_snapshot option \<Rightarrow> column_snapshot \<Rightarrow> jsstr list" where
  "mysql_column_alters input dbType prevCol cur =
     (let positionSql = (case prevCol of Some prev \<Rightarrow> js ''AFTER '' @ quoteSqlIdentifierPart dbType (column_name prev)
                                       | None \<Rightarrow> js ''FIRST'');
          colDef = buildMySqlColumnDefinition cur dbType
      in case original_of input cur of
           None \<Rightarrow> [trim (js ''ADD COLUMN '' @ colDef @ space @ positionSql)]
         | Some orig \<Rightarrow>
             if column_name cur \<noteq> column_name orig then
               [trim (js ''CHANGE COLUMN '' @ quoteSqlIdentifierPart dbType (column_name orig) @ space @ colDef @ space @ positionSql)]
             else if definitionChanged cur orig then [trim (js ''MODIFY COLUMN '' @ colDef @ space @ positionSql)]
             else [])"

definition mysql_alters :: "alter_input \<Rightarrow> jsstr \<Rightarrow> jsstr list" where
  "mysql_alters input dbType =
     map (drop_column_sql dbType) (dropped_columns input) @
     concat (map (\<lambda>(prev, cur). mysql_column_alters input dbType prev cur) (zip (None # map Some (drafted input)) (drafted input))) @
     (if keysChanged input then
        (if origPKKeys input \<noteq> [] then [js ''DROP PRIMARY KEY''] else []) @
        (if newPKKeys input \<noteq> [] then [js ''ADD PRIMARY KEY ('' @ pk_names dbType (drafted input) @ js '')''] else [])
      else [])"

definition buildMySqlAlterPreviewSql :: "alter_input \<Rightarrow> jsstr \<Rightarrow> jsstr" where
  "buildMySqlAlterPreviewSql input dbType =
     (let alters = mysql_alters input dbType in
      if alters = [] then []
      else js ''ALTER TABLE '' @ quoteSqlIdentifierPath dbType (alter_table input) @ newline # join (js '','' @ [newline]) alters @ js '';'')"

definition doris_column :: "alter_input \<Rightarrow> jsstr \<Rightarrow> jsstr \<Rightarrow> column_snapshot \<Rightarrow> jsstr list" where
  "doris_column input tableName dbType cur =
     (case original_of input cur of
        None \<Rightarrow> [alter_statement tableName (js ''ADD COLUMN '' @ buildDorisColumnDefinition cur dbType)]
      | Some orig \<Rightarrow>
          rename_statements '' '' tableName dbType orig cur @
          (if definitionChanged cur orig
           then [alter_statement tableName (js ''MODIFY COLUMN '' @ buildDorisColumnDefinition cur dbType)] else []))"

definition buildDorisAlterPreviewSql :: "alter_input \<Rightarrow> jsstr \<Rightarrow> jsstr" where
  "buildDorisAlterPreviewSql input dbType =
     (let tableName = quoteSqlIdentifierPath dbType (alter_table input) in
      lines (drop_statements input tableName dbType @
        concat (map (doris_column input tableName dbType) (drafted input)) @
        (if keysChanged input
         then [translateSchemaSqlComment (translate input) ''table_designer.schema_sql.doris.primary_key_hint'' []] else [])))"

section \<open>PostgreSQL and its relatives\<close>

definition pg_column :: "alter_input \<Rightarrow> jsstr \<Rightarrow> jsstr \<Rightarrow> column_snapshot \<Rightarrow> jsstr list" where
  "pg_column input tableRef dbType cur =
     (case original_of input cur of
        None \<Rightarrow>
          [alter_statement tableRef (js ''ADD COLUMN '' @ buildPgLikeColumnDefinition cur dbType)] @
          (if trim (column_comment cur) \<noteq> []
           then [buildColumnCommentSql tableRef (column_name cur) (column_comment cur) dbType] else [])
      | Some orig \<Rightarrow>
          rename_statements '' TO '' tableRef dbType orig cur @
          (if column_type cur \<noteq> column_type orig
           then [alter_statement tableRef (alter_column_sql dbType cur (js '' TYPE '' @ column_type cur))] else []) @
          default_statements tableRef dbType orig cur @
          null_statements tableRef dbType orig cur @
          (if column_comment cur \<noteq> column_comment orig
           then [buildColumnCommentSql tableRef (column_name cur) (column_comment cur) dbType] else []))"

definition pg_base_name :: "alter_input \<Rightarrow> jsstr" where
  "pg_base_name input = or_text (objectName (splitQualifiedName (alter_table input))) (stripIdentifierQuotes (alter_table input))"

definition pg_key :: "alter_input \<Rightarrow> jsstr \<Rightarrow> jsstr \<Rightarrow> jsstr list" where
  "pg_key input tableRef dbType =
     (if keysChanged input then
        (if origPKKeys input \<noteq> [] then
           [alter_statement tableRef (js ''DROP CONSTRAINT IF EXISTS '' @ quoteSqlIdentifierPart dbType (pg_base_name input @ js ''_pkey''))]
         else []) @
        (if newPKKeys input \<noteq> []
         then [alter_statement tableRef (js ''ADD PRIMARY KEY ('' @ pk_names dbType (drafted input) @ js '')'')] else [])
      else [])"

definition buildPgLikeAlterPreviewSql :: "alter_input \<Rightarrow> jsstr \<Rightarrow> jsstr" where
  "buildPgLikeAlterPreviewSql input dbType =
     (let tableRef = quoteSqlIdentifierPath dbType (alter_table input) in
      lines (drop_statements input tableRef dbType @ concat (map (pg_column input tableRef dbType) (drafted input)) @
        pg_key input tableRef dbType))"

section \<open>Oracle\<close>

definition oracle_column :: "alter_input \<Rightarrow> jsstr \<Rightarrow> jsstr \<Rightarrow> column_snapshot \<Rightarrow> jsstr list" where
  "oracle_column input tableRef dbType cur =
     (case original_of input cur of
        None \<Rightarrow>
          [alter_statement tableRef (js ''ADD ('' @ buildStandardColumnDefinition cur dbType False True @ js '')'')] @
          (if trim (column_comment cur) \<noteq> []
           then [buildColumnCommentSql tableRef (column_name cur) (column_comment cur) dbType] else [])
      | Some orig \<Rightarrow>
          rename_statements '' TO '' tableRef dbType orig cur @
          (if physicalDefinitionChanged cur orig
           then [alter_statement tableRef (js ''MODIFY ('' @ buildStandardColumnDefinition cur dbType False True @ js '')'')] else []) @
          (if column_comment cur \<noteq> column_comment orig
           then [buildColumnCommentSql tableRef (column_name cur) (column_comment cur) dbType] else []))"

definition buildOracleLikeAlterPreviewSql :: "alter_input \<Rightarrow> jsstr \<Rightarrow> jsstr" where
  "buildOracleLikeAlterPreviewSql input dbType =
     (let tableRef = quoteSqlIdentifierPath dbType (alter_table input) in
      lines (drop_statements input tableRef dbType @ concat (map (oracle_column input tableRef dbType) (drafted input)) @
        (if keysChanged input then
           (if origPKKeys input \<noteq> [] then [alter_statement tableRef (js ''DROP PRIMARY KEY'')] else []) @
           (if newPKKeys input \<noteq> []
            then [alter_statement tableRef (js ''ADD PRIMARY KEY ('' @ pk_names dbType (drafted input) @ js '')'')] else [])
         else [])))"

section \<open>SQL Server\<close>

definition sqlserver :: jsstr where
  "sqlserver = js ''sqlserver''"

definition buildSqlServerDefaultDropBatch :: "jsstr \<Rightarrow> jsstr \<Rightarrow> jsstr" where
  "buildSqlServerDefaultDropBatch tableName columnName =
     (let parts = splitQualifiedName tableName;
          schema = or_text (parentPath parts) (js ''dbo'');
          table = or_text (objectName parts) tableName;
          tableRef = quoteSqlIdentifierPath sqlserver (schema @ js ''.'' @ table)
      in js ''DECLARE @gonavi_df nvarchar(128); SELECT @gonavi_df = dc.name FROM sys.default_constraints dc JOIN sys.columns c ON dc.parent_object_id = c.object_id AND dc.parent_column_id = c.column_id JOIN sys.tables t ON c.object_id = t.object_id JOIN sys.schemas s ON t.schema_id = s.schema_id WHERE s.name = '' @
         n_string schema @ js '' AND t.name = '' @ n_string table @ js '' AND c.name = '' @ n_string columnName @
         js ''; IF @gonavi_df IS NOT NULL EXEC(N'' @ [squote] @ js ''ALTER TABLE '' @ tableRef @ js '' DROP CONSTRAINT '' @ [squote] @
         js '' + QUOTENAME(@gonavi_df));'')"

definition sqlserver_column :: "alter_input \<Rightarrow> jsstr \<Rightarrow> column_snapshot \<Rightarrow> jsstr list" where
  "sqlserver_column input tableRef cur =
     (case original_of input cur of
        None \<Rightarrow>
          [alter_statement tableRef (js ''ADD '' @ buildStandardColumnDefinition cur sqlserver True True)] @
          (if trim (column_comment cur) \<noteq> []
           then [buildSqlServerColumnCommentSql (alter_table input) (column_name cur) (column_comment cur)] else [])
      | Some orig \<Rightarrow>
          (if column_name cur \<noteq> column_name orig then
             [js ''EXEC sp_rename '' @
              sql_string (unquoteSqlIdentifierPath (alter_table input) @ js ''.'' @ column_name orig) @ js '', '' @
              sql_string (column_name cur) @ js '', '' @ sql_string (js ''COLUMN'') @ js '';'']
           else []) @
          (if column_type cur \<noteq> column_type orig \<or> nullable cur \<noteq> nullable orig \<or> isAutoIncrement cur \<noteq> isAutoIncrement orig
           then [alter_statement tableRef
                   (js ''ALTER COLUMN '' @ buildStandardColumnDefinition (cur\<lparr>column_default := []\<rparr>) sqlserver True False)] else []) @
          (let curDefault = normalizeDefaultText (column_default cur) in
           if curDefault \<noteq> normalizeDefaultText (column_default orig) then
             [buildSqlServerDefaultDropBatch (alter_table input) (column_name cur)] @
             (if curDefault \<noteq> [] then
                [alter_statement tableRef (js ''ADD DEFAULT '' @ formatDefaultExpression curDefault sqlserver @ js '' FOR '' @
                   quoteSqlIdentifierPart sqlserver (column_name cur))]
              else [])
           else []) @
          (if column_comment cur \<noteq> column_comment orig
           then [buildSqlServerColumnCommentSql (alter_table input) (column_name cur) (column_comment cur)] else []))"

definition buildSqlServerAlterPreviewSql :: "alter_input \<Rightarrow> jsstr" where
  "buildSqlServerAlterPreviewSql input =
     (let tableRef = quoteSqlIdentifierPath sqlserver (alter_table input);
          constraintName = quoteSqlIdentifierPart sqlserver
            (js ''PK_'' @ or_text (objectName (splitQualifiedName (alter_table input))) (js ''table''))
      in lines (drop_statements input tableRef sqlserver @ concat (map (sqlserver_column input tableRef) (drafted input)) @
        (if keysChanged input then
           (if origPKKeys input \<noteq> []
            then [translateSchemaSqlComment (translate input) ''table_designer.schema_sql.sqlserver.drop_primary_key_hint'' []] else []) @
           (if newPKKeys input \<noteq> []
            then [alter_statement tableRef (js ''ADD CONSTRAINT '' @ constraintName @ js '' PRIMARY KEY ('' @
                    pk_names sqlserver (drafted input) @ js '')'')] else [])
         else [])))"

section \<open>SQLite, DuckDB and the dialects with few changes\<close>

definition sqlite_column :: "alter_input \<Rightarrow> jsstr \<Rightarrow> column_snapshot \<Rightarrow> jsstr list" where
  "sqlite_column input tableRef cur =
     (case original_of input cur of
        None \<Rightarrow> [alter_statement tableRef (js ''ADD COLUMN '' @ buildStandardColumnDefinition cur (js ''sqlite'') False False)]
      | Some orig \<Rightarrow>
          rename_statements '' TO '' tableRef (js ''sqlite'') orig cur @
          (if physicalDefinitionChanged cur orig \<or> column_comment cur \<noteq> column_comment orig
           then [translateSchemaSqlComment (translate input) ''table_designer.schema_sql.sqlite.modify_column_hint''
                   [(js ''column'', column_name cur)]] else []))"

definition buildSqliteAlterPreviewSql :: "alter_input \<Rightarrow> jsstr" where
  "buildSqliteAlterPreviewSql input =
     (let tableRef = quoteSqlIdentifierPath (js ''sqlite'') (alter_table input) in
      lines (drop_statements input tableRef (js ''sqlite'') @ concat (map (sqlite_column input tableRef) (drafted input))))"

definition duckdb_column :: "alter_input \<Rightarrow> jsstr \<Rightarrow> column_snapshot \<Rightarrow> jsstr list" where
  "duckdb_column input tableRef cur =
     (let dbType = js ''duckdb'' in
      case original_of input cur of
        None \<Rightarrow> [alter_statement tableRef (js ''ADD COLUMN '' @ buildStandardColumnDefinition cur dbType False False)]
      | Some orig \<Rightarrow>
          rename_statements '' TO '' tableRef dbType orig cur @
          (if column_type cur \<noteq> column_type orig
           then [alter_statement tableRef (alter_column_sql dbType cur (js '' SET DATA TYPE '' @ column_type cur))] else []) @
          default_statements tableRef dbType orig cur @
          null_statements tableRef dbType orig cur @
          (if column_comment cur \<noteq> column_comment orig
           then [translateSchemaSqlComment (translate input) ''table_designer.schema_sql.duckdb.comment_hint''
                   [(js ''column'', column_name cur)]] else []))"

definition buildDuckDbAlterPreviewSql :: "alter_input \<Rightarrow> jsstr" where
  "buildDuckDbAlterPreviewSql input =
     (let dbType = js ''duckdb''; tableRef = quoteSqlIdentifierPath dbType (alter_table input) in
      lines (drop_statements input tableRef dbType @ concat (map (duckdb_column input tableRef) (drafted input)) @
        (if keysChanged input then
           (if origPKKeys input = [] \<and> newPKKeys input \<noteq> []
            then [alter_statement tableRef (js ''ADD PRIMARY KEY ('' @ pk_names dbType (drafted input) @ js '')'')]
            else [translateSchemaSqlComment (translate input) ''table_designer.schema_sql.duckdb.primary_key_hint'' []])
         else [])))"

definition limited_column :: "alter_input \<Rightarrow> jsstr \<Rightarrow> jsstr \<Rightarrow> jsstr \<Rightarrow> column_snapshot \<Rightarrow> jsstr list" where
  "limited_column input tableRef dbType label cur =
     (let hint = translateSchemaSqlComment (translate input) ''table_designer.schema_sql.limited_column_hint''
            [(js ''dialect'', label)] in
      case original_of input cur of
        None \<Rightarrow>
          [alter_statement tableRef
             (js ''ADD COLUMN '' @ quoteSqlIdentifierPart dbType (column_name cur) @ space @ column_type cur)] @
          (if nullable cur = js ''NO'' \<or> normalizeDefaultText (column_default cur) \<noteq> [] \<or> trim (column_comment cur) \<noteq> []
           then [hint] else [])
      | Some orig \<Rightarrow>
          rename_statements '' TO '' tableRef dbType orig cur @
          (if column_type cur \<noteq> column_type orig
           then [alter_statement tableRef
                   (js ''MODIFY COLUMN '' @ quoteSqlIdentifierPart dbType (column_name cur) @ space @ column_type cur)] else []) @
          (if nullable cur \<noteq> nullable orig \<or>
              normalizeDefaultText (column_default cur) \<noteq> normalizeDefaultText (column_default orig) \<or>
              column_comment cur \<noteq> column_comment orig \<or> isAutoIncrement cur \<noteq> isAutoIncrement orig
           then [hint] else []))"

definition buildLimitedBacktickAlterPreviewSql :: "alter_input \<Rightarrow> jsstr \<Rightarrow> jsstr \<Rightarrow> jsstr" where
  "buildLimitedBacktickAlterPreviewSql input dbType label =
     (let tableRef = quoteSqlIdentifierPath dbType (alter_table input) in
      lines (drop_statements input tableRef dbType @ concat (map (limited_column input tableRef dbType label) (drafted input))))"

definition buildAlterTablePreviewSql :: "alter_input \<Rightarrow> jsstr" where
  "buildAlterTablePreviewSql input =
     (let dbType = dialect_of (alter_dbType input) in
      if isPgLikeDialect dbType then buildPgLikeAlterPreviewSql input dbType
      else if isOracleLikeDialect dbType then buildOracleLikeAlterPreviewSql input dbType
      else if isSqlServerDialect dbType then buildSqlServerAlterPreviewSql input
      else if dbType = js ''sqlite'' then buildSqliteAlterPreviewSql input
      else if dbType = js ''duckdb'' then buildDuckDbAlterPreviewSql input
      else if dbType = js ''diros'' then buildDorisAlterPreviewSql input dbType
      else if dbType = js ''starrocks'' then buildLimitedBacktickAlterPreviewSql input dbType (js ''StarRocks'')
      else if dbType = js ''clickhouse'' then buildLimitedBacktickAlterPreviewSql input dbType (js ''ClickHouse'')
      else if dbType = js ''tdengine'' then buildLimitedBacktickAlterPreviewSql input dbType (js ''TDengine'')
      else if isMysqlFamilyDialect dbType then buildMySqlAlterPreviewSql input dbType
      else buildPgLikeAlterPreviewSql input dbType)"

definition hasAlterTableDraftChanges :: "alter_input \<Rightarrow> bool" where
  "hasAlterTableDraftChanges input \<longleftrightarrow> trim (buildAlterTablePreviewSql input) \<noteq> []"

section \<open>Drafts without changes\<close>

lemma original_of_Some: "original_of input c = Some r \<Longrightarrow> r \<in> set (originalColumns input) \<and> column_key r = column_key c"
  by (auto simp: original_of_def find_Some_iff)

lemma original_of_eq:
  assumes "distinct (map column_key (originalColumns input))" and "r \<in> set (originalColumns input)" and "column_key r = column_key c"
  shows "original_of input c = Some r"
proof (cases "original_of input c")
  case None
  with assms show ?thesis by (auto simp: original_of_def find_None_iff)
next
  case (Some r')
  then show ?thesis using original_of_Some [OF Some] assms inj_onD [OF distinct_map [THEN iffD1, OF assms(1), THEN conjunct2]]
    by metis
qed

lemma nonblank_start: "\<not> is_js_space c \<Longrightarrow> trim (c # s) \<noteq> []"
  by (simp add: trim_def trim_start_def trim_end_def)

lemma untouched_columns:
  assumes "distinct (map column_key (originalColumns input))" and "drafted input = originalColumns input"
  shows "dropped_columns input = []" and "\<not> keysChanged input"
    and "c \<in> set (drafted input) \<Longrightarrow> original_of input c = Some c"
proof -
  show "dropped_columns input = []" using assms(2) by (auto simp: dropped_columns_def find_None_iff filter_empty_conv)
  show "\<not> keysChanged input" using assms(2) by (simp add: keysChanged_def origPKKeys_def newPKKeys_def)
  show "c \<in> set (drafted input) \<Longrightarrow> original_of input c = Some c" using assms by (intro original_of_eq) simp_all
qed

lemmas column_statements = doris_column_def pg_column_def oracle_column_def sqlserver_column_def sqlite_column_def
  duckdb_column_def limited_column_def

lemma unchanged_column:
  assumes "original_of input c = Some c"
  shows "mysql_column_alters input dbType prev c = []" "doris_column input ref dbType c = []" "pg_column input ref dbType c = []"
    "oracle_column input ref dbType c = []" "sqlserver_column input ref c = []" "sqlite_column input ref c = []"
    "duckdb_column input ref c = []" "limited_column input ref dbType label c = []"
  using assms by (simp_all add: column_statements mysql_column_alters_def rename_statements_def definitionChanged_def
      physicalDefinitionChanged_def default_statements_def null_statements_def Let_def)

lemma concat_map_empty: "(\<And>x. x \<in> set xs \<Longrightarrow> f x = []) \<Longrightarrow> concat (map f xs) = []"
  by simp

text \<open>C40: A draft nobody changed yields no statement and counts as unchanged, whatever the dialect is.\<close>

theorem untouched_draft_silent:
  assumes "distinct (map column_key (originalColumns input))" and "drafted input = originalColumns input"
  shows "buildAlterTablePreviewSql input = [] \<and> \<not> hasAlterTableDraftChanges input"
proof -
  note u = untouched_columns [OF assms]
  have none: "concat (map f (drafted input)) = []" if "\<And>c. original_of input c = Some c \<Longrightarrow> f c = []" for f :: "column_snapshot \<Rightarrow> jsstr list"
    using that u(3) by (intro concat_map_empty) blast
  have "concat (map (\<lambda>(prev, cur). mysql_column_alters input dbType prev cur) (zip (None # map Some (drafted input)) (drafted input))) = []" for dbType
    using unchanged_column(1) u(3) by (intro concat_map_empty) (auto dest: set_zip_rightD)
  then have m: "buildMySqlAlterPreviewSql input dbType = []" for dbType
    by (simp add: buildMySqlAlterPreviewSql_def mysql_alters_def u(1,2))
  have "buildAlterTablePreviewSql input = []"
    by (simp add: buildAlterTablePreviewSql_def buildDorisAlterPreviewSql_def buildPgLikeAlterPreviewSql_def pg_key_def
        buildOracleLikeAlterPreviewSql_def buildSqlServerAlterPreviewSql_def buildSqliteAlterPreviewSql_def
        buildDuckDbAlterPreviewSql_def buildLimitedBacktickAlterPreviewSql_def drop_statements_def lines_def Let_def
        m none unchanged_column u(1,2))
  then show ?thesis by (simp add: hasAlterTableDraftChanges_def)
qed

definition sample_column :: "string \<Rightarrow> string \<Rightarrow> string \<Rightarrow> bool \<Rightarrow> column_snapshot" where
  "sample_column k n ty pri = \<lparr>column_key = js k, column_name = js n, column_type = js ty, nullable = js ''NO'', column_default = [],
     column_extra = [], column_comment = js n, key_role = (if pri then js ''PRI'' else []), isAutoIncrement = False\<rparr>"

definition sample_draft :: "string \<Rightarrow> column_snapshot list \<Rightarrow> column_snapshot list \<Rightarrow> alter_input" where
  "sample_draft dbType old new = \<lparr>alter_dbType = js dbType, alter_table = js ''public.t'', originalColumns = old, drafted = new,
     translate = (\<lambda>_ _. [])\<rparr>"

theorem untouched_draft_silent_witness:
  "\<not> hasAlterTableDraftChanges (sample_draft ''mysql'' [sample_column ''1'' ''a'' ''int'' True] [sample_column ''1'' ''a'' ''int'' True])"
proof -
  let ?i = "sample_draft ''mysql'' [sample_column ''1'' ''a'' ''int'' True] [sample_column ''1'' ''a'' ''int'' True]"
  have "distinct (map column_key (originalColumns ?i))" "drafted ?i = originalColumns ?i" by (simp_all add: sample_draft_def)
  then show ?thesis using untouched_draft_silent [of ?i] by blast
qed

end
