(* ===== verification/AlterMeaning.thy ===== *)
theory AlterMeaning
  imports AlterTable
begin

text \<open>
  What the statements of the table designer do: a table is a map from names to columns and the set of the names
  of its primary key, a statement is an action on it, which may fail, and the text printed for PostgreSQL is the
  rendering of a list of actions that turns the table into the one drafted.
\<close>

section \<open>Tables and actions\<close>

record column_state =
  state_type :: jsstr
  state_default :: jsstr
  state_notnull :: bool
  state_comment :: jsstr

record table_state =
  columns_of :: "jsstr \<rightharpoonup> column_state"
  key_of :: "jsstr set"

datatype alter_action =
    DropColumn jsstr
  | AddColumn column_snapshot
  | RenameColumn jsstr jsstr
  | SetType jsstr jsstr
  | SetDefault jsstr jsstr
  | SetNotNull jsstr bool
  | SetComment jsstr jsstr
  | DropKey
  | AddKey "jsstr list"

abbreviation ident :: "jsstr \<Rightarrow> jsstr" where
  "ident \<equiv> stripIdentifierQuotes"

abbreviation cident :: "column_snapshot \<Rightarrow> jsstr" where
  "cident c \<equiv> stripIdentifierQuotes (column_name c)"

definition state_of :: "column_snapshot \<Rightarrow> column_state" where
  "state_of c = \<lparr>state_type = trim (column_type c), state_default = trim (column_default c),
     state_notnull = (nullable c = js ''NO''), state_comment = trim (column_comment c)\<rparr>"

definition table_of :: "column_snapshot list \<Rightarrow> table_state" where
  "table_of cs = \<lparr>columns_of = map_of (map (\<lambda>c. (cident c, state_of c)) cs), key_of = cident ` set (filter is_primary cs)\<rparr>"

definition change_column :: "jsstr \<Rightarrow> (column_state \<Rightarrow> column_state) \<Rightarrow> table_state \<Rightarrow> table_state option" where
  "change_column n f t =
     (case columns_of t (ident n) of
        None \<Rightarrow> None
      | Some s \<Rightarrow> Some (t\<lparr>columns_of := (columns_of t)(ident n \<mapsto> f s)\<rparr>))"

text \<open>Dropping a column of the key drops the key; a new key needs a table without one and columns that exist;
  a name can be given only when it is free.\<close>

fun act :: "alter_action \<Rightarrow> table_state \<Rightarrow> table_state option" where
  "act (DropColumn n) t =
     (if columns_of t (ident n) = None then None
      else Some \<lparr>columns_of = (columns_of t)(ident n := None), key_of = (if ident n \<in> key_of t then {} else key_of t)\<rparr>)"
| "act (AddColumn c) t =
     (if columns_of t (cident c) \<noteq> None then None
      else Some (t\<lparr>columns_of := (columns_of t)(cident c \<mapsto> (state_of c)\<lparr>state_comment := []\<rparr>)\<rparr>))"
| "act (RenameColumn a b) t =
     (case columns_of t (ident a) of
        None \<Rightarrow> None
      | Some s \<Rightarrow>
          if columns_of t (ident b) \<noteq> None then None
          else Some \<lparr>columns_of = (columns_of t)(ident a := None, ident b \<mapsto> s),
            key_of = (\<lambda>n. if n = ident a then ident b else n) ` key_of t\<rparr>)"
| "act (SetType n ty) t = change_column n (\<lambda>s. s\<lparr>state_type := trim ty\<rparr>) t"
| "act (SetDefault n d) t = change_column n (\<lambda>s. s\<lparr>state_default := trim d\<rparr>) t"
| "act (SetNotNull n b) t = change_column n (\<lambda>s. s\<lparr>state_notnull := b\<rparr>) t"
| "act (SetComment n c) t = change_column n (\<lambda>s. s\<lparr>state_comment := trim c\<rparr>) t"
| "act DropKey t = Some (t\<lparr>key_of := {}\<rparr>)"
| "act (AddKey ns) t =
     (if key_of t \<noteq> {} \<or> (\<exists>n \<in> set ns. columns_of t (ident n) = None) then None
      else Some (t\<lparr>key_of := ident ` set ns\<rparr>))"

fun acts :: "alter_action list \<Rightarrow> table_state \<Rightarrow> table_state option" where
  "acts [] t = Some t"
| "acts (a # as) t = (case act a t of None \<Rightarrow> None | Some t' \<Rightarrow> acts as t')"

lemma acts_append: "acts (as @ bs) t = (case acts as t of None \<Rightarrow> None | Some t' \<Rightarrow> acts bs t')"
  by (induction as arbitrary: t) (simp_all split: option.split)

section \<open>Actions as statements\<close>

text \<open>The statement of an action in the PostgreSQL family. The key has the name PostgreSQL gives it.\<close>

fun action_sql :: "jsstr \<Rightarrow> jsstr \<Rightarrow> jsstr \<Rightarrow> alter_action \<Rightarrow> jsstr" where
  "action_sql dbType tableRef base (DropColumn n) =
     alter_statement tableRef (js ''DROP COLUMN '' @ quoteSqlIdentifierPart dbType n)"
| "action_sql dbType tableRef base (AddColumn c) =
     alter_statement tableRef (js ''ADD COLUMN '' @ buildPgLikeColumnDefinition c dbType)"
| "action_sql dbType tableRef base (RenameColumn a b) =
     alter_statement tableRef
       (js ''RENAME COLUMN '' @ quoteSqlIdentifierPart dbType a @ js '' TO '' @ quoteSqlIdentifierPart dbType b)"
| "action_sql dbType tableRef base (SetType n ty) =
     alter_statement tableRef (js ''ALTER COLUMN '' @ quoteSqlIdentifierPart dbType n @ js '' TYPE '' @ ty)"
| "action_sql dbType tableRef base (SetDefault n d) =
     alter_statement tableRef (js ''ALTER COLUMN '' @ quoteSqlIdentifierPart dbType n @
       (if d \<noteq> [] then js '' SET DEFAULT '' @ formatDefaultExpression d dbType else js '' DROP DEFAULT''))"
| "action_sql dbType tableRef base (SetNotNull n b) =
     alter_statement tableRef (js ''ALTER COLUMN '' @ quoteSqlIdentifierPart dbType n @
       (if b then js '' SET NOT NULL'' else js '' DROP NOT NULL''))"
| "action_sql dbType tableRef base (SetComment n c) = buildColumnCommentSql tableRef n c dbType"
| "action_sql dbType tableRef base DropKey =
     alter_statement tableRef (js ''DROP CONSTRAINT IF EXISTS '' @ quoteSqlIdentifierPart dbType (base @ js ''_pkey''))"
| "action_sql dbType tableRef base (AddKey ns) =
     alter_statement tableRef (js ''ADD PRIMARY KEY ('' @ join (js '', '') (map (quoteSqlIdentifierPart dbType) ns) @ js '')'')"

definition column_actions :: "alter_input \<Rightarrow> column_snapshot \<Rightarrow> alter_action list" where
  "column_actions input cur =
     (case original_of input cur of
        None \<Rightarrow> AddColumn cur #
          (if trim (column_comment cur) \<noteq> [] then [SetComment (column_name cur) (column_comment cur)] else [])
      | Some orig \<Rightarrow>
          (if column_name cur \<noteq> column_name orig then [RenameColumn (column_name orig) (column_name cur)] else []) @
          (if column_type cur \<noteq> column_type orig then [SetType (column_name cur) (column_type cur)] else []) @
          (if trim (column_default cur) \<noteq> trim (column_default orig)
           then [SetDefault (column_name cur) (trim (column_default cur))] else []) @
          (if nullable cur \<noteq> nullable orig then [SetNotNull (column_name cur) (nullable cur = js ''NO'')] else []) @
          (if column_comment cur \<noteq> column_comment orig then [SetComment (column_name cur) (column_comment cur)] else []))"

definition key_actions :: "alter_input \<Rightarrow> alter_action list" where
  "key_actions input =
     (if keysChanged input then
        (if origPKKeys input \<noteq> [] then [DropKey] else []) @
        (if newPKKeys input \<noteq> [] then [AddKey (map column_name (filter is_primary (drafted input)))] else [])
      else [])"

definition draft_actions :: "alter_input \<Rightarrow> alter_action list" where
  "draft_actions input =
     map (DropColumn \<circ> column_name) (dropped_columns input) @ concat (map (column_actions input) (drafted input)) @
     key_actions input"

lemma column_actions_sql:
  "map (action_sql dbType tableRef base) (column_actions input cur) = pg_column input tableRef dbType cur"
  by (simp add: column_actions_def pg_column_def rename_statements_def rename_sql_def alter_column_sql_def
      default_statements_def null_statements_def normalizeDefaultText_def Let_def split: option.split)

lemma draft_actions_sql:
  "buildPgLikeAlterPreviewSql input dbType =
   lines (map (action_sql dbType (quoteSqlIdentifierPath dbType (alter_table input)) (pg_base_name input)) (draft_actions input))"
proof -
  have "map (action_sql dbType tableRef (pg_base_name input)) (key_actions input) = pg_key input tableRef dbType" for tableRef
    by (simp add: key_actions_def pg_key_def pk_names_def o_def)
  moreover have "map (action_sql dbType tableRef base) (map (DropColumn \<circ> column_name) (dropped_columns input)) =
      drop_statements input tableRef dbType" for tableRef base
    by (simp add: drop_statements_def drop_column_sql_def o_def)
  moreover have "map (map (action_sql dbType tableRef base)) (map (column_actions input) cs) = map (pg_column input tableRef dbType) cs"
    for tableRef base cs by (simp add: column_actions_sql)
  ultimately show ?thesis
    unfolding buildPgLikeAlterPreviewSql_def draft_actions_def Let_def map_append map_concat by (simp only:)
qed

section \<open>A column\<close>

lemma acts_change_if:
  assumes "columns_of t (ident n) = Some s" and "\<And>t s. columns_of t (ident n) = Some s \<Longrightarrow> act a t = Some (t\<lparr>columns_of := (columns_of t)(ident n \<mapsto> f s)\<rparr>)"
  shows "acts ((if b then [a] else []) @ as) t = acts as (t\<lparr>columns_of := (columns_of t)(ident n \<mapsto> (if b then f s else s))\<rparr>)"
proof -
  have "(columns_of t)(ident n \<mapsto> s) = columns_of t" using assms(1) by (intro ext) simp
  then show ?thesis using assms by simp
qed

lemma new_column_acts:
  assumes "original_of input c = None" and "columns_of t (cident c) = None"
  shows "acts (column_actions input c) t = Some (t\<lparr>columns_of := (columns_of t)(cident c \<mapsto> state_of c)\<rparr>)"
  using assms by (simp add: column_actions_def change_column_def state_of_def)

lemma kept_column_acts:
  assumes "original_of input c = Some r" and "columns_of t (cident r) = Some (state_of r)"
    and "column_name c \<noteq> column_name r \<Longrightarrow> columns_of t (cident c) = None"
  shows "acts (column_actions input c) t =
    Some \<lparr>columns_of = (columns_of t)(cident r := None, cident c \<mapsto> state_of c),
      key_of = (\<lambda>n. if n = cident r then cident c else n) ` key_of t\<rparr>"
proof -
  let ?n = "column_name c"
  let ?t = "\<lparr>columns_of = (columns_of t)(cident r := None, cident c \<mapsto> state_of r),
      key_of = (\<lambda>n. if n = cident r then cident c else n) ` key_of t\<rparr>"
  let ?changes = "(if column_type c \<noteq> column_type r then [SetType ?n (column_type c)] else []) @
      (if trim (column_default c) \<noteq> trim (column_default r) then [SetDefault ?n (trim (column_default c))] else []) @
      (if nullable c \<noteq> nullable r then [SetNotNull ?n (nullable c = js ''NO'')] else []) @
      (if column_comment c \<noteq> column_comment r then [SetComment ?n (column_comment c)] else []) @ []"
  have rename: "acts (column_actions input c) t = acts ?changes ?t"
  proof (cases "column_name c = column_name r")
    case True
    then have "(columns_of t)(cident r := None, cident c \<mapsto> state_of r) = columns_of t" using assms(2) by (intro ext) simp
    moreover have "(\<lambda>n. if n = cident r then cident c else n) ` key_of t = key_of t" using True by auto
    ultimately have "?t = t" by (cases t) simp
    moreover have "column_actions input c = ?changes" using True by (simp add: column_actions_def assms(1))
    ultimately show ?thesis by (simp only:)
  next
    case False
    with assms show ?thesis by (simp add: column_actions_def)
  qed
  have cur: "columns_of ?t (ident ?n) = Some (state_of r)" by simp
  have "acts ?changes ?t = Some (?t\<lparr>columns_of := (columns_of ?t)(ident ?n \<mapsto> state_of c)\<rparr>)"
    by (simp add: acts_change_if [where n = "column_name c"] change_column_def state_of_def)
  then show ?thesis unfolding rename by simp
qed

section \<open>A draft\<close>

text \<open>A draft that can be carried out statement by statement: keys and names are distinct, and a name that a
  column gets anew is not the present name of a column that stays.\<close>

definition draft_ok :: "alter_input \<Rightarrow> bool" where
  "draft_ok input \<longleftrightarrow>
     distinct (map column_key (originalColumns input)) \<and> distinct (map column_key (drafted input)) \<and>
     distinct (map cident (originalColumns input)) \<and> distinct (map cident (drafted input)) \<and>
     (\<forall>c \<in> set (drafted input). \<forall>d \<in> set (drafted input).
        (case original_of input c of Some r \<Rightarrow> column_name c \<noteq> column_name r | None \<Rightarrow> True) \<longrightarrow>
        (case original_of input d of Some r \<Rightarrow> cident c \<noteq> cident r | None \<Rightarrow> True))"

lemma names_apart:
  assumes "draft_ok input" and "c \<in> set (drafted input)" and "d \<in> set (drafted input)"
  shows "c \<noteq> d \<Longrightarrow> cident c \<noteq> cident d"
    and "original_of input d = Some r \<Longrightarrow> c \<noteq> d \<or> column_name c \<noteq> column_name r \<Longrightarrow> cident c \<noteq> cident r"
proof -
  have ds: "inj_on cident (set (drafted input))" "inj_on column_key (set (drafted input))"
    "inj_on cident (set (originalColumns input))"
    using assms(1) by (simp_all add: draft_ok_def distinct_map)
  show "c \<noteq> d \<Longrightarrow> cident c \<noteq> cident d" using ds(1) assms(2,3) by (auto dest: inj_onD)
  have free: "cident c \<noteq> cident r" if "original_of input d = Some r"
    "case original_of input c of Some p \<Rightarrow> column_name c \<noteq> column_name p | None \<Rightarrow> True" for r
    using assms that unfolding draft_ok_def by fastforce
  assume d: "original_of input d = Some r" and or: "c \<noteq> d \<or> column_name c \<noteq> column_name r"
  show "cident c \<noteq> cident r"
  proof (cases "case original_of input c of Some p \<Rightarrow> column_name c \<noteq> column_name p | None \<Rightarrow> True")
    case True
    with d show ?thesis by (rule free)
  next
    case False
    then obtain p where p: "original_of input c = Some p" "column_name c = column_name p" by (auto split: option.splits)
    with or d have "c \<noteq> d" by auto
    then have "column_key c \<noteq> column_key d" using ds(2) assms(2,3) by (auto dest: inj_onD)
    then have "p \<noteq> r" using original_of_Some [OF d] original_of_Some [OF p(1)] by auto
    then have "cident p \<noteq> cident r"
      using ds(3) original_of_Some [OF d] original_of_Some [OF p(1)] by (auto dest: inj_onD)
    with p(2) show ?thesis by simp
  qed
qed

lemma old_names_apart:
  assumes "draft_ok input" and "c \<in> set (drafted input)" and "d \<in> set (drafted input)" and "c \<noteq> d"
    and "original_of input c = Some r" and "original_of input d = Some p"
  shows "cident p \<noteq> cident r"
proof -
  have "inj_on column_key (set (drafted input))" "inj_on cident (set (originalColumns input))"
    using assms(1) by (simp_all add: draft_ok_def distinct_map)
  moreover from this assms(2-4) have "column_key c \<noteq> column_key d" by (auto dest: inj_onD)
  then have "p \<noteq> r" using original_of_Some [OF assms(5)] original_of_Some [OF assms(6)] by auto
  ultimately show ?thesis
    using original_of_Some [OF assms(5)] original_of_Some [OF assms(6)] by (auto dest: inj_onD)
qed

text \<open>The table after the columns \<open>P\<close> of the draft have been dealt with and \<open>S\<close> are left.\<close>

definition old_keys :: "alter_input \<Rightarrow> column_snapshot list \<Rightarrow> jsstr set" where
  "old_keys input S = {cident r | c r. c \<in> set S \<and> original_of input c = Some r \<and> is_primary r}"

definition kept_keys :: "alter_input \<Rightarrow> column_snapshot list \<Rightarrow> jsstr set" where
  "kept_keys input P = {cident c | c. c \<in> set P \<and> (\<exists>r. original_of input c = Some r \<and> is_primary r)}"

definition half_done :: "alter_input \<Rightarrow> column_snapshot list \<Rightarrow> column_snapshot list \<Rightarrow> table_state \<Rightarrow> bool" where
  "half_done input P S t \<longleftrightarrow>
     (\<forall>c \<in> set P. columns_of t (cident c) = Some (state_of c)) \<and>
     (\<forall>c \<in> set S. \<forall>r. original_of input c = Some r \<longrightarrow> columns_of t (cident r) = Some (state_of r)) \<and>
     (\<forall>n. columns_of t n \<noteq> None \<longrightarrow> n \<in> cident ` set P \<or> (\<exists>c \<in> set S. \<exists>r. original_of input c = Some r \<and> n = cident r)) \<and>
     key_of t = (if \<exists>c \<in> set (dropped_columns input). is_primary c then {} else kept_keys input P \<union> old_keys input S)"

lemma keys_step:
  "kept_keys input (P @ [c]) = kept_keys input P \<union>
    (if \<exists>r. original_of input c = Some r \<and> is_primary r then {cident c} else {})"
  "old_keys input (c # S) = old_keys input S \<union>
    (case original_of input c of Some r \<Rightarrow> if is_primary r then {cident r} else {} | None \<Rightarrow> {})"
  by (auto simp: kept_keys_def old_keys_def split: option.split)

lemma half_done_step:
  assumes "draft_ok input" and "drafted input = P @ c # S" and "half_done input P (c # S) t"
  obtains t' where "acts (column_actions input c) t = Some t'" and "half_done input (P @ [c]) S t'"
proof -
  have mem: "c \<in> set (drafted input)" "\<And>d. d \<in> set P \<union> set S \<Longrightarrow> d \<in> set (drafted input) \<and> d \<noteq> c"
    using assms(1,2) by (auto simp: draft_ok_def distinct_map)
  note apart = names_apart [OF assms(1)]
  have old: "\<And>d. d \<in> set P \<Longrightarrow> columns_of t (cident d) = Some (state_of d)"
    "\<And>d r. d \<in> set (c # S) \<Longrightarrow> original_of input d = Some r \<Longrightarrow> columns_of t (cident r) = Some (state_of r)"
    "\<And>n. columns_of t n \<noteq> None \<Longrightarrow>
      n \<in> cident ` set P \<or> (\<exists>d \<in> set (c # S). \<exists>r. original_of input d = Some r \<and> n = cident r)"
    and keys: "key_of t = (if \<exists>c \<in> set (dropped_columns input). is_primary c then {}
        else kept_keys input P \<union> old_keys input (c # S))"
    using assms(3) unfolding half_done_def by blast+
  have ac: "cident d \<noteq> cident c" if "d \<in> set P \<union> set S" for d using apart(1) mem that by metis
  have ar: "cident r \<noteq> cident c" if "d \<in> set P \<union> set S" "original_of input d = Some r" for d r
    using apart(2) mem that by metis
  have fresh: "columns_of t (cident c) = None"
    if "case original_of input c of Some r \<Rightarrow> cident r \<noteq> cident c | None \<Rightarrow> True"
  proof (rule ccontr)
    assume "columns_of t (cident c) \<noteq> None"
    from old(3) [OF this] consider d where "d \<in> set P" "cident c = cident d"
      | d r where "d \<in> set S" "original_of input d = Some r" "cident c = cident r"
      | r where "original_of input c = Some r" "cident c = cident r" by auto
    then show False using ac ar that by cases (metis UnI1, metis UnI2, simp)
  qed
  show ?thesis
  proof (cases "original_of input c")
    case None
    have "columns_of t (cident c) = None" using fresh None by simp
    from new_column_acts [OF None this] show ?thesis
    proof (rule that)
      let ?t = "t\<lparr>columns_of := (columns_of t)(cident c \<mapsto> state_of c)\<rparr>"
      have "columns_of ?t (cident d) = Some (state_of d)" if "d \<in> set (P @ [c])" for d using old(1) ac that by auto
      moreover have "columns_of ?t (cident r) = Some (state_of r)" if "d \<in> set S" "original_of input d = Some r" for d r
        using old(2) [of d r] ar [of d r] that by simp
      moreover have "n \<in> cident ` set (P @ [c]) \<or> (\<exists>d \<in> set S. \<exists>r. original_of input d = Some r \<and> n = cident r)"
        if "columns_of ?t n \<noteq> None" for n using old(3) [of n] that None by (auto split: if_splits)
      moreover have "key_of ?t = (if \<exists>c \<in> set (dropped_columns input). is_primary c then {}
          else kept_keys input (P @ [c]) \<union> old_keys input S)" using keys None by (simp add: keys_step)
      ultimately show "half_done input (P @ [c]) S ?t" unfolding half_done_def by blast
    qed
  next
    case (Some r)
    have pr: "cident d \<noteq> cident r" if "d \<in> set P \<union> set S" for d using apart(2) mem that Some by metis
    have or: "cident p \<noteq> cident r" if "d \<in> set P \<union> set S" "original_of input d = Some p" for d p
      using old_names_apart [OF assms(1)] mem that Some by metis
    have "columns_of t (cident r) = Some (state_of r)" using old(2) [of c r] Some by simp
    moreover have "columns_of t (cident c) = None" if "column_name c \<noteq> column_name r"
      using fresh apart(2) [of c c r] mem(1) Some that by fastforce
    ultimately have "acts (column_actions input c) t = Some \<lparr>columns_of = (columns_of t)(cident r := None, cident c \<mapsto> state_of c),
        key_of = (\<lambda>n. if n = cident r then cident c else n) ` key_of t\<rparr>"
      using Some by (intro kept_column_acts)
    then show ?thesis
    proof (rule that)
      let ?f = "\<lambda>n. if n = cident r then cident c else n"
      let ?t = "\<lparr>columns_of = (columns_of t)(cident r := None, cident c \<mapsto> state_of c), key_of = ?f ` key_of t\<rparr>"
      have "columns_of ?t (cident d) = Some (state_of d)" if "d \<in> set (P @ [c])" for d using old(1) ac pr that by auto
      moreover have "columns_of ?t (cident p) = Some (state_of p)" if "d \<in> set S" "original_of input d = Some p" for d p
        using old(2) [of d p] ar [of d p] or [of d p] that by simp
      moreover have "n \<in> cident ` set (P @ [c]) \<or> (\<exists>d \<in> set S. \<exists>p. original_of input d = Some p \<and> n = cident p)"
        if "columns_of ?t n \<noteq> None" for n using old(3) [of n] that Some by (auto split: if_splits)
      moreover have "?f ` (kept_keys input P \<union> old_keys input (c # S)) = kept_keys input (P @ [c]) \<union> old_keys input S"
      proof -
        have "?f ` kept_keys input P = kept_keys input P" "?f ` old_keys input S = old_keys input S"
          using pr or by (force simp: kept_keys_def old_keys_def image_iff)+
        then show ?thesis using Some by (auto simp: keys_step image_Un)
      qed
      then have "key_of ?t = (if \<exists>c \<in> set (dropped_columns input). is_primary c then {}
          else kept_keys input (P @ [c]) \<union> old_keys input S)" using keys by simp
      ultimately show "half_done input (P @ [c]) S ?t" unfolding half_done_def by blast
    qed
  qed
qed

lemma half_done_all:
  assumes "draft_ok input" and "drafted input = P @ S" and "half_done input P S t"
  obtains t' where "acts (concat (map (column_actions input) S)) t = Some t'" and "half_done input (drafted input) [] t'"
  using assms(2,3)
proof (induction S arbitrary: P t thesis)
  case Nil
  then show ?case by simp
next
  case (Cons c S)
  obtain t1 where t1: "acts (column_actions input c) t = Some t1" "half_done input (P @ [c]) S t1"
    using half_done_step [OF assms(1) Cons.prems(2,3)] by blast
  obtain t2 where "acts (concat (map (column_actions input) S)) t1 = Some t2" "half_done input (drafted input) [] t2"
    using Cons.IH [OF _ _ t1(2)] Cons.prems(2) by auto
  with t1(1) show ?case by (intro Cons.prems(1)) (simp_all add: acts_append)
qed

lemma acts_drop:
  assumes "distinct (map cident ds)" and "\<forall>d \<in> set ds. columns_of t (cident d) \<noteq> None"
  shows "acts (map (DropColumn \<circ> column_name) ds) t =
    Some \<lparr>columns_of = (\<lambda>n. if n \<in> cident ` set ds then None else columns_of t n),
      key_of = (if \<exists>d \<in> set ds. cident d \<in> key_of t then {} else key_of t)\<rparr>"
  using assms
proof (induction ds arbitrary: t)
  case (Cons d ds)
  let ?t = "\<lparr>columns_of = (columns_of t)(cident d := None), key_of = (if cident d \<in> key_of t then {} else key_of t)\<rparr>"
  have d: "act (DropColumn (column_name d)) t = Some ?t" using Cons.prems(2) by simp
  have "\<forall>e \<in> set ds. cident e \<noteq> cident d" using Cons.prems(1) by (simp add: image_iff) metis
  then have "\<forall>e \<in> set ds. columns_of ?t (cident e) \<noteq> None" using Cons.prems(2) by simp
  then have rest: "acts (map (DropColumn \<circ> column_name) ds) ?t =
      Some \<lparr>columns_of = (\<lambda>n. if n \<in> cident ` set ds then None else columns_of ?t n),
        key_of = (if \<exists>e \<in> set ds. cident e \<in> key_of ?t then {} else key_of ?t)\<rparr>"
    using Cons.prems(1) by (intro Cons.IH) simp_all
  have c: "(\<lambda>n. if n \<in> cident ` set ds then None else columns_of ?t n) =
      (\<lambda>n. if n \<in> cident ` set (d # ds) then None else columns_of t n)" by (auto simp: fun_eq_iff)
  have k: "(if \<exists>e \<in> set ds. cident e \<in> key_of ?t then {} else key_of ?t) =
      (if \<exists>e \<in> set (d # ds). cident e \<in> key_of t then {} else key_of t)" by auto
  show ?case using rest unfolding c k list.map(2) acts.simps comp_apply d option.case .
qed (simp_all add: fun_eq_iff)

lemma table_of_column:
  assumes "distinct (map cident cs)" and "c \<in> set cs"
  shows "columns_of (table_of cs) (cident c) = Some (state_of c)"
  using assms by (simp add: table_of_def map_of_eq_Some_iff o_def)

lemma dropped_half_done:
  assumes "draft_ok input"
  obtains t where "acts (map (DropColumn \<circ> column_name) (dropped_columns input)) (table_of (originalColumns input)) = Some t"
    and "half_done input [] (drafted input) t"
proof -
  let ?ds = "dropped_columns input" and ?t = "table_of (originalColumns input)"
  have d: "distinct (map cident (originalColumns input))" "distinct (map column_key (originalColumns input))"
    "inj_on cident (set (originalColumns input))"
    using assms by (simp_all add: draft_ok_def distinct_map)
  have mem: "r \<in> set ?ds \<longleftrightarrow> r \<in> set (originalColumns input) \<and> (\<forall>c \<in> set (drafted input). column_key c \<noteq> column_key r)" for r
    by (auto simp: dropped_columns_def find_None_iff)
  have stay: "r \<in> set ?ds \<or> (\<exists>c \<in> set (drafted input). original_of input c = Some r)"
    if "r \<in> set (originalColumns input)" for r
    using that original_of_eq [OF d(2) that] by (auto simp: mem) metis
  have apart: "cident r \<notin> cident ` set ?ds" if "original_of input c = Some r" "c \<in> set (drafted input)" for c r
  proof
    assume "cident r \<in> cident ` set ?ds"
    then obtain e where "e \<in> set ?ds" "cident r = cident e" by blast
    moreover from this have "r = e" using d(3) original_of_Some [OF that(1)] by (auto simp: mem dest: inj_onD)
    ultimately show False using original_of_Some [OF that(1)] that(2) by (auto simp: mem)
  qed
  have drop: "acts (map (DropColumn \<circ> column_name) ?ds) ?t =
      Some \<lparr>columns_of = (\<lambda>n. if n \<in> cident ` set ?ds then None else columns_of ?t n),
        key_of = (if \<exists>r \<in> set ?ds. cident r \<in> key_of ?t then {} else key_of ?t)\<rparr>"
  proof (rule acts_drop)
    show "distinct (map cident ?ds)" using d(1) by (simp add: dropped_columns_def distinct_map_filter)
    show "\<forall>r \<in> set ?ds. columns_of ?t (cident r) \<noteq> None" using table_of_column [OF d(1)] by (auto simp: mem)
  qed
  show ?thesis
  proof (rule that [OF drop])
    let ?t' = "\<lparr>columns_of = (\<lambda>n. if n \<in> cident ` set ?ds then None else columns_of ?t n),
        key_of = (if \<exists>r \<in> set ?ds. cident r \<in> key_of ?t then {} else key_of ?t)\<rparr>"
    have "columns_of ?t' (cident r) = Some (state_of r)" if "c \<in> set (drafted input)" "original_of input c = Some r" for c r
      using apart [OF that(2,1)] table_of_column [OF d(1)] original_of_Some [OF that(2)] by simp
    moreover have "\<exists>c \<in> set (drafted input). \<exists>r. original_of input c = Some r \<and> n = cident r" if "columns_of ?t' n \<noteq> None" for n
    proof -
      from that have n: "n \<notin> cident ` set ?ds" "columns_of ?t n \<noteq> None" by (auto split: if_splits)
      then obtain r where "r \<in> set (originalColumns input)" "n = cident r"
        by (fastforce simp: table_of_def dest: map_of_SomeD)
      with n(1) stay show ?thesis by blast
    qed
    moreover have "key_of ?t' = (if \<exists>r \<in> set ?ds. is_primary r then {} else kept_keys input [] \<union> old_keys input (drafted input))"
    proof -
      have "(cident r \<in> key_of ?t) = is_primary r" if "r \<in> set ?ds" for r
        using that d(3) by (auto simp: table_of_def mem dest: inj_onD)
      moreover have "key_of ?t = old_keys input (drafted input)" if "\<forall>r \<in> set ?ds. \<not> is_primary r"
        using that stay original_of_Some by (auto simp: table_of_def old_keys_def) blast
      ultimately show ?thesis by (auto simp: kept_keys_def)
    qed
    ultimately show "half_done input [] (drafted input) ?t'" unfolding half_done_def by auto
  qed
qed

lemma acts_key:
  assumes "draft_ok input" and "half_done input (drafted input) [] t"
  shows "acts (key_actions input) t = Some (table_of (drafted input))"
proof -
  have d: "distinct (map column_key (originalColumns input))" "distinct (map column_key (drafted input))"
    "distinct (map cident (drafted input))"
    using assms(1) by (simp_all add: draft_ok_def)
  have cols: "columns_of t = columns_of (table_of (drafted input))"
  proof
    fix n
    show "columns_of t n = columns_of (table_of (drafted input)) n"
    proof (cases "n \<in> cident ` set (drafted input)")
      case True
      with assms(2) table_of_column [OF d(3)] show ?thesis by (auto simp: half_done_def)
    next
      case False
      then have "columns_of (table_of (drafted input)) n = None" by (auto simp: table_of_def map_of_eq_None_iff)
      moreover have "columns_of t n = None" using False assms(2) by (auto simp: half_done_def)
      ultimately show ?thesis by simp
    qed
  qed
  have new: "key_of (table_of (drafted input)) = cident ` set (filter is_primary (drafted input))" by (simp add: table_of_def)
  have orig: "(\<exists>r. original_of input c = Some r \<and> is_primary r) \<longleftrightarrow> column_key c \<in> set (origPKKeys input)" for c
  proof
    assume "\<exists>r. original_of input c = Some r \<and> is_primary r"
    then show "column_key c \<in> set (origPKKeys input)"
      by (auto simp: origPKKeys_def collectPrimaryKeyColumnKeys_def image_iff dest!: original_of_Some)
  next
    assume "column_key c \<in> set (origPKKeys input)"
    then obtain r where "r \<in> set (originalColumns input)" "is_primary r" "column_key r = column_key c"
      by (auto simp: origPKKeys_def collectPrimaryKeyColumnKeys_def)
    with original_of_eq [OF d(1)] show "\<exists>r. original_of input c = Some r \<and> is_primary r" by blast
  qed
  show ?thesis
  proof (cases "keysChanged input")
    case False
    have "distinct (origPKKeys input)" "distinct (newPKKeys input)"
      using d by (simp_all add: origPKKeys_def newPKKeys_def collectPrimaryKeyColumnKeys_def distinct_map_filter)
    then have "card (set (origPKKeys input)) = length (origPKKeys input)" "card (set (newPKKeys input)) = length (newPKKeys input)"
      by (simp_all add: distinct_card)
    moreover have "length (origPKKeys input) = length (newPKKeys input)" "set (origPKKeys input) \<subseteq> set (newPKKeys input)"
      using False by (auto simp: keysChanged_def)
    ultimately have same: "set (origPKKeys input) = set (newPKKeys input)" by (intro card_subset_eq) simp_all
    have "\<not> is_primary r" if "r \<in> set (dropped_columns input)" for r
    proof
      assume "is_primary r"
      then have "column_key r \<in> set (newPKKeys input)"
        using that same by (auto simp: dropped_columns_def origPKKeys_def collectPrimaryKeyColumnKeys_def)
      with that show False by (auto simp: dropped_columns_def newPKKeys_def collectPrimaryKeyColumnKeys_def find_None_iff)
    qed
    moreover have "column_key c \<in> set (newPKKeys input) \<longleftrightarrow> is_primary c" if "c \<in> set (drafted input)" for c
      using that d(2) by (auto simp: newPKKeys_def collectPrimaryKeyColumnKeys_def distinct_map dest: inj_onD)
    ultimately have "key_of t = key_of (table_of (drafted input))"
      using assms(2) unfolding half_done_def new kept_keys_def orig same by (auto simp: old_keys_def)
    with cols False show ?thesis by (cases t) (simp add: key_actions_def table_of_def)
  next
    case True
    have none: "key_of t = {}" if "origPKKeys input = []"
      using assms(2) that unfolding half_done_def kept_keys_def orig by (auto simp: old_keys_def)
    have "acts (key_actions input) t =
        acts (if newPKKeys input \<noteq> [] then [AddKey (map column_name (filter is_primary (drafted input)))] else []) (t\<lparr>key_of := {}\<rparr>)"
      using True none by (cases t) (simp add: key_actions_def)
    also have "\<dots> = Some (t\<lparr>key_of := cident ` set (filter is_primary (drafted input))\<rparr>)"
    proof (cases "filter is_primary (drafted input) = []")
      case True
      then show ?thesis by (simp add: newPKKeys_def collectPrimaryKeyColumnKeys_def del: filter_empty_conv)
    next
      case False
      moreover have "\<forall>c \<in> set (filter is_primary (drafted input)). columns_of t (cident c) \<noteq> None"
        using assms(2) by (simp add: half_done_def)
      ultimately show ?thesis
        by (simp add: newPKKeys_def collectPrimaryKeyColumnKeys_def image_image del: filter_empty_conv set_filter)
    qed
    also have "t\<lparr>key_of := cident ` set (filter is_primary (drafted input))\<rparr> = table_of (drafted input)"
      using cols by (simp add: table_of_def)
    finally show ?thesis .
  qed
qed



section \<open>Drafts that are not carried out\<close>

text \<open>Two columns that exchange their names: the first renaming fails.\<close>

lemma swapped_names_fail:
  "acts (draft_actions (sample_draft ''postgres'' [sample_column ''1'' ''a'' ''int'' False, sample_column ''2'' ''b'' ''int'' False]
      [sample_column ''1'' ''b'' ''int'' False, sample_column ''2'' ''a'' ''int'' False]))
    (table_of [sample_column ''1'' ''a'' ''int'' False, sample_column ''2'' ''b'' ''int'' False]) = None"
  by code_simp

text \<open>Changes without a statement: a column of PostgreSQL that becomes an identity, a key of SQLite.\<close>

lemma silent_changes:
  "\<not> hasAlterTableDraftChanges (sample_draft ''postgres'' [sample_column ''1'' ''a'' ''int'' False]
      [(sample_column ''1'' ''a'' ''int'' False)\<lparr>isAutoIncrement := True\<rparr>])"
  "\<not> hasAlterTableDraftChanges (sample_draft ''sqlite'' [sample_column ''1'' ''a'' ''int'' False] [sample_column ''1'' ''a'' ''int'' True])"
  by code_simp+

text \<open>In Oracle a column that may be null again is modified without the word that says so, and keeps its
  constraint.\<close>

lemma oracle_null_not_restored:
  "buildAlterTablePreviewSql (sample_draft ''oracle'' [sample_column ''1'' ''a'' ''INT'' False]
      [(sample_column ''1'' ''a'' ''INT'' False)\<lparr>nullable := js ''YES''\<rparr>]) =
    js ''ALTER TABLE \"public\".\"t\"'' @ newline # js ''MODIFY (\"a\" INT);''"
  by code_simp

text \<open>In MySQL a comment that ends with a backslash escapes the quote that should end it.\<close>

lemma mysql_comment_not_closed:
  "ends_with (buildMySqlColumnDefinition ((sample_column ''1'' ''a'' ''int'' False)\<lparr>column_comment := [backslash]\<rparr>) (js ''mysql''))
     (js ''COMMENT '' @ [squote, backslash, squote])"
  by code_simp

text \<open>The name of a table of SQL Server is put into a quoted text without doubling its quotes.\<close>

lemma sqlserver_quote_in_name:
  "ends_with (buildSqlServerDefaultDropBatch (js ''o'' @ [squote] @ js ''k'') (js ''a''))
     (js ''EXEC(N'' @ [squote] @ js ''ALTER TABLE [dbo].[o'' @ [squote] @ js ''k] DROP CONSTRAINT '' @ [squote] @
      js '' + QUOTENAME(@gonavi_df));'')"
  by code_simp

end
