(* ===== verification/CreateTable.thy ===== *)
theory CreateTable
  imports AlterTable Json
begin

text \<open>
  Creating a table: the third part of \<open>components/tableDesignerSchemaSql.ts\<close>, with the tables and the
  materialised views of StarRocks. Missing texts are empty and missing lists are empty lists; a missing number
  of buckets is \<open>None\<close>.
\<close>

section \<open>Input\<close>

datatype bucket_mode = BucketAuto | BucketNumber

record rollup_option =
  rollup_name :: jsstr
  rollup_columns :: "jsstr list"
  fromIndexName :: jsstr
  rollup_properties :: jsstr

record starrocks_options =
  tableKind :: jsstr
  keyModel :: jsstr
  keyColumnNames :: "jsstr list"
  partitionClause :: jsstr
  distributionType :: jsstr
  distributionColumnNames :: "jsstr list"
  bucketMode :: bucket_mode
  bucketCount :: "decimal option"
  properties :: jsstr
  rollups :: "rollup_option list"
  externalEngine :: jsstr
  externalProperties :: jsstr

record create_input =
  create_dbType :: jsstr
  create_table :: jsstr
  create_columns :: "column_snapshot list"
  charset :: jsstr
  collation :: jsstr
  starRocksOptions :: starrocks_options
  create_translate :: translator

record view_input =
  view_name :: jsstr
  view_query :: jsstr
  view_async :: "bool option"
  view_comment :: jsstr
  view_distribution :: "jsstr list"
  view_buckets :: "decimal option"
  refreshClause :: jsstr
  view_partition :: jsstr
  orderByColumnNames :: "jsstr list"
  view_properties :: jsstr

section \<open>Columns and comments\<close>

definition buildCreateTableColumnDefinition :: "column_snapshot \<Rightarrow> jsstr \<Rightarrow> jsstr" where
  "buildCreateTableColumnDefinition column dbType =
     (if isMysqlFamilyDialect dbType then buildMySqlColumnDefinition column dbType
      else if isOracleLikeDialect dbType then buildStandardColumnDefinition column dbType False True
      else if isSqlServerDialect dbType then buildStandardColumnDefinition column dbType True True
      else if dbType = js ''clickhouse'' \<or> dbType = js ''tdengine''
        then quoteSqlIdentifierPart dbType (column_name column) @ space @ trim (column_type column)
      else buildStandardColumnDefinition column dbType False False)"

definition buildCreateColumnComments :: "jsstr \<Rightarrow> create_input \<Rightarrow> jsstr \<Rightarrow> jsstr list" where
  "buildCreateColumnComments tableRef input dbType =
     filter (\<lambda>s. s \<noteq> [])
       (map (\<lambda>column.
          if isSqlServerDialect dbType
            then buildSqlServerColumnCommentSql (create_table input) (column_name column) (column_comment column)
          else if isPgLikeDialect dbType \<or> isOracleLikeDialect dbType
            then buildColumnCommentSql tableRef (column_name column) (column_comment column) dbType
          else [])
        (filter (\<lambda>column. trim (column_comment column) \<noteq> []) (create_columns input)))"

section \<open>StarRocks\<close>

definition starrocks :: jsstr where
  "starrocks = js ''starrocks''"

definition normalizeStarRocksKeyModel :: "jsstr \<Rightarrow> jsstr" where
  "normalizeStarRocksKeyModel v =
     (let normalized = to_upper (trim v) in
      if normalized \<in> set (map js [''PRIMARY'', ''UNIQUE'', ''AGGREGATE'']) then normalized else js ''DUPLICATE'')"

definition normalizeStarRocksDistributionType :: "jsstr \<Rightarrow> jsstr" where
  "normalizeStarRocksDistributionType v =
     (let normalized = to_upper (trim v) in
      if normalized \<in> set (map js [''RANDOM'', ''NONE'']) then normalized else js ''HASH'')"

definition first_column :: "create_input \<Rightarrow> jsstr list" where
  "first_column input = map column_name (take 1 (create_columns input))"

definition pickStarRocksKeyColumns :: "create_input \<Rightarrow> starrocks_options \<Rightarrow> jsstr list" where
  "pickStarRocksKeyColumns input options =
     (let requested = keyColumnNames options;
          fallback = map column_name (filter is_primary (create_columns input));
          source = (if requested \<noteq> [] then requested else if fallback \<noteq> [] then fallback else first_column input)
      in filter (\<lambda>n. n \<noteq> []) (map trim source))"

definition quoteStarRocksColumnList :: "jsstr list \<Rightarrow> jsstr" where
  "quoteStarRocksColumnList columnNames =
     join (js '', '') (filter (\<lambda>n. n \<noteq> []) (map (quoteSqlIdentifierPart starrocks) columnNames))"

text \<open>\<open>s.split(/\r?\n/)\<close>, \<open>s.replace(/,+$/, '')\<close> and \<open>s.replace(/;+\s*$/, '')\<close>.\<close>

definition text_lines :: "jsstr \<Rightarrow> jsstr list" where
  "text_lines s = split_on (\<lambda>c. c = newline) (normalize_newlines s)"

definition strip_end :: "jschar \<Rightarrow> jsstr \<Rightarrow> jsstr" where
  "strip_end c s = rev (dropWhile (\<lambda>d. d = c) (rev s))"

definition strip_statement_end :: "jsstr \<Rightarrow> jsstr" where
  "strip_statement_end s =
     (let t = trim_end s in if t \<noteq> [] \<and> last t = cu CHR '';'' then strip_end (cu CHR '';'') t else s)"

definition normalizeStarRocksPropertiesBlock :: "jsstr \<Rightarrow> jsstr" where
  "normalizeStarRocksPropertiesBlock raw =
     (let ls = filter (\<lambda>l. l \<noteq> []) (map (strip_end (cu CHR '','') \<circ> trim) (text_lines raw)) in
      if ls = [] then []
      else js ''PROPERTIES ('' @ newline # js ''  '' @ join (cu CHR '','' # newline # js ''  '') ls @ newline # js '')'')"

definition positive :: "decimal option \<Rightarrow> bool" where
  "positive n = (case n of Some d \<Rightarrow> 0 < fst d | None \<Rightarrow> False)"

definition bucket_sql :: "starrocks_options \<Rightarrow> jsstr" where
  "bucket_sql options =
     (if bucketMode options = BucketNumber \<and> positive (bucketCount options)
      then js ''BUCKETS '' @ dec_str (the (bucketCount options)) else js ''BUCKETS AUTO'')"

definition buildStarRocksDistributionSql :: "create_input \<Rightarrow> starrocks_options \<Rightarrow> jsstr list \<Rightarrow> jsstr" where
  "buildStarRocksDistributionSql input options keyColumns =
     (let kind = normalizeStarRocksDistributionType (distributionType options) in
      if kind = js ''NONE'' then []
      else if kind = js ''RANDOM'' then js ''DISTRIBUTED BY RANDOM '' @ bucket_sql options
      else
        (let requested = distributionColumnNames options;
             distributionColumns = (if requested \<noteq> [] then requested else keyColumns);
             columnList = quoteStarRocksColumnList
               (if distributionColumns \<noteq> [] then distributionColumns else first_column input)
         in if columnList = [] then []
            else js ''DISTRIBUTED BY HASH('' @ columnList @ js '') '' @ bucket_sql options))"

definition rollup_sql :: "jsstr \<Rightarrow> rollup_option \<Rightarrow> jsstr" where
  "rollup_sql tableRef rollup =
     (let rollupName = trim (rollup_name rollup);
          columnList = quoteStarRocksColumnList (rollup_columns rollup);
          fromName = trim (fromIndexName rollup);
          fromSql = (if fromName \<noteq> [] then js '' FROM '' @ quoteSqlIdentifierPart starrocks fromName else []);
          propertiesSql = normalizeStarRocksPropertiesBlock (rollup_properties rollup);
          suffix = (if propertiesSql \<noteq> [] then newline # propertiesSql else [])
      in if rollupName = [] \<or> columnList = [] then []
         else alter_statement tableRef
           (js ''ADD ROLLUP '' @ quoteSqlIdentifierPart starrocks rollupName @ js '' ('' @ columnList @ js '')'' @ fromSql @ suffix))"

definition buildStarRocksRollupSql :: "jsstr \<Rightarrow> rollup_option list \<Rightarrow> jsstr list" where
  "buildStarRocksRollupSql tableRef rs = filter (\<lambda>s. s \<noteq> []) (map (rollup_sql tableRef) rs)"

definition create_body :: "jsstr \<Rightarrow> jsstr \<Rightarrow> jsstr list \<Rightarrow> jsstr" where
  "create_body prefix tableRef colDefs =
     prefix @ space @ tableRef @ js '' ('' @ newline # js ''  '' @ join (cu CHR '','' # newline # js ''  '') colDefs @ newline # js '')''"

definition buildStarRocksCreateTablePreviewSql :: "create_input \<Rightarrow> jsstr" where
  "buildStarRocksCreateTablePreviewSql input =
     (let options = starRocksOptions input;
          tableRef = quoteSqlIdentifierPath starrocks (create_table input);
          isExternal = (tableKind options = js ''external'');
          createSql = create_body (if isExternal then js ''CREATE EXTERNAL TABLE'' else js ''CREATE TABLE'') tableRef
            (map buildStarRocksColumnDefinition (create_columns input))
      in if isExternal then
           (let engine = to_upper (trim (or_text (externalEngine options) (js ''hive'')));
                propertiesSql = normalizeStarRocksPropertiesBlock (or_text (externalProperties options) (properties options))
            in createSql @ newline # js ''ENGINE='' @ engine @ (if propertiesSql \<noteq> [] then newline # propertiesSql else []) @ js '';'')
         else
           (let keyColumns = pickStarRocksKeyColumns input options;
                keyColumnSql = quoteStarRocksColumnList keyColumns;
                keySql = (if keyColumnSql \<noteq> []
                          then normalizeStarRocksKeyModel (keyModel options) @ js '' KEY ('' @ keyColumnSql @ js '')'' else []);
                clauses = filter (\<lambda>s. s \<noteq> []) [js ''ENGINE=OLAP'', keySql, strip_statement_end (trim (partitionClause options)),
                  buildStarRocksDistributionSql input options keyColumns, normalizeStarRocksPropertiesBlock (properties options)]
            in lines ((createSql @ newline # lines clauses @ js '';'') # buildStarRocksRollupSql tableRef (rollups options))))"

definition default_view_query :: jsstr where
  "default_view_query = js ''SELECT column1, COUNT(*) AS cnt'' @ newline # js ''FROM table_name'' @ newline # js ''GROUP BY column1''"

definition buildStarRocksMaterializedViewPreviewSql :: "view_input \<Rightarrow> jsstr" where
  "buildStarRocksMaterializedViewPreviewSql input =
     (let name = quoteSqlIdentifierPath starrocks (or_text (view_name input) (js ''mv_name''));
          query = or_text (strip_statement_end (trim (view_query input))) default_view_query;
          comment = trim (view_comment input);
          commentSql = (if comment \<noteq> [] then newline # js ''COMMENT '' @ sql_string comment else []);
          refreshSql = or_text (trim (refreshClause input))
            (if view_async input = Some False then js ''REFRESH MANUAL'' else js ''REFRESH ASYNC'');
          distributionColumns = quoteStarRocksColumnList (view_distribution input);
          distributionSql = (if distributionColumns \<noteq> []
            then js ''DISTRIBUTED BY HASH('' @ distributionColumns @ js '') BUCKETS '' @
              (if positive (view_buckets input) then dec_str (the (view_buckets input)) else js ''AUTO'') else []);
          orderByColumns = quoteStarRocksColumnList (orderByColumnNames input);
          orderBySql = (if orderByColumns \<noteq> [] then js ''ORDER BY ('' @ orderByColumns @ js '')'' else [])
      in lines (filter (\<lambda>s. s \<noteq> []) [js ''CREATE MATERIALIZED VIEW '' @ name @ commentSql, refreshSql,
           strip_statement_end (trim (view_partition input)), distributionSql, orderBySql,
           normalizeStarRocksPropertiesBlock (view_properties input), js ''AS'', query @ js '';'']))"

section \<open>All dialects\<close>

definition column_definitions :: "create_input \<Rightarrow> jsstr \<Rightarrow> jsstr list" where
  "column_definitions input dbType =
     map (\<lambda>column. buildCreateTableColumnDefinition column dbType) (create_columns input) @
     (if filter is_primary (create_columns input) \<noteq> []
      then [js ''PRIMARY KEY ('' @ pk_names dbType (create_columns input) @ js '')''] else [])"

definition buildCreateTablePreviewSql :: "create_input \<Rightarrow> jsstr" where
  "buildCreateTablePreviewSql input =
     (let dbType = dialect_of (create_dbType input) in
      if dbType = starrocks then buildStarRocksCreateTablePreviewSql input
      else
        (let tableRef = quoteSqlIdentifierPath dbType (create_table input);
             createSql = create_body (js ''CREATE TABLE'') tableRef (column_definitions input dbType);
             comments = buildCreateColumnComments tableRef input dbType;
             suffixComments = (if comments \<noteq> [] then newline # lines comments else [])
         in if dbType = js ''mysql'' \<or> dbType = js ''mariadb'' then
              (let cs = trim (charset input); co = trim (collation input) in
               createSql @ js '' ENGINE=InnoDB'' @ (if cs \<noteq> [] then js '' DEFAULT CHARSET='' @ cs else []) @
                 (if co \<noteq> [] then js '' COLLATE='' @ co else []) @ js '';'')
            else if dbType = js ''clickhouse'' then
              createSql @ newline # js ''ENGINE = MergeTree'' @ newline # js ''ORDER BY tuple();''
            else if dbType = js ''tdengine'' \<and>
                \<not> list_ex (\<lambda>column. one_of_ci (trim (column_type column)) [js ''timestamp'']) (create_columns input) then
              createSql @ js '';'' @ newline #
                translateSchemaSqlComment (create_translate input) ''table_designer.schema_sql.tdengine.timestamp_hint'' [] @ suffixComments
            else createSql @ js '';'' @ suffixComments))"

section \<open>Endings\<close>

lemma strip_end_run:
  assumes "s = [] \<or> last s \<noteq> c"
  shows "strip_end c (s @ replicate k c) = s"
proof -
  have "dropWhile (\<lambda>d. d = c) (replicate k c @ rev s) = dropWhile (\<lambda>d. d = c) (rev s)"
    by (rule dropWhile_append2) simp
  also have "\<dots> = rev s" using assms by (cases s rule: rev_cases) simp_all
  finally show ?thesis by (simp add: strip_end_def)
qed

lemma strip_end_last: "strip_end c s = [] \<or> last (strip_end c s) \<noteq> c"
proof (cases "dropWhile (\<lambda>d. d = c) (rev s)")
  case Nil
  then show ?thesis by (simp add: strip_end_def)
next
  case (Cons d t)
  then show ?thesis using hd_dropWhile [of "\<lambda>d. d = c" "rev s"] by (simp add: strip_end_def)
qed

text \<open>A clause or a query the user ends with semicolons gets exactly the one the statement has.\<close>

lemma strip_statement_end_last:
  assumes "trim s = s"
  shows "strip_statement_end s = [] \<or> last (strip_statement_end s) \<noteq> cu CHR '';''"
proof -
  have "trim_end s = s" using trim_ends [OF assms] by (cases "s = []") (simp_all add: trim_end_id)
  then show ?thesis using strip_end_last [of "cu CHR '';''" s] by (auto simp: strip_statement_end_def)
qed

lemma text_lines_join:
  assumes "ls \<noteq> []" and "\<forall>l \<in> set ls. newline \<notin> set l \<and> 13 \<notin> set l"
  shows "text_lines (join [newline] ls) = ls"
proof -
  have "13 \<notin> set (join [newline] ls)"
    using assms(2) by (induction "[newline]" ls rule: join.induct) (auto simp: newline_def)
  then show ?thesis using assms split_on_join [of ls newline] by (simp add: text_lines_def normalize_newlines_id)
qed

text \<open>Properties may be written one on a line with or without a comma behind each: the block is the same.\<close>

lemma properties_block_commas:
  assumes "ls \<noteq> []" and "\<forall>l \<in> set ls. l \<noteq> [] \<and> trim l = l \<and> last l \<noteq> cu CHR '','' \<and> newline \<notin> set l \<and> 13 \<notin> set l"
    and "length ks = length ls"
  shows "normalizeStarRocksPropertiesBlock (join [newline] (map2 (\<lambda>l k. l @ replicate k (cu CHR '','')) ls ks)) =
    js ''PROPERTIES ('' @ newline # js ''  '' @ join (cu CHR '','' # newline # js ''  '') ls @ newline # js '')''"
proof -
  let ?ls = "map2 (\<lambda>l k. l @ replicate k (cu CHR '','')) ls ks"
  have comma: "\<not> is_js_space (cu CHR '','')" "cu CHR '','' \<noteq> newline" "cu CHR '','' \<noteq> 13"
    by (simp_all add: is_js_space_def cu_def newline_def)
  have "text_lines (join [newline] ?ls) = ?ls"
  proof (rule text_lines_join)
    show "?ls \<noteq> []" using assms(1,3) by (cases ls; cases ks) simp_all
    show "\<forall>l \<in> set ?ls. newline \<notin> set l \<and> 13 \<notin> set l" using assms(2) comma by (auto dest: set_zip_leftD)
  qed
  moreover have "(strip_end (cu CHR '','') \<circ> trim) (l @ replicate k (cu CHR '','')) = l" if "l \<in> set ls" for l k
  proof -
    have l: "l \<noteq> []" "trim l = l" "last l \<noteq> cu CHR '',''" using assms(2) that by auto
    then have "trim (l @ replicate k (cu CHR '','')) = l @ replicate k (cu CHR '','')"
      using comma(1) trim_ends [OF l(2,1)] by (intro trim_id) (cases k; auto)
    then show ?thesis using l by (simp add: strip_end_run)
  qed
  then have "map (strip_end (cu CHR '','') \<circ> trim) ?ls = ls"
    using assms(3) by (intro nth_equalityI) simp_all
  moreover have "filter (\<lambda>l. l \<noteq> []) ls = ls" using assms(2) by (intro filter_True) simp
  ultimately show ?thesis using assms(1) by (simp add: normalizeStarRocksPropertiesBlock_def Let_def)
qed

end
