(* ===== verification/Spec2Isabelle.thy ===== *)
theory Spec2Isabelle
  imports ExecutionScope SqlRoundtrip SqlDialect QueryAutoLimit QualifiedName SqlBuilder QueryMaxRows
    TabStore SidebarStore ConnectionReadOnly EditorTransaction RowLocator RedisTree GridFind CopySql ResultPagination
    SettingsStore MongoCalls MongoLimit MongoFilter AlterMeaning CreateTable
begin

text \<open>
  PinkHunkDB is a database client: a Go backend that talks to the servers, and a React front end
  written in TypeScript that decides which text is sent to them. This library verifies the part of
  the front end in which those decisions are made: the pure functions under
  \<open>frontend/src/utils\<close> and the reducers of the global store \<open>frontend/src/store.ts\<close>.

  \<^bold>\<open>How the parts interact.\<close> The editor holds a script. \<open>sqlStatementSelection\<close> splits it into
  statements and finds the statement, subquery or join source at the cursor; \<open>sqlExecutionScope\<close>
  decides from these what a run executes or which choices are offered; \<open>connectionReadOnly\<close>
  splits the script again and refuses statements a protected connection must not run;
  \<open>sqlEditorTransaction\<close> decides whether the statements run in a managed transaction;
  \<open>queryAutoLimit\<close> adds a row limit, whose value \<open>queryMaxRows\<close> keeps, and
  \<open>queryResultPagination\<close> pages through the result. The table designer prints the statements that alter
  or create a table. For MongoDB the editor's shell text becomes a command in \<open>mongodb\<close>, which also builds the filters.
  Tables shown in the grid are
  read with SQL that \<open>sql\<close> builds from filters and sort orders, with names quoted by \<open>sqlDialect\<close> and
  \<open>qualifiedName\<close>; \<open>rowLocator\<close> finds the key under which an edited row is written. The store
  holds the open tabs, the sidebar and the settings, which \<open>memoryPolicy\<close> turns into limits.

  \<^bold>\<open>Theories and sources.\<close>
  \<^item> \<open>Prelude\<close>: loops, searches and list edits. A \<open>while\<close> loop of the source whose index moves
    forward is \<open>loop\<close> (or \<open>loop_ret\<close>, when its body can return); the locales \<open>advancing\<close> and
    \<open>advancing_ret\<close> state that a body moves the index and are interpreted on every loop body;
    \<open>op_invariant\<close> and \<open>reach\<close> are the states a set of operations can reach.
  \<^item> \<open>JsString\<close>: strings of JavaScript as lists of UTF-16 code units, with the methods and the
    regular expressions the sources use. Case folding and white space are those of the Latin
    range and of the white space the language lists.
  \<^item> \<open>SqlTokens\<close>, \<open>SqlStatements\<close>, \<open>SqlSelection\<close>, \<open>SqlRoundtrip\<close>: \<open>utils/sqlStatementSelection.ts\<close>,
    the scanner for comments, quotes and dollar quotes, the PL/SQL block tracker, the splitter and
    the choice of the statement at the cursor. \<open>SqlRoundtrip\<close> gives a grammar of statements and
    shows that joined statements are split back.
  \<^item> \<open>SqlSources\<close>, \<open>SqlJoins\<close>: the subqueries and the join sources of the same file.
  \<^item> \<open>ExecutionScope\<close>: \<open>utils/sqlExecutionScope.ts\<close>.
  \<^item> \<open>SqlDialect\<close>: \<open>utils/sqlDialect.ts\<close> (dialects, quoting), \<open>utils/oceanBaseProtocol.ts\<close>.
  \<^item> \<open>QualifiedName\<close>: \<open>utils/qualifiedName.ts\<close>.
  \<^item> \<open>SqlBuilder\<close>: \<open>utils/sql.ts\<close>.
  \<^item> \<open>QueryAutoLimit\<close>: \<open>utils/queryAutoLimit.ts\<close>.
  \<^item> \<open>QueryMaxRows\<close>: \<open>utils/queryMaxRows.ts\<close>.
  \<^item> \<open>ConnectionReadOnly\<close>: \<open>utils/connectionReadOnly.ts\<close>.
  \<^item> \<open>EditorTransaction\<close>: \<open>utils/sqlEditorTransaction.ts\<close>.
  \<^item> \<open>RowLocator\<close>: \<open>utils/rowLocator.ts\<close> and the unique keys of
    \<open>components/dataGridCopyInsert.ts\<close>.
  \<^item> \<open>TabStore\<close>, \<open>SidebarStore\<close>, \<open>SettingsStore\<close>: \<open>store.ts\<close>, the reducers of tabs, of
    connections, tags and the order of the sidebar, and of query options, memory settings, logs
    and chats; their records are those of \<open>types.ts\<close>.
  \<^item> \<open>MemoryPolicy\<close>: \<open>utils/memoryPolicy.ts\<close>.
  \<^item> \<open>ResultPagination\<close>:
    \<open>utils/queryResultPagination.ts\<close>, \<open>utils/dataGridPagination.ts\<close>.
  \<^item> \<open>GridFind\<close>: \<open>utils/dataGridFind.ts\<close>.
  \<^item> \<open>RedisTree\<close>: \<open>components/redisViewerTree.ts\<close>.
  \<^item> \<open>CopySql\<close>: the statements of \<open>components/dataGridCopyInsert.ts\<close>.
  \<^item> \<open>Json\<close>: the JSON of the language: values, \<open>JSON.stringify\<close>, a reader for \<open>JSON.parse\<close>, and
    objects as lists of members in the order the language lists them.
  \<^item> \<open>MongoValue\<close>, \<open>MongoShell\<close>, \<open>MongoCalls\<close>, \<open>MongoLimit\<close>, \<open>MongoFilter\<close>: \<open>utils/mongodb.ts\<close>, the typed
    values and their editing; the parser of shell calls and the commands they become; what these give on
    calls printed from their parts; the automatic limit; the filters and the order of the data viewer.
  \<^item> \<open>ColumnSql\<close>, \<open>AlterTable\<close>, \<open>AlterMeaning\<close>, \<open>CreateTable\<close>: \<open>components/tableDesignerSchemaSql.ts\<close>, the
    column definitions of each dialect, the statements that alter a table, what they do to a table, and
    the statements that create one.

  Definitions have the names of the source. A loop is a \<open>body\<close> function and a \<open>loop\<close>; a reducer
  takes the state and returns the new one; an error is a value of a sum or of an option.

  \<^bold>\<open>What the lemmas show.\<close> For the scanners: the ranges they report are inside the text, in
  order and made of the right characters, and on texts of a given grammar they are the ones the
  grammar says (round trips). For the builders: what is quoted is read back as one token with the
  same content, so a value or a name cannot end its quotes. For the stores: invariants of every
  reachable state, and what each operation does to the state on each branch. For the decisions
  (execution, protection, transactions, locators): their agreement with a specification that does
  not follow the code, and which inputs are errors. Where the code does not do what it means
  to, a lemma shows the input.

  \<^bold>\<open>Termination and bounds.\<close> \<open>loop n body i\<close> ends because each round moves the index by at least one:
  the combinator takes the larger of the body's new index and \<open>i + 1\<close>, and the interpretations of
  \<open>advancing\<close> show that the bodies always give the larger index, so nothing is cut off. Loops that
  shrink a text are functions with a termination proof. \<open>with_rounds\<close> in \<open>EditorTransaction\<close> is the
  loop over common table expressions with a bound on its rounds; one round more than the
  remaining characters is enough.
  Numbers of the source are integers or \<open>NonFinite\<close>; they stay far below the limit up to which
  JavaScript's numbers are exact.

  \<^bold>\<open>Not modelled.\<close> React components and hooks, which call these functions from effects and event
  handlers; the generated bindings and the Go backend; message catalogues; the catalogues of column
  types and completions in \<open>sqlDialect.ts\<close>, which are constant data; the evaluation of
  MongoDB expressions by the engine and the parsing of dates, which are arguments; values JSON cannot hold;
  in the store, the sanitizers of connection
  forms, persistence and its migrations, appearance, shortcuts and window settings, and saved queries;
  in the grid search, the render version attached to rows.
\<close>

end
